(* ===== verification/Transition.thy ===== *)
theory Transition
  imports Main
begin

text \<open>
  Systems that run step by step: what a step relation keeps holds in every state that can be
  reached, a system whose steps are matched by those of a specification only does what the
  specification allows, and an invariant of the specification is then one of the system. The
  locales are interpreted by the locks, owners, endpoints, listeners, executors, thread pools,
  the job system and the nodes of the development.
\<close>

section \<open>Invariants\<close>

locale invariant_system =
  fixes start :: "'s \<Rightarrow> bool"
    and step :: "'s \<Rightarrow> 's \<Rightarrow> bool"
    and inv :: "'s \<Rightarrow> bool"
  assumes inv_start: "start s \<Longrightarrow> inv s"
    and inv_step: "step s s' \<Longrightarrow> inv s \<Longrightarrow> inv s'"
begin

lemma inv_steps: "step\<^sup>*\<^sup>* s s' \<Longrightarrow> inv s \<Longrightarrow> inv s'"
  by (induction rule: rtranclp_induct) (auto intro: inv_step)

lemma inv_run: "start s \<Longrightarrow> step\<^sup>*\<^sup>* s s' \<Longrightarrow> inv s'"
  by (rule inv_steps [OF _ inv_start])

end

section \<open>Simulation\<close>

text \<open>A step is matched by any number of steps of the specification, among them none.\<close>

locale simulating_system = invariant_system start step inv
  for start :: "'s \<Rightarrow> bool" and step :: "'s \<Rightarrow> 's \<Rightarrow> bool" and inv :: "'s \<Rightarrow> bool" +
  fixes spec :: "'a \<Rightarrow> 'a \<Rightarrow> bool"
    and abs :: "'s \<Rightarrow> 'a"
  assumes abs_step: "step s s' \<Longrightarrow> inv s \<Longrightarrow> spec\<^sup>*\<^sup>* (abs s) (abs s')"
begin

lemma abs_steps: "step\<^sup>*\<^sup>* s s' \<Longrightarrow> inv s \<Longrightarrow> spec\<^sup>*\<^sup>* (abs s) (abs s')"
proof (induction rule: rtranclp_induct)
  case (step y z)
  then show ?case using abs_step inv_steps by (meson rtranclp_trans)
qed simp

lemma abs_run: "start s \<Longrightarrow> step\<^sup>*\<^sup>* s s' \<Longrightarrow> spec\<^sup>*\<^sup>* (abs s) (abs s')"
  by (rule abs_steps [OF _ inv_start])

end

text \<open>What the specification keeps, the system keeps.\<close>

locale refining_system = simulating_system start step inv spec abs + spec: invariant_system spec_start spec spec_inv
  for start :: "'s \<Rightarrow> bool" and step :: "'s \<Rightarrow> 's \<Rightarrow> bool" and inv :: "'s \<Rightarrow> bool"
    and spec :: "'a \<Rightarrow> 'a \<Rightarrow> bool" and abs :: "'s \<Rightarrow> 'a"
    and spec_start :: "'a \<Rightarrow> bool" and spec_inv :: "'a \<Rightarrow> bool" +
  assumes abs_start: "start s \<Longrightarrow> spec_start (abs s)"

sublocale refining_system \<subseteq> refined: invariant_system start step "\<lambda>s. inv s \<and> spec_inv (abs s)"
proof unfold_locales
  show "inv s \<and> spec_inv (abs s)" if "start s" for s
    using that inv_start abs_start spec.inv_start by blast
  show "inv s' \<and> spec_inv (abs s')" if "step s s'" and "inv s \<and> spec_inv (abs s)" for s s'
    using that inv_step abs_step spec.inv_steps by blast
qed

end
