(* ===== verification/Prelude.thy ===== *)
theory Prelude
  imports Main Transition "HOL-Library.List_Lexorder" "HOL-Library.Char_ord" "HOL-Library.Sublist"
begin

text \<open>
  Shared vocabulary of the development: the exceptions the program throws (and the
  failures the C++ standard library reports) as one datatype, results that carry them,
  the theorem collections the component theories fill, and a few generic lemmas on
  lists, options and maps.
\<close>

section \<open>Failures\<close>

text \<open>
  A call that may throw returns \<open>exn + 'a\<close>. \<open>SystemError\<close> is \<open>std::system_error\<close>. The last two
  constructors are no exceptions: \<open>Terminated\<close> is the end of the program by \<open>std::terminate\<close>,
  and \<open>UndefinedBehaviour\<close> stands for executions that have no defined result in C++ (a null
  dereference, an invalidated or past-the-end iterator): the model makes them visible instead of
  picking a value.
\<close>

datatype exn =
    OutOfRange
  | InvalidArgument
  | FutureError
  | BadOptionalAccess
  | BadAnyCast
  | BorrowFailedException
  | SubsystemNotFoundException
  | NoCallableServiceFound
  | CallFailedException
  | ServiceEndpointDisconnectedException
  | ResourceLoaderNotFound
  | DuplicateLoaderIdException
  | WrongResourceTypeRequestedException
  | MessagePayloadInvalidException
  | JsonTypeError
  | NoSuchEndpointException
  | ConnectionClosedException
  | MessageSendingException
  | UrlMalformedException
  | CannotResolveHostException
  | WebSocketTcpServerException
  | ConnectionFailedException
  | VectorConversionException
  | PluginSetupFailedException
  | RendererSetupException
  | UserException string
  | SystemError
  | Terminated
  | UndefinedBehaviour

type_synonym 'a result = "exn + 'a"

fun bind_result :: "'a result \<Rightarrow> ('a \<Rightarrow> 'b result) \<Rightarrow> 'b result" where
  "bind_result (Inl e) f = Inl e"
| "bind_result (Inr x) f = f x"

lemma bind_result_Inr_iff:
  "bind_result r f = Inr y \<longleftrightarrow> (\<exists>x. r = Inr x \<and> f x = Inr y)"
  by (cases r) auto

lemma bind_result_InrD: "bind_result r f = Inr y \<Longrightarrow> \<exists>x. r = Inr x"
  by (cases r) auto

lemma bind_result_Inl_iff:
  "bind_result r f = Inl e \<longleftrightarrow> r = Inl e \<or> (\<exists>x. r = Inr x \<and> f x = Inl e)"
  by (cases r) auto

definition of_opt :: "exn \<Rightarrow> 'a option \<Rightarrow> 'a result" where
  "of_opt e x = (case x of None \<Rightarrow> Inl e | Some v \<Rightarrow> Inr v)"

lemma of_opt_simps [simp]:
  "of_opt e None = Inl e"
  "of_opt e (Some v) = Inr v"
  by (simp_all add: of_opt_def)

section \<open>Collections\<close>

named_theorems spec_defs \<open>definitions of operations, unfolded to compute with them\<close>
named_theorems inv_intro \<open>preservation of the component invariants\<close>
named_theorems frame \<open>what an operation leaves unchanged\<close>

section \<open>Lists and maps\<close>

lemma map_of_filter_key:
  "map_of (filter (\<lambda>(k, v). k \<noteq> a) m) = (map_of m)(a := None)"
  by (induction m) (auto simp: fun_eq_iff)

lemma sorted_wrt_filter_map:
  "sorted_wrt R (map f xs) \<Longrightarrow> sorted_wrt R (map f (filter P xs))"
  by (induction xs) auto

lemma not_in_filter_out [simp]: "a \<notin> f ` set (filter (\<lambda>x. f x \<noteq> a) xs)"
  by auto

lemma count_list_distinct: "distinct xs \<Longrightarrow> count_list xs x = of_bool (x \<in> set xs)"
  by (induction xs) auto

lemma find_SomeD: "find P xs = Some x \<Longrightarrow> x \<in> set xs \<and> P x"
  by (induction xs) (auto split: if_splits)

end
