(* ===== verification/Job.thy ===== *)
theory Job
  imports Prelude
begin

text \<open>
  Jobs of the job system (\<open>subsystems/jobsystem\<close>: \<open>Job\<close>, \<open>TimerJob\<close>, \<open>JobCounter\<close>).
  Jobs and counters are shared objects in C++ (\<open>shared_ptr\<close>), so they live in a store
  and are named by references; a queue, a fiber and a caller that hold the same
  reference see the same object. A workload is user code: it is a function of the
  cycle number of its \<open>JobContext\<close> and of the state \<open>'u\<close> it captured, giving the new
  captured state, the commands it issues to the job manager, and how it ends.
\<close>

section \<open>Data\<close>

type_synonym jref = nat
type_synonym cref = nat

datatype phase = INIT | MAIN | CLEAN_UP

datatype continuation = DISPOSE | REQUEUE

datatype job_state =
    DETACHED
  | QUEUED
  | RESERVED_FOR_NEXT_CYCLE
  | AWAITING_EXECUTION
  | IN_EXECUTION
  | EXECUTION_FINISHED
  | FAILED

text \<open>How a workload ends: it returns a continuation or throws a \<open>std::exception\<close>.\<close>

datatype outcome = Returns continuation | Throws string

datatype command = KickCmd jref | DetachCmd string

record timer =
  t_start :: int
  t_time :: int
  t_started :: bool

record 'u job =
  j_id :: string
  j_workload :: "nat \<Rightarrow> 'u \<Rightarrow> 'u \<times> command list \<times> outcome"
  j_state :: job_state
  j_phase :: phase
  j_async :: bool
  j_counters :: "cref list"
  j_timer :: "timer option"

record 'u jstore =
  jobs :: "jref \<Rightarrow> 'u job"
  counters :: "cref \<Rightarrow> nat"

text \<open>The constructors: \<open>Job\<close> and \<open>TimerJob\<close>.\<close>

definition make_job ::
  "(nat \<Rightarrow> 'u \<Rightarrow> 'u \<times> command list \<times> outcome) \<Rightarrow> string \<Rightarrow> phase \<Rightarrow> bool \<Rightarrow> 'u job" where
  "make_job workload jid phase async =
     \<lparr>j_id = jid, j_workload = workload, j_state = DETACHED, j_phase = phase,
      j_async = async, j_counters = [], j_timer = None\<rparr>"

definition make_timer_job ::
  "(nat \<Rightarrow> 'u \<Rightarrow> 'u \<times> command list \<times> outcome) \<Rightarrow> string \<Rightarrow> int \<Rightarrow> phase \<Rightarrow> bool \<Rightarrow> 'u job" where
  "make_timer_job workload jid time phase async =
     (make_job workload jid phase async)
       \<lparr>j_timer := Some \<lparr>t_start = 0, t_time = time, t_started = False\<rparr>\<rparr>"

section \<open>JobCounter\<close>

text \<open>
  \<open>m_count\<close> is a \<open>size_t\<close>. Each unit of it belongs to a counter entry some job holds in
  memory, so it cannot reach \<open>2 ^ 64\<close> from below; decreasing it at zero would wrap around
  (and fails the assertion of a debug build).
\<close>

definition counter_increase :: "nat \<Rightarrow> nat" where
  "counter_increase n = n + 1"

definition counter_decrease :: "nat \<Rightarrow> nat" where
  "counter_decrease n = (if 0 < n then n - 1 else 2 ^ 64 - 1)"

definition counter_finished :: "nat \<Rightarrow> bool" where
  "counter_finished n = (n < 1)"

lemma counter_finished_iff [simp]: "counter_finished n \<longleftrightarrow> n = 0"
  by (auto simp: counter_finished_def)

section \<open>Job operations\<close>

definition update_job :: "jref \<Rightarrow> ('u job \<Rightarrow> 'u job) \<Rightarrow> ('u, 'm) jstore_scheme \<Rightarrow> ('u, 'm) jstore_scheme" where
  "update_job j f s = s\<lparr>jobs := (jobs s)(j := f (jobs s j))\<rparr>"

definition SetState :: "jref \<Rightarrow> job_state \<Rightarrow> ('u, 'm) jstore_scheme \<Rightarrow> ('u, 'm) jstore_scheme" where
  "SetState j st = update_job j (\<lambda>b. b\<lparr>j_state := st\<rparr>)"

definition AddCounter :: "jref \<Rightarrow> cref \<Rightarrow> ('u, 'm) jstore_scheme \<Rightarrow> ('u, 'm) jstore_scheme" where
  "AddCounter j c s =
     update_job j (\<lambda>b. b\<lparr>j_counters := j_counters b @ [c]\<rparr>)
       (s\<lparr>counters := (counters s)(c := counter_increase (counters s c))\<rparr>)"

fun drain_counters :: "cref list \<Rightarrow> (cref \<Rightarrow> nat) \<Rightarrow> (cref \<Rightarrow> nat)" where
  "drain_counters [] k = k"
| "drain_counters (c # cs) k = drain_counters cs (k(c := counter_decrease (k c)))"

definition FinishJob :: "jref \<Rightarrow> ('u, 'm) jstore_scheme \<Rightarrow> ('u, 'm) jstore_scheme" where
  "FinishJob j s =
     update_job j (\<lambda>b. b\<lparr>j_counters := []\<rparr>)
       (s\<lparr>counters := drain_counters (j_counters (jobs s j)) (counters s)\<rparr>)"

text \<open>
  \<open>Execute\<close> in two halves, because other fibers may run in between: the workload starts
  (its commands are issued while the job is \<open>IN_EXECUTION\<close>), and later it ends with a
  state and a continuation. An exception ends the job as \<open>FAILED\<close> and disposes it.
\<close>

definition Execute_begin :: "jref \<Rightarrow> ('u, 'm) jstore_scheme \<Rightarrow> ('u, 'm) jstore_scheme" where
  "Execute_begin j = SetState j IN_EXECUTION"

fun Execute_end :: "jref \<Rightarrow> outcome \<Rightarrow> ('u, 'm) jstore_scheme \<Rightarrow> continuation \<times> ('u, 'm) jstore_scheme" where
  "Execute_end j (Returns c) s = (c, SetState j EXECUTION_FINISHED s)"
| "Execute_end j (Throws e) s = (DISPOSE, SetState j FAILED s)"

text \<open>
  \<open>IsReadyForExecution\<close>: always true for a plain job. A timer job starts its timer at the
  first attempt (first clock reading), compares the elapsed time (second reading), and
  disarms the timer when it lets the job run.
\<close>

definition timer_ready :: "int \<Rightarrow> int \<Rightarrow> timer \<Rightarrow> bool \<times> timer" where
  "timer_ready now0 now1 t =
     (let t' = (if t_started t then t else t\<lparr>t_start := now0, t_started := True\<rparr>);
          passed = (t_time t' \<le> now1 - t_start t')
      in (passed, if passed then t'\<lparr>t_started := False\<rparr> else t'))"

definition IsReadyForExecution ::
  "int \<Rightarrow> int \<Rightarrow> jref \<Rightarrow> ('u, 'm) jstore_scheme \<Rightarrow> bool \<times> ('u, 'm) jstore_scheme" where
  "IsReadyForExecution now0 now1 j s =
     (case j_timer (jobs s j) of
        None \<Rightarrow> (True, s)
      | Some t \<Rightarrow> (fst (timer_ready now0 now1 t),
                   update_job j (\<lambda>b. b\<lparr>j_timer := Some (snd (timer_ready now0 now1 t))\<rparr>) s))"

text \<open>Consecutive scheduling attempts of one timer job, at the given clock readings.\<close>

fun timer_attempts :: "int list \<Rightarrow> timer \<Rightarrow> bool list \<times> timer" where
  "timer_attempts [] t = ([], t)"
| "timer_attempts (now # ns) t =
     (let (r, t') = timer_ready now now t; (rs, t'') = timer_attempts ns t' in (r # rs, t''))"

section \<open>Lemmas\<close>

lemma jobs_update_job [simp]:
  "jobs (update_job j f s) j' = (if j' = j then f (jobs s j) else jobs s j')"
  by (simp add: update_job_def)

lemma counters_update_job [simp, frame]: "counters (update_job j f s) = counters s"
  by (simp add: update_job_def)

lemma SetState_frame [simp, frame]:
  "counters (SetState j st s) = counters s"
  "j_id (jobs (SetState j st s) j') = j_id (jobs s j')"
  "j_workload (jobs (SetState j st s) j') = j_workload (jobs s j')"
  "j_phase (jobs (SetState j st s) j') = j_phase (jobs s j')"
  "j_async (jobs (SetState j st s) j') = j_async (jobs s j')"
  "j_counters (jobs (SetState j st s) j') = j_counters (jobs s j')"
  "j_timer (jobs (SetState j st s) j') = j_timer (jobs s j')"
  "j_state (jobs (SetState j st s) j') = (if j' = j then st else j_state (jobs s j'))"
  by (simp_all add: SetState_def)

lemma AddCounter_frame [simp, frame]:
  "j_id (jobs (AddCounter j c s) j') = j_id (jobs s j')"
  "j_workload (jobs (AddCounter j c s) j') = j_workload (jobs s j')"
  "j_phase (jobs (AddCounter j c s) j') = j_phase (jobs s j')"
  "j_async (jobs (AddCounter j c s) j') = j_async (jobs s j')"
  "j_timer (jobs (AddCounter j c s) j') = j_timer (jobs s j')"
  "j_state (jobs (AddCounter j c s) j') = j_state (jobs s j')"
  "j_counters (jobs (AddCounter j c s) j') =
     (if j' = j then j_counters (jobs s j) @ [c] else j_counters (jobs s j'))"
  "counters (AddCounter j c s) = (counters s)(c := counters s c + 1)"
  by (simp_all add: AddCounter_def counter_increase_def)

lemma FinishJob_frame [simp, frame]:
  "j_id (jobs (FinishJob j s) j') = j_id (jobs s j')"
  "j_workload (jobs (FinishJob j s) j') = j_workload (jobs s j')"
  "j_phase (jobs (FinishJob j s) j') = j_phase (jobs s j')"
  "j_async (jobs (FinishJob j s) j') = j_async (jobs s j')"
  "j_timer (jobs (FinishJob j s) j') = j_timer (jobs s j')"
  "j_state (jobs (FinishJob j s) j') = j_state (jobs s j')"
  "j_counters (jobs (FinishJob j s) j') = (if j' = j then [] else j_counters (jobs s j'))"
  by (simp_all add: FinishJob_def)

lemma drain_counters_value:
  "\<forall>c. count_list cs c \<le> k c \<Longrightarrow> drain_counters cs k c = k c - count_list cs c"
proof (induction cs arbitrary: k)
  case (Cons a cs)
  have "0 < k a" using Cons.prems [rule_format, of a] by simp
  then have dec: "k(a := counter_decrease (k a)) = k(a := k a - 1)"
    by (simp add: counter_decrease_def)
  have "count_list cs d \<le> (k(a := k a - 1)) d" for d
    using Cons.prems [rule_format, of d] by auto
  then have "drain_counters cs (k(a := k a - 1)) c = (k(a := k a - 1)) c - count_list cs c"
    by (intro Cons.IH) blast
  then show ?case by (simp only: drain_counters.simps dec) auto
qed simp

lemma counters_FinishJob:
  assumes "\<forall>c. count_list (j_counters (jobs s j)) c \<le> counters s c"
  shows "counters (FinishJob j s) c = counters s c - count_list (j_counters (jobs s j)) c"
  using assms by (simp add: FinishJob_def drain_counters_value)

section \<open>Accounting\<close>

text \<open>
  What a counter should show: how often it is attached to jobs that have not finished.
\<close>

definition attached :: "('u, 'm) jstore_scheme \<Rightarrow> cref \<Rightarrow> nat" where
  "attached s c = (\<Sum>j\<in>{j. j_counters (jobs s j) \<noteq> []}. count_list (j_counters (jobs s j)) c)"

definition counters_ok :: "('u, 'm) jstore_scheme \<Rightarrow> bool" where
  "counters_ok s \<longleftrightarrow> finite {j. j_counters (jobs s j) \<noteq> []} \<and> (\<forall>c. counters s c = attached s c)"

lemma attached_superset:
  assumes "finite A" and "{j. j_counters (jobs s j) \<noteq> []} \<subseteq> A"
  shows "attached s c = (\<Sum>j\<in>A. count_list (j_counters (jobs s j)) c)"
  unfolding attached_def by (rule sum.mono_neutral_left) (use assms in auto)

lemma attached_change:
  assumes fin: "finite {j. j_counters (jobs s j) \<noteq> []}"
    and other: "\<And>i. i \<noteq> j \<Longrightarrow> j_counters (jobs s' i) = j_counters (jobs s i)"
  shows "attached s' c + count_list (j_counters (jobs s j)) c
       = attached s c + count_list (j_counters (jobs s' j)) c"
    and "finite {j. j_counters (jobs s' j) \<noteq> []}"
proof -
  let ?A = "insert j {j. j_counters (jobs s j) \<noteq> []}"
  have A: "finite ?A" using fin by simp
  have sub: "{j. j_counters (jobs s' j) \<noteq> []} \<subseteq> ?A" using other by auto
  then show "finite {j. j_counters (jobs s' j) \<noteq> []}" using A by (rule finite_subset)
  have "attached s' c = (\<Sum>i\<in>?A. count_list (j_counters (jobs s' i)) c)"
    by (rule attached_superset [OF A sub])
  also have "\<dots> = count_list (j_counters (jobs s' j)) c
      + (\<Sum>i\<in>?A - {j}. count_list (j_counters (jobs s i)) c)"
    by (subst sum.remove [OF A, of j]) (auto intro!: sum.cong simp: other)
  finally have 1: "attached s' c = \<dots>" .
  have "attached s c = (\<Sum>i\<in>?A. count_list (j_counters (jobs s i)) c)"
    by (rule attached_superset [OF A]) auto
  also have "\<dots> = count_list (j_counters (jobs s j)) c
      + (\<Sum>i\<in>?A - {j}. count_list (j_counters (jobs s i)) c)"
    by (subst sum.remove [OF A, of j]) auto
  finally show "attached s' c + count_list (j_counters (jobs s j)) c
       = attached s c + count_list (j_counters (jobs s' j)) c"
    using 1 by simp
qed

lemma attached_ge:
  assumes "finite {j. j_counters (jobs s j) \<noteq> []}"
  shows "count_list (j_counters (jobs s j)) c \<le> attached s c"
proof (cases "j_counters (jobs s j) = []")
  case False
  then show ?thesis
    unfolding attached_def using assms
    by (intro member_le_sum [where f = "\<lambda>j. count_list (j_counters (jobs s j)) c"]) auto
qed simp

lemma counters_ok_cong:
  assumes "\<And>j. j_counters (jobs s' j) = j_counters (jobs s j)" and "counters s' = counters s"
  shows "counters_ok s' \<longleftrightarrow> counters_ok s"
  using assms by (simp add: counters_ok_def attached_def)

lemma counters_ok_AddCounter [inv_intro]:
  assumes "counters_ok s"
  shows "counters_ok (AddCounter j c s)"
proof -
  have fin: "finite {j. j_counters (jobs s j) \<noteq> []}" using assms by (simp add: counters_ok_def)
  have "attached (AddCounter j c s) d = attached s d + (if d = c then 1 else 0)" for d
    using attached_change(1) [OF fin, of j "AddCounter j c s" d] by auto
  then show ?thesis
    using assms attached_change(2) [OF fin, of j "AddCounter j c s"]
    by (simp add: counters_ok_def)
qed

lemma counters_ok_FinishJob [inv_intro]:
  assumes "counters_ok s"
  shows "counters_ok (FinishJob j s)"
proof -
  have fin: "finite {j. j_counters (jobs s j) \<noteq> []}" using assms by (simp add: counters_ok_def)
  have "\<forall>c. count_list (j_counters (jobs s j)) c \<le> counters s c"
    using assms attached_ge [OF fin] by (simp add: counters_ok_def)
  note val = counters_FinishJob [OF this]
  have "attached (FinishJob j s) d + count_list (j_counters (jobs s j)) d = attached s d" for d
    using attached_change(1) [OF fin, of j "FinishJob j s" d] by simp
  then have "attached (FinishJob j s) d = counters (FinishJob j s) d" for d
    using assms val [of d] by (metis add_diff_cancel_right' counters_ok_def)
  then show ?thesis
    using attached_change(2) [OF fin, of j "FinishJob j s"] by (simp add: counters_ok_def)
qed

lemma counters_ok_zero:
  assumes "counters_ok s" and "counters s c = 0"
  shows "c \<notin> set (j_counters (jobs s j))"
proof -
  have "count_list (j_counters (jobs s j)) c \<le> attached s c"
    using assms(1) by (intro attached_ge) (simp add: counters_ok_def)
  then show ?thesis using assms by (simp add: counters_ok_def count_list_0_iff)
qed

section \<open>Frames\<close>

lemma IsReady_frame [simp, frame]:
  "counters (snd (IsReadyForExecution n0 n1 j s)) = counters s"
  "j_id (jobs (snd (IsReadyForExecution n0 n1 j s)) j') = j_id (jobs s j')"
  "j_workload (jobs (snd (IsReadyForExecution n0 n1 j s)) j') = j_workload (jobs s j')"
  "j_phase (jobs (snd (IsReadyForExecution n0 n1 j s)) j') = j_phase (jobs s j')"
  "j_async (jobs (snd (IsReadyForExecution n0 n1 j s)) j') = j_async (jobs s j')"
  "j_state (jobs (snd (IsReadyForExecution n0 n1 j s)) j') = j_state (jobs s j')"
  "j_counters (jobs (snd (IsReadyForExecution n0 n1 j s)) j') = j_counters (jobs s j')"
  by (auto simp: IsReadyForExecution_def split: option.splits)

lemma Execute_end_frame [simp, frame]:
  "counters (snd (Execute_end j oc s)) = counters s"
  "j_id (jobs (snd (Execute_end j oc s)) j') = j_id (jobs s j')"
  "j_phase (jobs (snd (Execute_end j oc s)) j') = j_phase (jobs s j')"
  "j_async (jobs (snd (Execute_end j oc s)) j') = j_async (jobs s j')"
  "j_counters (jobs (snd (Execute_end j oc s)) j') = j_counters (jobs s j')"
  by (cases oc; simp)+

lemma Execute_end_continuation:
  "fst (Execute_end j oc s) = REQUEUE \<longleftrightarrow> oc = Returns REQUEUE"
  by (cases oc) auto

section \<open>Timer properties\<close>

text \<open>
  A timer armed at \<open>t0\<close> is refused as long as less than its period has passed and is
  let through at the first attempt after it; it is then disarmed for the next period.
\<close>

lemma timer_ready_cases:
  assumes "t_started t"
  shows "fst (timer_ready n0 n1 t) \<longleftrightarrow> t_start t + t_time t \<le> n1"
    and "t_started (snd (timer_ready n0 n1 t)) \<longleftrightarrow> \<not> fst (timer_ready n0 n1 t)"
    and "t_time (snd (timer_ready n0 n1 t)) = t_time t"
    and "t_start (snd (timer_ready n0 n1 t)) = t_start t"
  using assms by (auto simp: timer_ready_def Let_def)

lemma timer_attempts_refused:
  assumes "t_started t" and "\<forall>n\<in>set ns. n < t_start t + t_time t"
  shows "timer_attempts ns t = (replicate (length ns) False, t)"
  using assms
proof (induction ns)
  case (Cons n ns)
  then have "timer_ready n n t = (False, t)"
    by (auto simp: timer_ready_def Let_def)
  with Cons show ?case by simp
qed simp

lemma timer_attempts_snd:
  "snd (timer_attempts (ms @ ns) t) = snd (timer_attempts ns (snd (timer_attempts ms t)))"
  by (induction ms arbitrary: t) (auto simp: split_beta Let_def)

lemma timer_attempts_append:
  "fst (timer_attempts (ms @ ns) t) =
     fst (timer_attempts ms t) @ fst (timer_attempts ns (snd (timer_attempts ms t)))"
  by (induction ms arbitrary: t) (auto simp: split_beta Let_def)

lemma timer_first_attempt:
  "0 < t_time t \<Longrightarrow> \<not> t_started t \<Longrightarrow>
     timer_ready n n t = (False, t\<lparr>t_start := n, t_started := True\<rparr>)"
  by (simp add: timer_ready_def Let_def)

lemma timer_period:
  assumes "0 < t_time t" and "\<not> t_started t"
    and "\<forall>n\<in>set ns. n < n0 + t_time t" and "n0 + t_time t \<le> n1"
  shows "fst (timer_attempts (n0 # ns @ [n1]) t) = replicate (Suc (length ns)) False @ [True]"
    and "\<not> t_started (snd (timer_attempts (n0 # ns @ [n1]) t))"
proof -
  let ?t = "t\<lparr>t_start := n0, t_started := True\<rparr>"
  have 1: "timer_attempts ns ?t = (replicate (length ns) False, ?t)"
    using assms(3) by (intro timer_attempts_refused) auto
  have 2: "timer_ready n1 n1 ?t = (True, ?t\<lparr>t_started := False\<rparr>)"
    using assms(4) by (simp add: timer_ready_def Let_def)
  have 3: "timer_attempts (ns @ [n1]) ?t = (replicate (length ns) False @ [True], ?t\<lparr>t_started := False\<rparr>)"
    by (rule prod_eqI) (simp_all add: 1 2 timer_attempts_append timer_attempts_snd)
  show "fst (timer_attempts (n0 # ns @ [n1]) t) = replicate (Suc (length ns)) False @ [True]"
    and "\<not> t_started (snd (timer_attempts (n0 # ns @ [n1]) t))"
    using 3 timer_first_attempt [OF assms(1,2), of n0] by simp_all
qed

end
