(* ===== verification/Job_Execution.thy ===== *)
theory Job_Execution
  imports Job
begin

text \<open>
  \<open>BoostFiberExecution\<close>: the worker threads and the channel over which the job manager
  hands jobs to them. The channel is Boost's \<open>buffered_channel\<close>; what the code relies on
  is its documented behaviour: \<open>push\<close> on a closed channel fails, \<open>try_pop\<close> returns the
  oldest value, and reports \<open>closed\<close> only when the channel is closed and empty. An entry
  is the job and whether the manager reference that the runner captured was set.
  A full channel only makes \<open>push\<close> wait, so its capacity does not appear here.
\<close>

datatype exec_state = STOPPED | RUNNING

record 'u exec = "'u jstore" +
  x_state :: exec_state
  x_channel :: "(jref \<times> bool) list"
  x_closed :: bool
  x_managed :: bool
  x_worker_count :: int
  x_workers :: nat

text \<open>\<open>Schedule\<close>: push the runner (dropped when the channel is closed), then set the state.\<close>

definition Schedule :: "jref \<Rightarrow> ('u, 'm) exec_scheme \<Rightarrow> ('u, 'm) exec_scheme" where
  "Schedule j s =
     SetState j AWAITING_EXECUTION
       (if x_closed s then s else s\<lparr>x_channel := x_channel s @ [(j, x_managed s)]\<rparr>)"

text \<open>\<open>Start\<close>: spawn the workers; the channel is the one the constructor made.\<close>

definition Start :: "('u, 'm) exec_scheme \<Rightarrow> ('u, 'm) exec_scheme" where
  "Start s =
     (if x_state s \<noteq> STOPPED then s
      else s\<lparr>x_workers := x_workers s + nat (x_worker_count s), x_state := RUNNING,
             x_managed := True\<rparr>)"

text \<open>One iteration of the loop of \<open>ExecuteWorker\<close>.\<close>

datatype poll = Popped "jref \<times> bool" | NothingYet | ChannelClosed

definition worker_poll :: "('u, 'm) exec_scheme \<Rightarrow> poll \<times> ('u, 'm) exec_scheme" where
  "worker_poll s =
     (case x_channel s of
        e # r \<Rightarrow> (Popped e, s\<lparr>x_channel := r\<rparr>)
      | [] \<Rightarrow> if x_closed s then (ChannelClosed, s\<lparr>x_workers := x_workers s - 1\<rparr>)
              else (NothingYet, s))"

text \<open>
  \<open>Stop\<close> closes the channel and joins the workers. A worker only ends when it sees
  \<open>ChannelClosed\<close>, so everything still in the channel has been popped (and started as a
  fiber) before the join returns; those entries are the first component.
\<close>

definition Stop :: "('u, 'm) exec_scheme \<Rightarrow> (jref \<times> bool) list \<times> ('u, 'm) exec_scheme" where
  "Stop s =
     (if x_state s \<noteq> RUNNING then ([], s)
      else (x_channel s,
            s\<lparr>x_closed := True, x_channel := [], x_workers := 0, x_state := STOPPED,
              x_managed := False\<rparr>))"

text \<open>The workers of a closed channel, polled until the last of them has ended.\<close>

fun poll_until_closed :: "nat \<Rightarrow> ('u, 'm) exec_scheme \<Rightarrow> ((jref \<times> bool) list \<times> ('u, 'm) exec_scheme) option" where
  "poll_until_closed 0 s = None"
| "poll_until_closed (Suc n) s =
     (case worker_poll s of
        (Popped e, s') \<Rightarrow> map_option (\<lambda>(es, t). (e # es, t)) (poll_until_closed n s')
      | (NothingYet, s') \<Rightarrow> poll_until_closed n s'
      | (ChannelClosed, s') \<Rightarrow>
          if x_workers s' = 0 then Some ([], s') else poll_until_closed n s')"

datatype exec_request = OpStart | OpStop | OpSchedule jref

fun exec_op :: "exec_request \<Rightarrow> ('u, 'm) exec_scheme \<Rightarrow> ('u, 'm) exec_scheme" where
  "exec_op OpStart s = Start s"
| "exec_op OpStop s = snd (Stop s)"
| "exec_op (OpSchedule j) s = Schedule j s"

section \<open>Lemmas\<close>

lemma Schedule_frame [simp, frame]:
  "counters (Schedule j s) = counters s"
  "j_id (jobs (Schedule j s) j') = j_id (jobs s j')"
  "j_workload (jobs (Schedule j s) j') = j_workload (jobs s j')"
  "j_phase (jobs (Schedule j s) j') = j_phase (jobs s j')"
  "j_async (jobs (Schedule j s) j') = j_async (jobs s j')"
  "j_counters (jobs (Schedule j s) j') = j_counters (jobs s j')"
  "j_timer (jobs (Schedule j s) j') = j_timer (jobs s j')"
  by (simp_all add: Schedule_def)

lemma x_channel_update_job [simp, frame]:
  "x_channel (update_job j f s) = x_channel s"
  "x_closed (update_job j f s) = x_closed s"
  "x_managed (update_job j f s) = x_managed s"
  "x_state (update_job j f s) = x_state s"
  "x_workers (update_job j f s) = x_workers s"
  "x_worker_count (update_job j f s) = x_worker_count s"
  by (simp_all add: update_job_def)

lemma exec_SetState [simp, frame]:
  "x_channel (SetState j st s) = x_channel s"
  "x_closed (SetState j st s) = x_closed s"
  "x_managed (SetState j st s) = x_managed s"
  by (simp_all add: SetState_def)

lemma Schedule_exec [simp]:
  "x_channel (Schedule j s) = (if x_closed s then x_channel s else x_channel s @ [(j, x_managed s)])"
  "x_closed (Schedule j s) = x_closed s"
  "x_managed (Schedule j s) = x_managed s"
  by (simp_all add: Schedule_def)

text \<open>The join in \<open>Stop\<close>: polling a closed channel ends, having popped exactly its entries.\<close>

lemma poll_closed_channel:
  assumes "x_closed s" and "0 < x_workers s" and "length (x_channel s) + x_workers s \<le> n"
  shows "poll_until_closed n s = Some (x_channel s, s\<lparr>x_channel := [], x_workers := 0\<rparr>)"
  using assms
proof (induction n arbitrary: s)
  case (Suc n)
  show ?case
  proof (cases "x_channel s")
    case Nil
    show ?thesis
    proof (cases "x_workers s = 1")
      case True
      with Nil Suc.prems show ?thesis by (simp add: worker_poll_def)
    next
      case False
      with Nil Suc.prems Suc.IH [of "s\<lparr>x_workers := x_workers s - 1\<rparr>"] show ?thesis
        by (simp add: worker_poll_def)
    qed
  next
    case (Cons e r)
    with Suc.prems Suc.IH [of "s\<lparr>x_channel := r\<rparr>"] show ?thesis
      by (simp add: worker_poll_def)
  qed
qed simp

lemma exec_op_closed: "x_closed s \<Longrightarrow> x_closed (exec_op a s)"
  by (cases a) (auto simp: Start_def Stop_def)

lemma exec_op_closed_channel: "x_closed s \<Longrightarrow> set (x_channel (exec_op a s)) \<subseteq> set (x_channel s)"
  by (cases a) (auto simp: Start_def Stop_def)

lemma exec_ops_closed_channel:
  "x_closed s \<Longrightarrow> set (x_channel (fold exec_op ops s)) \<subseteq> set (x_channel s)"
proof (induction ops arbitrary: s)
  case (Cons a ops)
  then show ?case using exec_op_closed exec_op_closed_channel by fastforce
qed simp

end
