(* ===== verification/Job_Manager.thy ===== *)
theory Job_Manager
  imports Job_Execution "HOL-Library.Multiset"
begin

text \<open>
  \<open>JobManager\<close> (\<open>subsystems/jobsystem/src/JobManager.cpp\<close>): the queues of the three
  phases and of the next cycle, the requeue blacklist, the manager state and the phase
  counters, with the operations on them. The three queue members and the three counter
  members of the class are functions of the phase here. Each operation is what one call
  does under the mutexes it takes; how calls of different threads and fibers interleave
  is the step relation of \<open>Job_Cycle\<close>.
\<close>

datatype mgr_state = READY | CYCLE_INIT | CYCLE_MAIN | CYCLE_CLEAN_UP

fun cycle_state :: "phase \<Rightarrow> mgr_state" where
  "cycle_state INIT = CYCLE_INIT"
| "cycle_state MAIN = CYCLE_MAIN"
| "cycle_state CLEAN_UP = CYCLE_CLEAN_UP"

record 'u mgr = "'u exec" +
  queue :: "phase \<Rightarrow> jref list"
  phase_counter :: "phase \<Rightarrow> cref"
  next_cycle_queue :: "jref list"
  blacklist :: "string set"
  mstate :: mgr_state
  total_cycles :: nat
  next_cref :: cref
  clock :: int

section \<open>Operations\<close>

definition KickJobForNextCycle :: "jref \<Rightarrow> ('u, 'm) mgr_scheme \<Rightarrow> ('u, 'm) mgr_scheme" where
  "KickJobForNextCycle j s =
     (if j_id (jobs s j) \<in> blacklist s then s
      else SetState j RESERVED_FOR_NEXT_CYCLE (s\<lparr>next_cycle_queue := next_cycle_queue s @ [j]\<rparr>))"

text \<open>
  The body of the loop of \<open>ScheduleAllJobsInQueue\<close> for one popped job, and the loop. It
  writes to the next-cycle queue only, never to the queue it empties, so the loop is
  recursion over that queue.
\<close>

definition schedule_job :: "cref \<Rightarrow> jref \<Rightarrow> ('u, 'm) mgr_scheme \<Rightarrow> ('u, 'm) mgr_scheme" where
  "schedule_job c j s =
     (let (ready, s1) = IsReadyForExecution (clock s) (clock s) j s
      in if \<not> ready then KickJobForNextCycle j s1
         else let s2 = (if \<not> j_async (jobs s1 j) then AddCounter j c s1 else s1)
              in Schedule j s2)"

fun schedule_jobs :: "cref \<Rightarrow> jref list \<Rightarrow> ('u, 'm) mgr_scheme \<Rightarrow> ('u, 'm) mgr_scheme" where
  "schedule_jobs c [] s = s"
| "schedule_jobs c (j # js) s = schedule_jobs c js (schedule_job c j s)"

definition ScheduleAllJobsInQueue :: "phase \<Rightarrow> ('u, 'm) mgr_scheme \<Rightarrow> ('u, 'm) mgr_scheme" where
  "ScheduleAllJobsInQueue ph s =
     schedule_jobs (phase_counter s ph) (queue s ph) (s\<lparr>queue := (queue s)(ph := [])\<rparr>)"

definition push_queue :: "phase \<Rightarrow> jref \<Rightarrow> ('u, 'm) mgr_scheme \<Rightarrow> ('u, 'm) mgr_scheme" where
  "push_queue ph j s = s\<lparr>queue := (queue s)(ph := queue s ph @ [j])\<rparr>"

definition KickJob :: "jref \<Rightarrow> ('u, 'm) mgr_scheme \<Rightarrow> ('u, 'm) mgr_scheme" where
  "KickJob j s =
     (let s1 = s\<lparr>blacklist := blacklist s - {j_id (jobs s j)}\<rparr>;
          ph = j_phase (jobs s1 j);
          s2 = push_queue ph j s1;
          s3 = (if mstate s2 = cycle_state ph then ScheduleAllJobsInQueue ph s2 else s2)
      in SetState j QUEUED s3)"

definition ResetContinuationRequeueBlacklist :: "('u, 'm) mgr_scheme \<Rightarrow> ('u, 'm) mgr_scheme" where
  "ResetContinuationRequeueBlacklist s = s\<lparr>blacklist := {}\<rparr>"

fun try_remove :: "string \<Rightarrow> jref list \<Rightarrow> ('u, 'm) mgr_scheme \<Rightarrow> jref list \<times> ('u, 'm) mgr_scheme" where
  "try_remove i [] s = ([], s)"
| "try_remove i (j # js) s =
     (if j_id (jobs s j) = i then try_remove i js (SetState j DETACHED s)
      else (let (kept, s') = try_remove i js s in (j # kept, s')))"

definition remove_from_phase :: "string \<Rightarrow> phase \<Rightarrow> ('u, 'm) mgr_scheme \<Rightarrow> ('u, 'm) mgr_scheme" where
  "remove_from_phase i ph s =
     (let (kept, s') = try_remove i (queue s ph) s
      in s'\<lparr>queue := (queue s')(ph := kept)\<rparr>)"

definition DetachJob :: "string \<Rightarrow> ('u, 'm) mgr_scheme \<Rightarrow> ('u, 'm) mgr_scheme" where
  "DetachJob i s =
     (let s1 = s\<lparr>blacklist := insert i (blacklist s)\<rparr>;
          (kept, s2) = try_remove i (next_cycle_queue s1) s1;
          s3 = s2\<lparr>next_cycle_queue := kept\<rparr>
      in remove_from_phase i CLEAN_UP (remove_from_phase i MAIN (remove_from_phase i INIT s3)))"

text \<open>
  The first part of \<open>InvokeCycleAndWait\<close>: clear the blacklist, move the jobs waiting for
  this cycle into the phase queues, count the cycle, make fresh phase counters, and set
  the state of the first phase. While the manager is \<open>READY\<close>, kicking never refills the
  next-cycle queue (\<open>KickJob_ready\<close> below), so emptying it is one pass.
\<close>

definition move_next_cycle_jobs :: "('u, 'm) mgr_scheme \<Rightarrow> ('u, 'm) mgr_scheme" where
  "move_next_cycle_jobs s = fold KickJob (next_cycle_queue s) (s\<lparr>next_cycle_queue := []\<rparr>)"

definition fresh_counters :: "('u, 'm) mgr_scheme \<Rightarrow> ('u, 'm) mgr_scheme" where
  "fresh_counters s =
     (let n = next_cref s
      in s\<lparr>phase_counter := (\<lambda>ph. case ph of INIT \<Rightarrow> n | MAIN \<Rightarrow> n + 1 | CLEAN_UP \<Rightarrow> n + 2),
           counters := (counters s)(n := 0, n + 1 := 0, n + 2 := 0),
           next_cref := n + 3\<rparr>)"

definition begin_cycle :: "('u, 'm) mgr_scheme \<Rightarrow> ('u, 'm) mgr_scheme" where
  "begin_cycle s =
     (let s1 = move_next_cycle_jobs (ResetContinuationRequeueBlacklist s);
          s2 = fresh_counters (s1\<lparr>total_cycles := total_cycles s1 + 1\<rparr>)
      in s2\<lparr>mstate := CYCLE_INIT\<rparr>)"

text \<open>The end of the cycle: back to \<open>READY\<close> with an empty blacklist.\<close>

definition end_cycle :: "('u, 'm) mgr_scheme \<Rightarrow> ('u, 'm) mgr_scheme" where
  "end_cycle s = ResetContinuationRequeueBlacklist (s\<lparr>mstate := READY\<rparr>)"

section \<open>Frames\<close>

lemma mgr_update_job [simp, frame]:
  "queue (update_job j f s) = queue s"
  "phase_counter (update_job j f s) = phase_counter s"
  "next_cycle_queue (update_job j f s) = next_cycle_queue s"
  "blacklist (update_job j f s) = blacklist s"
  "mstate (update_job j f s) = mstate s"
  "total_cycles (update_job j f s) = total_cycles s"
  "next_cref (update_job j f s) = next_cref s"
  "clock (update_job j f s) = clock s"
  by (simp_all add: update_job_def)

lemma mgr_SetState [simp, frame]:
  "queue (SetState j st s) = queue s"
  "phase_counter (SetState j st s) = phase_counter s"
  "next_cycle_queue (SetState j st s) = next_cycle_queue s"
  "blacklist (SetState j st s) = blacklist s"
  "mstate (SetState j st s) = mstate s"
  "total_cycles (SetState j st s) = total_cycles s"
  "next_cref (SetState j st s) = next_cref s"
  "clock (SetState j st s) = clock s"
  by (simp_all add: SetState_def)

lemma mgr_IsReady [simp, frame]:
  "queue (snd (IsReadyForExecution n0 n1 j s)) = queue s"
  "phase_counter (snd (IsReadyForExecution n0 n1 j s)) = phase_counter s"
  "next_cycle_queue (snd (IsReadyForExecution n0 n1 j s)) = next_cycle_queue s"
  "blacklist (snd (IsReadyForExecution n0 n1 j s)) = blacklist s"
  "mstate (snd (IsReadyForExecution n0 n1 j s)) = mstate s"
  "next_cref (snd (IsReadyForExecution n0 n1 j s)) = next_cref s"
  "clock (snd (IsReadyForExecution n0 n1 j s)) = clock s"
  "total_cycles (snd (IsReadyForExecution n0 n1 j s)) = total_cycles s"
  "x_channel (snd (IsReadyForExecution n0 n1 j s)) = x_channel s"
  "x_closed (snd (IsReadyForExecution n0 n1 j s)) = x_closed s"
  "x_managed (snd (IsReadyForExecution n0 n1 j s)) = x_managed s"
  by (auto simp: IsReadyForExecution_def split: option.splits)

lemma mgr_AddCounter [simp, frame]:
  "queue (AddCounter j c s) = queue s"
  "phase_counter (AddCounter j c s) = phase_counter s"
  "next_cycle_queue (AddCounter j c s) = next_cycle_queue s"
  "blacklist (AddCounter j c s) = blacklist s"
  "mstate (AddCounter j c s) = mstate s"
  "next_cref (AddCounter j c s) = next_cref s"
  "clock (AddCounter j c s) = clock s"
  "total_cycles (AddCounter j c s) = total_cycles s"
  "x_channel (AddCounter j c s) = x_channel s"
  "x_closed (AddCounter j c s) = x_closed s"
  "x_managed (AddCounter j c s) = x_managed s"
  by (simp_all add: AddCounter_def)

lemma mgr_Schedule [simp, frame]:
  "queue (Schedule j s) = queue s"
  "phase_counter (Schedule j s) = phase_counter s"
  "next_cycle_queue (Schedule j s) = next_cycle_queue s"
  "blacklist (Schedule j s) = blacklist s"
  "mstate (Schedule j s) = mstate s"
  "next_cref (Schedule j s) = next_cref s"
  "clock (Schedule j s) = clock s"
  "total_cycles (Schedule j s) = total_cycles s"
  by (simp_all add: Schedule_def)

lemma mgr_FinishJob [simp, frame]:
  "queue (FinishJob j s) = queue s"
  "phase_counter (FinishJob j s) = phase_counter s"
  "next_cycle_queue (FinishJob j s) = next_cycle_queue s"
  "blacklist (FinishJob j s) = blacklist s"
  "mstate (FinishJob j s) = mstate s"
  "next_cref (FinishJob j s) = next_cref s"
  "x_channel (FinishJob j s) = x_channel s"
  "x_closed (FinishJob j s) = x_closed s"
  "x_managed (FinishJob j s) = x_managed s"
  by (simp_all add: FinishJob_def)

lemma KickNext_frame [simp, frame]:
  "queue (KickJobForNextCycle j s) = queue s"
  "phase_counter (KickJobForNextCycle j s) = phase_counter s"
  "blacklist (KickJobForNextCycle j s) = blacklist s"
  "mstate (KickJobForNextCycle j s) = mstate s"
  "next_cref (KickJobForNextCycle j s) = next_cref s"
  "clock (KickJobForNextCycle j s) = clock s"
  "total_cycles (KickJobForNextCycle j s) = total_cycles s"
  "counters (KickJobForNextCycle j s) = counters s"
  "x_channel (KickJobForNextCycle j s) = x_channel s"
  "x_closed (KickJobForNextCycle j s) = x_closed s"
  "x_managed (KickJobForNextCycle j s) = x_managed s"
  "j_id (jobs (KickJobForNextCycle j s) j') = j_id (jobs s j')"
  "j_workload (jobs (KickJobForNextCycle j s) j') = j_workload (jobs s j')"
  "j_phase (jobs (KickJobForNextCycle j s) j') = j_phase (jobs s j')"
  "j_async (jobs (KickJobForNextCycle j s) j') = j_async (jobs s j')"
  "j_counters (jobs (KickJobForNextCycle j s) j') = j_counters (jobs s j')"
  by (simp_all add: KickJobForNextCycle_def)

lemma KickNext_queue:
  "next_cycle_queue (KickJobForNextCycle j s) =
     next_cycle_queue s @ (if j_id (jobs s j) \<in> blacklist s then [] else [j])"
  by (simp add: KickJobForNextCycle_def)

section \<open>Scheduling a queue\<close>

text \<open>
  What one pass over a queue does: in order, every job is handed to the execution, or put
  off to the next cycle, or dropped because its id is on the blacklist. The counter is
  attached to exactly the synchronous jobs that were handed over.
\<close>

lemma schedule_job_frame [simp, frame]:
  "queue (schedule_job c j s) = queue s"
  "phase_counter (schedule_job c j s) = phase_counter s"
  "blacklist (schedule_job c j s) = blacklist s"
  "mstate (schedule_job c j s) = mstate s"
  "next_cref (schedule_job c j s) = next_cref s"
  "clock (schedule_job c j s) = clock s"
  "total_cycles (schedule_job c j s) = total_cycles s"
  "x_closed (schedule_job c j s) = x_closed s"
  "x_managed (schedule_job c j s) = x_managed s"
  "j_id (jobs (schedule_job c j s) i) = j_id (jobs s i)"
  "j_workload (jobs (schedule_job c j s) i) = j_workload (jobs s i)"
  "j_phase (jobs (schedule_job c j s) i) = j_phase (jobs s i)"
  "j_async (jobs (schedule_job c j s) i) = j_async (jobs s i)"
  by (simp_all add: schedule_job_def split_beta Let_def)

lemma schedule_jobs_frame [simp, frame]:
  "queue (schedule_jobs c js s) = queue s"
  "phase_counter (schedule_jobs c js s) = phase_counter s"
  "blacklist (schedule_jobs c js s) = blacklist s"
  "mstate (schedule_jobs c js s) = mstate s"
  "next_cref (schedule_jobs c js s) = next_cref s"
  "clock (schedule_jobs c js s) = clock s"
  "total_cycles (schedule_jobs c js s) = total_cycles s"
  "x_closed (schedule_jobs c js s) = x_closed s"
  "x_managed (schedule_jobs c js s) = x_managed s"
  "j_id (jobs (schedule_jobs c js s) i) = j_id (jobs s i)"
  "j_workload (jobs (schedule_jobs c js s) i) = j_workload (jobs s i)"
  "j_phase (jobs (schedule_jobs c js s) i) = j_phase (jobs s i)"
  "j_async (jobs (schedule_jobs c js s) i) = j_async (jobs s i)"
  by (induction c js s rule: schedule_jobs.induct; simp)+

lemma schedule_job_counters_ok [inv_intro]:
  assumes "counters_ok s"
  shows "counters_ok (schedule_job c j s)"
proof -
  let ?s1 = "snd (IsReadyForExecution (clock s) (clock s) j s)"
  have s1: "counters_ok ?s1" using assms counters_ok_cong [of ?s1 s] by simp
  have 1: "counters_ok (KickJobForNextCycle j ?s1)" "counters_ok (Schedule j ?s1)"
    using s1 by (subst counters_ok_cong; simp)+
  have 2: "counters_ok (Schedule j (AddCounter j c ?s1))"
    using counters_ok_AddCounter [OF s1, of j c]
      counters_ok_cong [of "Schedule j (AddCounter j c ?s1)" "AddCounter j c ?s1"] by simp
  from 1 2 show ?thesis by (simp add: schedule_job_def split_beta Let_def)
qed

lemma schedule_jobs_counters_ok [inv_intro]:
  "counters_ok s \<Longrightarrow> counters_ok (schedule_jobs c js s)"
  by (induction c js s rule: schedule_jobs.induct) (simp_all add: schedule_job_counters_ok)

definition scheduled_split ::
  "cref \<Rightarrow> jref list \<Rightarrow> ('u, 'm) mgr_scheme \<Rightarrow> jref list \<Rightarrow> jref list \<Rightarrow> jref list \<Rightarrow> ('u, 'm) mgr_scheme \<Rightarrow> bool" where
  "scheduled_split c js s rs ns ds t \<longleftrightarrow>
     x_channel t = x_channel s @ map (\<lambda>j. (j, x_managed s)) rs \<and>
     next_cycle_queue t = next_cycle_queue s @ ns \<and>
     mset js = mset rs + mset ns + mset ds \<and>
     (\<forall>j\<in>set ds. j_id (jobs s j) \<in> blacklist s) \<and>
     (\<forall>j. set (j_counters (jobs t j)) =
        set (j_counters (jobs s j)) \<union> (if j \<in> set rs \<and> \<not> j_async (jobs s j) then {c} else {}))"

lemma schedule_job_split:
  assumes "\<not> x_closed s"
  obtains "scheduled_split c [j] s [j] [] [] (schedule_job c j s)"
  | "scheduled_split c [j] s [] [j] [] (schedule_job c j s)"
  | "scheduled_split c [j] s [] [] [j] (schedule_job c j s)"
proof -
  let ?r = "fst (IsReadyForExecution (clock s) (clock s) j s)"
  consider (ready) ?r | (later) "\<not> ?r" "j_id (jobs s j) \<notin> blacklist s"
    | (dropped) "\<not> ?r" "j_id (jobs s j) \<in> blacklist s" by blast
  then show thesis
  proof cases
    case ready
    with assms have "scheduled_split c [j] s [j] [] [] (schedule_job c j s)"
      by (simp add: scheduled_split_def schedule_job_def split_beta Let_def)
    then show ?thesis by (rule that(1))
  next
    case later
    then have "scheduled_split c [j] s [] [j] [] (schedule_job c j s)"
      by (simp add: scheduled_split_def schedule_job_def split_beta Let_def KickNext_queue)
    then show ?thesis by (rule that(2))
  next
    case dropped
    then have "scheduled_split c [j] s [] [] [j] (schedule_job c j s)"
      by (simp add: scheduled_split_def schedule_job_def split_beta Let_def KickNext_queue)
    then show ?thesis by (rule that(3))
  qed
qed

lemma scheduled_split_append:
  assumes "scheduled_split c js s rs ns ds t" and "scheduled_split c js' t rs' ns' ds' u"
    and "x_managed t = x_managed s" "blacklist t = blacklist s"
    and "\<And>i. j_async (jobs t i) = j_async (jobs s i)" "\<And>i. j_id (jobs t i) = j_id (jobs s i)"
  shows "scheduled_split c (js @ js') s (rs @ rs') (ns @ ns') (ds @ ds') u"
  using assms unfolding scheduled_split_def by auto

lemma schedule_jobs_split:
  assumes "\<not> x_closed s"
  shows "\<exists>rs ns ds. scheduled_split c js s rs ns ds (schedule_jobs c js s)"
  using assms
proof (induction c js s rule: schedule_jobs.induct)
  case (1 c s)
  show ?case by (intro exI [of _ "[]"]) (simp add: scheduled_split_def)
next
  case (2 c j js s)
  obtain r1 n1 d1 where 1: "scheduled_split c [j] s r1 n1 d1 (schedule_job c j s)"
    using schedule_job_split [OF "2.prems"] by metis
  obtain rs ns ds where
    "scheduled_split c js (schedule_job c j s) rs ns ds (schedule_jobs c js (schedule_job c j s))"
    using "2.IH" "2.prems" by auto
  from scheduled_split_append [OF 1 this] show ?case by auto
qed

section \<open>Kicking\<close>

lemma KickJob_frame [simp, frame]:
  "phase_counter (KickJob j s) = phase_counter s"
  "mstate (KickJob j s) = mstate s"
  "next_cref (KickJob j s) = next_cref s"
  "clock (KickJob j s) = clock s"
  "total_cycles (KickJob j s) = total_cycles s"
  "blacklist (KickJob j s) = blacklist s - {j_id (jobs s j)}"
  "x_closed (KickJob j s) = x_closed s"
  "x_managed (KickJob j s) = x_managed s"
  "j_id (jobs (KickJob j s) i) = j_id (jobs s i)"
  "j_workload (jobs (KickJob j s) i) = j_workload (jobs s i)"
  "j_phase (jobs (KickJob j s) i) = j_phase (jobs s i)"
  "j_async (jobs (KickJob j s) i) = j_async (jobs s i)"
  by (simp_all add: KickJob_def Let_def ScheduleAllJobsInQueue_def push_queue_def)

lemma KickJob_other_phase:
  assumes "mstate s \<noteq> cycle_state (j_phase (jobs s j))"
  shows "KickJob j s = SetState j QUEUED (push_queue (j_phase (jobs s j)) j
           (s\<lparr>blacklist := blacklist s - {j_id (jobs s j)}\<rparr>))"
  using assms by (simp add: KickJob_def Let_def push_queue_def)

lemma KickJob_current_phase:
  assumes "mstate s = cycle_state (j_phase (jobs s j))"
  shows "KickJob j s = SetState j QUEUED (schedule_jobs (phase_counter s (j_phase (jobs s j)))
           (queue s (j_phase (jobs s j)) @ [j])
           (s\<lparr>blacklist := blacklist s - {j_id (jobs s j)},
              queue := (queue s)(j_phase (jobs s j) := [])\<rparr>))"
  using assms by (simp add: KickJob_def Let_def push_queue_def ScheduleAllJobsInQueue_def)

lemma cycle_state_not_ready [simp]: "cycle_state ph \<noteq> READY" "READY \<noteq> cycle_state ph"
  by (cases ph; simp)+

lemma cycle_state_inj [simp]: "cycle_state ph = cycle_state ph' \<longleftrightarrow> ph = ph'"
  by (cases ph; cases ph'; simp)

lemma KickJob_counters_ok [inv_intro]: "counters_ok s \<Longrightarrow> counters_ok (KickJob j s)"
proof -
  assume ok: "counters_ok s"
  show ?thesis
  proof (cases "mstate s = cycle_state (j_phase (jobs s j))")
    case True
    have "counters_ok (s\<lparr>blacklist := b, queue := q\<rparr>)" for b q
      using ok by (simp add: counters_ok_def attached_def)
    from schedule_jobs_counters_ok [OF this] show ?thesis
      unfolding KickJob_current_phase [OF True] by (subst counters_ok_cong) simp_all
  next
    case False
    have "counters_ok (push_queue ph j (s\<lparr>blacklist := b\<rparr>))" for ph b
      using ok by (simp add: counters_ok_def attached_def push_queue_def)
    then show ?thesis
      unfolding KickJob_other_phase [OF False] by (subst counters_ok_cong) simp_all
  qed
qed

lemma KickJob_other_effect:
  assumes "mstate s \<noteq> cycle_state (j_phase (jobs s j))"
  shows "queue (KickJob j s) = (queue s)(j_phase (jobs s j) := queue s (j_phase (jobs s j)) @ [j])"
    and "x_channel (KickJob j s) = x_channel s"
    and "next_cycle_queue (KickJob j s) = next_cycle_queue s"
    and "counters (KickJob j s) = counters s"
    and "j_counters (jobs (KickJob j s) i) = j_counters (jobs s i)"
  unfolding KickJob_other_phase [OF assms] by (simp_all add: push_queue_def)

lemma KickJob_current_effect:
  assumes "mstate s = cycle_state (j_phase (jobs s j))" and "\<not> x_closed s"
  shows "queue (KickJob j s) = (queue s)(j_phase (jobs s j) := [])"
    and "\<exists>rs ns ds. scheduled_split (phase_counter s (j_phase (jobs s j)))
           (queue s (j_phase (jobs s j)) @ [j]) s rs ns ds (KickJob j s)"
proof -
  let ?ph = "j_phase (jobs s j)"
  let ?s = "s\<lparr>blacklist := blacklist s - {j_id (jobs s j)}, queue := (queue s)(?ph := [])\<rparr>"
  show "queue (KickJob j s) = (queue s)(?ph := [])"
    unfolding KickJob_current_phase [OF assms(1)] by simp
  have "\<not> x_closed ?s" using assms(2) by simp
  from schedule_jobs_split [OF this, of "phase_counter s ?ph" "queue s ?ph @ [j]"]
  obtain rs ns ds where "scheduled_split (phase_counter s ?ph) (queue s ?ph @ [j]) ?s rs ns ds
      (schedule_jobs (phase_counter s ?ph) (queue s ?ph @ [j]) ?s)" by blast
  then have "scheduled_split (phase_counter s ?ph) (queue s ?ph @ [j]) s rs ns ds (KickJob j s)"
    unfolding KickJob_current_phase [OF assms(1)] by (auto simp: scheduled_split_def)
  then show "\<exists>rs ns ds. scheduled_split (phase_counter s ?ph) (queue s ?ph @ [j]) s rs ns ds (KickJob j s)"
    by blast
qed

section \<open>Starting a cycle\<close>

text \<open>While the manager is \<open>READY\<close>, kicking a job only appends it to the queue of its phase.\<close>

lemma KickJob_ready:
  assumes "mstate s = READY"
  shows "queue (KickJob j s) = (queue s)(j_phase (jobs s j) := queue s (j_phase (jobs s j)) @ [j])"
    and "x_channel (KickJob j s) = x_channel s"
    and "next_cycle_queue (KickJob j s) = next_cycle_queue s"
    and "counters (KickJob j s) = counters s"
    and "j_counters (jobs (KickJob j s) i) = j_counters (jobs s i)"
  using KickJob_other_effect [of s j] assms by simp_all

lemma fold_KickJob_frame [simp, frame]:
  "mstate (fold KickJob js s) = mstate s"
  "x_closed (fold KickJob js s) = x_closed s"
  "x_managed (fold KickJob js s) = x_managed s"
  "next_cref (fold KickJob js s) = next_cref s"
  "total_cycles (fold KickJob js s) = total_cycles s"
  "j_id (jobs (fold KickJob js s) i) = j_id (jobs s i)"
  "j_phase (jobs (fold KickJob js s) i) = j_phase (jobs s i)"
  "j_async (jobs (fold KickJob js s) i) = j_async (jobs s i)"
  "j_workload (jobs (fold KickJob js s) i) = j_workload (jobs s i)"
  by (induction js arbitrary: s; simp)+

lemma fold_KickJob_blacklist: "blacklist (fold KickJob js s) \<subseteq> blacklist s"
proof (induction js arbitrary: s)
  case (Cons j js)
  from Cons.IH [of "KickJob j s"] show ?case by auto
qed simp

lemma fold_KickJob_ready:
  assumes "mstate s = READY"
  shows "x_channel (fold KickJob js s) = x_channel s"
    and "next_cycle_queue (fold KickJob js s) = next_cycle_queue s"
    and "counters (fold KickJob js s) = counters s"
    and "j_counters (jobs (fold KickJob js s) i) = j_counters (jobs s i)"
    and "queue (fold KickJob js s) ph = queue s ph @ filter (\<lambda>j. j_phase (jobs s j) = ph) js"
  using assms by (induction js arbitrary: s; simp add: KickJob_ready)+

lemma fresh_counters_frame [simp, frame]:
  "queue (fresh_counters s) = queue s"
  "next_cycle_queue (fresh_counters s) = next_cycle_queue s"
  "x_channel (fresh_counters s) = x_channel s"
  "x_closed (fresh_counters s) = x_closed s"
  "x_managed (fresh_counters s) = x_managed s"
  "blacklist (fresh_counters s) = blacklist s"
  "mstate (fresh_counters s) = mstate s"
  "jobs (fresh_counters s) = jobs s"
  "total_cycles (fresh_counters s) = total_cycles s"
  "next_cref (fresh_counters s) = next_cref s + 3"
  by (simp_all add: fresh_counters_def Let_def)

lemma fresh_counters_phase:
  "next_cref s \<le> phase_counter (fresh_counters s) ph"
  "phase_counter (fresh_counters s) ph < next_cref (fresh_counters s)"
  "phase_counter (fresh_counters s) ph = phase_counter (fresh_counters s) ph' \<longleftrightarrow> ph = ph'"
  "counters (fresh_counters s) (phase_counter (fresh_counters s) ph) = 0"
  by (cases ph; cases ph'; simp add: fresh_counters_def Let_def)+

lemma begin_cycle_effect:
  assumes "mstate s = READY"
  shows "queue (begin_cycle s) ph =
           queue s ph @ filter (\<lambda>j. j_phase (jobs s j) = ph) (next_cycle_queue s)"
    and "x_channel (begin_cycle s) = x_channel s"
    and "next_cycle_queue (begin_cycle s) = []"
    and "j_counters (jobs (begin_cycle s) i) = j_counters (jobs s i)"
    and "mstate (begin_cycle s) = CYCLE_INIT"
    and "blacklist (begin_cycle s) = {}"
    and "x_closed (begin_cycle s) = x_closed s"
    and "x_managed (begin_cycle s) = x_managed s"
    and "total_cycles (begin_cycle s) = total_cycles s + 1"
    and "next_cref (begin_cycle s) = next_cref s + 3"
    and "j_id (jobs (begin_cycle s) i) = j_id (jobs s i)"
    and "j_phase (jobs (begin_cycle s) i) = j_phase (jobs s i)"
    and "j_async (jobs (begin_cycle s) i) = j_async (jobs s i)"
    and "j_workload (jobs (begin_cycle s) i) = j_workload (jobs s i)"
    and "next_cref s \<le> phase_counter (begin_cycle s) ph"
    and "phase_counter (begin_cycle s) ph < next_cref (begin_cycle s)"
    and "counters (begin_cycle s) (phase_counter (begin_cycle s) ph) = 0"
  using assms
    fold_KickJob_blacklist [of "next_cycle_queue s" "s\<lparr>blacklist := {}, next_cycle_queue := []\<rparr>"]
  by (simp_all add: begin_cycle_def move_next_cycle_jobs_def Let_def
      ResetContinuationRequeueBlacklist_def fold_KickJob_ready fresh_counters_phase)
    (cases ph; simp add: fresh_counters_def Let_def)+

lemma begin_cycle_counters_ok [inv_intro]:
  assumes "mstate s = READY" and "counters_ok s"
    and "\<And>j c. c \<in> set (j_counters (jobs s j)) \<Longrightarrow> c < next_cref s"
  shows "counters_ok (begin_cycle s)"
proof -
  have c: "counters (begin_cycle s) = (counters s)(next_cref s := 0, next_cref s + 1 := 0, next_cref s + 2 := 0)"
    using assms(1)
    by (simp add: begin_cycle_def move_next_cycle_jobs_def Let_def fresh_counters_def
      ResetContinuationRequeueBlacklist_def fold_KickJob_ready)
  have z: "attached s d = 0" if "next_cref s \<le> d" for d
    unfolding attached_def using assms(3) that by (force intro!: sum.neutral simp: count_list_0_iff)
  have "attached (begin_cycle s) d = attached s d" for d
    by (simp add: attached_def begin_cycle_effect(4) [OF assms(1)])
  then show ?thesis
    using assms(2) z [of "next_cref s"] z [of "next_cref s + 1"] z [of "next_cref s + 2"]
    by (auto simp: counters_ok_def c begin_cycle_effect(4) [OF assms(1)])
qed

section \<open>Detaching\<close>

lemma try_remove_effect:
  shows "fst (try_remove i js s) = filter (\<lambda>j. j_id (jobs s j) \<noteq> i) js"
    and "queue (snd (try_remove i js s)) = queue s"
    and "next_cycle_queue (snd (try_remove i js s)) = next_cycle_queue s"
    and "x_channel (snd (try_remove i js s)) = x_channel s"
    and "x_closed (snd (try_remove i js s)) = x_closed s"
    and "x_managed (snd (try_remove i js s)) = x_managed s"
    and "blacklist (snd (try_remove i js s)) = blacklist s"
    and "mstate (snd (try_remove i js s)) = mstate s"
    and "counters (snd (try_remove i js s)) = counters s"
    and "phase_counter (snd (try_remove i js s)) = phase_counter s"
    and "next_cref (snd (try_remove i js s)) = next_cref s"
    and "j_id (jobs (snd (try_remove i js s)) j) = j_id (jobs s j)"
    and "j_phase (jobs (snd (try_remove i js s)) j) = j_phase (jobs s j)"
    and "j_async (jobs (snd (try_remove i js s)) j) = j_async (jobs s j)"
    and "j_workload (jobs (snd (try_remove i js s)) j) = j_workload (jobs s j)"
    and "j_counters (jobs (snd (try_remove i js s)) j) = j_counters (jobs s j)"
  by (induction i js s rule: try_remove.induct; simp add: split_beta Let_def)+

lemma remove_from_phase_effect [simp]:
  "queue (remove_from_phase i ph s) =
     (queue s)(ph := filter (\<lambda>j. j_id (jobs s j) \<noteq> i) (queue s ph))"
  "next_cycle_queue (remove_from_phase i ph s) = next_cycle_queue s"
  "x_channel (remove_from_phase i ph s) = x_channel s"
  "x_closed (remove_from_phase i ph s) = x_closed s"
  "x_managed (remove_from_phase i ph s) = x_managed s"
  "blacklist (remove_from_phase i ph s) = blacklist s"
  "mstate (remove_from_phase i ph s) = mstate s"
  "counters (remove_from_phase i ph s) = counters s"
  "phase_counter (remove_from_phase i ph s) = phase_counter s"
  "next_cref (remove_from_phase i ph s) = next_cref s"
  "j_id (jobs (remove_from_phase i ph s) j) = j_id (jobs s j)"
  "j_phase (jobs (remove_from_phase i ph s) j) = j_phase (jobs s j)"
  "j_async (jobs (remove_from_phase i ph s) j) = j_async (jobs s j)"
  "j_workload (jobs (remove_from_phase i ph s) j) = j_workload (jobs s j)"
  "j_counters (jobs (remove_from_phase i ph s) j) = j_counters (jobs s j)"
  by (simp_all add: remove_from_phase_def split_beta Let_def try_remove_effect)

lemma DetachJob_effect [simp]:
  "queue (DetachJob i s) ph = filter (\<lambda>j. j_id (jobs s j) \<noteq> i) (queue s ph)"
  "next_cycle_queue (DetachJob i s) = filter (\<lambda>j. j_id (jobs s j) \<noteq> i) (next_cycle_queue s)"
  "x_channel (DetachJob i s) = x_channel s"
  "x_closed (DetachJob i s) = x_closed s"
  "x_managed (DetachJob i s) = x_managed s"
  "blacklist (DetachJob i s) = insert i (blacklist s)"
  "mstate (DetachJob i s) = mstate s"
  "counters (DetachJob i s) = counters s"
  "phase_counter (DetachJob i s) = phase_counter s"
  "next_cref (DetachJob i s) = next_cref s"
  "j_id (jobs (DetachJob i s) j) = j_id (jobs s j)"
  "j_phase (jobs (DetachJob i s) j) = j_phase (jobs s j)"
  "j_async (jobs (DetachJob i s) j) = j_async (jobs s j)"
  "j_workload (jobs (DetachJob i s) j) = j_workload (jobs s j)"
  "j_counters (jobs (DetachJob i s) j) = j_counters (jobs s j)"
  by (cases ph; simp add: DetachJob_def Let_def split_beta try_remove_effect)
    (simp_all add: DetachJob_def Let_def split_beta try_remove_effect)

end
