(* ===== verification/Job_Cycle.thy ===== *)
theory Job_Cycle
  imports Job_Manager
begin

text \<open>
  The job system running: one thread inside \<open>InvokeCycleAndWait\<close>, the fibers that execute
  jobs, and other threads that call the job manager, interleaved in every order. A fiber
  is started for every entry popped from the channel; it executes the workload of its
  job command by command, then requeues the job if it asked for it, then finishes it.
\<close>

section \<open>State\<close>

datatype main_pc = Idle | Entered phase | Waiting phase | Leaving phase

datatype fiber = Running jref "command list" outcome | Finishing jref

record 'u world =
  mgr :: "'u mgr"
  usr :: 'u
  fibers :: "fiber list"
  pc :: main_pc

section \<open>Steps of the thread inside InvokeCycleAndWait\<close>

text \<open>
  \<open>Entered ph\<close>: the state of the manager has been set for the phase, its queue has not
  been looked at. \<open>Waiting ph\<close>: the queue was not empty, its jobs have been scheduled
  and the thread waits for the counter of the phase. \<open>Leaving ph\<close>:
  \<open>ExecuteQueueAndWait\<close> has returned, the state of the manager is still that of the phase.
\<close>

definition invoke_cycle :: "'u world \<Rightarrow> 'u world" where
  "invoke_cycle w = w\<lparr>mgr := begin_cycle (mgr w), pc := Entered INIT\<rparr>"

fun leave_phase :: "phase \<Rightarrow> 'u world \<Rightarrow> 'u world" where
  "leave_phase INIT w = w\<lparr>mgr := (mgr w)\<lparr>mstate := CYCLE_MAIN\<rparr>, pc := Entered MAIN\<rparr>"
| "leave_phase MAIN w = w\<lparr>mgr := (mgr w)\<lparr>mstate := CYCLE_CLEAN_UP\<rparr>, pc := Entered CLEAN_UP\<rparr>"
| "leave_phase CLEAN_UP w = w\<lparr>mgr := end_cycle (mgr w), pc := Idle\<rparr>"

definition execute_queue :: "phase \<Rightarrow> 'u world \<Rightarrow> 'u world" where
  "execute_queue ph w =
     (if queue (mgr w) ph = [] then w\<lparr>pc := Leaving ph\<rparr>
      else w\<lparr>mgr := ScheduleAllJobsInQueue ph (mgr w), pc := Waiting ph\<rparr>)"

section \<open>Steps of a fiber\<close>

text \<open>
  The runner pushed by \<open>Schedule\<close>. Without a manager reference it only logs an error.
\<close>

definition start_fiber :: "jref \<Rightarrow> bool \<Rightarrow> (jref \<times> bool) list \<Rightarrow> 'u world \<Rightarrow> 'u world" where
  "start_fiber j bound rest w =
     (let m = (mgr w)\<lparr>x_channel := rest\<rparr>
      in if \<not> bound then w\<lparr>mgr := m\<rparr>
         else (let (u, cmds, oc) = j_workload (jobs m j) (total_cycles m) (usr w)
               in w\<lparr>mgr := Execute_begin j m, usr := u, fibers := fibers w @ [Running j cmds oc]\<rparr>))"

fun issue :: "command \<Rightarrow> 'u mgr \<Rightarrow> 'u mgr" where
  "issue (KickCmd k) m = KickJob k m"
| "issue (DetachCmd i) m = DetachJob i m"

definition end_workload :: "jref \<Rightarrow> outcome \<Rightarrow> 'u mgr \<Rightarrow> 'u mgr" where
  "end_workload j oc m =
     (let (continuation, m') = Execute_end j oc m
      in if continuation = REQUEUE then KickJobForNextCycle j m' else m')"

section \<open>The step relation\<close>

text \<open>
  \<open>kick_ok\<close> restricts which jobs may be kicked in which state, by jobs and by other
  threads alike: \<open>\<lambda>_ _. True\<close> is the unrestricted system.
\<close>

inductive job_step :: "('u world \<Rightarrow> jref \<Rightarrow> bool) \<Rightarrow> 'u world \<Rightarrow> 'u world \<Rightarrow> bool"
  for kick_ok where
  begin_cycle: "pc w = Idle \<Longrightarrow> job_step kick_ok w (invoke_cycle w)"
| run_phase: "pc w = Entered ph \<Longrightarrow> job_step kick_ok w (execute_queue ph w)"
| waited: "pc w = Waiting ph \<Longrightarrow> counter_finished (counters (mgr w) (phase_counter (mgr w) ph)) \<Longrightarrow>
     job_step kick_ok w (w\<lparr>pc := Leaving ph\<rparr>)"
| leave: "pc w = Leaving ph \<Longrightarrow> job_step kick_ok w (leave_phase ph w)"
| start: "x_channel (mgr w) = (j, bound) # rest \<Longrightarrow> job_step kick_ok w (start_fiber j bound rest w)"
| command: "fibers w = xs @ Running j (cmd # cmds) oc # ys \<Longrightarrow>
     (\<And>k. cmd = KickCmd k \<Longrightarrow> kick_ok w k) \<Longrightarrow>
     job_step kick_ok w (w\<lparr>mgr := issue cmd (mgr w), fibers := xs @ Running j cmds oc # ys\<rparr>)"
| ended: "fibers w = xs @ Running j [] oc # ys \<Longrightarrow>
     job_step kick_ok w (w\<lparr>mgr := end_workload j oc (mgr w), fibers := xs @ Finishing j # ys\<rparr>)"
| finished: "fibers w = xs @ Finishing j # ys \<Longrightarrow>
     job_step kick_ok w (w\<lparr>mgr := FinishJob j (mgr w), fibers := xs @ ys\<rparr>)"
| kick: "kick_ok w j \<Longrightarrow> job_step kick_ok w (w\<lparr>mgr := KickJob j (mgr w)\<rparr>)"
| detach: "job_step kick_ok w (w\<lparr>mgr := DetachJob i (mgr w)\<rparr>)"
| tick: "0 \<le> d \<Longrightarrow> job_step kick_ok w (w\<lparr>mgr := (mgr w)\<lparr>clock := clock (mgr w) + d\<rparr>\<rparr>)"

definition job_run :: "('u world \<Rightarrow> jref \<Rightarrow> bool) \<Rightarrow> 'u world \<Rightarrow> 'u world \<Rightarrow> bool" where
  "job_run kick_ok = (job_step kick_ok)\<^sup>*\<^sup>*"

text \<open>A job system after \<open>StartExecution\<close>, before its first cycle; no job has been kicked.\<close>

definition initial_world :: "(jref \<Rightarrow> 'u job) \<Rightarrow> 'u \<Rightarrow> 'u world" where
  "initial_world js u =
     \<lparr>mgr = \<lparr>jobs = js, counters = (\<lambda>_. 0),
             x_state = RUNNING, x_channel = [], x_closed = False, x_managed = True,
             x_worker_count = 4, x_workers = 4,
             queue = (\<lambda>_. []), phase_counter = (\<lambda>_. 0), next_cycle_queue = [],
             blacklist = {}, mstate = READY, total_cycles = 0, next_cref = 1, clock = 0\<rparr>,
      usr = u, fibers = [], pc = Idle\<rparr>"

section \<open>Where a job is\<close>

definition waiting :: "'u mgr \<Rightarrow> jref multiset" where
  "waiting m = mset (queue m INIT) + mset (queue m MAIN) + mset (queue m CLEAN_UP)"

definition later :: "'u mgr \<Rightarrow> jref multiset" where
  "later m = mset (next_cycle_queue m)"

definition scheduled :: "'u mgr \<Rightarrow> jref multiset" where
  "scheduled m = mset (map fst (x_channel m))"

fun running_of :: "fiber list \<Rightarrow> jref multiset" where
  "running_of [] = {#}"
| "running_of (Running j cmds oc # fs) = add_mset j (running_of fs)"
| "running_of (Finishing j # fs) = running_of fs"

fun finishing_of :: "fiber list \<Rightarrow> jref multiset" where
  "finishing_of [] = {#}"
| "finishing_of (Running j cmds oc # fs) = finishing_of fs"
| "finishing_of (Finishing j # fs) = add_mset j (finishing_of fs)"

text \<open>Handed to the execution and not finished.\<close>

definition pending :: "'u world \<Rightarrow> jref multiset" where
  "pending w = scheduled (mgr w) + running_of (fibers w) + finishing_of (fibers w)"

text \<open>
  The discipline of \<open>KickJob\<close>'s contract (\<open>job\<close> is a detached instance), together with
  the absence of one race: nobody kicks a job of a phase between the moment the cycle
  enters that phase and the moment it looks at the queue of the phase, nor between the
  moment it stops waiting for the phase and the moment it enters the next one.
\<close>

definition disciplined :: "'u world \<Rightarrow> jref \<Rightarrow> bool" where
  "disciplined w j \<longleftrightarrow>
     (j_async (jobs (mgr w) j) \<or> j \<notin># waiting (mgr w) + later (mgr w) + pending w) \<and>
     pc w \<noteq> Entered (j_phase (jobs (mgr w) j)) \<and> pc w \<noteq> Leaving (j_phase (jobs (mgr w) j))"

lemma running_of_append [simp]: "running_of (xs @ ys) = running_of xs + running_of ys"
  by (induction xs rule: running_of.induct) auto

lemma finishing_of_append [simp]: "finishing_of (xs @ ys) = finishing_of xs + finishing_of ys"
  by (induction xs rule: finishing_of.induct) auto

section \<open>The invariant\<close>

fun pc_state :: "main_pc \<Rightarrow> mgr_state" where
  "pc_state Idle = READY"
| "pc_state (Entered ph) = cycle_state ph"
| "pc_state (Waiting ph) = cycle_state ph"
| "pc_state (Leaving ph) = cycle_state ph"

definition sync :: "'u mgr \<Rightarrow> jref \<Rightarrow> bool" where
  "sync m j = (\<not> j_async (jobs m j))"

text \<open>
  A synchronous job is in at most one place: in a queue, or on its way through the
  execution, or (from its requeueing on) in the queue of the next cycle.
\<close>

definition placed :: "'u world \<Rightarrow> bool" where
  "placed w \<longleftrightarrow>
     (\<forall>ph. \<forall>j\<in>set (queue (mgr w) ph). j_phase (jobs (mgr w) j) = ph) \<and>
     (\<forall>j. sync (mgr w) j \<longrightarrow> count (waiting (mgr w) + pending w) j \<le> 1) \<and>
     (\<forall>j. sync (mgr w) j \<longrightarrow>
        count (waiting (mgr w) + later (mgr w) + scheduled (mgr w) + running_of (fibers w)) j \<le> 1)"

text \<open>
  The cycle waits for every pending synchronous job: it is in the phase of the job, and
  the job holds the counter of the phase; and nobody else holds a phase counter.
\<close>

definition awaited :: "'u world \<Rightarrow> bool" where
  "awaited w \<longleftrightarrow>
     (\<forall>j. sync (mgr w) j \<longrightarrow> j \<in># pending w \<longrightarrow>
        pc w = Waiting (j_phase (jobs (mgr w) j)) \<and>
        phase_counter (mgr w) (j_phase (jobs (mgr w) j)) \<in> set (j_counters (jobs (mgr w) j))) \<and>
     (\<forall>j ph. phase_counter (mgr w) ph \<in> set (j_counters (jobs (mgr w) j)) \<longrightarrow>
        sync (mgr w) j \<and> j \<in># pending w)"

definition wired :: "'u world \<Rightarrow> bool" where
  "wired w \<longleftrightarrow>
     \<not> x_closed (mgr w) \<and> x_managed (mgr w) \<and> (\<forall>e\<in>set (x_channel (mgr w)). snd e) \<and>
     mstate (mgr w) = pc_state (pc w) \<and> counters_ok (mgr w) \<and>
     (\<forall>j. \<forall>c\<in>set (j_counters (jobs (mgr w) j)). c < next_cref (mgr w)) \<and>
     (\<forall>ph. phase_counter (mgr w) ph < next_cref (mgr w))"

definition cycle_inv :: "'u world \<Rightarrow> bool" where
  "cycle_inv w \<longleftrightarrow> placed w \<and> awaited w \<and> wired w"

lemma waiting_phase: "waiting m = mset (queue m ph) + (waiting m - mset (queue m ph))"
  by (cases ph) (auto simp: waiting_def)

lemma waiting_clear:
  "queue m' = (queue m)(ph := []) \<Longrightarrow> waiting m = waiting m' + mset (queue m ph)"
  by (cases ph) (auto simp: waiting_def)

lemma waiting_push:
  "queue m' = (queue m)(ph := queue m ph @ [j]) \<Longrightarrow> waiting m' = add_mset j (waiting m)"
  by (cases ph) (auto simp: waiting_def)

lemma waiting_cong: "queue m' = queue m \<Longrightarrow> waiting m' = waiting m"
  by (simp add: waiting_def)

lemma in_queue_waiting: "j \<in> set (queue m ph) \<Longrightarrow> j \<in># waiting m"
  by (cases ph) (auto simp: waiting_def)

lemma initial_inv:
  assumes "\<And>j. j_counters (js j) = []"
  shows "cycle_inv (initial_world js u)"
  using assms
  by (simp add: cycle_inv_def placed_def awaited_def wired_def initial_world_def waiting_def
      pending_def scheduled_def later_def counters_ok_def attached_def)

text \<open>Steps that move no synchronous job and touch no counter.\<close>

lemma inv_moved_out:
  assumes "cycle_inv w"
    and "\<And>ph. set (queue m' ph) \<subseteq> set (queue (mgr w) ph)"
    and "waiting m' \<subseteq># waiting (mgr w)" "later m' \<subseteq># later (mgr w)"
    and "x_channel m' = x_channel (mgr w)" "x_closed m' = x_closed (mgr w)"
      "x_managed m' = x_managed (mgr w)" "mstate m' = mstate (mgr w)"
      "counters m' = counters (mgr w)" "phase_counter m' = phase_counter (mgr w)"
      "next_cref m' = next_cref (mgr w)"
    and "\<And>j. j_phase (jobs m' j) = j_phase (jobs (mgr w) j)"
      "\<And>j. j_async (jobs m' j) = j_async (jobs (mgr w) j)"
      "\<And>j. j_counters (jobs m' j) = j_counters (jobs (mgr w) j)"
  shows "cycle_inv (w\<lparr>mgr := m'\<rparr>)"
proof -
  have sc: "scheduled m' = scheduled (mgr w)" using assms(5) by (simp add: scheduled_def)
  then have pe: "pending (w\<lparr>mgr := m'\<rparr>) = pending w" by (simp add: pending_def)
  have sy: "sync m' j = sync (mgr w) j" for j using assms(13) by (simp add: sync_def)
  have wl: "count (waiting m') j \<le> count (waiting (mgr w)) j"
    "count (later m') j \<le> count (later (mgr w)) j" for j
    using assms(3,4) by (simp_all add: mset_subset_eq_count)
  have "placed (w\<lparr>mgr := m'\<rparr>)"
    unfolding placed_def
  proof (intro conjI allI impI ballI)
    fix ph j assume "j \<in> set (queue (mgr (w\<lparr>mgr := m'\<rparr>)) ph)"
    then show "j_phase (jobs (mgr (w\<lparr>mgr := m'\<rparr>)) j) = ph"
      using assms(1,12) assms(2) [of ph] by (simp add: cycle_inv_def placed_def) blast
  next
    fix j assume "sync (mgr (w\<lparr>mgr := m'\<rparr>)) j"
    then have "sync (mgr w) j" using sy by simp
    then have *: "count (waiting (mgr w) + pending w) j \<le> 1"
      "count (waiting (mgr w) + later (mgr w) + scheduled (mgr w) + running_of (fibers w)) j \<le> 1"
      using assms(1) by (simp_all add: cycle_inv_def placed_def)
    from *(1) show "count (waiting (mgr (w\<lparr>mgr := m'\<rparr>)) + pending (w\<lparr>mgr := m'\<rparr>)) j \<le> 1"
      using wl(1) [of j] pe by simp
    from *(2) show "count (waiting (mgr (w\<lparr>mgr := m'\<rparr>)) + later (mgr (w\<lparr>mgr := m'\<rparr>))
        + scheduled (mgr (w\<lparr>mgr := m'\<rparr>)) + running_of (fibers (w\<lparr>mgr := m'\<rparr>))) j \<le> 1"
      using wl [of j] sc by simp
  qed
  moreover have "awaited (w\<lparr>mgr := m'\<rparr>)"
    using assms(1) by (simp add: cycle_inv_def awaited_def pe sy assms)
  moreover have "counters_ok m'"
    using assms(1) counters_ok_cong [of m' "mgr w"] assms(9,14) by (simp add: cycle_inv_def wired_def)
  then have "wired (w\<lparr>mgr := m'\<rparr>)"
    using assms(1) by (simp add: cycle_inv_def wired_def assms)
  ultimately show ?thesis by (simp add: cycle_inv_def)
qed

text \<open>
  The queue of the phase the cycle waits in is handed to the execution; with \<open>extra\<close>, a
  job that has just been kicked goes with it.
\<close>

text \<open>Scheduling a queue, with \<open>extra\<close> jobs that were in no queue: \<open>rs\<close> are scheduled, \<open>ns\<close> come later, \<open>ds\<close> are dropped.\<close>

lemma placed_scheduled:
  assumes P: "placed w" and q: "queue m' = (queue (mgr w))(ph := [])"
    and sc: "scheduled m' = scheduled (mgr w) + mset rs" and la: "later m' = later (mgr w) + mset ns"
    and parts: "mset (queue (mgr w) ph) + extra = mset rs + mset ns + mset ds"
    and extra: "\<And>j. sync (mgr w) j \<Longrightarrow> j \<in># extra \<Longrightarrow>
      count extra j = 1 \<and> j \<notin># waiting (mgr w) + later (mgr w) + pending w"
    and ph: "\<And>j. j_phase (jobs m' j) = j_phase (jobs (mgr w) j)" and sy: "sync m' = sync (mgr w)"
  shows "placed (w\<lparr>mgr := m', pc := Waiting ph\<rparr>)" (is "placed ?w")
  unfolding placed_def
proof (intro conjI allI impI ballI)
  let ?m = "mgr w"
  have pe: "pending ?w = pending w + mset rs" by (simp add: pending_def sc)
  have wm: "waiting ?m = waiting m' + mset (queue ?m ph)" by (rule waiting_clear [OF q])
  {
    fix p j assume "j \<in> set (queue (mgr ?w) p)"
    then show "j_phase (jobs (mgr ?w) j) = p"
      using P by (auto simp: placed_def q ph split: if_splits)
  next
    fix j assume "sync (mgr ?w) j"
    then have s: "sync ?m j" by (simp add: sy)
    have cnt: "count (mset (queue ?m ph)) j + count extra j = count (mset rs) j + count (mset ns) j + count (mset ds) j"
      using arg_cong [OF parts, of "\<lambda>M. count M j"] by simp
    have cw: "count (waiting ?m) j = count (waiting m') j + count (mset (queue ?m ph)) j" by (simp add: wm)
    have 1: "count (waiting ?m) j + count (pending w) j \<le> 1"
      and 2: "count (waiting ?m) j + count (later ?m) j + count (scheduled ?m) j
        + count (running_of (fibers w)) j \<le> 1"
      using P s by (simp_all add: placed_def)
    have 3: "count (scheduled ?m) j + count (running_of (fibers w)) j \<le> count (pending w) j"
      by (simp add: pending_def)
    have 4: "count extra j = 0 \<or> count extra j = 1 \<and> count (waiting ?m) j = 0
        \<and> count (later ?m) j = 0 \<and> count (pending w) j = 0"
      using extra [OF s] by (auto simp: not_in_iff)
    have 5: "count (waiting m') j + count (pending w) j + count (mset rs) j \<le> 1"
      using 1 4 cw cnt by linarith
    have 6: "count (waiting m') j + (count (later ?m) j + count (mset ns) j)
        + (count (scheduled ?m) j + count (mset rs) j) + count (running_of (fibers w)) j \<le> 1"
      using 2 3 4 cw cnt by linarith
    show "count (waiting (mgr ?w) + pending ?w) j \<le> 1"
      using 5 by (simp add: pe)
    show "count (waiting (mgr ?w) + later (mgr ?w) + scheduled (mgr ?w) + running_of (fibers ?w)) j \<le> 1"
      using 6 by (simp add: sc la)
  }
qed

lemma awaited_scheduled:
  assumes A: "awaited w" and pcw: "pc w = Entered ph \<or> pc w = Waiting ph"
    and sc: "scheduled m' = scheduled (mgr w) + mset rs"
    and rs: "\<And>j. j \<in> set rs \<Longrightarrow> j_phase (jobs (mgr w) j) = ph"
    and cs: "\<And>j. set (j_counters (jobs m' j)) = set (j_counters (jobs (mgr w) j)) \<union>
      (if j \<in> set rs \<and> \<not> j_async (jobs (mgr w) j) then {phase_counter (mgr w) ph} else {})"
    and ph: "\<And>j. j_phase (jobs m' j) = j_phase (jobs (mgr w) j)" "phase_counter m' = phase_counter (mgr w)"
    and sy: "sync m' = sync (mgr w)"
  shows "awaited (w\<lparr>mgr := m', pc := Waiting ph\<rparr>)" (is "awaited ?w")
  unfolding awaited_def
proof (intro conjI allI impI)
  let ?m = "mgr w"
  have pe: "pending ?w = pending w + mset rs" by (simp add: pending_def sc)
  {
    fix j assume "sync (mgr ?w) j" and j: "j \<in># pending ?w"
    then have s: "sync ?m j" by (simp add: sy)
    have *: "j_phase (jobs ?m j) = ph \<and> phase_counter ?m ph \<in> set (j_counters (jobs m' j))"
    proof (cases "j \<in> set rs")
      case True
      with s show ?thesis by (simp add: rs cs sync_def)
    next
      case False
      then have "j \<in># pending w" using j by (simp add: pe)
      with A s have "pc w = Waiting (j_phase (jobs ?m j))"
        "phase_counter ?m (j_phase (jobs ?m j)) \<in> set (j_counters (jobs ?m j))"
        by (auto simp: awaited_def)
      with pcw show ?thesis by (auto simp: cs)
    qed
    then show "pc ?w = Waiting (j_phase (jobs (mgr ?w) j))"
      and "phase_counter (mgr ?w) (j_phase (jobs (mgr ?w) j)) \<in> set (j_counters (jobs (mgr ?w) j))"
      by (simp_all add: ph)
  next
    fix j p assume "phase_counter (mgr ?w) p \<in> set (j_counters (jobs (mgr ?w) j))"
    then have "phase_counter ?m p \<in> set (j_counters (jobs ?m j)) \<or> j \<in> set rs \<and> sync ?m j"
      by (auto simp: cs ph sync_def split: if_splits)
    then show "sync (mgr ?w) j" "j \<in># pending ?w" using A by (auto simp: pe sy awaited_def)
  }
qed

lemma inv_scheduled:
  assumes inv: "cycle_inv w" and pcw: "pc w = Entered ph \<or> pc w = Waiting ph"
    and split: "scheduled_split (phase_counter (mgr w) ph) js (mgr w) rs ns ds m'"
    and js: "mset js = mset (queue (mgr w) ph) + extra"
    and extra: "\<And>j. j \<in># extra \<Longrightarrow> j_phase (jobs (mgr w) j) = ph"
      "\<And>j. sync (mgr w) j \<Longrightarrow> j \<in># extra \<Longrightarrow>
         count extra j = 1 \<and> j \<notin># waiting (mgr w) + later (mgr w) + pending w"
    and q: "queue m' = (queue (mgr w))(ph := [])"
    and fr: "x_closed m' = x_closed (mgr w)" "x_managed m' = x_managed (mgr w)"
      "mstate m' = mstate (mgr w)" "phase_counter m' = phase_counter (mgr w)"
      "next_cref m' = next_cref (mgr w)"
      "\<And>j. j_phase (jobs m' j) = j_phase (jobs (mgr w) j)"
      "\<And>j. j_async (jobs m' j) = j_async (jobs (mgr w) j)"
    and ok: "counters_ok m'"
  shows "cycle_inv (w\<lparr>mgr := m', pc := Waiting ph\<rparr>)"
proof -
  have P: "placed w" and A: "awaited w" and W: "wired w" using inv by (simp_all add: cycle_inv_def)
  have sc: "scheduled m' = scheduled (mgr w) + mset rs" and la: "later m' = later (mgr w) + mset ns"
    and parts: "mset (queue (mgr w) ph) + extra = mset rs + mset ns + mset ds"
    and cs: "\<And>j. set (j_counters (jobs m' j)) = set (j_counters (jobs (mgr w) j)) \<union>
      (if j \<in> set rs \<and> \<not> j_async (jobs (mgr w) j) then {phase_counter (mgr w) ph} else {})"
    using split js by (simp_all add: scheduled_split_def scheduled_def later_def comp_def)
  have sy: "sync m' = sync (mgr w)" using fr(7) by (simp add: sync_def fun_eq_iff)
  have rs: "j_phase (jobs (mgr w) j) = ph" if "j \<in> set rs" for j
  proof -
    have "j \<in># mset (queue (mgr w) ph) + extra" using that by (simp add: parts)
    then show ?thesis using P extra(1) by (auto simp: placed_def)
  qed
  have "placed (w\<lparr>mgr := m', pc := Waiting ph\<rparr>)" by (rule placed_scheduled [OF P q sc la parts extra(2) fr(6) sy])
  moreover have "awaited (w\<lparr>mgr := m', pc := Waiting ph\<rparr>)" by (rule awaited_scheduled [OF A pcw sc rs cs fr(6,4) sy])
  moreover have "wired (w\<lparr>mgr := m', pc := Waiting ph\<rparr>)"
    using W split pcw ok by (auto simp: wired_def fr cs scheduled_split_def split: if_splits)
  ultimately show ?thesis by (simp add: cycle_inv_def)
qed

lemma placed_counts:
  assumes "placed w" and "sync (mgr w) j"
  shows "count (waiting (mgr w)) j + count (pending w) j \<le> 1"
    and "count (waiting (mgr w)) j + count (later (mgr w)) j + count (scheduled (mgr w)) j
      + count (running_of (fibers w)) j \<le> 1"
  using assms by (simp_all add: placed_def)

lemma placedI:
  assumes "\<And>ph j. j \<in> set (queue (mgr w) ph) \<Longrightarrow> j_phase (jobs (mgr w) j) = ph"
    and "\<And>j. sync (mgr w) j \<Longrightarrow> count (waiting (mgr w)) j + count (pending w) j \<le> 1"
    and "\<And>j. sync (mgr w) j \<Longrightarrow> count (waiting (mgr w)) j + count (later (mgr w)) j
      + count (scheduled (mgr w)) j + count (running_of (fibers w)) j \<le> 1"
  shows "placed w"
  using assms by (simp add: placed_def)

lemma disciplined_counts:
  assumes "disciplined w j" and "sync (mgr w) j"
  shows "count (waiting (mgr w)) j = 0" "count (later (mgr w)) j = 0" "count (pending w) j = 0"
  using assms by (simp_all add: disciplined_def sync_def not_in_iff)

lemma pending_counts: "count (scheduled (mgr w)) j + count (running_of (fibers w)) j \<le> count (pending w) j"
  by (simp add: pending_def)

lemma pc_state_cycle: "pc_state p = cycle_state ph \<longleftrightarrow> p \<in> {Entered ph, Waiting ph, Leaving ph}"
  by (cases p) auto

lemma wired_channel:
  "cycle_inv w \<Longrightarrow> \<not> x_closed (mgr w)" "cycle_inv w \<Longrightarrow> counters_ok (mgr w)"
  "cycle_inv w \<Longrightarrow> mstate (mgr w) = pc_state (pc w)"
  by (simp_all add: cycle_inv_def wired_def)

lemma world_same_pc: "pc w = p \<Longrightarrow> w\<lparr>mgr := m, pc := p\<rparr> = w\<lparr>mgr := m\<rparr>"
  by (cases w) simp

lemma KickJob_inv:
  assumes inv: "cycle_inv w" and d: "disciplined w j"
  shows "cycle_inv (w\<lparr>mgr := KickJob j (mgr w)\<rparr>)"
proof (cases "mstate (mgr w) = cycle_state (j_phase (jobs (mgr w) j))")
  case True
  let ?ph = "j_phase (jobs (mgr w) j)"
  from True inv d have pcw: "pc w = Waiting ?ph"
    by (auto simp: wired_channel(3) pc_state_cycle disciplined_def)
  obtain rs ns ds where sp: "scheduled_split (phase_counter (mgr w) ?ph) (queue (mgr w) ?ph @ [j])
      (mgr w) rs ns ds (KickJob j (mgr w))"
    using KickJob_current_effect(2) [OF True wired_channel(1) [OF inv]] by blast
  have "cycle_inv (w\<lparr>mgr := KickJob j (mgr w), pc := Waiting ?ph\<rparr>)"
  proof (rule inv_scheduled [OF inv _ sp, where extra = "{#j#}"])
    fix k assume "sync (mgr w) k" "k \<in># {#j#}"
    then show "count {#j#} k = 1 \<and> k \<notin># waiting (mgr w) + later (mgr w) + pending w"
      using d by (auto simp: disciplined_def sync_def)
  qed (use pcw inv True KickJob_current_effect(1) [OF True wired_channel(1) [OF inv]] in
      \<open>auto simp: wired_channel KickJob_counters_ok\<close>)
  then show ?thesis unfolding world_same_pc [OF pcw] .
next
  case False
  let ?ph = "j_phase (jobs (mgr w) j)" and ?w = "w\<lparr>mgr := KickJob j (mgr w)\<rparr>"
  note eff = KickJob_other_effect [OF False]
  have P: "placed w" and A: "awaited w" and W: "wired w" using inv by (simp_all add: cycle_inv_def)
  have wt: "waiting (KickJob j (mgr w)) = add_mset j (waiting (mgr w))"
    by (rule waiting_push [OF eff(1)])
  have sc: "scheduled (KickJob j (mgr w)) = scheduled (mgr w)" by (simp add: scheduled_def eff)
  have la: "later (KickJob j (mgr w)) = later (mgr w)" by (simp add: later_def eff)
  have pe: "pending ?w = pending w" by (simp add: pending_def sc)
  have sy: "sync (KickJob j (mgr w)) = sync (mgr w)" by (simp add: sync_def fun_eq_iff)
  have "placed ?w"
  proof (rule placedI)
    fix k assume "sync (mgr ?w) k"
    then have s: "sync (mgr w) k" by (simp add: sy)
    show "count (waiting (mgr ?w)) k + count (pending ?w) k \<le> 1"
      and "count (waiting (mgr ?w)) k + count (later (mgr ?w)) k + count (scheduled (mgr ?w)) k
        + count (running_of (fibers ?w)) k \<le> 1"
      using placed_counts [OF P s] pending_counts [of w k] disciplined_counts [OF d] s
      by (cases "k = j"; simp add: pe wt la sc; linarith)+
  qed (use P in \<open>auto simp: placed_def eff(1) split: if_splits\<close>)
  moreover have "awaited ?w" using A by (simp add: awaited_def pe sy eff)
  moreover have "wired ?w" using W by (simp add: wired_def eff KickJob_counters_ok)
  ultimately show ?thesis by (simp add: cycle_inv_def)
qed

lemma DetachJob_inv:
  assumes "cycle_inv w"
  shows "cycle_inv (w\<lparr>mgr := DetachJob i (mgr w)\<rparr>)"
proof (rule inv_moved_out [OF assms])
  show "waiting (DetachJob i (mgr w)) \<subseteq># waiting (mgr w)"
    by (simp add: waiting_def mset_filter subset_mset.add_mono)
  show "later (DetachJob i (mgr w)) \<subseteq># later (mgr w)"
    by (simp add: later_def mset_filter)
qed auto

lemma inv_fibers_cong:
  assumes "cycle_inv w" "running_of fs = running_of (fibers w)" "finishing_of fs = finishing_of (fibers w)"
  shows "cycle_inv (w\<lparr>fibers := fs\<rparr>)"
  using assms by (simp add: cycle_inv_def placed_def awaited_def wired_def pending_def)

lemma issue_inv:
  assumes "cycle_inv w" and "\<And>k. cmd = KickCmd k \<Longrightarrow> disciplined w k"
  shows "cycle_inv (w\<lparr>mgr := issue cmd (mgr w)\<rparr>)"
  using assms KickJob_inv DetachJob_inv by (cases cmd) auto

text \<open>The cycle leaves a phase only when no synchronous job is pending.\<close>

lemma leave_phase_inv:
  assumes inv: "cycle_inv w" and none: "\<And>j. sync (mgr w) j \<Longrightarrow> j \<notin># pending w"
  shows "cycle_inv (leave_phase ph w)"
    and "pc w = Entered ph \<or> pc w = Waiting ph \<Longrightarrow> cycle_inv (w\<lparr>pc := Leaving ph\<rparr>)"
proof -
  have *: "cycle_inv (w\<lparr>mgr := (mgr w)\<lparr>mstate := st, blacklist := b\<rparr>, pc := p\<rparr>)" if "st = pc_state p" for st b p
  proof -
    have P: "placed w" and A: "awaited w" and W: "wired w" using inv by (simp_all add: cycle_inv_def)
    let ?w = "w\<lparr>mgr := (mgr w)\<lparr>mstate := st, blacklist := b\<rparr>, pc := p\<rparr>"
    have eq: "pending ?w = pending w" "waiting (mgr ?w) = waiting (mgr w)"
      "later (mgr ?w) = later (mgr w)" "sync (mgr ?w) = sync (mgr w)"
      "scheduled (mgr ?w) = scheduled (mgr w)"
      by (simp_all add: pending_def waiting_def later_def sync_def scheduled_def fun_eq_iff)
    have "placed ?w" using P unfolding placed_def eq by simp
    moreover have "awaited ?w" using A none unfolding awaited_def eq by auto
    moreover have "counters_ok ((mgr w)\<lparr>mstate := st, blacklist := b\<rparr>)"
      using W counters_ok_cong [of "(mgr w)\<lparr>mstate := st, blacklist := b\<rparr>" "mgr w"] by (simp add: wired_def)
    then have "wired ?w" using W that by (simp add: wired_def)
    ultimately show ?thesis by (simp add: cycle_inv_def)
  qed
  from *[of CYCLE_MAIN "Entered MAIN" "blacklist (mgr w)"] *[of CYCLE_CLEAN_UP "Entered CLEAN_UP" "blacklist (mgr w)"]
    *[of READY Idle "{}"]
  show "cycle_inv (leave_phase ph w)" by (cases ph) (simp_all add: end_cycle_def ResetContinuationRequeueBlacklist_def)
  have same: "(mgr w)\<lparr>mstate := mstate (mgr w), blacklist := blacklist (mgr w)\<rparr> = mgr w" by simp
  assume "pc w = Entered ph \<or> pc w = Waiting ph"
  then have "mstate (mgr w) = pc_state (Leaving ph)" using wired_channel(3) [OF inv] by auto
  from *[OF this, of "blacklist (mgr w)"] show "cycle_inv (w\<lparr>pc := Leaving ph\<rparr>)" by simp
qed

lemma not_pending_finished:
  assumes "cycle_inv w" "pc w = Waiting ph" "counters (mgr w) (phase_counter (mgr w) ph) = 0"
    and "sync (mgr w) j"
  shows "j \<notin># pending w"
  using assms counters_ok_zero [OF wired_channel(2) [OF assms(1)] assms(3), of j]
  by (auto simp: cycle_inv_def awaited_def)

lemma pending_sync_waits:
  assumes "cycle_inv w" "sync (mgr w) j" "j \<in># pending w"
  shows "pc w = Waiting (j_phase (jobs (mgr w) j))"
  using assms by (simp add: cycle_inv_def awaited_def)

lemma execute_queue_inv:
  assumes inv: "cycle_inv w" and pcw: "pc w = Entered ph"
  shows "cycle_inv (execute_queue ph w)"
proof (cases "queue (mgr w) ph = []")
  case True
  then show ?thesis
    using leave_phase_inv(2) [OF inv, of ph] pcw pending_sync_waits [OF inv]
    by (fastforce simp: execute_queue_def)
next
  case False
  let ?s = "(mgr w)\<lparr>queue := (queue (mgr w))(ph := [])\<rparr>"
  have op: "\<not> x_closed ?s" and ok: "counters_ok ?s"
    using wired_channel(1,2) [OF inv] counters_ok_cong [of ?s "mgr w"] by simp_all
  from schedule_jobs_split [OF op, of "phase_counter (mgr w) ph" "queue (mgr w) ph"]
  obtain rs ns ds where "scheduled_split (phase_counter (mgr w) ph) (queue (mgr w) ph) ?s rs ns ds
      (ScheduleAllJobsInQueue ph (mgr w))" unfolding ScheduleAllJobsInQueue_def by blast
  then have sp: "scheduled_split (phase_counter (mgr w) ph) (queue (mgr w) ph) (mgr w) rs ns ds
      (ScheduleAllJobsInQueue ph (mgr w))"
    by (simp add: scheduled_split_def)
  have "cycle_inv (w\<lparr>mgr := ScheduleAllJobsInQueue ph (mgr w), pc := Waiting ph\<rparr>)"
    by (rule inv_scheduled [OF inv _ sp, where extra = "{#}"])
      (use pcw schedule_jobs_counters_ok [OF ok] in \<open>simp_all add: ScheduleAllJobsInQueue_def\<close>)
  with False show ?thesis by (simp add: execute_queue_def)
qed

lemma start_fiber_inv:
  assumes inv: "cycle_inv w" and ch: "x_channel (mgr w) = (j, bound) # rest"
  shows "cycle_inv (start_fiber j bound rest w)"
proof -
  have P: "placed w" and A: "awaited w" and W: "wired w" using inv by (simp_all add: cycle_inv_def)
  from W ch have b: "bound" by (simp add: wired_def)
  let ?w = "start_fiber j bound rest w"
  have fr: "queue (mgr ?w) = queue (mgr w)" "later (mgr ?w) = later (mgr w)"
    "j_phase (jobs (mgr ?w) k) = j_phase (jobs (mgr w) k)"
    "j_async (jobs (mgr ?w) k) = j_async (jobs (mgr w) k)"
    "j_counters (jobs (mgr ?w) k) = j_counters (jobs (mgr w) k)"
    "phase_counter (mgr ?w) = phase_counter (mgr w)" "next_cref (mgr ?w) = next_cref (mgr w)"
    "mstate (mgr ?w) = mstate (mgr w)" "counters (mgr ?w) = counters (mgr w)"
    "x_channel (mgr ?w) = rest" "x_closed (mgr ?w) = x_closed (mgr w)"
    "x_managed (mgr ?w) = x_managed (mgr w)" "pc ?w = pc w" for k
    using b by (simp_all add: start_fiber_def Let_def split_beta Execute_begin_def later_def)
  have sy: "sync (mgr ?w) = sync (mgr w)" by (simp add: sync_def fr fun_eq_iff)
  have wt: "waiting (mgr ?w) = waiting (mgr w)" by (rule waiting_cong) (rule fr)
  have sr: "scheduled (mgr ?w) + running_of (fibers ?w) = scheduled (mgr w) + running_of (fibers w)"
    and fi: "finishing_of (fibers ?w) = finishing_of (fibers w)"
    using b ch by (simp_all add: start_fiber_def Let_def split_beta Execute_begin_def scheduled_def)
  have pe: "pending ?w = pending w" using sr fi by (simp add: pending_def)
  have sr': "count (scheduled (mgr ?w)) k + count (running_of (fibers ?w)) k
      = count (scheduled (mgr w)) k + count (running_of (fibers w)) k" for k
    using arg_cong [OF sr, of "\<lambda>M. count M k"] by simp
  have "placed ?w"
  proof (rule placedI)
    fix k assume "sync (mgr ?w) k"
    then have s: "sync (mgr w) k" by (simp add: sy)
    show "count (waiting (mgr ?w)) k + count (pending ?w) k \<le> 1"
      using placed_counts(1) [OF P s] by (simp add: pe wt)
    show "count (waiting (mgr ?w)) k + count (later (mgr ?w)) k + count (scheduled (mgr ?w)) k
        + count (running_of (fibers ?w)) k \<le> 1"
      using placed_counts(2) [OF P s] sr' [of k] unfolding wt fr by linarith
  qed (use P in \<open>simp add: placed_def fr\<close>)
  moreover have "awaited ?w" using A unfolding awaited_def pe sy fr .
  moreover have "counters_ok (mgr ?w)"
    using W counters_ok_cong [of "mgr ?w" "mgr w"] fr by (simp add: wired_def)
  then have "wired ?w" using W ch unfolding wired_def fr by simp
  ultimately show ?thesis by (simp add: cycle_inv_def)
qed

lemma end_workload_effect:
  "queue (end_workload j oc m) = queue m"
  "x_channel (end_workload j oc m) = x_channel m"
  "x_closed (end_workload j oc m) = x_closed m"
  "x_managed (end_workload j oc m) = x_managed m"
  "phase_counter (end_workload j oc m) = phase_counter m"
  "next_cref (end_workload j oc m) = next_cref m"
  "mstate (end_workload j oc m) = mstate m"
  "counters (end_workload j oc m) = counters m"
  "blacklist (end_workload j oc m) = blacklist m"
  "j_id (jobs (end_workload j oc m) k) = j_id (jobs m k)"
  "j_phase (jobs (end_workload j oc m) k) = j_phase (jobs m k)"
  "j_async (jobs (end_workload j oc m) k) = j_async (jobs m k)"
  "j_counters (jobs (end_workload j oc m) k) = j_counters (jobs m k)"
  by (cases oc; simp add: end_workload_def Let_def)+

lemma end_workload_queue:
  "next_cycle_queue (end_workload j oc m) = next_cycle_queue m @
     (if oc = Returns REQUEUE \<and> j_id (jobs m j) \<notin> blacklist m then [j] else [])"
  by (cases oc) (auto simp: end_workload_def KickNext_queue)

lemma ended_inv:
  assumes inv: "cycle_inv w" and fs: "fibers w = xs @ Running j [] oc # ys"
  shows "cycle_inv (w\<lparr>mgr := end_workload j oc (mgr w), fibers := xs @ Finishing j # ys\<rparr>)"
proof -
  have P: "placed w" and A: "awaited w" and W: "wired w" using inv by (simp_all add: cycle_inv_def)
  let ?m = "end_workload j oc (mgr w)"
  let ?w = "w\<lparr>mgr := ?m, fibers := xs @ Finishing j # ys\<rparr>"
  note fr = end_workload_effect
  have sy: "sync ?m = sync (mgr w)" by (simp add: sync_def fr fun_eq_iff)
  have wt: "waiting ?m = waiting (mgr w)" by (rule waiting_cong) (rule fr)
  have sc: "scheduled ?m = scheduled (mgr w)" by (simp add: scheduled_def fr)
  have pe: "pending ?w = pending w" by (simp add: pending_def sc fs)
  have run: "running_of (fibers w) = add_mset j (running_of (fibers ?w))" by (simp add: fs)
  have la: "count (later ?m) k \<le> count (later (mgr w)) k + (if k = j then 1 else 0)" for k
    by (simp add: later_def end_workload_queue)
  have "placed ?w"
  proof (rule placedI)
    fix k assume "sync (mgr ?w) k"
    then have s: "sync (mgr w) k" by (simp add: sy)
    show "count (waiting (mgr ?w)) k + count (pending ?w) k \<le> 1"
      using placed_counts(1) [OF P s] by (simp add: pe wt)
    have "count (running_of (fibers w)) k = count (running_of (fibers ?w)) k + (if k = j then 1 else 0)"
      by (simp add: run)
    then show "count (waiting (mgr ?w)) k + count (later (mgr ?w)) k + count (scheduled (mgr ?w)) k
        + count (running_of (fibers ?w)) k \<le> 1"
      using placed_counts(2) [OF P s] la [of k] by (simp add: wt sc del: running_of_append)
  qed (use P in \<open>simp add: placed_def fr\<close>)
  moreover have "awaited ?w" using A by (simp add: awaited_def pe sy fr del: not_in_iff)
  moreover have "counters_ok ?m"
    using W counters_ok_cong [of ?m "mgr w"] by (simp add: wired_def fr)
  then have "wired ?w" using W by (simp add: wired_def fr)
  ultimately show ?thesis by (simp add: cycle_inv_def)
qed

lemma finished_inv:
  assumes inv: "cycle_inv w" and fs: "fibers w = xs @ Finishing j # ys"
  shows "cycle_inv (w\<lparr>mgr := FinishJob j (mgr w), fibers := xs @ ys\<rparr>)"
proof -
  have P: "placed w" and A: "awaited w" and W: "wired w" using inv by (simp_all add: cycle_inv_def)
  let ?w = "w\<lparr>mgr := FinishJob j (mgr w), fibers := xs @ ys\<rparr>"
  let ?m = "FinishJob j (mgr w)"
  have eq: "waiting ?m = waiting (mgr w)" "later ?m = later (mgr w)"
    "scheduled ?m = scheduled (mgr w)" "sync ?m = sync (mgr w)"
    "running_of (xs @ ys) = running_of (fibers w)"
    by (simp_all add: waiting_def later_def scheduled_def sync_def fs fun_eq_iff)
  have pe: "pending w = add_mset j (pending ?w)" by (simp add: pending_def eq fs)
  have "placed ?w"
  proof (rule placedI)
    fix k assume "sync (mgr ?w) k"
    then have s: "sync (mgr w) k" by (simp add: eq)
    show "count (waiting (mgr ?w)) k + count (pending ?w) k \<le> 1"
      using placed_counts(1) [OF P s] by (simp add: pe eq split: if_splits)
    show "count (waiting (mgr ?w)) k + count (later (mgr ?w)) k + count (scheduled (mgr ?w)) k
        + count (running_of (fibers ?w)) k \<le> 1"
      using placed_counts(2) [OF P s] by (simp add: eq del: running_of_append)
  qed (use P in \<open>simp add: placed_def\<close>)
  moreover have gone: "k \<noteq> j" if "sync (mgr w) k" "k \<in># pending ?w" for k
    using placed_counts(1) [OF P that(1)] that(2) by (auto simp: pe count_eq_zero_iff)
  have "awaited ?w"
    unfolding awaited_def
  proof (intro conjI allI impI)
    fix k assume k: "sync (mgr ?w) k" "k \<in># pending ?w"
    then have s: "sync (mgr w) k" "k \<in># pending w" by (simp_all add: eq pe)
    with A gone [OF s(1) k(2)]
    show "pc ?w = Waiting (j_phase (jobs (mgr ?w) k))"
      "phase_counter (mgr ?w) (j_phase (jobs (mgr ?w) k)) \<in> set (j_counters (jobs (mgr ?w) k))"
      by (simp_all add: awaited_def)
  next
    fix k p assume "phase_counter (mgr ?w) p \<in> set (j_counters (jobs (mgr ?w) k))"
    then have "k \<noteq> j" "phase_counter (mgr w) p \<in> set (j_counters (jobs (mgr w) k))"
      by (simp_all split: if_splits)
    with A have "sync (mgr w) k" "k \<in># pending w" by (auto simp: awaited_def)
    with \<open>k \<noteq> j\<close> show "sync (mgr ?w) k" "k \<in># pending ?w" by (simp_all add: pe eq)
  qed
  moreover have "wired ?w"
    using W counters_ok_FinishJob [of "mgr w" j] by (simp add: wired_def)
  ultimately show ?thesis by (simp add: cycle_inv_def)
qed

lemma invoke_cycle_inv:
  assumes inv: "cycle_inv w" and idle: "pc w = Idle"
  shows "cycle_inv (invoke_cycle w)"
proof -
  have P: "placed w" and A: "awaited w" and W: "wired w" using inv by (simp_all add: cycle_inv_def)
  from W idle have r: "mstate (mgr w) = READY" by (simp add: wired_def)
  let ?m = "begin_cycle (mgr w)" and ?w = "invoke_cycle w"
  note fr = begin_cycle_effect [OF r]
  have w': "mgr ?w = ?m" "fibers ?w = fibers w" "pc ?w = Entered INIT"
    by (simp_all add: invoke_cycle_def)
  have sy: "sync ?m = sync (mgr w)" by (simp add: sync_def fr fun_eq_iff)
  have sc: "scheduled ?m = scheduled (mgr w)" by (simp add: scheduled_def fr)
  have la: "later ?m = {#}" by (simp add: later_def fr)
  have pe: "pending ?w = pending w" by (simp add: pending_def sc w')
  have none: "k \<notin># pending w" if "sync (mgr w) k" for k
    using pending_sync_waits [OF inv that] idle by auto
  have split: "mset js = filter_mset (\<lambda>j. f j = INIT) (mset js) + filter_mset (\<lambda>j. f j = MAIN) (mset js)
      + filter_mset (\<lambda>j. f j = CLEAN_UP) (mset js)" for f :: "jref \<Rightarrow> phase" and js
  proof (induction js)
    case (Cons j js)
    then show ?case by (cases "f j") simp_all
  qed simp
  have wt: "waiting ?m = waiting (mgr w) + later (mgr w)"
    using split [of "next_cycle_queue (mgr w)" "\<lambda>j. j_phase (jobs (mgr w) j)", symmetric]
    by (simp add: waiting_def later_def fr mset_filter add.assoc)
  have "placed ?w"
  proof (rule placedI)
    fix k assume "sync (mgr ?w) k"
    then have s: "sync (mgr w) k" by (simp add: sy w')
    show "count (waiting (mgr ?w)) k + count (pending ?w) k \<le> 1"
      using placed_counts [OF P s] none [OF s] by (simp add: pe w' wt not_in_iff)
    show "count (waiting (mgr ?w)) k + count (later (mgr ?w)) k + count (scheduled (mgr ?w)) k
        + count (running_of (fibers ?w)) k \<le> 1"
      using placed_counts [OF P s] by (simp add: w' wt la sc)
  qed (use P in \<open>auto simp: placed_def w' fr\<close>)
  note * = this
  have new: "phase_counter ?m p \<notin> set (j_counters (jobs (mgr w) k))" for k p
    using W fr(15) [of p] by (fastforce simp: wired_def)
  have **: "awaited ?w"
    using none new by (simp add: awaited_def pe w' sy fr)
  have "counters_ok ?m"
    by (rule begin_cycle_counters_ok [OF r]) (use W in \<open>auto simp: wired_def\<close>)
  moreover have "c < next_cref (mgr w) + 3" if "c \<in> set (j_counters (jobs (mgr w) k))" for c k
    using W that by (fastforce simp: wired_def)
  moreover have "phase_counter ?m p < next_cref (mgr w) + 3" for p
    using fr(16) [of p] by (simp add: fr)
  ultimately have "wired ?w" using W by (simp add: wired_def w' fr)
  with * ** show ?thesis by (simp add: cycle_inv_def)
qed

lemma job_step_inv:
  assumes "job_step disciplined w w'" and "cycle_inv w"
  shows "cycle_inv w'"
  using assms
proof (induction rule: job_step.induct)
  case (waited w ph)
  then show ?case using leave_phase_inv(2) [of w ph] not_pending_finished [of w ph] by simp
next
  case (leave w ph)
  then show ?case using leave_phase_inv(1) [of w ph] pending_sync_waits [of w] by fastforce
next
  case (command w xs j cmd cmds oc ys)
  then show ?case using inv_fibers_cong [OF issue_inv [of w cmd], of "xs @ Running j cmds oc # ys"] by simp
next
  case (tick d w)
  show ?case by (rule inv_moved_out [OF tick(2)]) (simp_all add: waiting_def later_def)
qed (simp_all add: invoke_cycle_inv execute_queue_inv start_fiber_inv ended_inv finished_inv
  KickJob_inv DetachJob_inv)

interpretation job_cycle: invariant_system "\<lambda>w. \<exists>js u. (\<forall>j. j_counters (js j) = []) \<and> w = initial_world js u"
  "job_step disciplined" cycle_inv
  by unfold_locales (blast intro: initial_inv, rule job_step_inv)

lemmas job_run_inv = job_cycle.inv_steps [folded job_run_def]

end
