(* ===== verification/Job_Properties.thy ===== *)
theory Job_Properties
  imports Job_Cycle
begin

text \<open>
  What the job system promises: synchronous jobs run in their phase and the cycle waits
  for exactly them; jobs are handed over in order and none is left behind; detaching;
  timer jobs; starting and stopping the execution. Two runs show where the promises end:
  the window in which a kicked job escapes the cycle, and a detached job that comes back.
\<close>

section \<open>Invariants of the unrestricted system\<close>

definition core_inv :: "'u world \<Rightarrow> bool" where
  "core_inv w \<longleftrightarrow> wired w \<and>
     (\<forall>ph. pc w = Waiting ph \<longrightarrow> queue (mgr w) ph = [])"

lemma wired_scheduled:
  assumes W: "wired w" and split: "scheduled_split (phase_counter (mgr w) ph) js (mgr w) rs ns ds m'"
    and fr: "x_closed m' = x_closed (mgr w)" "x_managed m' = x_managed (mgr w)"
      "mstate m' = mstate (mgr w)" "phase_counter m' = phase_counter (mgr w)"
      "next_cref m' = next_cref (mgr w)"
    and ok: "counters_ok m'" and p: "pc_state p = pc_state (pc w)"
  shows "wired (w\<lparr>mgr := m', pc := p\<rparr>)"
  using W split ok p by (auto simp: wired_def fr scheduled_split_def split: if_splits)

lemma wired_same:
  assumes W: "wired w" and fr: "x_closed m' = x_closed (mgr w)" "x_managed m' = x_managed (mgr w)"
      "x_channel m' = x_channel (mgr w)" "phase_counter m' = phase_counter (mgr w)"
      "next_cref m' = next_cref (mgr w)" "counters m' = counters (mgr w)"
      "\<And>j. j_counters (jobs m' j) = j_counters (jobs (mgr w) j)"
    and p: "mstate m' = pc_state p"
  shows "wired (w\<lparr>mgr := m', pc := p, fibers := fs\<rparr>)"
proof -
  have "counters_ok m'" using W counters_ok_cong [of m' "mgr w"] by (simp add: wired_def fr)
  with W p show ?thesis by (simp add: wired_def fr)
qed

lemma world_same_pc_fibers:
  "pc w = p \<Longrightarrow> fibers w = fs \<Longrightarrow> w\<lparr>mgr := m, pc := p, fibers := fs\<rparr> = w\<lparr>mgr := m\<rparr>"
  by (rule world.equality) simp_all

lemma world_same_fibers: "fibers w = fs \<Longrightarrow> w\<lparr>mgr := m, pc := p, fibers := fs\<rparr> = w\<lparr>mgr := m, pc := p\<rparr>"
  by (rule world.equality) simp_all

lemma KickJob_core:
  assumes c: "core_inv w"
  shows "core_inv (w\<lparr>mgr := KickJob j (mgr w)\<rparr>)"
proof (cases "mstate (mgr w) = cycle_state (j_phase (jobs (mgr w) j))")
  case True
  have W: "wired w" using c by (simp add: core_inv_def)
  then have op: "\<not> x_closed (mgr w)" and ok: "counters_ok (mgr w)" by (simp_all add: wired_def)
  note eff = KickJob_current_effect [OF True op]
  from eff(2) obtain rs ns ds where "scheduled_split (phase_counter (mgr w) (j_phase (jobs (mgr w) j)))
      (queue (mgr w) (j_phase (jobs (mgr w) j)) @ [j]) (mgr w) rs ns ds (KickJob j (mgr w))" by blast
  from wired_scheduled [OF W this, where p = "pc w"] have "wired (w\<lparr>mgr := KickJob j (mgr w)\<rparr>)"
    using KickJob_counters_ok [OF ok] unfolding world_same_pc [OF refl] by simp
  with c show ?thesis by (simp add: core_inv_def eff(1))
next
  case False
  note eff = KickJob_other_effect [OF False]
  have W: "wired w" using c by (simp add: core_inv_def)
  have "wired (w\<lparr>mgr := KickJob j (mgr w)\<rparr>)"
    using wired_same [OF W, of "KickJob j (mgr w)" "pc w" "fibers w"] W eff
    unfolding world_same_pc_fibers [OF refl refl] by (simp add: wired_def)
  moreover have "pc w \<noteq> Waiting (j_phase (jobs (mgr w) j))" using False W by (auto simp: wired_def)
  ultimately show ?thesis using c by (simp add: core_inv_def eff(1))
qed

lemma DetachJob_core:
  assumes c: "core_inv w"
  shows "core_inv (w\<lparr>mgr := DetachJob i (mgr w)\<rparr>)"
proof -
  have W: "wired w" using c by (simp add: core_inv_def)
  then have "wired (w\<lparr>mgr := DetachJob i (mgr w)\<rparr>)"
    using wired_same [OF W, of "DetachJob i (mgr w)" "pc w" "fibers w"]
    unfolding world_same_pc_fibers [OF refl refl] by (simp add: wired_def)
  with c show ?thesis by (simp add: core_inv_def)
qed

lemma core_fibers: fixes fs shows "core_inv (w\<lparr>fibers := fs\<rparr>) = core_inv w"
  by (simp add: core_inv_def wired_def)

lemma execute_queue_core:
  assumes c: "core_inv w" and p: "pc w = Entered ph"
  shows "core_inv (execute_queue ph w)"
proof (cases "queue (mgr w) ph = []")
  case True
  then show ?thesis using c p by (auto simp: execute_queue_def core_inv_def wired_def)
next
  case False
  have W: "wired w" using c by (simp add: core_inv_def)
  let ?s = "(mgr w)\<lparr>queue := (queue (mgr w))(ph := [])\<rparr>"
  have op: "\<not> x_closed ?s" and ok: "counters_ok ?s"
    using W counters_ok_cong [of ?s "mgr w"] by (simp_all add: wired_def)
  from schedule_jobs_split [OF op, of "phase_counter (mgr w) ph" "queue (mgr w) ph"]
  obtain rs ns ds where "scheduled_split (phase_counter (mgr w) ph) (queue (mgr w) ph) (mgr w) rs ns ds
      (ScheduleAllJobsInQueue ph (mgr w))" by (auto simp: ScheduleAllJobsInQueue_def scheduled_split_def)
  from wired_scheduled [OF W this, where p = "Waiting ph"] p
  have "wired (w\<lparr>mgr := ScheduleAllJobsInQueue ph (mgr w), pc := Waiting ph\<rparr>)"
    using schedule_jobs_counters_ok [OF ok] by (simp add: ScheduleAllJobsInQueue_def)
  with c False show ?thesis
    by (simp add: execute_queue_def core_inv_def ScheduleAllJobsInQueue_def)
qed

lemma leave_phase_core:
  assumes c: "core_inv w"
  shows "core_inv (leave_phase ph w)"
proof -
  have W: "wired w" using c by (simp add: core_inv_def)
  have "wired (leave_phase ph w)"
    using wired_same [OF W, of "(mgr w)\<lparr>mstate := CYCLE_MAIN\<rparr>" "Entered MAIN" "fibers w"]
      wired_same [OF W, of "(mgr w)\<lparr>mstate := CYCLE_CLEAN_UP\<rparr>" "Entered CLEAN_UP" "fibers w"]
      wired_same [OF W, of "end_cycle (mgr w)" Idle "fibers w"]
    unfolding world_same_fibers [OF refl]
    by (cases ph) (simp_all add: end_cycle_def ResetContinuationRequeueBlacklist_def)
  with c show ?thesis
    by (cases ph) (simp_all add: core_inv_def end_cycle_def ResetContinuationRequeueBlacklist_def)
qed

lemma start_fiber_core:
  assumes c: "core_inv w" and ch: "x_channel (mgr w) = (j, bound) # rest"
  shows "core_inv (start_fiber j bound rest w)"
proof -
  have W: "wired w" using c by (simp add: core_inv_def)
  then have b: bound using ch by (simp add: wired_def)
  let ?m = "Execute_begin j ((mgr w)\<lparr>x_channel := rest\<rparr>)"
  have "counters_ok ?m"
    using W counters_ok_cong [of ?m "mgr w"] by (simp add: wired_def Execute_begin_def)
  with W ch c b show ?thesis
    by (simp add: core_inv_def wired_def start_fiber_def Let_def split_beta Execute_begin_def)
qed

lemma ended_core:
  assumes c: "core_inv w"
  shows "core_inv (w\<lparr>mgr := end_workload j oc (mgr w), fibers := fs\<rparr>)"
proof -
  have W: "wired w" using c by (simp add: core_inv_def)
  have "counters_ok (end_workload j oc (mgr w))"
    using W counters_ok_cong [of "end_workload j oc (mgr w)" "mgr w"]
    by (simp add: wired_def end_workload_effect)
  with W c show ?thesis by (simp add: core_inv_def wired_def end_workload_effect)
qed

lemma finished_core:
  assumes c: "core_inv w"
  shows "core_inv (w\<lparr>mgr := FinishJob j (mgr w), fibers := fs\<rparr>)"
  using c by (simp add: core_inv_def wired_def counters_ok_FinishJob)

lemma invoke_cycle_core:
  assumes c: "core_inv w" and idle: "pc w = Idle"
  shows "core_inv (invoke_cycle w)"
proof -
  have W: "wired w" using c by (simp add: core_inv_def)
  with idle have r: "mstate (mgr w) = READY" by (simp add: wired_def)
  note fr = begin_cycle_effect [OF r]
  have "counters_ok (begin_cycle (mgr w))"
    by (rule begin_cycle_counters_ok [OF r]) (use W in \<open>auto simp: wired_def\<close>)
  moreover have "c < next_cref (mgr w) + 3" if "c \<in> set (j_counters (jobs (mgr w) k))" for c k
    using W that by (fastforce simp: wired_def)
  moreover have "phase_counter (begin_cycle (mgr w)) p < next_cref (mgr w) + 3" for p
    using fr(16) [of p] by (simp add: fr)
  ultimately show ?thesis using W by (simp add: core_inv_def wired_def invoke_cycle_def fr)
qed

lemma job_step_core: "job_step kick_ok w w' \<Longrightarrow> core_inv w \<Longrightarrow> core_inv w'"
proof (induction rule: job_step.induct)
  case (waited w ph)
  then show ?case by (auto simp: core_inv_def wired_def)
next
  case (command w xs j cmd cmds oc ys)
  then show ?case
    using core_fibers [of "xs @ Running j cmds oc # ys" "w\<lparr>mgr := issue cmd (mgr w)\<rparr>"]
    by (cases cmd) (simp_all add: KickJob_core DetachJob_core)
next
  case (tick d w)
  have "counters_ok ((mgr w)\<lparr>clock := clock (mgr w) + d\<rparr>) = counters_ok (mgr w)"
    by (rule counters_ok_cong) simp_all
  with tick show ?case by (simp add: core_inv_def wired_def)
qed (simp_all add: invoke_cycle_core execute_queue_core start_fiber_core ended_core finished_core
  KickJob_core DetachJob_core leave_phase_core)

lemma initial_core: "(\<And>j. j_counters (js j) = []) \<Longrightarrow> core_inv (initial_world js u)"
  by (simp add: core_inv_def wired_def initial_world_def counters_ok_def attached_def)

interpretation job_core: invariant_system "\<lambda>w. \<exists>js u. (\<forall>j. j_counters (js j) = []) \<and> w = initial_world js u"
  "job_step kick_ok" core_inv for kick_ok
  by unfold_locales (blast intro: initial_core, rule job_step_core)

lemma job_run_core:
  assumes "job_run kick_ok (initial_world js u) w" and "\<And>j. j_counters (js j) = []"
  shows "core_inv w"
  using job_core.inv_run [OF _ assms(1) [unfolded job_run_def]] assms(2) by blast

lemma job_run_cycle_inv:
  assumes "job_run disciplined (initial_world js u) w" and "\<And>j. j_counters (js j) = []"
  shows "cycle_inv w"
  by (rule job_run_inv [OF assms(1)], rule initial_inv, rule assms(2))

section \<open>A small run\<close>

text \<open>
  Job 0 is a synchronous job of the first phase, all others are synchronous jobs of the
  second phase; job 0 is kicked, a cycle begins and looks at its first queue.
\<close>

definition example_jobs :: "jref \<Rightarrow> unit job" where
  "example_jobs j = make_job (\<lambda>_ u. (u, [], Returns REQUEUE)) ''job'' (if j = 0 then INIT else MAIN) False"

definition example_kicked :: "unit world" where
  "example_kicked = (initial_world example_jobs ())\<lparr>mgr := KickJob 0 (mgr (initial_world example_jobs ()))\<rparr>"

definition example_waiting :: "unit world" where
  "example_waiting = execute_queue INIT (invoke_cycle example_kicked)"

lemma example_jobs_counters: "j_counters (example_jobs j) = []"
  by (simp add: example_jobs_def make_job_def)

lemma example_kicked_run:
  assumes "kick_ok (initial_world example_jobs ()) 0"
  shows "job_run kick_ok (initial_world example_jobs ()) example_waiting"
proof -
  let ?w0 = "initial_world example_jobs ()"
  have 1: "job_step kick_ok ?w0 example_kicked"
    unfolding example_kicked_def by (rule job_step.kick) (rule assms)
  have 2: "job_step kick_ok example_kicked (invoke_cycle example_kicked)"
    by (rule job_step.begin_cycle) (simp add: example_kicked_def initial_world_def)
  have 3: "job_step kick_ok (invoke_cycle example_kicked) example_waiting"
    unfolding example_waiting_def by (rule job_step.run_phase) (simp add: invoke_cycle_def)
  show ?thesis
    unfolding job_run_def
    by (rule rtranclp.rtrancl_into_rtrancl [OF rtranclp.rtrancl_into_rtrancl [OF r_into_rtranclp [where r = "job_step kick_ok", OF 1] 2] 3])
qed

lemmas job_eval = KickJob_def push_queue_def Let_def initial_world_def ScheduleAllJobsInQueue_def
  schedule_job_def IsReadyForExecution_def Schedule_def SetState_def AddCounter_def update_job_def
  begin_cycle_def move_next_cycle_jobs_def fresh_counters_def ResetContinuationRequeueBlacklist_def
  invoke_cycle_def execute_queue_def make_job_def counter_increase_def end_cycle_def
  start_fiber_def Execute_begin_def end_workload_def KickJobForNextCycle_def FinishJob_def
  DetachJob_def remove_from_phase_def

lemma example_waiting_facts:
  "pc example_waiting = Waiting INIT" "pending example_waiting = {#0#}"
  "j_async (jobs (mgr example_waiting) 0) = False" "j_phase (jobs (mgr example_waiting) 0) = INIT"
  by (simp_all add: example_waiting_def example_kicked_def example_jobs_def job_eval
      pending_def scheduled_def)

lemma example_disciplined: "disciplined (initial_world example_jobs ()) 0"
  by (simp add: disciplined_def initial_world_def example_jobs_def make_job_def waiting_def
      later_def pending_def scheduled_def)

lemma example_run: "job_run disciplined (initial_world example_jobs ()) example_waiting"
  by (rule example_kicked_run) (rule example_disciplined)

section \<open>Phases\<close>

text \<open>
  C1: in a run in which every kick is \<open>disciplined\<close>, a synchronous job is handed to the
  execution, runs and finishes only while the cycle waits in the phase of that job; in
  particular no synchronous job of an earlier phase is still pending when a later phase, or
  the next cycle, begins. A kick of a job is disciplined when the job is asynchronous or is
  in no queue and not pending (it is not kicked again before it has finished), and when the
  cycle is neither about to look at the queue of the phase of the job (\<open>Entered\<close>) nor
  between its wait for that phase and the next one (\<open>Leaving\<close>). The code does not enforce
  this condition, and without it the claim does not hold: see the kicks in the two windows
  at the end of this theory.
\<close>

theorem sync_jobs_stay_in_their_phase:
  assumes "\<And>j. j_counters (js j) = []"
    and "job_run disciplined (initial_world js u) w"
    and "\<not> j_async (jobs (mgr w) j)" and "j \<in># pending w"
  shows "pc w = Waiting (j_phase (jobs (mgr w) j))"
  using pending_sync_waits [OF job_run_cycle_inv [OF assms(2,1)]] assms(3,4) by (simp add: sync_def)

theorem sync_jobs_stay_in_their_phase_witness:
  "pc example_waiting = Waiting (j_phase (jobs (mgr example_waiting) 0))"
  by (rule sync_jobs_stay_in_their_phase [OF example_jobs_counters example_run])
    (simp_all add: example_waiting_facts)

text \<open>
  C28: in a run in which every kick is \<open>disciplined\<close> (no job is kicked in its phase's
  \<open>Entered\<close> and \<open>Leaving\<close> windows, no synchronous job is kicked while it is queued or
  pending), while the cycle waits in a phase, the counter it waits for is finished exactly
  when no synchronous job is pending: the wait neither ends early nor misses its wake-up,
  and asynchronous jobs never prolong it.
\<close>

theorem wait_ends_exactly_when_done:
  assumes "\<And>j. j_counters (js j) = []"
    and "job_run disciplined (initial_world js u) w" and "pc w = Waiting ph"
  shows "counter_finished (counters (mgr w) (phase_counter (mgr w) ph)) \<longleftrightarrow>
    {#j \<in># pending w. \<not> j_async (jobs (mgr w) j)#} = {#}"
proof -
  note inv = job_run_cycle_inv [OF assms(2,1)]
  let ?c = "phase_counter (mgr w) ph"
  have ok: "counters_ok (mgr w)" by (rule wired_channel(2) [OF inv])
  have "counters (mgr w) ?c = 0" if none: "\<And>j. sync (mgr w) j \<Longrightarrow> j \<notin># pending w"
  proof -
    have "?c \<notin> set (j_counters (jobs (mgr w) j))" for j
      using inv none by (auto simp: cycle_inv_def awaited_def)
    then have "attached (mgr w) ?c = 0" by (simp add: attached_def count_list_0_iff)
    with ok show ?thesis by (simp add: counters_ok_def)
  qed
  moreover have "j \<notin># pending w" if "counters (mgr w) ?c = 0" "sync (mgr w) j" for j
    by (rule not_pending_finished [OF inv assms(3) that])
  ultimately show ?thesis by (auto simp: sync_def simp flip: set_mset_eq_empty_iff)
qed

theorem wait_ends_exactly_when_done_witness:
  "\<not> counter_finished (counters (mgr example_waiting) (phase_counter (mgr example_waiting) INIT))"
  using wait_ends_exactly_when_done [OF example_jobs_counters example_run, of INIT]
  by (simp add: example_waiting_facts)

text \<open>
  C27: in a run in which every kick is \<open>disciplined\<close> (no job is kicked in its phase's
  \<open>Entered\<close> and \<open>Leaving\<close> windows, no synchronous job is kicked while it is queued or
  pending), a synchronous job is in one place at a time: the queues of the phases and the
  execution (channel, running and finishing fibers) hold it at most once altogether, so
  it never runs twice in parallel, and the queue of the next cycle holds it at most once,
  whatever is requeued, detached or kicked by the jobs themselves.
\<close>

theorem sync_job_in_one_place:
  assumes "\<And>j. j_counters (js j) = []"
    and "job_run disciplined (initial_world js u) w" and "\<not> j_async (jobs (mgr w) j)"
  shows "count (waiting (mgr w) + pending w) j \<le> 1 \<and> count (later (mgr w)) j \<le> 1"
  using placed_counts [of w j] job_run_cycle_inv [OF assms(2,1)] assms(3)
  by (simp add: cycle_inv_def sync_def)

theorem sync_job_in_one_place_witness:
  "count (waiting (mgr example_waiting) + pending example_waiting) 0 \<le> 1"
  using sync_job_in_one_place [OF example_jobs_counters example_run, of 0]
  by (simp add: example_waiting_facts)

text \<open>
  C2: in every run, disciplined or not, each counter shows how often it is attached to
  jobs that have not finished, so no decrement ever wraps around and the release of a
  phase cannot come from a job that did not hold its counter.
\<close>

theorem counters_count_unfinished_jobs:
  assumes "\<And>j. j_counters (js j) = []" and "job_run kick_ok (initial_world js u) w"
  shows "counters (mgr w) c = attached (mgr w) c"
  using job_run_core [OF assms(2,1)] by (simp add: core_inv_def wired_def counters_ok_def)

theorem counters_count_unfinished_jobs_witness:
  "counters (mgr example_waiting) 1 = attached (mgr example_waiting) 1"
  by (rule counters_count_unfinished_jobs [OF example_jobs_counters example_run])

text \<open>
  No job is left behind: while the cycle waits in a phase the queue of the phase is
  empty, because a job kicked during its own phase is scheduled at once.
\<close>

theorem queue_empty_while_waiting:
  assumes "\<And>j. j_counters (js j) = []" and "job_run kick_ok (initial_world js u) w"
    and "pc w = Waiting ph"
  shows "queue (mgr w) ph = []"
  using job_run_core [OF assms(2,1)] assms(3) by (simp add: core_inv_def)

theorem queue_empty_while_waiting_witness: "queue (mgr example_waiting) INIT = []"
  by (rule queue_empty_while_waiting [OF example_jobs_counters example_run])
    (simp add: example_waiting_facts)

section \<open>Handing over, requeueing, detaching\<close>

lemma schedule_job_other_timer:
  "k \<noteq> j \<Longrightarrow> j_timer (jobs (schedule_job c j s) k) = j_timer (jobs s k)"
  by (simp add: schedule_job_def split_beta Let_def IsReadyForExecution_def KickJobForNextCycle_def
      split: option.splits)

definition ready :: "('u, 'm) mgr_scheme \<Rightarrow> jref \<Rightarrow> bool" where
  "ready s j = fst (IsReadyForExecution (clock s) (clock s) j s)"

lemma ready_schedule_job: "k \<noteq> j \<Longrightarrow> ready (schedule_job c j s) k = ready s k"
  by (simp add: ready_def IsReadyForExecution_def schedule_job_other_timer split: option.splits)

lemma schedule_job_effect:
  assumes "\<not> x_closed s"
  shows "x_channel (schedule_job c j s) = x_channel s @ (if ready s j then [(j, x_managed s)] else [])"
    and "next_cycle_queue (schedule_job c j s) = next_cycle_queue s @
      (if \<not> ready s j \<and> j_id (jobs s j) \<notin> blacklist s then [j] else [])"
    and "counters (schedule_job c j s) c = counters s c + (if ready s j \<and> \<not> j_async (jobs s j) then 1 else 0)"
  using assms
  by (simp_all add: schedule_job_def split_beta Let_def ready_def KickNext_queue counter_increase_def
      AddCounter_def)

lemma schedule_jobs_effect:
  assumes "\<not> x_closed s" and "distinct js"
  shows "x_channel (schedule_jobs c js s) = x_channel s @ map (\<lambda>j. (j, x_managed s)) (filter (ready s) js) \<and>
    next_cycle_queue (schedule_jobs c js s) = next_cycle_queue s @
      filter (\<lambda>j. \<not> ready s j \<and> j_id (jobs s j) \<notin> blacklist s) js \<and>
    counters (schedule_jobs c js s) c = counters s c +
      length (filter (\<lambda>j. ready s j \<and> \<not> j_async (jobs s j)) js)"
  using assms
proof (induction js arbitrary: s)
  case (Cons j js)
  have other: "filter (\<lambda>k. P (ready (schedule_job c j s) k) k) js = filter (\<lambda>k. P (ready s k) k) js" for P
  proof (rule filter_cong)
    fix k assume "k \<in> set js"
    with Cons.prems(2) have "k \<noteq> j" by auto
    then show "P (ready (schedule_job c j s) k) k = P (ready s k) k" by (simp add: ready_schedule_job)
  qed simp
  from Cons.IH [of "schedule_job c j s"] Cons.prems show ?case
    using other [of "\<lambda>r _. r"] other [of "\<lambda>r k. \<not> r \<and> j_id (jobs s k) \<notin> blacklist s"]
      other [of "\<lambda>r k. r \<and> \<not> j_async (jobs s k)"]
    by (simp add: schedule_job_effect)
qed simp

text \<open>
  Emptying a queue hands its ready jobs to the execution in queue order and keeps the
  jobs that are not ready (timer jobs whose time has not come) in the same order for the
  next cycle, except those detached meanwhile; the counter of the phase grows by the
  number of synchronous jobs handed over.
\<close>

theorem ScheduleAllJobsInQueue_in_order:
  assumes "\<not> x_closed s" and "distinct (queue s ph)"
  shows "x_channel (ScheduleAllJobsInQueue ph s) =
      x_channel s @ map (\<lambda>j. (j, x_managed s)) (filter (ready s) (queue s ph)) \<and>
    next_cycle_queue (ScheduleAllJobsInQueue ph s) = next_cycle_queue s @
      filter (\<lambda>j. \<not> ready s j \<and> j_id (jobs s j) \<notin> blacklist s) (queue s ph) \<and>
    counters (ScheduleAllJobsInQueue ph s) (phase_counter s ph) = counters s (phase_counter s ph) +
      length (filter (\<lambda>j. ready s j \<and> \<not> j_async (jobs s j)) (queue s ph)) \<and>
    queue (ScheduleAllJobsInQueue ph s) ph = []"
proof -
  let ?s = "s\<lparr>queue := (queue s)(ph := [])\<rparr>"
  have r: "ready ?s = ready s" by (rule ext) (simp add: ready_def IsReadyForExecution_def split: option.splits)
  show ?thesis
    using schedule_jobs_effect [of ?s "queue s ph"] assms by (simp add: ScheduleAllJobsInQueue_def r)
qed

theorem ScheduleAllJobsInQueue_in_order_witness:
  "x_channel (ScheduleAllJobsInQueue INIT (mgr example_kicked)) = [(0, True)]"
proof -
  let ?s = "mgr example_kicked"
  have e: "\<not> x_closed ?s" "queue ?s INIT = [0]" "x_channel ?s = []" "x_managed ?s" "ready ?s 0"
    by (simp_all add: example_kicked_def example_jobs_def job_eval ready_def)
  show ?thesis using ScheduleAllJobsInQueue_in_order [of ?s INIT] e by simp
qed

text \<open>
  A cycle starts by moving the jobs that waited for it, in order, behind the jobs
  already kicked into the queues of their phases; none is dropped, whatever was
  blacklisted before, and every phase gets a counter of its own at zero.
\<close>

theorem cycle_takes_over_requeued_jobs:
  assumes "mstate s = READY"
  shows "queue (begin_cycle s) ph =
      queue s ph @ filter (\<lambda>j. j_phase (jobs s j) = ph) (next_cycle_queue s) \<and>
    next_cycle_queue (begin_cycle s) = [] \<and> blacklist (begin_cycle s) = {} \<and>
    counters (begin_cycle s) (phase_counter (begin_cycle s) ph) = 0 \<and>
    mstate (begin_cycle s) = CYCLE_INIT \<and> total_cycles (begin_cycle s) = total_cycles s + 1"
  using begin_cycle_effect [OF assms] by simp

theorem cycle_takes_over_requeued_jobs_witness:
  "queue (begin_cycle ((mgr example_kicked)\<lparr>next_cycle_queue := [7, 0]\<rparr>)) INIT = [0, 0]"
  using cycle_takes_over_requeued_jobs [of "(mgr example_kicked)\<lparr>next_cycle_queue := [7, 0]\<rparr>" INIT]
  by (simp add: example_kicked_def example_jobs_def job_eval)

text \<open>
  Detaching an id takes exactly the jobs of that id out of every queue and leaves the
  others in order; a job of that id which is running at that time is not requeued when it
  ends, whatever it returns, unless it has been kicked again.
\<close>

theorem DetachJob_removes_and_blocks:
  "queue (DetachJob i s) ph = filter (\<lambda>j. j_id (jobs s j) \<noteq> i) (queue s ph) \<and>
   next_cycle_queue (DetachJob i s) = filter (\<lambda>j. j_id (jobs s j) \<noteq> i) (next_cycle_queue s) \<and>
   next_cycle_queue (end_workload j oc (DetachJob (j_id (jobs s j)) s)) =
     next_cycle_queue (DetachJob (j_id (jobs s j)) s) \<and>
   next_cycle_queue (end_workload j (Returns REQUEUE) (KickJob j (DetachJob (j_id (jobs s j)) s))) =
     next_cycle_queue (KickJob j (DetachJob (j_id (jobs s j)) s)) @ [j]"
  by (simp add: end_workload_queue)

section \<open>Where the promises end\<close>

definition example_async :: "jref \<Rightarrow> unit job" where
  "example_async j = make_job (\<lambda>_ u. (u, [], Returns REQUEUE)) ''job'' MAIN True"

definition async_running :: "unit world" where
  "async_running =
     (let w = initial_world example_async ();
          w = execute_queue INIT (invoke_cycle (w\<lparr>mgr := KickJob 0 (mgr w)\<rparr>))
      in start_fiber 0 True [] (execute_queue MAIN (leave_phase INIT w)))"

definition async_detached :: "unit world" where
  "async_detached = async_running\<lparr>mgr := DetachJob ''job'' (mgr async_running)\<rparr>"

definition async_cycle_over :: "unit world" where
  "async_cycle_over =
     leave_phase CLEAN_UP (execute_queue CLEAN_UP (leave_phase MAIN (async_detached\<lparr>pc := Leaving MAIN\<rparr>)))"

definition async_ended :: "unit world" where
  "async_ended = async_cycle_over\<lparr>mgr := end_workload 0 (Returns REQUEUE) (mgr async_cycle_over),
     fibers := [Finishing 0]\<rparr>"

lemma job_run_refl: "job_run k w w"
  by (simp add: job_run_def)

lemma job_run_step: "job_run k w w' \<Longrightarrow> job_step k w' w'' \<Longrightarrow> job_run k w w''"
  unfolding job_run_def by (rule rtranclp.rtrancl_into_rtrancl)

lemma async_running_run: "job_run disciplined (initial_world example_async ()) async_running"
proof -
  let ?w0 = "initial_world example_async ()"
  let ?w1 = "?w0\<lparr>mgr := KickJob 0 (mgr ?w0)\<rparr>"
  let ?w2 = "invoke_cycle ?w1"
  let ?w3 = "execute_queue INIT ?w2"
  let ?w4 = "leave_phase INIT ?w3"
  let ?w5 = "execute_queue MAIN ?w4"
  have 1: "job_run disciplined ?w0 ?w1"
    by (rule job_run_step [OF job_run_refl], rule job_step.kick)
      (simp add: disciplined_def example_async_def job_eval)
  have "job_run disciplined ?w0 ?w2"
    by (rule job_run_step [OF 1], rule job_step.begin_cycle) (simp add: job_eval)
  then have 3: "job_run disciplined ?w0 ?w3"
    by (rule job_run_step, intro job_step.run_phase) (simp add: job_eval)
  have 4: "job_run disciplined ?w0 ?w4"
    by (rule job_run_step [OF 3], rule job_step.leave) (simp add: example_async_def job_eval)
  have 5: "job_run disciplined ?w0 ?w5"
    by (rule job_run_step [OF 4], rule job_step.run_phase) (simp add: example_async_def job_eval)
  have "job_run disciplined ?w0 (start_fiber 0 True [] ?w5)"
    by (rule job_run_step [OF 5], rule job_step.start) (simp add: example_async_def job_eval)
  then show ?thesis by (simp only: async_running_def Let_def)
qed

lemma async_facts:
  "pc async_detached = Waiting MAIN" "fibers async_detached = [Running 0 [] (Returns REQUEUE)]"
  "counters (mgr async_detached) (phase_counter (mgr async_detached) MAIN) = 0"
  "queue (mgr async_detached) CLEAN_UP = []"
  "pc async_cycle_over = Idle" "fibers async_cycle_over = [Running 0 [] (Returns REQUEUE)]"
  "next_cycle_queue (mgr async_ended) = [0]"
  by code_simp+

lemma async_ended_run: "job_run (\<lambda>_ _. False) async_detached async_ended"
proof -
  let ?k = "\<lambda>_ _. False"
  let ?w1 = "async_detached\<lparr>pc := Leaving MAIN\<rparr>"
  have 1: "job_run ?k async_detached ?w1"
    by (rule job_run_step [OF job_run_refl], rule job_step.waited) (simp_all add: async_facts)
  have 2: "job_run ?k async_detached (leave_phase MAIN ?w1)"
    by (rule job_run_step [OF 1], rule job_step.leave) simp
  have 3: "job_run ?k async_detached (execute_queue CLEAN_UP (leave_phase MAIN ?w1))"
    by (rule job_run_step [OF 2], rule job_step.run_phase) simp
  have 4: "job_run ?k async_detached async_cycle_over"
    unfolding async_cycle_over_def
    by (rule job_run_step [OF 3], rule job_step.leave) (simp add: execute_queue_def async_facts)
  have "fibers async_cycle_over = [] @ Running 0 [] (Returns REQUEUE) # []" by (simp add: async_facts)
  from job_run_step [OF 4 job_step.ended [OF this]] show ?thesis by (simp add: async_ended_def)
qed

text \<open>
  Detaching a job does not outlive the cycle: the blacklist is cleared when the cycle
  ends, so an asynchronous job that was running when it was detached, and that no cycle
  waits for, is back in the queue of the next cycle although nobody kicked it again.
\<close>

theorem detached_async_job_comes_back:
  "\<exists>w w'. job_run disciplined (initial_world example_async ()) w \<and>
     job_run (\<lambda>_ _. False) (w\<lparr>mgr := DetachJob (j_id (jobs (mgr w) 0)) (mgr w)\<rparr>) w' \<and>
     0 \<in> set (next_cycle_queue (mgr w'))"
proof (intro exI conjI)
  show "job_run disciplined (initial_world example_async ()) async_running" by (rule async_running_run)
  have "j_id (jobs (mgr async_running) 0) = ''job''"
    by (simp add: async_running_def example_async_def job_eval)
  then show "job_run (\<lambda>_ _. False) (async_running\<lparr>mgr := DetachJob (j_id (jobs (mgr async_running) 0))
      (mgr async_running)\<rparr>) async_ended"
    using async_ended_run by (simp add: async_detached_def)
qed (simp add: async_facts)

text \<open>
  What a kick in the phase of the job does while the cycle is in the phase: the queue is
  emptied and its ready jobs, the kicked one among them, are handed to the execution.
\<close>

lemma KickJob_hands_over:
  assumes "mstate s = cycle_state ph" and "j_phase (jobs s j) = ph" and "\<not> x_closed s"
    and "distinct (queue s ph @ [j])" and "k \<in> set (queue s ph @ [j])" and "ready s k"
  shows "queue (KickJob j s) ph = []" and "k \<in># scheduled (KickJob j s)"
    and "\<not> j_async (jobs s k) \<Longrightarrow> \<not> counter_finished (counters (KickJob j s) (phase_counter s ph))"
proof -
  let ?s = "s\<lparr>blacklist := blacklist s - {j_id (jobs s j)}, queue := (queue s)(ph := [])\<rparr>"
  let ?js = "queue s ph @ [j]"
  have r: "ready ?s = ready s"
    by (rule ext) (simp add: ready_def IsReadyForExecution_def split: option.splits)
  have kick: "KickJob j s = SetState j QUEUED (schedule_jobs (phase_counter s ph) ?js ?s)"
    using KickJob_current_phase [of s j] assms(1,2) by simp
  have op: "\<not> x_closed ?s" using assms(3) by simp
  note eff = schedule_jobs_effect [OF op assms(4), of "phase_counter s ph", unfolded r]
  show "queue (KickJob j s) ph = []" by (simp add: kick)
  show "k \<in># scheduled (KickJob j s)" using eff assms(5,6) by (auto simp: kick scheduled_def)
  assume "\<not> j_async (jobs s k)"
  with assms(5,6) have "k \<in> set (filter (\<lambda>j. ready s j \<and> \<not> j_async (jobs ?s j)) ?js)" by auto
  then have "0 < length (filter (\<lambda>j. ready s j \<and> \<not> j_async (jobs ?s j)) ?js)"
    by (rule length_pos_if_in_set)
  then show "\<not> counter_finished (counters (KickJob j s) (phase_counter s ph))"
    using eff by (simp add: kick counter_finished_def)
qed

lemma scheduled_pending: "k \<in># scheduled (mgr w) \<Longrightarrow> k \<in># pending w"
  by (simp add: pending_def)

lemma leave_phase_frame [simp]:
  "pending (leave_phase ph w) = pending w"
  "counters (mgr (leave_phase ph w)) = counters (mgr w)"
  "phase_counter (mgr (leave_phase ph w)) = phase_counter (mgr w)"
  by (cases ph; simp add: pending_def scheduled_def end_cycle_def ResetContinuationRequeueBlacklist_def)+

text \<open>
  C39: without that discipline the phases are not separated. Take any reachable state in
  which the cycle has entered a phase and has not looked at its queue, and a job of that
  phase that is kicked in this window. The kick hands over every ready job that waits in
  the queue of the phase, the kicked job included; the cycle then finds the queue empty and
  leaves the phase without waiting (where it would have waited for a queue with jobs in it
  had nobody kicked), so the next phase is entered, or the cycle ends, with the synchronous
  jobs of this phase still pending and the counter that would have awaited them unfinished.
\<close>

theorem kick_while_entering_escapes_the_phase:
  assumes "\<And>j. j_counters (js j) = []" and "job_run kick_ok (initial_world js u) w"
    and "pc w = Entered ph" and "j_phase (jobs (mgr w) j) = ph" and "kick_ok w j"
    and "distinct (queue (mgr w) ph @ [j])" and "k \<in> set (queue (mgr w) ph @ [j])"
    and "ready (mgr w) k" and "\<not> j_async (jobs (mgr w) k)"
  shows "let kicked = w\<lparr>mgr := KickJob j (mgr w)\<rparr>;
             looked = execute_queue ph kicked;
             left = leave_phase ph looked
         in (queue (mgr w) ph \<noteq> [] \<longrightarrow> pc (execute_queue ph w) = Waiting ph) \<and>
            job_step kick_ok w kicked \<and> pc kicked = Entered ph \<and>
            job_step kick_ok kicked looked \<and> pc looked = Leaving ph \<and>
            job_step kick_ok looked left \<and>
            pc left = (case ph of INIT \<Rightarrow> Entered MAIN | MAIN \<Rightarrow> Entered CLEAN_UP | CLEAN_UP \<Rightarrow> Idle) \<and>
            k \<in># pending left \<and> \<not> counter_finished (counters (mgr left) (phase_counter (mgr left) ph))"
proof -
  let ?w1 = "w\<lparr>mgr := KickJob j (mgr w)\<rparr>"
  have W: "wired w" using job_run_core [OF assms(2,1)] by (simp add: core_inv_def)
  then have st: "mstate (mgr w) = cycle_state ph" "\<not> x_closed (mgr w)"
    using assms(3) by (simp_all add: wired_def)
  note over = KickJob_hands_over [OF st(1) assms(4) st(2) assms(6,7,8)]
  have q: "execute_queue ph ?w1 = ?w1\<lparr>pc := Leaving ph\<rparr>"
    using over(1) by (simp add: execute_queue_def)
  have 1: "job_step kick_ok w ?w1" by (rule job_step.kick) (rule assms(5))
  have 2: "job_step kick_ok ?w1 (execute_queue ph ?w1)"
    by (rule job_step.run_phase) (simp add: assms(3))
  have 3: "job_step kick_ok (execute_queue ph ?w1) (leave_phase ph (execute_queue ph ?w1))"
    by (rule job_step.leave) (simp add: q)
  have p: "k \<in># pending (leave_phase ph (execute_queue ph ?w1))"
    using over(2) by (simp add: q scheduled_pending)
  have c: "\<not> counter_finished (counters (mgr (leave_phase ph (execute_queue ph ?w1)))
      (phase_counter (mgr (leave_phase ph (execute_queue ph ?w1))) ph))"
    using over(3) [OF assms(9)] by (simp add: q)
  have l: "pc (leave_phase ph (execute_queue ph ?w1)) =
      (case ph of INIT \<Rightarrow> Entered MAIN | MAIN \<Rightarrow> Entered CLEAN_UP | CLEAN_UP \<Rightarrow> Idle)"
    by (cases ph) simp_all
  have pcs: "queue (mgr w) ph \<noteq> [] \<longrightarrow> pc (execute_queue ph w) = Waiting ph"
    "pc ?w1 = Entered ph" "pc (execute_queue ph ?w1) = Leaving ph"
    by (simp_all add: execute_queue_def over(1) assms(3))
  show ?thesis unfolding Let_def by (intro conjI 1 2 3 p c l pcs)
qed

theorem kick_while_entering_escapes_the_phase_witness:
  "0 \<in># pending (leave_phase INIT (execute_queue INIT ((invoke_cycle (initial_world example_jobs ()))
     \<lparr>mgr := KickJob 0 (mgr (invoke_cycle (initial_world example_jobs ())))\<rparr>)))"
proof -
  let ?w = "invoke_cycle (initial_world example_jobs ())"
  have "job_run (\<lambda>_ _. True) (initial_world example_jobs ()) ?w"
    by (rule job_run_step [OF job_run_refl], rule job_step.begin_cycle) (simp add: job_eval)
  moreover have "pc ?w = Entered INIT" "j_phase (jobs (mgr ?w) 0) = INIT" "queue (mgr ?w) INIT = []"
    "ready (mgr ?w) 0" "\<not> j_async (jobs (mgr ?w) 0)"
    by (simp_all add: job_eval example_jobs_def ready_def)
  ultimately show ?thesis
    using kick_while_entering_escapes_the_phase [where kick_ok = "\<lambda>_ _. True" and w = ?w and ph = INIT and j = 0 and k = 0, OF example_jobs_counters]
    by (simp add: Let_def)
qed

text \<open>
  The window at the other end of a phase: a job of the phase kicked after the wait and
  before the next state is set is handed over at once, and nobody waits for it either.
\<close>

lemma kick_while_leaving_escapes_the_phase:
  assumes "\<And>j. j_counters (js j) = []" and "job_run kick_ok (initial_world js u) w"
    and "pc w = Leaving ph" and "j_phase (jobs (mgr w) j) = ph"
    and "distinct (queue (mgr w) ph @ [j])" and "ready (mgr w) j"
  shows "j \<in># pending (leave_phase ph (w\<lparr>mgr := KickJob j (mgr w)\<rparr>))"
proof -
  have W: "wired w" using job_run_core [OF assms(2,1)] by (simp add: core_inv_def)
  then have st: "mstate (mgr w) = cycle_state ph" "\<not> x_closed (mgr w)"
    using assms(3) by (simp_all add: wired_def)
  have "j \<in> set (queue (mgr w) ph @ [j])" by simp
  from KickJob_hands_over(2) [OF st(1) assms(4) st(2) assms(5) this assms(6)]
  have "j \<in># scheduled (KickJob j (mgr w))" .
  then show ?thesis by (simp add: scheduled_pending)
qed

section \<open>Timers, starting and stopping\<close>

text \<open>
  C29: a timer job is never let through at its first scheduling attempt, nor at any
  attempt before its period has passed since then; it runs at the first attempt after
  that, which disarms the timer, so that the next attempt starts a new period.
\<close>

theorem timer_job_waits_for_its_period:
  assumes "0 < t_time t" and "\<not> t_started t"
    and "\<forall>n\<in>set ns. n < n0 + t_time t" and "n0 + t_time t \<le> n1"
  shows "fst (timer_attempts (n0 # ns @ [n1]) t) = replicate (Suc (length ns)) False @ [True] \<and>
    fst (timer_attempts (n0 # ns @ [n1] @ [n2]) t) = replicate (Suc (length ns)) False @ [True, False]"
proof -
  have "t_time (snd (timer_ready m m t')) = t_time t'" for m t' by (simp add: timer_ready_def Let_def)
  then have keep: "t_time (snd (timer_attempts ms t')) = t_time t'" for ms t'
    by (induction ms arbitrary: t') (simp_all add: split_beta)
  let ?t = "snd (timer_attempts (n0 # ns @ [n1]) t)"
  have "timer_ready n2 n2 ?t = (False, ?t\<lparr>t_start := n2, t_started := True\<rparr>)"
    by (rule timer_first_attempt) (simp_all only: keep assms(1) timer_period(2) [OF assms] not_False_eq_True)
  then have 2: "fst (timer_attempts [n2] ?t) = [False]" by simp
  have e: "n0 # ns @ [n1] @ [n2] = (n0 # ns @ [n1]) @ [n2]" by simp
  show ?thesis unfolding e timer_attempts_append 2 timer_period(1) [OF assms] by simp
qed

theorem timer_job_waits_for_its_period_witness:
  "fst (timer_attempts [10, 12, 17] \<lparr>t_start = 0, t_time = 5, t_started = False\<rparr>) = [False, False, True]"
  using timer_job_waits_for_its_period [of "\<lparr>t_start = 0, t_time = 5, t_started = False\<rparr>" "[12]" 10 17]
  by (simp add: numeral_2_eq_2)

text \<open>
  C30: stopping the execution returns: once the channel is closed, polling workers drain
  it and end after finitely many polls, and exactly the jobs scheduled before have been
  popped, in order.
\<close>

theorem Stop_drains_the_channel:
  assumes "x_state s = RUNNING" and "0 < x_workers s"
  shows "\<exists>n. poll_until_closed n (s\<lparr>x_closed := True\<rparr>) =
      Some (fst (Stop s), s\<lparr>x_closed := True, x_channel := [], x_workers := 0\<rparr>) \<and>
    x_channel (snd (Stop s)) = [] \<and> x_workers (snd (Stop s)) = 0"
proof (intro exI conjI)
  show "poll_until_closed (length (x_channel s) + x_workers s) (s\<lparr>x_closed := True\<rparr>) =
      Some (fst (Stop s), s\<lparr>x_closed := True, x_channel := [], x_workers := 0\<rparr>)"
    using poll_closed_channel [of "s\<lparr>x_closed := True\<rparr>"] assms by (simp add: Stop_def)
qed (use assms in \<open>simp_all add: Stop_def\<close>)

theorem Stop_drains_the_channel_witness:
  "x_channel (snd (Stop (mgr (initial_world example_jobs ())))) = []"
  using Stop_drains_the_channel [of "mgr (initial_world example_jobs ())"]
  by (auto simp: initial_world_def)

text \<open>
  An execution that has been stopped stays dead: whatever is started, stopped or
  scheduled afterwards, nothing ever enters the channel again, so restarted workers end
  at once and scheduled jobs are lost, although each of them is \<open>AWAITING_EXECUTION\<close>.
\<close>

theorem stopped_execution_stays_dead:
  assumes "x_state s = RUNNING"
  shows "x_channel (fold exec_op ops (snd (Stop s))) = [] \<and>
    j_state (jobs (fold exec_op (ops @ [OpStart, OpSchedule j]) (snd (Stop s))) j) = AWAITING_EXECUTION"
proof
  have "x_closed (snd (Stop s))" "x_channel (snd (Stop s)) = []" using assms by (simp_all add: Stop_def)
  with exec_ops_closed_channel [of "snd (Stop s)" ops]
  show "x_channel (fold exec_op ops (snd (Stop s))) = []" by simp
qed (simp add: Schedule_def)

theorem stopped_execution_stays_dead_witness:
  "x_channel (fold exec_op [OpStart, OpSchedule 0] (snd (Stop (mgr (initial_world example_jobs ()))))) = []"
  using stopped_execution_stays_dead [of "mgr (initial_world example_jobs ())" "[OpStart, OpSchedule 0]" 0]
  by (simp add: initial_world_def)

end
