(* ===== verification/Std_Map.thy ===== *)
theory Std_Map
  imports Prelude
begin

text \<open>
  \<open>std::map\<close> with string keys (and \<open>std::set\<close> of strings): an association list kept
  strictly sorted by key, because the program iterates over its maps and the order of
  that iteration is visible (serialised messages, registration order). Keys are
  compared as \<open>std::string\<close> does, character by character as unsigned bytes, which is
  the order of \<open>HOL-Library.List_Lexorder\<close> over \<open>HOL-Library.Char_ord\<close>.
\<close>

section \<open>The interface of a key-value store\<close>

locale key_value_store =
  fixes empty :: 'm
    and get :: "'m \<Rightarrow> 'k \<Rightarrow> 'v option"
    and put :: "'k \<Rightarrow> 'v \<Rightarrow> 'm \<Rightarrow> 'm"
    and erase :: "'k \<Rightarrow> 'm \<Rightarrow> 'm"
    and keys :: "'m \<Rightarrow> 'k list"
    and ok :: "'m \<Rightarrow> bool"
  assumes get_empty: "get empty k = None"
    and get_put: "ok m \<Longrightarrow> get (put k v m) k' = (if k' = k then Some v else get m k')"
    and get_erase: "ok m \<Longrightarrow> get (erase k m) k' = (if k' = k then None else get m k')"
    and keys_get: "ok m \<Longrightarrow> set (keys m) = {k. get m k \<noteq> None}"
    and keys_distinct: "ok m \<Longrightarrow> distinct (keys m)"
    and ext: "ok m \<Longrightarrow> ok m' \<Longrightarrow> (\<And>k. get m k = get m' k) \<Longrightarrow> m = m'"
    and ok_empty: "ok empty"
    and ok_put: "ok m \<Longrightarrow> ok (put k v m)"
    and ok_erase: "ok m \<Longrightarrow> ok (erase k m)"
begin

lemma in_keys: "ok m \<Longrightarrow> k \<in> set (keys m) \<longleftrightarrow> get m k \<noteq> None"
  by (simp add: keys_get)

lemma put_same: "ok m \<Longrightarrow> get m k = Some v \<Longrightarrow> put k v m = m"
  by (rule ext) (auto simp: ok_put get_put)

lemma put_put: "ok m \<Longrightarrow> put k v (put k w m) = put k v m"
  by (rule ext) (auto simp: ok_put get_put)

lemma put_swap: "ok m \<Longrightarrow> k \<noteq> k' \<Longrightarrow> put k v (put k' v' m) = put k' v' (put k v m)"
  by (rule ext) (auto simp: ok_put get_put)

lemma erase_put: "ok m \<Longrightarrow> get m k = None \<Longrightarrow> erase k (put k v m) = m"
  by (rule ext) (auto simp: ok_put ok_erase get_put get_erase)

lemma erase_none: "ok m \<Longrightarrow> get m k = None \<Longrightarrow> erase k m = m"
  by (rule ext) (auto simp: ok_erase get_erase)

text \<open>The loop every converter of the program uses: copy the values of a list of names.\<close>

lemma ok_fold_put: "ok m \<Longrightarrow> ok (fold (\<lambda>k. put k (f k)) ks m)"
  by (induction ks arbitrary: m) (auto simp: ok_put)

lemma get_fold_put:
  "ok m \<Longrightarrow> get (fold (\<lambda>k. put k (f k)) ks m) k' =
     (if k' \<in> set ks then Some (f k') else get m k')"
  by (induction ks arbitrary: m) (auto simp: ok_put get_put)

lemma fold_put_copy:
  assumes "ok src"
  shows "fold (\<lambda>k. put k (the (get src k))) (keys src) empty = src"
  by (rule ext) (auto simp: assms ok_empty ok_fold_put get_fold_put get_empty in_keys)

end

section \<open>The sorted association list\<close>

type_synonym 'v smap = "(string \<times> 'v) list"

fun map_put :: "'k::linorder \<Rightarrow> 'v \<Rightarrow> ('k \<times> 'v) list \<Rightarrow> ('k \<times> 'v) list" where
  "map_put k v [] = [(k, v)]"
| "map_put k v ((k', v') # m) =
     (if k < k' then (k, v) # (k', v') # m
      else if k = k' then (k, v) # m
      else (k', v') # map_put k v m)"

definition map_get :: "('k::linorder \<times> 'v) list \<Rightarrow> 'k \<Rightarrow> 'v option" where
  "map_get m k = map_of m k"

definition map_contains :: "('k::linorder \<times> 'v) list \<Rightarrow> 'k \<Rightarrow> bool" where
  "map_contains m k = (map_of m k \<noteq> None)"

definition map_erase :: "'k::linorder \<Rightarrow> ('k \<times> 'v) list \<Rightarrow> ('k \<times> 'v) list" where
  "map_erase k m = filter (\<lambda>(k', v). k' \<noteq> k) m"

definition map_keys :: "('k::linorder \<times> 'v) list \<Rightarrow> 'k list" where
  "map_keys m = map fst m"

definition map_ok :: "('k::linorder \<times> 'v) list \<Rightarrow> bool" where
  "map_ok m = sorted_wrt (<) (map fst m)"

text \<open>\<open>at\<close>: throws when the key is missing.\<close>

definition map_at :: "('k::linorder \<times> 'v) list \<Rightarrow> 'k \<Rightarrow> 'v result" where
  "map_at m k = of_opt OutOfRange (map_get m k)"

text \<open>\<open>operator[]\<close> on a missing key default-constructs the value first.\<close>

definition map_index :: "'v \<Rightarrow> ('k::linorder \<times> 'v) list \<Rightarrow> 'k \<Rightarrow> 'v" where
  "map_index dflt m k = (case map_get m k of None \<Rightarrow> dflt | Some v \<Rightarrow> v)"

lemma map_ok_Nil [simp]: "map_ok []"
  by (simp add: map_ok_def)

lemma map_ok_Cons [simp]: "map_ok ((k, v) # m) \<longleftrightarrow> (\<forall>x\<in>set m. k < fst x) \<and> map_ok m"
  by (simp add: map_ok_def)

lemma set_map_put: "set (map_put k v m) \<subseteq> insert (k, v) (set m)"
  by (induction k v m rule: map_put.induct) auto

lemma map_ok_put [simp]: "map_ok m \<Longrightarrow> map_ok (map_put k v m)"
proof (induction k v m rule: map_put.induct)
  case (2 k v k' v' m)
  then show ?case using set_map_put [of k v m] by fastforce
qed simp

lemma map_get_put [simp]:
  "map_get (map_put k v m) k' = (if k' = k then Some v else map_get m k')"
  by (induction k v m rule: map_put.induct) (auto simp: map_get_def)

lemma map_get_Nil [simp]: "map_get [] k = None"
  by (simp add: map_get_def)

lemma map_get_Cons [simp]: "map_get ((k, v) # m) k' = (if k' = k then Some v else map_get m k')"
  by (simp add: map_get_def)

lemma map_get_erase [simp]:
  "map_get (map_erase k m) k' = (if k' = k then None else map_get m k')"
  by (simp add: map_get_def map_erase_def map_of_filter_key)

lemma map_ok_erase [simp]: "map_ok m \<Longrightarrow> map_ok (map_erase k m)"
  by (simp add: map_ok_def map_erase_def sorted_wrt_filter_map)

lemma map_contains_iff [simp]: "map_contains m k \<longleftrightarrow> map_get m k \<noteq> None"
  by (simp add: map_contains_def map_get_def)

lemma map_keys_distinct: "map_ok m \<Longrightarrow> distinct (map_keys m)"
  by (simp add: map_ok_def map_keys_def strict_sorted_iff)

lemma map_keys_sorted: "map_ok m \<Longrightarrow> sorted (map_keys m)"
  by (simp add: map_ok_def map_keys_def strict_sorted_iff)

lemma map_keys_get: "set (map_keys m) = {k. map_get m k \<noteq> None}"
  by (auto simp: map_keys_def map_get_def map_of_eq_None_iff simp flip: not_None_eq)

lemma map_entry_get: "map_ok m \<Longrightarrow> (k, v) \<in> set m \<longleftrightarrow> map_get m k = Some v"
  using map_keys_distinct [of m] by (simp add: map_get_def map_keys_def)

lemma map_ok_ext:
  assumes "map_ok m" and "map_ok m'" and "\<And>k. map_get m k = map_get m' k"
  shows "m = m'"
proof -
  have "set m = set m'"
    using assms by (auto simp: map_entry_get)
  moreover have "sorted (map fst m)" "distinct (map fst m)"
      "sorted (map fst m')" "distinct (map fst m')"
    using assms(1,2) map_keys_distinct map_keys_sorted by (auto simp: map_keys_def)
  ultimately show ?thesis
    by (metis map_sorted_distinct_set_unique distinct_map inj_on_Un set_union Un_absorb)
qed

interpretation sm: key_value_store "[]" map_get map_put map_erase map_keys map_ok
  by unfold_locales (auto simp: map_keys_get map_keys_distinct intro: map_ok_ext)

text \<open>Iterating over a map visits each entry once, in key order.\<close>

lemma map_entries_keys: "map_ok m \<Longrightarrow> map (\<lambda>k. (k, the (map_get m k))) (map_keys m) = m"
  unfolding map_keys_def map_map by (rule map_idI) (auto simp: map_entry_get)

lemma map_size_keys: "length (map_keys m) = length m"
  by (simp add: map_keys_def)

lemma map_put_last: "\<forall>x\<in>set m. fst x < k \<Longrightarrow> map_put k v m = m @ [(k, v)]"
  by (induction k v m rule: map_put.induct) auto

lemma fold_map_put_sorted:
  assumes "map_ok (acc @ m)"
  shows "fold (\<lambda>(k, v). map_put k v) m acc = acc @ m"
  using assms
proof (induction m arbitrary: acc)
  case (Cons kv m)
  obtain k v where kv: "kv = (k, v)" by (cases kv)
  have "map_put k v acc = acc @ [(k, v)]"
    using Cons.prems kv by (intro map_put_last) (auto simp: map_ok_def sorted_wrt_append)
  with Cons kv show ?case by simp
qed simp

section \<open>Sets of strings\<close>

text \<open>\<open>std::set<std::string>\<close> filled from the keys of a map, as the getters do.\<close>

fun set_insert :: "'k::linorder \<Rightarrow> 'k list \<Rightarrow> 'k list" where
  "set_insert k [] = [k]"
| "set_insert k (x # xs) =
     (if k < x then k # x # xs else if k = x then x # xs else x # set_insert k xs)"

lemma set_set_insert [simp]: "set (set_insert k xs) = insert k (set xs)"
  by (induction k xs rule: set_insert.induct) auto

lemma set_insert_sorted:
  "sorted_wrt (<) xs \<Longrightarrow> sorted_wrt (<) (set_insert k xs)"
  by (induction k xs rule: set_insert.induct) auto

lemma set_insert_last:
  "\<forall>x\<in>set xs. x < k \<Longrightarrow> set_insert k xs = xs @ [k]"
  by (induction xs) auto

lemma fold_set_insert_sorted:
  assumes "sorted_wrt (<) (acc @ ks)"
  shows "fold set_insert ks acc = acc @ ks"
  using assms
proof (induction ks arbitrary: acc)
  case (Cons k ks)
  have "set_insert k acc = acc @ [k]"
    using Cons.prems by (intro set_insert_last) (auto simp: sorted_wrt_append)
  with Cons show ?case by simp
qed simp

text \<open>Filling a set with a map's keys in iteration order gives the key list itself.\<close>

lemma set_of_keys: "map_ok m \<Longrightarrow> fold set_insert (map_keys m) [] = map_keys m"
  using fold_set_insert_sorted [of "[]" "map_keys m"]
  by (simp add: map_ok_def map_keys_def)

end
