(* ===== verification/Message.thy ===== *)
theory Message
  imports Std_Map
begin

text \<open>
  \<open>Message\<close> (\<open>subsystems/networking/src/messaging/Message.cpp\<close>): a type, an id and
  attributes. The constructor without an id draws a random one; the id is an argument
  here in both cases.
\<close>

record message =
  m_type :: string
  m_uuid :: string
  m_attributes :: "string smap"

definition make_message :: "string \<Rightarrow> string \<Rightarrow> message" where
  "make_message message_type uuid = \<lparr>m_type = message_type, m_uuid = uuid, m_attributes = []\<rparr>"

definition SetAttribute :: "string \<Rightarrow> string \<Rightarrow> message \<Rightarrow> message" where
  "SetAttribute k v m = m\<lparr>m_attributes := map_put k v (m_attributes m)\<rparr>"

definition GetAttribute :: "string \<Rightarrow> message \<Rightarrow> string option" where
  "GetAttribute k m =
     (if map_contains (m_attributes m) k then map_get (m_attributes m) k else None)"

definition GetAttributeNames :: "message \<Rightarrow> string list" where
  "GetAttributeNames m = fold set_insert (map_keys (m_attributes m)) []"

text \<open>The loop of \<open>EqualsTo\<close> over the attributes of this message.\<close>

fun attributes_match :: "(string \<times> string) list \<Rightarrow> string smap \<Rightarrow> bool" where
  "attributes_match [] other = True"
| "attributes_match ((name, val) # rest) other =
     (if \<not> map_contains other name then False
      else if map_get other name \<noteq> Some val then False
      else attributes_match rest other)"

definition EqualsTo :: "message \<Rightarrow> message \<Rightarrow> bool" where
  "EqualsTo m other =
     (if m_uuid m \<noteq> m_uuid other then False
      else if m_type m \<noteq> m_type other then False
      else if length (m_attributes m) \<noteq> length (m_attributes other) then False
      else attributes_match (m_attributes m) (m_attributes other))"

definition message_ok :: "message \<Rightarrow> bool" where
  "message_ok m = map_ok (m_attributes m)"

lemma message_ok_make [inv_intro, simp]: "message_ok (make_message t i)"
  by (simp add: message_ok_def make_message_def)

lemma message_ok_SetAttribute [inv_intro, simp]: "message_ok m \<Longrightarrow> message_ok (SetAttribute k v m)"
  by (simp add: message_ok_def SetAttribute_def)

lemma GetAttribute_get [simp]: "GetAttribute k m = map_get (m_attributes m) k"
  by (simp add: GetAttribute_def)

lemma SetAttribute_fields [simp]:
  "m_type (SetAttribute k v m) = m_type m"
  "m_uuid (SetAttribute k v m) = m_uuid m"
  "map_get (m_attributes (SetAttribute k v m)) k' = (if k' = k then Some v else map_get (m_attributes m) k')"
  by (simp_all add: SetAttribute_def)

lemma GetAttributeNames_keys: "message_ok m \<Longrightarrow> GetAttributeNames m = map_keys (m_attributes m)"
  by (simp add: GetAttributeNames_def message_ok_def set_of_keys)

lemma attributes_match_iff:
  "attributes_match xs other \<longleftrightarrow> (\<forall>(k, v)\<in>set xs. map_get other k = Some v)"
  by (induction xs other rule: attributes_match.induct) auto

lemma same_size_submap:
  assumes "map_ok m" "map_ok m'" "length m = length m'" "\<forall>(k, v)\<in>set m. map_get m' k = Some v"
  shows "m = m'"
proof -
  have sub: "set m \<subseteq> set m'" using assms(2,4) by (auto simp: map_entry_get)
  have "distinct m" "distinct m'"
    using map_keys_distinct [OF assms(1)] map_keys_distinct [OF assms(2)]
    by (auto simp: map_keys_def distinct_map)
  then have "card (set m) = card (set m')" using assms(3) by (simp add: distinct_card)
  then have "set m = set m'" by (intro card_subset_eq [OF _ sub]) simp_all
  then have "map_get m k = map_get m' k" for k
  proof (cases "map_get m k")
    case None
    then show ?thesis
      using \<open>set m = set m'\<close> assms(1,2) by (metis map_entry_get not_None_eq)
  next
    case (Some v)
    then show ?thesis using assms(1,4) by (auto simp flip: map_entry_get)
  qed
  then show ?thesis by (intro map_ok_ext [OF assms(1,2)])
qed

text \<open>The attributes a message is rebuilt from, in iteration order.\<close>

definition set_attributes :: "(string \<times> string) list \<Rightarrow> message \<Rightarrow> message" where
  "set_attributes kvs m = fold (\<lambda>(k, v). SetAttribute k v) kvs m"

lemma set_attributes_fields [simp]:
  "m_type (set_attributes kvs m) = m_type m"
  "m_uuid (set_attributes kvs m) = m_uuid m"
  by (induction kvs arbitrary: m) (auto simp: set_attributes_def)

lemma set_attributes_ok [simp]: "message_ok m \<Longrightarrow> message_ok (set_attributes kvs m)"
  by (induction kvs arbitrary: m) (auto simp: set_attributes_def)

lemma set_attributes_get:
  "map_get (m_attributes (set_attributes kvs m)) k =
     (case map_of (rev kvs) k of Some v \<Rightarrow> Some v | None \<Rightarrow> map_get (m_attributes m) k)"
  by (induction kvs arbitrary: m)
    (auto simp: set_attributes_def map_add_def split: option.splits)

lemma set_attributes_all:
  assumes "map_ok kvs"
  shows "set_attributes kvs (make_message t i) = \<lparr>m_type = t, m_uuid = i, m_attributes = kvs\<rparr>"
proof -
  let ?m = "set_attributes kvs (make_message t i)"
  have d: "distinct (map fst kvs)" using map_keys_distinct [OF assms] by (simp add: map_keys_def)
  then have "map_of (rev kvs) = map_of kvs"
    by (subst map_of_inject_set) (simp_all flip: rev_map)
  then have "map_get (m_attributes ?m) k = map_get kvs k" for k
    unfolding set_attributes_get
    by (simp add: make_message_def map_get_def [of kvs] split: option.splits)
  moreover have "message_ok ?m" by simp
  ultimately have "m_attributes ?m = kvs"
    using assms by (intro map_ok_ext) (auto simp: message_ok_def)
  moreover have "m_type ?m = t" "m_uuid ?m = i" by (simp_all add: make_message_def)
  ultimately show ?thesis by (intro message.equality) simp_all
qed

end
