(* ===== verification/Std_String.thy ===== *)
theory Std_String
  imports Prelude "HOL-Library.Word"
begin

text \<open>
  The parts of \<open>std::string\<close> and of the numeric conversions that the program uses:
  \<open>find\<close>, \<open>find_first_of\<close>, \<open>substr\<close>, \<open>std::to_string\<close>, \<open>std::stoi\<close> and
  \<open>std::stoul\<close>, and the truncation at the first NUL that reading a C string causes.
  \<open>npos\<close> is \<open>None\<close>. Widths are those of an LP64 target: \<open>int\<close> has 32 bits,
  \<open>unsigned long\<close> and \<open>size_t\<close> have 64.
\<close>

section \<open>Searching\<close>

fun find_sub :: "string \<Rightarrow> string \<Rightarrow> nat option" where
  "find_sub pat [] = (if pat = [] then Some 0 else None)"
| "find_sub pat (c # s) =
     (if take (length pat) (c # s) = pat then Some 0 else map_option Suc (find_sub pat s))"

definition std_find :: "string \<Rightarrow> string \<Rightarrow> nat \<Rightarrow> nat option" where
  "std_find s pat pos =
     (if pos \<le> length s then map_option (\<lambda>i. pos + i) (find_sub pat (drop pos s)) else None)"

fun find_any :: "string \<Rightarrow> string \<Rightarrow> nat option" where
  "find_any cs [] = None"
| "find_any cs (c # s) = (if c \<in> set cs then Some 0 else map_option Suc (find_any cs s))"

definition std_find_first_of :: "string \<Rightarrow> string \<Rightarrow> nat \<Rightarrow> nat option" where
  "std_find_first_of s cs pos = map_option (\<lambda>i. pos + i) (find_any cs (drop pos s))"

text \<open>\<open>substr(pos, count)\<close> throws when \<open>pos\<close> is past the end; no count means the rest.\<close>

definition std_substr :: "string \<Rightarrow> nat \<Rightarrow> nat \<Rightarrow> string result" where
  "std_substr s pos n = (if pos \<le> length s then Inr (take n (drop pos s)) else Inl OutOfRange)"

definition std_substr_rest :: "string \<Rightarrow> nat \<Rightarrow> string result" where
  "std_substr_rest s pos = (if pos \<le> length s then Inr (drop pos s) else Inl OutOfRange)"

definition c_str :: "string \<Rightarrow> string" where
  "c_str s = takeWhile (\<lambda>c. c \<noteq> CHR 0x00) s"

lemma find_sub_Some:
  "find_sub pat s = Some i \<Longrightarrow>
     i + length pat \<le> length s \<and> take (length pat) (drop i s) = pat"
proof (induction pat s arbitrary: i rule: find_sub.induct)
  case (2 pat c s)
  then show ?case
    by (auto split: if_splits) (metis length_Cons length_take min.bounded_iff order_refl)
qed (auto split: if_splits)

lemma find_sub_least:
  "find_sub pat s = Some i \<Longrightarrow> j < i \<Longrightarrow> take (length pat) (drop j s) \<noteq> pat"
proof (induction pat s arbitrary: i j rule: find_sub.induct)
  case (2 pat c s)
  then show ?case by (cases j) (auto split: if_splits)
qed (auto split: if_splits)

lemma find_sub_None:
  "find_sub pat s = None \<longleftrightarrow> (\<forall>i. \<not> (i + length pat \<le> length s \<and> take (length pat) (drop i s) = pat))"
proof (induction pat s rule: find_sub.induct)
  case (1 pat)
  then show ?case by auto
next
  case (2 pat c s)
  show ?case
  proof (cases "take (length pat) (c # s) = pat")
    case True
    then have "length pat \<le> length (c # s)"
      by (metis length_take min.cobounded1)
    with True show ?thesis by (auto intro!: exI [of _ 0])
  next
    case False
    then have "(\<exists>i. i + length pat \<le> length (c # s) \<and> take (length pat) (drop i (c # s)) = pat)
        \<longleftrightarrow> (\<exists>i. i + length pat \<le> length s \<and> take (length pat) (drop i s) = pat)"
      by (metis (no_types, lifting) Suc_le_mono add_Suc drop_0 drop_Suc_Cons length_Cons old.nat.exhaust)
    with False 2 show ?thesis by auto
  qed
qed

text \<open>The first occurrence splits the string; nothing before it completes a match.\<close>

lemma find_sub_append:
  assumes "find_sub pat (p @ pat @ q) = Some i"
  shows "i \<le> length p"
proof (rule ccontr)
  assume "\<not> i \<le> length p"
  then show False
    using find_sub_least [OF assms, of "length p"] by simp
qed

lemma find_sub_prefix: "find_sub pat (pat @ q) = Some 0"
proof (cases "pat @ q")
  case (Cons a l)
  then have "take (length pat) (a # l) = pat" by (metis append_eq_conv_conj)
  with Cons show ?thesis by simp
qed simp

lemma find_sub_at:
  assumes "\<forall>j<length p. take (length pat) (drop j (p @ pat @ q)) \<noteq> pat"
  shows "find_sub pat (p @ pat @ q) = Some (length p)"
  using assms
proof (induction p)
  case Nil
  show ?case by (simp add: find_sub_prefix)
next
  case (Cons c p)
  have "\<forall>j<length p. take (length pat) (drop j (p @ pat @ q)) \<noteq> pat"
    using Cons.prems by (metis Suc_mono append_Cons drop_Suc_Cons length_Cons)
  moreover have "take (length pat) (c # p @ pat @ q) \<noteq> pat"
    using Cons.prems by force
  ultimately show ?case using Cons.IH by simp
qed

lemma std_find_Some:
  "std_find s pat pos = Some i \<Longrightarrow>
     pos \<le> i \<and> i + length pat \<le> length s \<and> take (length pat) (drop i s) = pat"
  by (auto simp: std_find_def add.commute dest!: find_sub_Some split: if_splits)

lemma find_any_Some:
  "find_any cs s = Some i \<Longrightarrow> i < length s \<and> s ! i \<in> set cs \<and> (\<forall>j<i. s ! j \<notin> set cs)"
proof (induction cs s arbitrary: i rule: find_any.induct)
  case (2 cs c s)
  then show ?case by (auto split: if_splits simp: nth_Cons split: nat.splits)
qed simp

lemma find_any_None: "find_any cs s = None \<longleftrightarrow> set s \<inter> set cs = {}"
  by (induction cs s rule: find_any.induct) auto

lemma std_find_first_of_Some:
  "std_find_first_of s cs pos = Some i \<Longrightarrow>
     pos \<le> i \<and> i < length s \<and> s ! i \<in> set cs \<and> (\<forall>j. pos \<le> j \<and> j < i \<longrightarrow> s ! j \<notin> set cs)"
proof -
  assume "std_find_first_of s cs pos = Some i"
  then obtain k where k: "find_any cs (drop pos s) = Some k" "i = pos + k"
    by (auto simp: std_find_first_of_def)
  from find_any_Some [OF k(1)] have *: "k < length s - pos" "s ! (pos + k) \<in> set cs"
    "\<forall>j<k. drop pos s ! j \<notin> set cs"
    by auto
  have "s ! j \<notin> set cs" if "pos \<le> j" "j < i" for j
    using *(3) [rule_format, of "j - pos"] that * k(2) by simp
  with * k(2) show ?thesis by auto
qed

lemma std_find_first_of_None:
  "std_find_first_of s cs pos = None \<longleftrightarrow> set (drop pos s) \<inter> set cs = {}"
  by (simp add: std_find_first_of_def find_any_None)

lemma c_str_id: "CHR 0x00 \<notin> set s \<Longrightarrow> c_str s = s"
  by (auto simp: c_str_def)

section \<open>Decimal numbers\<close>

definition digit :: "nat \<Rightarrow> char" where
  "digit d = char_of (48 + d)"

definition digit_value :: "char \<Rightarrow> nat" where
  "digit_value c = of_char c - 48"

definition is_digit :: "char \<Rightarrow> bool" where
  "is_digit c = (48 \<le> (of_char c :: nat) \<and> (of_char c :: nat) \<le> 57)"

definition is_space :: "char \<Rightarrow> bool" where
  "is_space c = ((of_char c :: nat) = 32 \<or> (9 \<le> (of_char c :: nat) \<and> (of_char c :: nat) \<le> 13))"

fun to_string :: "nat \<Rightarrow> string" where
  "to_string n = (if n < 10 then [digit n] else to_string (n div 10) @ [digit (n mod 10)])"

declare to_string.simps [simp del]

definition int_to_string :: "int \<Rightarrow> string" where
  "int_to_string i = (if i < 0 then CHR ''-'' # to_string (nat (- i)) else to_string (nat i))"

definition digits_value :: "string \<Rightarrow> nat" where
  "digits_value ds = foldl (\<lambda>n c. 10 * n + digit_value c) 0 ds"

text \<open>\<open>strtol\<close>: skip white space, an optional sign, then the longest run of digits.\<close>

definition strto :: "string \<Rightarrow> (bool \<times> nat) option" where
  "strto s =
     (let s1 = dropWhile is_space s;
          neg = (case s1 of c # _ \<Rightarrow> c = CHR ''-'' | [] \<Rightarrow> False);
          s2 = (case s1 of c # r \<Rightarrow> if c = CHR ''-'' \<or> c = CHR ''+'' then r else s1 | [] \<Rightarrow> []);
          ds = takeWhile is_digit s2
      in if ds = [] then None else Some (neg, digits_value ds))"

definition std_stoi :: "string \<Rightarrow> int result" where
  "std_stoi s =
     (case strto s of None \<Rightarrow> Inl InvalidArgument
      | Some (neg, n) \<Rightarrow>
          (let i = (if neg then - int n else int n)
           in if - (2 ^ 31) \<le> i \<and> i < 2 ^ 31 then Inr i else Inl OutOfRange))"

text \<open>\<open>strtoul\<close> accepts a minus sign and negates modulo \<open>2 ^ 64\<close>.\<close>

definition std_stoul :: "string \<Rightarrow> 64 word result" where
  "std_stoul s =
     (case strto s of None \<Rightarrow> Inl InvalidArgument
      | Some (neg, n) \<Rightarrow>
          (if n < 2 ^ 64 then Inr (if neg then - word_of_nat n else word_of_nat n)
           else Inl OutOfRange))"

lemma of_char_digit: "d < 10 \<Longrightarrow> (of_char (digit d) :: nat) = 48 + d"
  unfolding digit_def by (subst of_char_of) simp

lemma digit_props [simp]:
  "d < 10 \<Longrightarrow> is_digit (digit d)" "d < 10 \<Longrightarrow> digit_value (digit d) = d"
  "d < 10 \<Longrightarrow> \<not> is_space (digit d)"
  by (simp_all add: is_digit_def digit_value_def is_space_def of_char_digit)

lemma digit_not_sign:
  "is_digit c \<Longrightarrow> c \<noteq> CHR ''-'' \<and> c \<noteq> CHR ''+'' \<and> \<not> is_space c \<and> c \<noteq> CHR 0x00"
  by (auto simp: is_digit_def is_space_def)

lemma to_string_digits: "\<forall>c\<in>set (to_string n). is_digit c"
proof (induction n rule: to_string.induct)
  case (1 n)
  then show ?case by (subst to_string.simps) auto
qed

lemma to_string_nonempty [simp]: "to_string n \<noteq> []"
  by (subst to_string.simps) simp

lemma digits_value_snoc: "digits_value (ds @ [c]) = 10 * digits_value ds + digit_value c"
  by (simp add: digits_value_def)

lemma digits_value_to_string: "digits_value (to_string n) = n"
proof (induction n rule: to_string.induct)
  case (1 n)
  show ?case
  proof (cases "n < 10")
    case True
    then show ?thesis by (subst to_string.simps) (simp add: digits_value_def)
  next
    case False
    with 1 show ?thesis by (subst to_string.simps) (simp add: digits_value_snoc)
  qed
qed

lemma strto_digits:
  assumes "ds \<noteq> []" and "\<forall>c\<in>set ds. is_digit c"
  shows "strto ds = Some (False, digits_value ds)"
    and "strto (CHR ''-'' # ds) = Some (True, digits_value ds)"
proof -
  have tw: "takeWhile is_digit ds = ds" using assms(2) by simp
  have "\<not> is_space (CHR ''-'')" by (simp add: is_space_def)
  then show "strto (CHR ''-'' # ds) = Some (True, digits_value ds)"
    using assms(1) by (simp add: strto_def Let_def tw del: takeWhile_eq_all_conv)
  obtain c r where "ds = c # r" using assms(1) by (cases ds) auto
  moreover from this have "is_digit c" using assms(2) by simp
  ultimately show "strto ds = Some (False, digits_value ds)"
    using digit_not_sign [of c] tw
    by (simp add: strto_def Let_def del: takeWhile_eq_all_conv)
qed

lemma strto_to_string: "strto (to_string n) = Some (False, n)"
  using strto_digits(1) [of "to_string n"] to_string_digits digits_value_to_string by simp

lemma stoi_int_to_string:
  assumes "- (2 ^ 31) \<le> i" and "i < 2 ^ 31"
  shows "std_stoi (int_to_string i) = Inr i"
proof (cases "i < 0")
  case True
  have "strto (CHR ''-'' # to_string (nat (- i))) = Some (True, nat (- i))"
    using strto_digits(2) [of "to_string (nat (- i))"] to_string_digits digits_value_to_string
    by simp
  with True assms show ?thesis by (simp add: std_stoi_def int_to_string_def)
next
  case False
  with assms show ?thesis by (simp add: std_stoi_def int_to_string_def strto_to_string)
qed

lemma stoul_to_string: "std_stoul (to_string (unat (w :: 64 word))) = Inr w"
proof -
  have "unat w < 2 ^ 64" by (rule order.strict_trans2 [OF unsigned_less]) simp
  then show ?thesis by (simp add: std_stoul_def strto_to_string)
qed

lemma stoul_minus_one: "std_stoul ''-1'' = Inr (- 1)"
  by (simp add: std_stoul_def strto_def is_space_def is_digit_def digits_value_def digit_value_def)

lemma to_string_no_nul: "CHR 0x00 \<notin> set (to_string n)"
  using to_string_digits digit_not_sign by blast

lemma int_to_string_chars: "int_to_string i \<noteq> [] \<and> CHR '' '' \<notin> set (int_to_string i)"
  using to_string_digits [of "nat i"] to_string_digits [of "nat (- i)"]
  by (auto simp: int_to_string_def is_digit_def)

lemma to_string_inj: "to_string m = to_string n \<longleftrightarrow> m = n"
  by (metis digits_value_to_string)

end
