(* ===== verification/Multipart.thy ===== *)
theory Multipart
  imports Std_Map Std_String
begin

text \<open>
  The multipart form-data codec
  (\<open>subsystems/networking/src/messaging/MultipartFormdata.cpp\<close>). All parts are
  separated by one fixed boundary; nothing is escaped, so what can be carried is what
  does not contain the boundary line.
\<close>

section \<open>Data and code\<close>

record part =
  p_name :: string
  p_content :: string

definition boundary :: string where
  "boundary = ''boundary-4f20310a-8ea0-4fa7-aebb-1d8bf9e58f66''"

definition crlf :: string where
  "crlf = [CHR 0x0D, CHR 0x0A]"

definition part_text :: "string \<times> part \<Rightarrow> string" where
  "part_text np = ''--'' @ boundary @ crlf
     @ ''Content-Disposition: form-data; name='' @ [CHR 0x22] @ fst np @ [CHR 0x22] @ crlf @ crlf
     @ p_content (snd np) @ crlf"

definition generateMultipartFormData :: "part smap \<Rightarrow> string" where
  "generateMultipartFormData parts = concat (map part_text parts) @ ''--'' @ boundary @ ''--''"

definition parseFormPart :: "string \<Rightarrow> part smap \<Rightarrow> part smap" where
  "parseFormPart part_str result =
     (case std_find part_str (crlf @ crlf) 0 of
        None \<Rightarrow> result
      | Some header_end \<Rightarrow>
          (let header = take header_end part_str
           in case std_find header (''name='' @ [CHR 0x22]) 0 of
                None \<Rightarrow> result
              | Some name_pos \<Rightarrow>
                  (let name_start = name_pos + 6
                   in case std_find header [CHR 0x22] name_start of
                        None \<Rightarrow> result
                      | Some name_end \<Rightarrow>
                          (let name = take (name_end - name_start) (drop name_start header);
                               val = drop (header_end + 4) part_str
                           in map_put name \<lparr>p_name = name, p_content = val\<rparr> result))))"

text \<open>
  The loop of \<open>parseMultipartFormData\<close>: every round moves \<open>pos\<close> strictly forward, to the
  start of a boundary that lies inside the data.
\<close>

function parse_parts :: "string \<Rightarrow> nat \<Rightarrow> part smap \<Rightarrow> part smap" where
  "parse_parts data pos result =
     (case std_find data (''--'' @ boundary) pos of
        None \<Rightarrow> result
      | Some at \<Rightarrow>
          (let pos1 = at + (2 + length boundary)
           in case std_find data (crlf @ ''--'' @ boundary) pos1 of
                None \<Rightarrow> result
              | Some end_pos \<Rightarrow>
                  parse_parts data end_pos (parseFormPart (take (end_pos - pos1) (drop pos1 data)) result)))"
  by auto
termination
  by (relation "measure (\<lambda>(data, pos, _). length data - pos)")
    (auto simp: crlf_def boundary_def dest!: std_find_Some)

declare parse_parts.simps [simp del]

definition parseMultipartFormData :: "string \<Rightarrow> part smap" where
  "parseMultipartFormData data = parse_parts data 0 []"

section \<open>Searching past text that cannot match\<close>

lemma find_sub_skip:
  assumes "c \<notin> set l"
  shows "find_sub (c # pat) (l @ s) = map_option (\<lambda>i. length l + i) (find_sub (c # pat) s)"
  using assms by (cases "find_sub (c # pat) s"; induction l) auto

lemma find_sub_skip1:
  "take (length pat) (c # s) \<noteq> pat \<Longrightarrow> find_sub pat (c # s) = map_option Suc (find_sub pat s)"
  by simp

lemma find_sub_no_overlap:
  assumes "c \<notin> set pat" and none: "find_sub (c # pat) p = None"
  shows "find_sub (c # pat) (p @ (c # pat) @ q) = Some (length p)"
proof (rule find_sub_at, intro allI impI notI)
  fix j assume j: "j < length p"
    and eq: "take (length (c # pat)) (drop j (p @ (c # pat) @ q)) = c # pat"
  show False
  proof (cases "j + length (c # pat) \<le> length p")
    case True
    then have "take (length (c # pat)) (drop j p) = c # pat" using eq by simp
    with none True show False by (auto simp: find_sub_None)
  next
    case False
    define k where "k = length p - j"
    have k: "0 < k" "k < length (c # pat)" using j False by (auto simp: k_def)
    have "(c # pat) ! k = (drop j (p @ (c # pat) @ q)) ! k"
      using arg_cong [OF eq, of "\<lambda>l. l ! k"] k(2) by (simp only: nth_take)
    also have "\<dots> = c" using j by (simp add: k_def nth_append)
    finally have "pat ! (k - 1) = c" using k by (cases k) auto
    moreover have "k - 1 < length pat" using k by simp
    ultimately show False using assms(1) nth_mem by metis
  qed
qed

lemma find_sub_short: "length s < length pat \<Longrightarrow> find_sub pat s = None"
  by (auto simp: find_sub_None)

lemma std_find_suffix: "std_find (p @ s) pat (length p) = map_option (\<lambda>i. length p + i) (find_sub pat s)"
  by (simp add: std_find_def)

lemma std_find_0: "std_find s pat 0 = find_sub pat s"
  by (cases "find_sub pat s") (simp_all add: std_find_def)

section \<open>The round trip\<close>

text \<open>
  What the format can carry: a name without a quote and without a carriage return, and a
  content in which the boundary line occurs neither inside nor, after the line break
  that ends the header, at its beginning.
\<close>

definition delim :: string where
  "delim = crlf @ ''--'' @ boundary"

definition clean_name :: "string \<Rightarrow> bool" where
  "clean_name n \<longleftrightarrow> CHR 0x22 \<notin> set n \<and> CHR 0x0D \<notin> set n"

definition clean_content :: "string \<Rightarrow> bool" where
  "clean_content c \<longleftrightarrow> find_sub delim (crlf @ c) = None"

definition carriable :: "part smap \<Rightarrow> bool" where
  "carriable parts \<longleftrightarrow> map_ok parts \<and>
     (\<forall>(n, p)\<in>set parts. p_name p = n \<and> clean_name n \<and> clean_content (p_content p))"

definition header_text :: "string \<Rightarrow> string" where
  "header_text n = crlf @ ''Content-Disposition: form-data; name='' @ [CHR 0x22] @ n @ [CHR 0x22]"

lemma part_text_split:
  "part_text (n, p) = (''--'' @ boundary) @ header_text n @ crlf @ crlf @ p_content p @ crlf"
  by (simp add: part_text_def header_text_def)

lemma boundary_chars: "CHR 0x0D \<notin> set boundary"
  by (simp add: boundary_def)

lemma delim_Cons: "delim = CHR 0x0D # CHR 0x0A # CHR ''-'' # CHR ''-'' # boundary"
  by (simp add: delim_def crlf_def)

lemma header_no_cr:
  "clean_name n \<Longrightarrow> CHR 0x0D \<notin>
     set (CHR 0x0A # ''Content-Disposition: form-data; name='' @ [CHR 0x22] @ n @ [CHR 0x22])"
  by (simp add: clean_name_def)

lemma header_cr:
  "header_text n = CHR 0x0D #
     (CHR 0x0A # ''Content-Disposition: form-data; name='' @ [CHR 0x22] @ n @ [CHR 0x22])"
  by (simp add: header_text_def crlf_def)

lemma find_crlfcrlf_header:
  assumes "clean_name n"
  shows "find_sub (crlf @ crlf) (header_text n @ crlf @ crlf @ s) = Some (length (header_text n))"
proof -
  let ?h = "CHR 0x0A # ''Content-Disposition: form-data; name='' @ [CHR 0x22] @ n @ [CHR 0x22]"
  have "find_sub (crlf @ crlf) (?h @ crlf @ crlf @ s) = Some (length ?h)"
    unfolding crlf_def using find_sub_skip [OF header_no_cr [OF assms], of _ "crlf @ crlf @ s"]
      find_sub_prefix [of "crlf @ crlf" s]
    by (simp add: crlf_def)
  moreover have "take (length (crlf @ crlf)) (header_text n @ crlf @ crlf @ s) \<noteq> crlf @ crlf"
    by (simp add: header_cr crlf_def)
  ultimately show ?thesis
    unfolding header_cr append_Cons by (subst find_sub_skip1) simp_all
qed

lemma find_delim_part:
  assumes "clean_name n" "clean_content c"
  shows "find_sub delim (header_text n @ crlf @ crlf @ c) = None"
proof -
  let ?h = "CHR 0x0A # ''Content-Disposition: form-data; name='' @ [CHR 0x22] @ n @ [CHR 0x22]"
  have a: "find_sub delim (crlf @ c) = None" using assms(2) by (simp add: clean_content_def)
  have b: "find_sub delim (crlf @ crlf @ c) = None"
    using a by (simp add: crlf_def delim_Cons)
  have "find_sub delim (?h @ crlf @ crlf @ c) = None"
    using find_sub_skip [OF header_no_cr [OF assms(1)], of "tl delim" "crlf @ crlf @ c"] b
    by (simp add: delim_Cons)
  then show ?thesis unfolding header_cr by (simp add: delim_Cons)
qed

lemma parse_part:
  assumes "clean_name n"
  shows "parseFormPart (header_text n @ crlf @ crlf @ c) r = map_put n \<lparr>p_name = n, p_content = c\<rparr> r"
proof -
  let ?s = "header_text n @ crlf @ crlf @ c"
  have 1: "std_find ?s (crlf @ crlf) 0 = Some (length (header_text n))"
    by (simp only: std_find_0 find_crlfcrlf_header [OF assms])
  have 2: "std_find (header_text n) (''name='' @ [CHR 0x22]) 0 = Some 34"
    by (simp add: std_find_0 header_text_def crlf_def)
  have q: "CHR 0x22 \<notin> set n" using assms by (simp add: clean_name_def)
  have pre: "header_text n = (crlf @ ''Content-Disposition: form-data; name='' @ [CHR 0x22]) @ n @ [CHR 0x22]"
    "length (crlf @ ''Content-Disposition: form-data; name='' @ [CHR 0x22]) = 40"
    by (simp_all add: header_text_def crlf_def)
  have 3: "std_find (header_text n) [CHR 0x22] 40 = Some (40 + length n)"
    using std_find_suffix [of "crlf @ ''Content-Disposition: form-data; name='' @ [CHR 0x22]"
        "n @ [CHR 0x22]" "[CHR 0x22]"] find_sub_skip [OF q, of "[]" "[CHR 0x22]"]
    unfolding pre by simp
  have "drop 40 (header_text n) = n @ [CHR 0x22]"
    by (simp add: header_text_def crlf_def)
  then have 4: "take (length n) (drop 40 (header_text n)) = n" by simp
  have 0: "take (length (header_text n)) ?s = header_text n" by simp
  have 5: "drop (length (header_text n) + 4) ?s = c" by (simp add: crlf_def)
  show ?thesis
    unfolding parseFormPart_def Let_def 1 option.case 0 2 5 by (simp add: 3 4)
qed

lemma generate_Cons:
  "generateMultipartFormData (np # ps) = part_text np @ generateMultipartFormData ps"
  by (simp add: generateMultipartFormData_def)

lemma generate_starts: "\<exists>t. generateMultipartFormData ps = (''--'' @ boundary) @ t"
  by (cases ps) (simp_all add: generateMultipartFormData_def part_text_def)

text \<open>One round of the loop, started at a boundary or at the line break before it.\<close>

lemma parse_round:
  assumes z: "z = [] \<or> z = crlf" and n: "clean_name n" and c: "clean_content c"
    and g: "g = (''--'' @ boundary) @ t"
  shows "parse_parts (pre @ z @ part_text (n, \<lparr>p_name = n, p_content = c\<rparr>) @ g) (length pre) r =
    parse_parts ((pre @ z @ (''--'' @ boundary) @ header_text n @ crlf @ crlf @ c) @ crlf @ g)
      (length (pre @ z @ (''--'' @ boundary) @ header_text n @ crlf @ crlf @ c))
      (map_put n \<lparr>p_name = n, p_content = c\<rparr> r)"
proof -
  let ?b = "''--'' @ boundary"
  let ?x = "header_text n @ crlf @ crlf @ c"
  let ?s = "pre @ z @ part_text (n, \<lparr>p_name = n, p_content = c\<rparr>) @ g"
  have s1: "?s = pre @ z @ ?b @ ?x @ delim @ t"
    by (simp add: part_text_split g delim_def)
  have s2: "?s = (pre @ z @ ?b @ ?x) @ crlf @ g" by (simp add: part_text_split)
  have zb: "find_sub ?b (z @ ?b @ ?x @ delim @ t) = Some (length z)"
  proof -
    have "CHR ''-'' \<notin> set z" using z by (auto simp: crlf_def)
    then show ?thesis
      using find_sub_skip [of "CHR ''-''" z "CHR ''-'' # boundary" "?b @ ?x @ delim @ t"]
        find_sub_prefix [of ?b "?x @ delim @ t"] by simp
  qed
  have 1: "std_find ?s ?b (length pre) = Some (length (pre @ z))"
    unfolding s1 std_find_suffix zb by simp
  have 2: "length (pre @ z) + (2 + length boundary) = length (pre @ z @ ?b)" by simp
  have "CHR 0x0D \<notin> set (tl delim)" by (simp add: delim_Cons boundary_chars)
  then have "find_sub delim (?x @ delim @ t) = Some (length ?x)"
    using find_sub_no_overlap [of "CHR 0x0D" "tl delim" ?x t] find_delim_part [OF n c]
    by (simp add: delim_Cons)
  then have 3: "std_find ?s (crlf @ ?b) (length (pre @ z @ ?b)) = Some (length (pre @ z @ ?b @ ?x))"
    using std_find_suffix [of "pre @ z @ ?b" "?x @ delim @ t" delim] unfolding s1 delim_def by simp
  have 4: "take (length (pre @ z @ ?b @ ?x) - length (pre @ z @ ?b)) (drop (length (pre @ z @ ?b)) ?s) = ?x"
    unfolding s1 by simp
  have "parse_parts ?s (length pre) r =
      parse_parts ?s (length (pre @ z @ ?b @ ?x)) (map_put n \<lparr>p_name = n, p_content = c\<rparr> r)"
    by (subst parse_parts.simps) (simp only: 1 2 3 4 Let_def option.case parse_part [OF n])
  then show ?thesis by (simp only: s2)
qed

lemma parse_end:
  assumes "z = [] \<or> z = crlf"
  shows "parse_parts (pre @ z @ generateMultipartFormData []) (length pre) r = r"
proof -
  let ?b = "''--'' @ boundary"
  have s: "pre @ z @ generateMultipartFormData [] = pre @ z @ ?b @ ''--''"
    by (simp add: generateMultipartFormData_def)
  have "find_sub (crlf @ ?b) ''--'' = None" by (rule find_sub_short) (simp add: crlf_def boundary_def)
  then have "std_find (pre @ z @ ?b @ ''--'') (crlf @ ?b) (length (pre @ z @ ?b)) = None"
    using std_find_suffix [of "pre @ z @ ?b" "''--''" "crlf @ ?b"] by simp
  moreover have "find_sub ?b (z @ ?b @ ''--'') = Some (length z)"
  proof -
    have "CHR ''-'' \<notin> set z" using assms by (auto simp: crlf_def)
    then show ?thesis
      using find_sub_skip [of "CHR ''-''" z "CHR ''-'' # boundary" "?b @ ''--''"]
        find_sub_prefix [of ?b "''--''"] by simp
  qed
  then have "std_find (pre @ z @ ?b @ ''--'') ?b (length pre) = Some (length (pre @ z))"
    unfolding std_find_suffix by simp
  moreover have "length (pre @ z) + (2 + length boundary) = length (pre @ z @ ?b)" by simp
  ultimately show ?thesis
    unfolding s by (subst parse_parts.simps) (simp only: Let_def option.case)
qed

lemma parse_generate:
  assumes "\<forall>(n, p)\<in>set ps. p_name p = n \<and> clean_name n \<and> clean_content (p_content p)"
    and "z = [] \<or> z = crlf"
  shows "parse_parts (pre @ z @ generateMultipartFormData ps) (length pre) r =
    fold (\<lambda>(n, p). map_put n p) ps r"
  using assms
proof (induction ps arbitrary: pre z r)
  case Nil
  then show ?case by (simp only: parse_end fold.simps id_apply)
next
  case (Cons np ps)
  obtain n p where np: "np = (n, p)" by (cases np)
  with Cons.prems have n: "clean_name n" and c: "clean_content (p_content p)" and p: "p = \<lparr>p_name = n, p_content = p_content p\<rparr>"
    by (auto intro: part.equality)
  obtain t where t: "generateMultipartFormData ps = (''--'' @ boundary) @ t"
    using generate_starts by blast
  have "part_text np = part_text (n, \<lparr>p_name = n, p_content = p_content p\<rparr>)" using np p by simp
  then have "parse_parts (pre @ z @ generateMultipartFormData (np # ps)) (length pre) r =
      parse_parts (pre @ z @ part_text (n, \<lparr>p_name = n, p_content = p_content p\<rparr>) @ generateMultipartFormData ps) (length pre) r"
    by (simp only: generate_Cons append_assoc)
  also have "\<dots> = fold (\<lambda>(n, p). map_put n p) ps (map_put n \<lparr>p_name = n, p_content = p_content p\<rparr> r)"
    unfolding parse_round [OF Cons.prems(2) n c t]
    by (rule Cons.IH) (use Cons.prems(1) in auto)
  finally show ?case using np p by simp
qed

lemma multipart_parts_back:
  assumes "carriable parts"
  shows "parseMultipartFormData (generateMultipartFormData parts) = parts"
proof -
  have ps: "\<forall>(n, p)\<in>set parts. p_name p = n \<and> clean_name n \<and> clean_content (p_content p)"
    using assms by (auto simp: carriable_def)
  have "parse_parts (generateMultipartFormData parts) 0 [] = fold (\<lambda>(n, p). map_put n p) parts []"
    using parse_generate [OF ps, of "[]" "[]" "[]"] by simp
  also have "\<dots> = parts"
    using fold_map_put_sorted [of "[]" parts] assms by (simp add: carriable_def)
  finally show ?thesis by (simp add: parseMultipartFormData_def)
qed

text \<open>
  Parsing what was generated gives the parts back, whatever their number and whatever
  bytes their contents have, as long as no name has a quote or carriage return and no
  content has the boundary line.
\<close>

theorem multipart_roundtrip:
  assumes "carriable parts"
  shows "parseMultipartFormData (generateMultipartFormData parts) = parts"
  by (rule multipart_parts_back) (rule assms)

definition example_parts :: "part smap" where
  "example_parts = [(''a'', \<lparr>p_name = ''a'', p_content = [CHR 0x0D, CHR 0x0A, CHR 0x00]\<rparr>),
     (''b'', \<lparr>p_name = ''b'', p_content = ''--''\<rparr>)]"

theorem multipart_roundtrip_witness:
  "parseMultipartFormData (generateMultipartFormData example_parts) = example_parts"
  by (rule multipart_roundtrip) code_simp

text \<open>
  Nothing is escaped: a content that holds the boundary line, ending with a header of
  its own, is parsed as a further part, so whoever chooses the content of one part can
  add parts to the message.
\<close>

theorem content_can_add_a_part:
  "map_keys (parseMultipartFormData (generateMultipartFormData
     [(''a'', \<lparr>p_name = ''a'', p_content = ''x'' @ crlf @ ''--'' @ boundary @ crlf @
        ''name='' @ [CHR 0x22] @ ''b'' @ [CHR 0x22] @ crlf @ crlf @ ''y''\<rparr>)])) = [''a'', ''b'']"
  by code_simp

end
