(* ===== verification/Message_Converter.thy ===== *)
theory Message_Converter
  imports Message Multipart
begin

text \<open>
  \<open>MessageConverter\<close> (\<open>subsystems/networking/src/messaging/MessageConverter.cpp\<close>): messages
  as JSON text and as multipart form-data. The JSON parser and serialiser are Boost's:
  they are the parameters \<open>parse\<close> and \<open>serialize\<close>, over the kinds of JSON values the
  code distinguishes.
\<close>

section \<open>JSON values\<close>

datatype json = JString string | JObject "(string \<times> json) list" | JOther

fun as_string :: "json \<Rightarrow> string result" where
  "as_string (JString s) = Inr s"
| "as_string _ = Inl JsonTypeError"

fun as_object :: "json \<Rightarrow> (string \<times> json) list result" where
  "as_object (JObject fs) = Inr fs"
| "as_object _ = Inl JsonTypeError"

definition json_at :: "(string \<times> json) list \<Rightarrow> string \<Rightarrow> json result" where
  "json_at fs k = of_opt OutOfRange (map_of fs k)"

text \<open>\<open>body.at(k).as_string().c_str()\<close>\<close>

definition string_field :: "(string \<times> json) list \<Rightarrow> string \<Rightarrow> string result" where
  "string_field fs k = bind_result (bind_result (json_at fs k) as_string) (\<lambda>s. Inr (c_str s))"

section \<open>JSON messages\<close>

fun set_json_attributes :: "(string \<times> json) list \<Rightarrow> message \<Rightarrow> message result" where
  "set_json_attributes [] m = Inr m"
| "set_json_attributes ((k, v) # rest) m =
     bind_result (as_string v) (\<lambda>s. set_json_attributes rest (SetAttribute k (c_str s) m))"

definition FromJson :: "(string \<Rightarrow> json option) \<Rightarrow> string \<Rightarrow> message result" where
  "FromJson parse json_text =
     (case parse json_text of
        None \<Rightarrow> Inl MessagePayloadInvalidException
      | Some (JObject body) \<Rightarrow>
          bind_result (string_field body ''id'') (\<lambda>i.
          bind_result (string_field body ''type'') (\<lambda>t.
          bind_result (bind_result (json_at body ''attributes'') as_object) (\<lambda>attrs.
            set_json_attributes attrs (make_message t i))))
      | Some _ \<Rightarrow> Inl MessagePayloadInvalidException)"

definition message_json :: "message \<Rightarrow> json" where
  "message_json m =
     JObject [(''id'', JString (m_uuid m)), (''type'', JString (m_type m)),
       (''attributes'', JObject (map (\<lambda>n. (n, JString (case GetAttribute n m of Some v \<Rightarrow> v | None \<Rightarrow> '''')))
          (GetAttributeNames m)))]"

definition ToJson :: "(json \<Rightarrow> string) \<Rightarrow> message \<Rightarrow> string" where
  "ToJson serialize m = serialize (message_json m)"

section \<open>Multipart messages\<close>

fun attach_parts :: "string list \<Rightarrow> message \<Rightarrow> part smap \<Rightarrow> part smap result" where
  "attach_parts [] m parts = Inr parts"
| "attach_parts (name # names) m parts =
     bind_result (of_opt BadOptionalAccess (GetAttribute name m)) (\<lambda>v.
       attach_parts names m (map_put name \<lparr>p_name = name, p_content = v\<rparr> parts))"

definition meta_json :: "message \<Rightarrow> json" where
  "meta_json m = JObject [(''id'', JString (m_uuid m)), (''type'', JString (m_type m))]"

definition ToMultipartFormData :: "(json \<Rightarrow> string) \<Rightarrow> message \<Rightarrow> string result" where
  "ToMultipartFormData serialize m =
     bind_result
       (attach_parts (GetAttributeNames m) m
          (map_put ''meta'' \<lparr>p_name = ''meta'', p_content = serialize (meta_json m)\<rparr> []))
       (\<lambda>parts. Inr (generateMultipartFormData parts))"

definition extractPartContent :: "part smap \<Rightarrow> string \<Rightarrow> (string \<times> part smap) result" where
  "extractPartContent parts name =
     (case map_get parts name of
        Some p \<Rightarrow> Inr (p_content p, map_erase name parts)
      | None \<Rightarrow> Inl MessagePayloadInvalidException)"

text \<open>
  The result is a pointer: it stays null when the meta part is valid JSON but not an
  object, and setting an attribute through it is then undefined.
\<close>

fun set_part_attributes :: "(string \<times> part) list \<Rightarrow> message option \<Rightarrow> message option result" where
  "set_part_attributes [] m = Inr m"
| "set_part_attributes ((name, p) # rest) None = Inl UndefinedBehaviour"
| "set_part_attributes ((name, p) # rest) (Some m) =
     set_part_attributes rest (Some (SetAttribute name (p_content p) m))"

definition FromMultipartFormData :: "(string \<Rightarrow> json option) \<Rightarrow> string \<Rightarrow> message option result" where
  "FromMultipartFormData parse data =
     bind_result (extractPartContent (parseMultipartFormData data) ''meta'') (\<lambda>(meta, parts).
       bind_result
         (case parse meta of
            None \<Rightarrow> Inl MessagePayloadInvalidException
          | Some (JObject body) \<Rightarrow>
              bind_result (string_field body ''id'') (\<lambda>i.
              bind_result (string_field body ''type'') (\<lambda>t. Inr (Some (make_message t i))))
          | Some _ \<Rightarrow> Inr None)
         (set_part_attributes parts))"

section \<open>Lemmas\<close>

lemma string_field_simps:
  "map_of fs k = Some (JString s) \<Longrightarrow> string_field fs k = Inr (c_str s)"
  "map_of fs k = None \<Longrightarrow> string_field fs k = Inl OutOfRange"
  by (simp_all add: string_field_def json_at_def)

lemma set_json_attributes_strings:
  "set_json_attributes (map (\<lambda>(k, v). (k, JString v)) kvs) m =
     Inr (set_attributes (map (\<lambda>(k, v). (k, c_str v)) kvs) m)"
  by (induction kvs arbitrary: m) (auto simp: set_attributes_def)

lemma set_part_attributes_Some:
  "set_part_attributes ps (Some m) = Inr (Some (set_attributes (map (\<lambda>(n, p). (n, p_content p)) ps) m))"
  by (induction ps arbitrary: m) (auto simp: set_attributes_def)

definition parts_of :: "string smap \<Rightarrow> part smap" where
  "parts_of kvs = map (\<lambda>(k, v). (k, \<lparr>p_name = k, p_content = v\<rparr>)) kvs"

lemma map_ok_parts_of [simp]: "map_ok (parts_of kvs) = map_ok kvs"
  by (simp add: map_ok_def parts_of_def split_beta comp_def)

lemma map_get_parts_of:
  "map_get (parts_of kvs) k = map_option (\<lambda>v. \<lparr>p_name = k, p_content = v\<rparr>) (map_get kvs k)"
  by (induction kvs) (auto simp: parts_of_def map_get_def)

lemma attach_parts_ok:
  assumes "\<forall>k\<in>set ks. map_get (m_attributes m) k \<noteq> None"
  shows "attach_parts ks m parts =
    Inr (fold (\<lambda>k. map_put k \<lparr>p_name = k, p_content = the (map_get (m_attributes m) k)\<rparr>) ks parts)"
  using assms by (induction ks arbitrary: parts) auto

lemma attach_all:
  assumes "message_ok m" and "map_ok parts"
  obtains ps where "attach_parts (GetAttributeNames m) m parts = Inr ps" "map_ok ps"
    "\<And>k. map_get ps k = (case map_get (m_attributes m) k of
        Some v \<Rightarrow> Some \<lparr>p_name = k, p_content = v\<rparr> | None \<Rightarrow> map_get parts k)"
proof -
  let ?f = "\<lambda>k. \<lparr>p_name = k, p_content = the (map_get (m_attributes m) k)\<rparr>"
  let ?ps = "fold (\<lambda>k. map_put k (?f k)) (map_keys (m_attributes m)) parts"
  have "attach_parts (GetAttributeNames m) m parts = Inr ?ps"
    using attach_parts_ok [of "map_keys (m_attributes m)" m parts]
    by (simp add: GetAttributeNames_keys assms(1) map_keys_get)
  moreover have "map_ok ?ps" by (rule sm.ok_fold_put) (rule assms(2))
  moreover have "map_get ?ps k = (case map_get (m_attributes m) k of
      Some v \<Rightarrow> Some \<lparr>p_name = k, p_content = v\<rparr> | None \<Rightarrow> map_get parts k)" for k
    using sm.get_fold_put [OF assms(2), of ?f "map_keys (m_attributes m)" k]
    by (auto simp: map_keys_get split: option.splits)
  ultimately show thesis by (rule that)
qed

lemma GetAttributeNames_values:
  "message_ok m \<Longrightarrow>
     map (\<lambda>n. (n, JString (case GetAttribute n m of Some v \<Rightarrow> v | None \<Rightarrow> ''''))) (GetAttributeNames m)
     = map (\<lambda>(k, v). (k, JString v)) (m_attributes m)"
  unfolding GetAttributeNames_keys map_keys_def map_map
  by (rule map_cong) (auto simp: message_ok_def map_entry_get)

section \<open>The contract of a codec\<close>

text \<open>
  What an endpoint needs of a codec: the messages it carries come back as they were. Then
  different messages look different on the wire, and a sequence arrives as the sequence it was.
\<close>

locale message_codec =
  fixes encode :: "message \<Rightarrow> string result"
    and decode :: "string \<Rightarrow> message option result"
    and carried :: "message \<Rightarrow> bool"
  assumes trip: "carried m \<Longrightarrow> \<exists>data. encode m = Inr data \<and> decode data = Inr (Some m)"
begin

lemma decode_encode:
  assumes "carried m" and "encode m = Inr data"
  shows "decode data = Inr (Some m)"
  using trip [OF assms(1)] assms(2) by auto

lemma encode_inj:
  assumes "carried m" and "carried m'" and "encode m = encode m'"
  shows "m = m'"
proof -
  obtain data where data: "encode m = Inr data" "decode data = Inr (Some m)"
    using trip [OF assms(1)] by blast
  have "encode m' = Inr data" by (rule trans [OF assms(3) [symmetric] data(1)])
  then have "decode data = Inr (Some m')" by (rule decode_encode [OF assms(2)])
  with data(2) show ?thesis by simp
qed

lemma trip_all:
  assumes "\<forall>m\<in>set ms. carried m"
  shows "\<exists>ds. list_all2 (\<lambda>m d. encode m = Inr d \<and> decode d = Inr (Some m)) ms ds"
  using assms
proof (induction ms)
  case (Cons m ms)
  obtain d where d: "encode m = Inr d \<and> decode d = Inr (Some m)" using trip [of m] Cons.prems by auto
  obtain ds where "list_all2 (\<lambda>m d. encode m = Inr d \<and> decode d = Inr (Some m)) ms ds"
    using Cons by auto
  with d show ?case by (intro exI [of _ "d # ds"]) simp
qed (simp add: exI [of _ "[]"])

end

section \<open>Properties\<close>

text \<open>A message that multipart form-data can carry.\<close>

definition sendable :: "message \<Rightarrow> bool" where
  "sendable m \<longleftrightarrow> message_ok m \<and> CHR 0x00 \<notin> set (m_uuid m) \<and> CHR 0x00 \<notin> set (m_type m) \<and>
     map_get (m_attributes m) ''meta'' = None \<and>
     (\<forall>(k, v)\<in>set (m_attributes m). clean_name k \<and> clean_content v)"

lemma no_cr_clean:
  assumes "CHR 0x0D \<notin> set s" and "take 1 s \<noteq> ''-''"
  shows "clean_content s"
proof -
  have "find_sub delim s = None"
    using find_sub_skip [OF assms(1), of "tl delim" "[]"] by (simp add: delim_Cons)
  moreover have "take (length delim) (crlf @ s) \<noteq> delim"
    using assms(2) by (cases s) (simp_all add: crlf_def delim_Cons)
  ultimately show ?thesis by (simp add: clean_content_def crlf_def delim_Cons)
qed

lemma meta_fields:
  assumes "CHR 0x00 \<notin> set (m_uuid m)" and "CHR 0x00 \<notin> set (m_type m)"
  shows "\<exists>body. meta_json m = JObject body \<and> string_field body ''id'' = Inr (m_uuid m) \<and>
    string_field body ''type'' = Inr (m_type m)"
  using assms by (simp add: meta_json_def string_field_simps c_str_id)

lemma multipart_trip:
  assumes "sendable m" and "parse (serialize (meta_json m)) = Some (meta_json m)"
    and "CHR 0x0D \<notin> set (serialize (meta_json m))" and "take 1 (serialize (meta_json m)) = ''{''"
  shows "\<exists>data. ToMultipartFormData serialize m = Inr data \<and> FromMultipartFormData parse data = Inr (Some m)"
proof -
  let ?meta = "\<lparr>p_name = ''meta'', p_content = serialize (meta_json m)\<rparr>"
  have ok: "message_ok m" using assms(1) by (simp add: sendable_def)
  obtain ps where ps: "attach_parts (GetAttributeNames m) m (map_put ''meta'' ?meta []) = Inr ps" "map_ok ps"
    and get: "\<And>k. map_get ps k = (case map_get (m_attributes m) k of
        Some v \<Rightarrow> Some \<lparr>p_name = k, p_content = v\<rparr> | None \<Rightarrow> map_get (map_put ''meta'' ?meta []) k)"
    using attach_all [OF ok, of "map_put ''meta'' ?meta []"] by (metis map_ok_Nil map_ok_put)
  have cm: "clean_content (serialize (meta_json m))" by (rule no_cr_clean) (use assms in simp_all)
  have entry: "p_name p = k \<and> clean_name k \<and> clean_content (p_content p)" if "(k, p) \<in> set ps" for k p
  proof (cases "map_get (m_attributes m) k")
    case None
    then have "k = ''meta''" "p = ?meta" using that ps(2) get [of k] by (auto simp: map_entry_get split: if_splits)
    with cm show ?thesis by (simp add: clean_name_def)
  next
    case (Some v)
    then have "p = \<lparr>p_name = k, p_content = v\<rparr>" using that ps(2) get [of k] by (simp add: map_entry_get)
    moreover have "(k, v) \<in> set (m_attributes m)" using Some ok by (simp add: map_entry_get message_ok_def)
    ultimately show ?thesis using assms(1) by (auto simp: sendable_def)
  qed
  then have again: "parseMultipartFormData (generateMultipartFormData ps) = ps"
    using multipart_parts_back [of ps] ps(2) by (auto simp: carriable_def)
  have nm: "map_get (m_attributes m) ''meta'' = None" using assms(1) by (simp add: sendable_def)
  have "map_erase ''meta'' ps = parts_of (m_attributes m)"
  proof (rule map_ok_ext)
    show "map_get (map_erase ''meta'' ps) k = map_get (parts_of (m_attributes m)) k" for k
      using nm by (simp add: get map_get_parts_of split: option.splits)
  qed (use ps(2) ok in \<open>simp_all add: message_ok_def\<close>)
  moreover have "map_get ps ''meta'' = Some ?meta" using nm by (simp add: get)
  ultimately have ex: "extractPartContent ps ''meta'' = Inr (serialize (meta_json m), parts_of (m_attributes m))"
    by (simp add: extractPartContent_def)
  have "set_part_attributes (parts_of (m_attributes m)) (Some (make_message (m_type m) (m_uuid m))) = Inr (Some m)"
    using set_attributes_all [of "m_attributes m" "m_type m" "m_uuid m"] ok
    by (simp add: set_part_attributes_Some parts_of_def split_beta comp_def message_ok_def)
  moreover obtain body where "meta_json m = JObject body" "string_field body ''id'' = Inr (m_uuid m)"
    "string_field body ''type'' = Inr (m_type m)"
    using meta_fields assms(1) by (auto simp: sendable_def)
  ultimately have "FromMultipartFormData parse (generateMultipartFormData ps) = Inr (Some m)"
    using assms(2) by (simp add: FromMultipartFormData_def again ex)
  then show ?thesis using ps(1) by (simp add: ToMultipartFormData_def)
qed

definition multipart_carries :: "(string \<Rightarrow> json option) \<Rightarrow> (json \<Rightarrow> string) \<Rightarrow> message \<Rightarrow> bool" where
  "multipart_carries parse serialize m \<longleftrightarrow> sendable m \<and>
     parse (serialize (meta_json m)) = Some (meta_json m) \<and>
     CHR 0x0D \<notin> set (serialize (meta_json m)) \<and> take 1 (serialize (meta_json m)) = ''{''"

interpretation multipart: message_codec "ToMultipartFormData serialize" "FromMultipartFormData parse"
    "multipart_carries parse serialize" for parse serialize
  by unfold_locales (auto simp: multipart_carries_def intro: multipart_trip)

text \<open>
  C26: a message survives the trip through multipart form-data unchanged: id, type and
  every attribute, binary contents included, provided the JSON library reads back the
  meta object it wrote (without raw carriage returns, as its output escapes them).
\<close>

theorem multipart_message_roundtrip:
  assumes "sendable m" and "parse (serialize (meta_json m)) = Some (meta_json m)"
    and "CHR 0x0D \<notin> set (serialize (meta_json m))" and "take 1 (serialize (meta_json m)) = ''{''"
  shows "\<exists>data. ToMultipartFormData serialize m = Inr data \<and> FromMultipartFormData parse data = Inr (Some m)"
  using assms by (rule multipart_trip)

definition example_message :: message where
  "example_message = \<lparr>m_type = ''call'', m_uuid = ''7'', m_attributes = [(''blob'', [CHR 0x00, CHR 0xFF])]\<rparr>"

theorem multipart_message_roundtrip_witness:
  "\<exists>data. ToMultipartFormData (\<lambda>_. ''{7}'') example_message = Inr data \<and>
     FromMultipartFormData (\<lambda>_. Some (meta_json example_message)) data = Inr (Some example_message)"
proof (rule multipart_message_roundtrip)
  show "sendable example_message" by code_simp
qed simp_all

text \<open>
  An attribute named \<open>meta\<close> replaces the meta part: two messages with the same
  attributes, one of them \<open>meta\<close>, are encoded to the same text whatever their ids and
  types are, so the receiver cannot tell them apart.
\<close>

theorem meta_attribute_hides_id_and_type:
  assumes "message_ok m" and "map_get (m_attributes m) ''meta'' = Some v"
    and "m_attributes m' = m_attributes m"
  shows "ToMultipartFormData serialize m' = ToMultipartFormData serialize m"
proof -
  let ?p = "\<lambda>m. \<lparr>p_name = ''meta'', p_content = serialize (meta_json m)\<rparr>"
  have ok': "message_ok m'" using assms by (simp add: message_ok_def)
  obtain ps where ps: "attach_parts (GetAttributeNames m) m (map_put ''meta'' (?p m) []) = Inr ps" "map_ok ps"
    and get: "\<And>k. map_get ps k = (case map_get (m_attributes m) k of
        Some v \<Rightarrow> Some \<lparr>p_name = k, p_content = v\<rparr> | None \<Rightarrow> map_get (map_put ''meta'' (?p m) []) k)"
    using attach_all [OF assms(1), of "map_put ''meta'' (?p m) []"] by (metis map_ok_Nil map_ok_put)
  obtain ps' where ps': "attach_parts (GetAttributeNames m') m' (map_put ''meta'' (?p m') []) = Inr ps'" "map_ok ps'"
    and get': "\<And>k. map_get ps' k = (case map_get (m_attributes m') k of
        Some v \<Rightarrow> Some \<lparr>p_name = k, p_content = v\<rparr> | None \<Rightarrow> map_get (map_put ''meta'' (?p m') []) k)"
    using attach_all [OF ok', of "map_put ''meta'' (?p m') []"] by (metis map_ok_Nil map_ok_put)
  have "ps' = ps"
    by (rule map_ok_ext [OF ps'(2) ps(2)])
      (use assms(2,3) in \<open>auto simp: get get' split: option.splits\<close>)
  with ps(1) ps'(1) show ?thesis by (simp add: ToMultipartFormData_def)
qed

theorem meta_attribute_hides_id_and_type_witness:
  "ToMultipartFormData (\<lambda>_. ''{}'') (SetAttribute ''meta'' ''x'' (make_message ''b'' ''2'')) =
   ToMultipartFormData (\<lambda>_. ''{}'') (SetAttribute ''meta'' ''x'' (make_message ''a'' ''1''))"
  by (rule meta_attribute_hides_id_and_type [where v = "''x''"])
    (simp_all add: SetAttribute_def make_message_def message_ok_def)

lemma json_trip:
  assumes "message_ok m" and "parse (serialize (message_json m)) = Some (message_json m)"
    and "CHR 0x00 \<notin> set (m_uuid m)" and "CHR 0x00 \<notin> set (m_type m)"
    and "\<forall>(k, v)\<in>set (m_attributes m). CHR 0x00 \<notin> set v"
  shows "FromJson parse (ToJson serialize m) = Inr m"
proof -
  let ?as = "map (\<lambda>(k, v). (k, JString v)) (m_attributes m)"
  let ?body = "[(''id'', JString (m_uuid m)), (''type'', JString (m_type m)), (''attributes'', JObject ?as)]"
  have j: "message_json m = JObject ?body"
    by (simp add: message_json_def GetAttributeNames_values [OF assms(1), unfolded GetAttribute_get])
  have c: "map (\<lambda>(k, v). (k, c_str v)) (m_attributes m) = m_attributes m"
    using assms(5) by (intro map_idI) (auto simp: c_str_id)
  have "FromJson parse (ToJson serialize m) =
      Inr (set_attributes (m_attributes m) (make_message (m_type m) (m_uuid m)))"
    using assms(2,3,4)
    by (simp add: FromJson_def ToJson_def j string_field_simps c_str_id json_at_def
        set_json_attributes_strings c)
  then show ?thesis using set_attributes_all assms(1) by (simp add: message_ok_def)
qed

definition json_carries :: "(string \<Rightarrow> json option) \<Rightarrow> (json \<Rightarrow> string) \<Rightarrow> message \<Rightarrow> bool" where
  "json_carries parse serialize m \<longleftrightarrow> message_ok m \<and>
     parse (serialize (message_json m)) = Some (message_json m) \<and>
     CHR 0x00 \<notin> set (m_uuid m) \<and> CHR 0x00 \<notin> set (m_type m) \<and>
     (\<forall>(k, v)\<in>set (m_attributes m). CHR 0x00 \<notin> set v)"

interpretation json: message_codec "\<lambda>m. Inr (ToJson serialize m)"
    "\<lambda>d. bind_result (FromJson parse d) (\<lambda>m. Inr (Some m))" "json_carries parse serialize" for parse serialize
  by unfold_locales (auto simp: json_carries_def json_trip)

text \<open>
  The JSON codec loses nothing either, for messages whose texts have no NUL
  character, provided the library reads back the object it wrote.
\<close>

theorem json_message_roundtrip:
  assumes "message_ok m" and "parse (serialize (message_json m)) = Some (message_json m)"
    and "CHR 0x00 \<notin> set (m_uuid m)" and "CHR 0x00 \<notin> set (m_type m)"
    and "\<forall>(k, v)\<in>set (m_attributes m). CHR 0x00 \<notin> set v"
  shows "FromJson parse (ToJson serialize m) = Inr m"
  using assms by (rule json_trip)

theorem json_message_roundtrip_witness:
  "FromJson (\<lambda>_. Some (message_json (SetAttribute ''k'' ''v'' (make_message ''t'' ''i''))))
     (ToJson (\<lambda>_. ''{}'') (SetAttribute ''k'' ''v'' (make_message ''t'' ''i''))) =
   Inr (SetAttribute ''k'' ''v'' (make_message ''t'' ''i''))"
  by (rule json_message_roundtrip) (simp_all add: SetAttribute_def make_message_def message_ok_def)

text \<open>
  \<open>EqualsTo\<close>, which compares sizes and then looks up every attribute of one message
  in the other, holds exactly between messages that are equal in id, type and attributes.
\<close>

theorem EqualsTo_is_equality:
  assumes "message_ok m" and "message_ok m'"
  shows "EqualsTo m m' \<longleftrightarrow> m = m'"
proof
  assume "EqualsTo m m'"
  then have "m_uuid m = m_uuid m'" "m_type m = m_type m'"
    "length (m_attributes m) = length (m_attributes m')"
    "attributes_match (m_attributes m) (m_attributes m')"
    by (simp_all add: EqualsTo_def split: if_splits)
  moreover from this have "m_attributes m = m_attributes m'"
    using assms by (intro same_size_submap) (simp_all add: message_ok_def attributes_match_iff)
  ultimately show "m = m'" by (intro message.equality) simp_all
next
  assume "m = m'"
  then show "EqualsTo m m'" using assms by (auto simp: EqualsTo_def attributes_match_iff message_ok_def map_entry_get)
qed

theorem EqualsTo_is_equality_witness:
  "EqualsTo (make_message ''a'' ''1'') (SetAttribute ''k'' ''v'' (make_message ''a'' ''1'')) = False"
  using EqualsTo_is_equality [of "make_message ''a'' ''1''" "SetAttribute ''k'' ''v'' (make_message ''a'' ''1'')"]
  by (simp add: SetAttribute_def make_message_def message_ok_def)

end
