(* ===== verification/Service_Data.thy ===== *)
theory Service_Data
  imports Message Std_String
begin

text \<open>
  Requests and responses of services and their conversion to messages
  (\<open>subsystems/services\<close>: \<open>ServiceRequest\<close>, \<open>ServiceResponse\<close>,
  \<open>RemoteServiceMessagesConverter\<close>, \<open>RemoteServiceRegistrationMessage\<close>). Ids drawn at
  random are arguments. A capacity is an \<open>int32_t\<close>, negative for unlimited.
\<close>

section \<open>Requests\<close>

record service_request =
  rq_service :: string
  rq_transaction :: string
  rq_parameters :: "string smap"
  rq_processed :: bool

definition make_request :: "string \<Rightarrow> string \<Rightarrow> service_request" where
  "make_request service transaction =
     \<lparr>rq_service = service, rq_transaction = transaction, rq_parameters = [], rq_processed = False\<rparr>"

text \<open>The copy constructor and \<open>Duplicate\<close>, which runs it twice: each run draws an id.\<close>

definition copy_request :: "string \<Rightarrow> service_request \<Rightarrow> service_request" where
  "copy_request fresh r =
     \<lparr>rq_service = rq_service r, rq_transaction = fresh, rq_parameters = rq_parameters r,
      rq_processed = False\<rparr>"

definition Duplicate :: "string \<Rightarrow> string \<Rightarrow> service_request \<Rightarrow> service_request" where
  "Duplicate fresh1 fresh2 r = copy_request fresh2 (copy_request fresh1 r)"

definition SetParameter :: "string \<Rightarrow> string \<Rightarrow> service_request \<Rightarrow> service_request" where
  "SetParameter name t r = r\<lparr>rq_parameters := map_put name t (rq_parameters r)\<rparr>"

definition GetParameter :: "string \<Rightarrow> service_request \<Rightarrow> string option" where
  "GetParameter name r =
     (if map_contains (rq_parameters r) name then map_get (rq_parameters r) name else None)"

definition GetParameterNames :: "service_request \<Rightarrow> string list" where
  "GetParameterNames r = fold set_insert (map_keys (rq_parameters r)) []"

definition MarkAsCurrentlyProcessed :: "bool \<Rightarrow> service_request \<Rightarrow> service_request" where
  "MarkAsCurrentlyProcessed b r = r\<lparr>rq_processed := b\<rparr>"

section \<open>Responses\<close>

text \<open>
  The status is an enumeration without a fixed underlying type whose largest value is 40:
  an integer from 0 to 63 can be cast to it, named or not, any other has no defined result.
\<close>

datatype response_status = OK | PARAMETER_ERROR | INTERNAL_ERROR | GONE | BUSY | Unnamed nat

fun status_code :: "response_status \<Rightarrow> int" where
  "status_code OK = 0"
| "status_code PARAMETER_ERROR = 10"
| "status_code INTERNAL_ERROR = 20"
| "status_code GONE = 30"
| "status_code BUSY = 40"
| "status_code (Unnamed n) = int n"

definition status_of_int :: "int \<Rightarrow> response_status result" where
  "status_of_int i =
     (if i < 0 \<or> 63 < i then Inl UndefinedBehaviour
      else Inr (if i = 0 then OK else if i = 10 then PARAMETER_ERROR
        else if i = 20 then INTERNAL_ERROR else if i = 30 then GONE
        else if i = 40 then BUSY else Unnamed (nat i)))"

record service_response =
  rs_transaction :: string
  rs_status :: response_status
  rs_message :: string
  rs_results :: "string smap"
  rs_attempts :: nat

definition make_response :: "string \<Rightarrow> response_status \<Rightarrow> string \<Rightarrow> service_response" where
  "make_response transaction st msg =
     \<lparr>rs_transaction = transaction, rs_status = st, rs_message = msg, rs_results = [], rs_attempts = 1\<rparr>"

definition SetResult :: "string \<Rightarrow> string \<Rightarrow> service_response \<Rightarrow> service_response" where
  "SetResult name v r = r\<lparr>rs_results := map_put name v (rs_results r)\<rparr>"

definition GetResult :: "string \<Rightarrow> service_response \<Rightarrow> string option" where
  "GetResult name r = (if map_contains (rs_results r) name then map_get (rs_results r) name else None)"

definition GetResultNames :: "service_response \<Rightarrow> string list" where
  "GetResultNames r = fold set_insert (map_keys (rs_results r)) []"

definition SetResolutionAttempts :: "nat \<Rightarrow> service_response \<Rightarrow> service_response" where
  "SetResolutionAttempts n r = r\<lparr>rs_attempts := n\<rparr>"

section \<open>Conversion to and from messages\<close>

text \<open>Copying named values into a message; the names come from the same map.\<close>

fun copy_into_message :: "(string \<Rightarrow> string option) \<Rightarrow> string list \<Rightarrow> message \<Rightarrow> message result" where
  "copy_into_message get [] m = Inr m"
| "copy_into_message get (n # ns) m =
     bind_result (of_opt BadOptionalAccess (get n)) (\<lambda>v. copy_into_message get ns (SetAttribute n v m))"

definition FromServiceRequest :: "string \<Rightarrow> service_request \<Rightarrow> message result" where
  "FromServiceRequest uuid r =
     bind_result
       (copy_into_message (\<lambda>n. GetParameter n r) (GetParameterNames r) (make_message ''service-request'' uuid))
       (\<lambda>m. Inr (SetAttribute ''service'' (rq_service r)
               (SetAttribute ''transaction-id'' (rq_transaction r) m)))"

fun copy_parameters :: "string list \<Rightarrow> message \<Rightarrow> service_request \<Rightarrow> service_request result" where
  "copy_parameters [] m r = Inr r"
| "copy_parameters (n # ns) m r =
     bind_result (of_opt BadOptionalAccess (GetAttribute n m)) (\<lambda>v. copy_parameters ns m (SetParameter n v r))"

definition ToServiceRequest :: "message \<Rightarrow> service_request option result" where
  "ToServiceRequest m =
     (case GetAttribute ''transaction-id'' m of None \<Rightarrow> Inr None
      | Some transaction \<Rightarrow>
        (case GetAttribute ''service'' m of None \<Rightarrow> Inr None
         | Some service \<Rightarrow>
             bind_result (copy_parameters (GetAttributeNames m) m (make_request service transaction))
               (\<lambda>r. Inr (Some r))))"

definition FromServiceResponse :: "string \<Rightarrow> service_response \<Rightarrow> message result" where
  "FromServiceResponse uuid r =
     bind_result
       (copy_into_message (\<lambda>n. GetResult n r) (GetResultNames r) (make_message ''service-response'' uuid))
       (\<lambda>m. Inr (SetAttribute ''status-message'' (rs_message r)
               (SetAttribute ''status'' (int_to_string (status_code (rs_status r)))
                 (SetAttribute ''transaction-id'' (rs_transaction r) m))))"

fun copy_results :: "string list \<Rightarrow> message \<Rightarrow> service_response \<Rightarrow> service_response result" where
  "copy_results [] m r = Inr r"
| "copy_results (n # ns) m r =
     bind_result (of_opt BadOptionalAccess (GetAttribute n m)) (\<lambda>v. copy_results ns m (SetResult n v r))"

text \<open>A status that is no number is caught and drops the message.\<close>

definition ToServiceResponse :: "message \<Rightarrow> service_response option result" where
  "ToServiceResponse m =
     (case GetAttribute ''transaction-id'' m of None \<Rightarrow> Inr None
      | Some transaction \<Rightarrow>
        (case GetAttribute ''status'' m of None \<Rightarrow> Inr None
         | Some code \<Rightarrow>
           (case std_stoi code of Inl e \<Rightarrow> Inr None
            | Inr i \<Rightarrow>
                bind_result (status_of_int i) (\<lambda>st.
                let msg = (case GetAttribute ''status-message'' m of Some s \<Rightarrow> s | None \<Rightarrow> ''Ok'')
                in bind_result (copy_results (GetAttributeNames m) m (make_response transaction st msg))
                     (\<lambda>r. Inr (Some r))))))"

section \<open>Registration messages\<close>

definition make_registration :: "string \<Rightarrow> message" where
  "make_registration uuid = make_message ''register-remote-service'' uuid"

definition SetServiceName :: "string \<Rightarrow> message \<Rightarrow> message" where
  "SetServiceName n m = SetAttribute ''service-name'' n m"

definition SetId :: "string \<Rightarrow> message \<Rightarrow> message" where
  "SetId i m = SetAttribute ''service-id'' i m"

definition SetCapacity :: "64 word \<Rightarrow> message \<Rightarrow> message" where
  "SetCapacity c m = SetAttribute ''service-capacity'' (to_string (unat c)) m"

definition RegGetServiceName :: "message \<Rightarrow> string" where
  "RegGetServiceName m = (case GetAttribute ''service-name'' m of Some s \<Rightarrow> s | None \<Rightarrow> '''')"

definition RegGetId :: "message \<Rightarrow> string" where
  "RegGetId m = (case GetAttribute ''service-id'' m of Some s \<Rightarrow> s | None \<Rightarrow> '''')"

definition RegGetCapacity :: "message \<Rightarrow> 64 word result" where
  "RegGetCapacity m =
     std_stoul (case GetAttribute ''service-capacity'' m of Some s \<Rightarrow> s | None \<Rightarrow> ''-1'')"

section \<open>Lemmas\<close>

lemma GetParameter_get [simp]: "GetParameter n r = map_get (rq_parameters r) n"
  by (simp add: GetParameter_def)

lemma GetResult_get [simp]: "GetResult n r = map_get (rs_results r) n"
  by (simp add: GetResult_def)

lemma copy_into_message_ok:
  assumes "\<forall>n\<in>set ns. get n \<noteq> None"
  shows "copy_into_message get ns m =
    Inr (m\<lparr>m_attributes := fold (\<lambda>n. map_put n (the (get n))) ns (m_attributes m)\<rparr>)"
  using assms by (induction ns arbitrary: m) (auto simp: SetAttribute_def)

lemma copy_parameters_ok:
  assumes "\<forall>n\<in>set ns. map_get (m_attributes m) n \<noteq> None"
  shows "copy_parameters ns m r =
    Inr (r\<lparr>rq_parameters := fold (\<lambda>n. map_put n (the (map_get (m_attributes m) n))) ns (rq_parameters r)\<rparr>)"
  using assms by (induction ns arbitrary: r) (auto simp: SetParameter_def)

lemma copy_results_ok:
  assumes "\<forall>n\<in>set ns. map_get (m_attributes m) n \<noteq> None"
  shows "copy_results ns m r =
    Inr (r\<lparr>rs_results := fold (\<lambda>n. map_put n (the (map_get (m_attributes m) n))) ns (rs_results r)\<rparr>)"
  using assms by (induction ns arbitrary: r) (auto simp: SetResult_def)

lemma fields_from_map:
  assumes "map_ok vals"
  shows "copy_into_message (map_get vals) (fold set_insert (map_keys vals) []) (make_message t i) =
    Inr \<lparr>m_type = t, m_uuid = i, m_attributes = vals\<rparr>"
proof -
  have "fold (\<lambda>n. map_put n (the (map_get vals n))) (map_keys vals) [] = vals"
    by (rule sm.fold_put_copy [OF assms])
  moreover have "\<forall>n\<in>set (map_keys vals). map_get vals n \<noteq> None" by (simp add: map_keys_get)
  ultimately show ?thesis
    using copy_into_message_ok [of "map_keys vals" "map_get vals" "make_message t i"]
    by (simp add: set_of_keys assms make_message_def)
qed

lemma copy_all_parameters:
  assumes "message_ok m"
  shows "copy_parameters (GetAttributeNames m) m (make_request s t) =
    Inr \<lparr>rq_service = s, rq_transaction = t, rq_parameters = m_attributes m, rq_processed = False\<rparr>"
  using copy_parameters_ok [of "map_keys (m_attributes m)" m "make_request s t"]
    sm.fold_put_copy [of "m_attributes m"] assms
  by (simp add: GetAttributeNames_keys map_keys_get make_request_def message_ok_def)

lemma copy_all_results:
  assumes "message_ok m"
  shows "copy_results (GetAttributeNames m) m (make_response t st msg) =
    Inr \<lparr>rs_transaction = t, rs_status = st, rs_message = msg, rs_results = m_attributes m, rs_attempts = 1\<rparr>"
  using copy_results_ok [of "map_keys (m_attributes m)" m "make_response t st msg"]
    sm.fold_put_copy [of "m_attributes m"] assms
  by (simp add: GetAttributeNames_keys map_keys_get make_response_def message_ok_def)

lemma from_request:
  assumes "map_ok (rq_parameters r)"
  shows "FromServiceRequest uuid r = Inr \<lparr>m_type = ''service-request'', m_uuid = uuid,
    m_attributes = map_put ''service'' (rq_service r) (map_put ''transaction-id'' (rq_transaction r) (rq_parameters r))\<rparr>"
  using fields_from_map [OF assms]
  by (simp add: FromServiceRequest_def GetParameterNames_def SetAttribute_def)

lemma from_response:
  assumes "map_ok (rs_results r)"
  shows "FromServiceResponse uuid r = Inr \<lparr>m_type = ''service-response'', m_uuid = uuid,
    m_attributes = map_put ''status-message'' (rs_message r)
      (map_put ''status'' (int_to_string (status_code (rs_status r)))
        (map_put ''transaction-id'' (rs_transaction r) (rs_results r)))\<rparr>"
  using fields_from_map [OF assms]
  by (simp add: FromServiceResponse_def GetResultNames_def SetAttribute_def)

text \<open>A status a response can carry: a named one, or an unnamed value in the range of the type.\<close>

definition status_ok :: "response_status \<Rightarrow> bool" where
  "status_ok st = (case st of Unnamed n \<Rightarrow> n \<notin> {0, 10, 20, 30, 40} \<and> n \<le> 63 | _ \<Rightarrow> True)"

lemma status_code_range: "status_ok st \<Longrightarrow> 0 \<le> status_code st \<and> status_code st \<le> 63"
  by (cases st) (auto simp: status_ok_def)

lemma status_of_code: "status_ok st \<Longrightarrow> status_of_int (status_code st) = Inr st"
  by (cases st) (auto simp: status_ok_def status_of_int_def)

lemma status_of_int_ok: "status_of_int i = Inr st \<Longrightarrow> status_ok st"
  by (auto simp: status_of_int_def status_ok_def split: if_splits)

section \<open>Properties\<close>

text \<open>
  A request read back from its message has the service, the transaction id and every
  parameter of the original, except that the two reserved names \<open>service\<close> and
  \<open>transaction-id\<close> are added to the parameters, replacing parameters of these names.
\<close>

theorem request_roundtrip:
  assumes "map_ok (rq_parameters r)"
  shows "\<exists>m r'. FromServiceRequest uuid r = Inr m \<and> ToServiceRequest m = Inr (Some r') \<and>
    rq_service r' = rq_service r \<and> rq_transaction r' = rq_transaction r \<and>
    (\<forall>n. GetParameter n r' =
      (if n = ''service'' then Some (rq_service r)
       else if n = ''transaction-id'' then Some (rq_transaction r) else GetParameter n r))"
proof (intro exI conjI)
  show "FromServiceRequest uuid r = Inr \<lparr>m_type = ''service-request'', m_uuid = uuid,
    m_attributes = map_put ''service'' (rq_service r) (map_put ''transaction-id'' (rq_transaction r) (rq_parameters r))\<rparr>"
    (is "_ = Inr ?m") by (rule from_request [OF assms])
  have "message_ok ?m" using assms by (simp add: message_ok_def)
  from copy_all_parameters [OF this]
  show "ToServiceRequest ?m = Inr (Some \<lparr>rq_service = rq_service r, rq_transaction = rq_transaction r,
      rq_parameters = m_attributes ?m, rq_processed = False\<rparr>)"
    by (simp add: ToServiceRequest_def)
qed simp_all

theorem request_roundtrip_witness:
  "\<exists>m r'. FromServiceRequest ''u'' (SetParameter ''x'' ''1'' (make_request ''add'' ''t'')) = Inr m \<and>
     ToServiceRequest m = Inr (Some r') \<and> GetParameter ''x'' r' = Some ''1''"
proof -
  have "map_ok (rq_parameters (SetParameter ''x'' ''1'' (make_request ''add'' ''t'')))"
    by (simp add: SetParameter_def make_request_def)
  from request_roundtrip [OF this, of "''u''"] show ?thesis
    by (fastforce simp: SetParameter_def make_request_def)
qed

text \<open>
  A response read back from its message has the transaction id, status, status
  message and results of the original; the three reserved names are added to its results
  and the number of resolution attempts is not transmitted, it starts again at one.
\<close>

theorem response_roundtrip:
  assumes "map_ok (rs_results r)" and "status_ok (rs_status r)"
  shows "\<exists>m r'. FromServiceResponse uuid r = Inr m \<and> ToServiceResponse m = Inr (Some r') \<and>
    rs_transaction r' = rs_transaction r \<and> rs_status r' = rs_status r \<and> rs_message r' = rs_message r \<and>
    rs_attempts r' = 1 \<and>
    (\<forall>n. n \<notin> {''transaction-id'', ''status'', ''status-message''} \<longrightarrow> GetResult n r' = GetResult n r)"
proof (intro exI conjI)
  show "FromServiceResponse uuid r = Inr \<lparr>m_type = ''service-response'', m_uuid = uuid,
    m_attributes = map_put ''status-message'' (rs_message r)
      (map_put ''status'' (int_to_string (status_code (rs_status r)))
        (map_put ''transaction-id'' (rs_transaction r) (rs_results r)))\<rparr>"
    (is "_ = Inr ?m") by (rule from_response [OF assms(1)])
  have ok: "message_ok ?m" using assms by (simp add: message_ok_def)
  have st: "std_stoi (int_to_string (status_code (rs_status r))) = Inr (status_code (rs_status r))"
    using status_code_range [OF assms(2)] by (intro stoi_int_to_string) simp_all
  show "ToServiceResponse ?m = Inr (Some \<lparr>rs_transaction = rs_transaction r, rs_status = rs_status r,
      rs_message = rs_message r, rs_results = m_attributes ?m, rs_attempts = 1\<rparr>)"
    using copy_all_results [OF ok] by (simp add: ToServiceResponse_def st status_of_code [OF assms(2)])
qed simp_all

theorem response_roundtrip_witness:
  "\<exists>m r'. FromServiceResponse ''u'' (SetResult ''sum'' ''3'' (make_response ''t'' BUSY ''later'')) = Inr m \<and>
     ToServiceResponse m = Inr (Some r') \<and> rs_status r' = BUSY \<and> GetResult ''sum'' r' = Some ''3''"
proof -
  let ?r = "SetResult ''sum'' ''3'' (make_response ''t'' BUSY ''later'')"
  have "map_ok (rs_results ?r)" "status_ok (rs_status ?r)"
    by (simp_all add: SetResult_def make_response_def status_ok_def)
  from response_roundtrip [OF this, of "''u''"] show ?thesis
    by (fastforce simp: SetResult_def make_response_def)
qed

text \<open>
  A capacity survives its registration: an \<open>int32_t\<close> widened to \<open>size_t\<close>, printed,
  parsed and narrowed again is the same number, the negative ones that mean unlimited
  included; and a message without a capacity reads as unlimited.
\<close>

theorem capacity_roundtrip:
  "\<exists>w. RegGetCapacity (SetCapacity (scast (c :: 32 word)) m) = Inr w \<and> ucast w = c \<and>
     RegGetCapacity (make_registration uuid) = Inr (- 1)"
proof (intro exI conjI)
  show "RegGetCapacity (SetCapacity (scast c) m) = Inr (scast c)"
    by (simp add: RegGetCapacity_def SetCapacity_def stoul_to_string)
  show "ucast (scast c :: 64 word) = c"
    by (rule bit_word_eqI) (simp add: bit_ucast_iff bit_signed_iff)
  show "RegGetCapacity (make_registration uuid) = Inr (- 1)"
    by (simp add: RegGetCapacity_def make_registration_def make_message_def stoul_minus_one)
qed

end
