(* ===== verification/Service_Caller.thy ===== *)
theory Service_Caller
  imports Service_Data "HOL-Library.Multiset"
begin

text \<open>
  Service executors as the callers and registries see them, and the round-robin caller
  (\<open>subsystems/services/src/RoundRobinServiceCaller.cpp\<close>). Whether a remote executor can
  be called depends on the messaging endpoint of this node at that moment: \<open>conn\<close> says to
  which endpoints it exists and is connected.
\<close>

section \<open>Executors\<close>

datatype locality = LocalExecutor | RemoteExecutor string

record executor =
  e_id :: string
  e_service :: string
  e_where :: locality
  e_capacity :: "32 word"

fun e_callable :: "(string \<Rightarrow> bool) \<Rightarrow> locality \<Rightarrow> bool" where
  "e_callable conn LocalExecutor = True"
| "e_callable conn (RemoteExecutor endpoint) = conn endpoint"

definition IsCallable :: "(string \<Rightarrow> bool) \<Rightarrow> executor \<Rightarrow> bool" where
  "IsCallable conn e = e_callable conn (e_where e)"

definition IsLocal :: "executor \<Rightarrow> bool" where
  "IsLocal e = (case e_where e of LocalExecutor \<Rightarrow> True | RemoteExecutor _ \<Rightarrow> False)"

section \<open>The caller\<close>

record caller =
  c_name :: string
  c_executors :: "executor list"
  c_last :: nat

definition make_caller :: "string \<Rightarrow> caller" where
  "make_caller name = \<lparr>c_name = name, c_executors = [], c_last = 0\<rparr>"

fun any_callable :: "(string \<Rightarrow> bool) \<Rightarrow> executor list \<Rightarrow> bool" where
  "any_callable conn [] = False"
| "any_callable conn (e # es) = (if IsCallable conn e then True else any_callable conn es)"

definition caller_IsCallable :: "(string \<Rightarrow> bool) \<Rightarrow> caller \<Rightarrow> bool" where
  "caller_IsCallable conn c = any_callable conn (c_executors c)"

fun already_registered :: "string \<Rightarrow> executor list \<Rightarrow> bool" where
  "already_registered i [] = False"
| "already_registered i (e # es) = (if i = e_id e then True else already_registered i es)"

definition AddExecutor :: "executor \<Rightarrow> caller \<Rightarrow> caller" where
  "AddExecutor e c =
     (if already_registered (e_id e) (c_executors c) then c
      else c\<lparr>c_executors := c_executors c @ [e]\<rparr>)"

definition RemoveExecutor :: "string \<Rightarrow> caller \<Rightarrow> caller" where
  "RemoveExecutor i c = c\<lparr>c_executors := filter (\<lambda>e. \<not> e_id e = i) (c_executors c)\<rparr>"

text \<open>At most one round trip over the executors, each try moving \<open>m_last_index\<close>.\<close>

function select_loop :: "(string \<Rightarrow> bool) \<Rightarrow> bool \<Rightarrow> nat \<Rightarrow> caller \<Rightarrow> executor option \<times> caller" where
  "select_loop conn only_local tries c =
     (if tries < length (c_executors c) then
        (let next = (min (length (c_executors c) - 1) (c_last c) + 1) mod length (c_executors c);
             stub = c_executors c ! next;
             c' = c\<lparr>c_last := next\<rparr>
         in if IsCallable conn stub then
              (if only_local \<and> \<not> IsLocal stub then select_loop conn only_local (tries + 1) c'
               else (Some stub, c'))
            else select_loop conn only_local (tries + 1) c')
      else (None, c))"
  by auto
termination
  by (relation "measure (\<lambda>(conn, only_local, tries, c). length (c_executors c) - tries)")
    (auto simp: Let_def)

declare select_loop.simps [simp del]

definition SelectNextCallableExecutor ::
  "(string \<Rightarrow> bool) \<Rightarrow> bool \<Rightarrow> caller \<Rightarrow> executor option \<times> caller" where
  "SelectNextCallableExecutor conn only_local c = select_loop conn only_local 0 c"

fun any_locally_callable :: "(string \<Rightarrow> bool) \<Rightarrow> executor list \<Rightarrow> bool" where
  "any_locally_callable conn [] = False"
| "any_locally_callable conn (e # es) =
     (if IsCallable conn e \<and> IsLocal e then True else any_locally_callable conn es)"

definition ContainsLocallyCallable :: "(string \<Rightarrow> bool) \<Rightarrow> caller \<Rightarrow> bool" where
  "ContainsLocallyCallable conn c = any_locally_callable conn (c_executors c)"

fun count_callable :: "(string \<Rightarrow> bool) \<Rightarrow> executor list \<Rightarrow> nat \<Rightarrow> nat" where
  "count_callable conn [] n = n"
| "count_callable conn (e # es) n = count_callable conn es (if IsCallable conn e then n + 1 else n)"

definition GetCallableCount :: "(string \<Rightarrow> bool) \<Rightarrow> caller \<Rightarrow> nat" where
  "GetCallableCount conn c = count_callable conn (c_executors c) 0"

text \<open>The sum is an \<open>int32_t\<close>: overflowing it has no defined result.\<close>

fun sum_capacity :: "(string \<Rightarrow> bool) \<Rightarrow> bool \<Rightarrow> executor list \<Rightarrow> int \<Rightarrow> int result" where
  "sum_capacity conn local_only [] capacity = Inr capacity"
| "sum_capacity conn local_only (e # es) capacity =
     (if IsCallable conn e \<and> (\<not> local_only \<or> IsLocal e) then
        (if sint (e_capacity e) < 0 then Inr (- 1)
         else if capacity + sint (e_capacity e) < 2 ^ 31
              then sum_capacity conn local_only es (capacity + sint (e_capacity e))
              else Inl UndefinedBehaviour)
      else sum_capacity conn local_only es capacity)"

definition GetCapacity :: "(string \<Rightarrow> bool) \<Rightarrow> bool \<Rightarrow> caller \<Rightarrow> int result" where
  "GetCapacity conn local_only c = sum_capacity conn local_only (c_executors c) 0"

fun collect_callable :: "(string \<Rightarrow> bool) \<Rightarrow> bool \<Rightarrow> executor list \<Rightarrow> executor list \<Rightarrow> executor list" where
  "collect_callable conn local_only [] acc = acc"
| "collect_callable conn local_only (e # es) acc =
     (if IsCallable conn e then
        (if local_only \<and> \<not> IsLocal e then collect_callable conn local_only es acc
         else collect_callable conn local_only es (acc @ [e]))
      else collect_callable conn local_only es acc)"

definition GetCallableServiceExecutors :: "(string \<Rightarrow> bool) \<Rightarrow> bool \<Rightarrow> caller \<Rightarrow> executor list" where
  "GetCallableServiceExecutors conn local_only c = collect_callable conn local_only (c_executors c) []"

section \<open>Resolving a call\<close>

record retry_policy =
  max_retries :: nat
  try_next_executor :: bool

definition RETRY_POLICY_NONE :: retry_policy where
  "RETRY_POLICY_NONE = \<lparr>max_retries = 0, try_next_executor = False\<rparr>"

definition RETRY_POLICY_TRY_NEXT :: retry_policy where
  "RETRY_POLICY_TRY_NEXT = \<lparr>max_retries = 3, try_next_executor = True\<rparr>"

definition RETRY_POLICY_RETRY_SAME :: retry_policy where
  "RETRY_POLICY_RETRY_SAME = \<lparr>max_retries = 3, try_next_executor = False\<rparr>"

text \<open>
  The jobs of one call, one after the other: each attempt selects an executor unless it
  was given one, calls it and looks at the answer; a busy answer kicks the next attempt
  as long as \<open>max_retries\<close> allows. What the executors answer and which endpoints are
  connected may differ from attempt to attempt. Besides the outcome, the executors called
  are recorded. Attempts are numbered by an \<open>int\<close> that starts at 1.
\<close>

datatype call_outcome = Resolved service_response | CallFailed exn

function resolve_call ::
  "retry_policy \<Rightarrow> (nat \<Rightarrow> string \<Rightarrow> bool) \<Rightarrow> (nat \<Rightarrow> executor \<Rightarrow> service_response result) \<Rightarrow> bool \<Rightarrow>
     executor option \<Rightarrow> nat \<Rightarrow> caller \<Rightarrow> call_outcome \<times> executor list \<times> caller" where
  "resolve_call policy conn answer only_local maybe_executor attempt c =
     (let (ex, c1) = (case maybe_executor of Some e \<Rightarrow> (Some e, c)
                      | None \<Rightarrow> SelectNextCallableExecutor (conn attempt) only_local c)
      in case ex of
           None \<Rightarrow> (CallFailed NoCallableServiceFound, [], c1)
         | Some e \<Rightarrow>
             (case answer attempt e of
                Inl x \<Rightarrow> (CallFailed CallFailedException, [e], c1)
              | Inr r \<Rightarrow>
                  if rs_status r = BUSY \<and> attempt \<le> max_retries policy then
                    (let (out, called, c2) =
                           resolve_call policy conn answer only_local
                             (if try_next_executor policy then None else Some e) (attempt + 1) c1
                     in (out, e # called, c2))
                  else (Resolved (SetResolutionAttempts attempt r), [e], c1)))"
  by pat_completeness auto
termination
  by (relation "measure (\<lambda>(policy, conn, answer, only_local, ex, attempt, c). max_retries policy + 1 - attempt)")
    auto

declare resolve_call.simps [simp del]

definition IssueCallAsJob ::
  "retry_policy \<Rightarrow> (nat \<Rightarrow> string \<Rightarrow> bool) \<Rightarrow> (nat \<Rightarrow> executor \<Rightarrow> service_response result) \<Rightarrow> bool \<Rightarrow>
     caller \<Rightarrow> call_outcome \<times> executor list \<times> caller" where
  "IssueCallAsJob policy conn answer only_local c = resolve_call policy conn answer only_local None 1 c"

section \<open>Lemmas\<close>

definition eligible :: "(string \<Rightarrow> bool) \<Rightarrow> bool \<Rightarrow> executor \<Rightarrow> bool" where
  "eligible conn only_local e \<longleftrightarrow> IsCallable conn e \<and> (only_local \<longrightarrow> IsLocal e)"

lemma any_callable_iff [simp]: "any_callable conn es \<longleftrightarrow> (\<exists>e\<in>set es. IsCallable conn e)"
  by (induction conn es rule: any_callable.induct) auto

lemma already_registered_iff [simp]: "already_registered i es \<longleftrightarrow> i \<in> e_id ` set es"
  by (induction i es rule: already_registered.induct) auto

lemma any_locally_callable_iff [simp]:
  "any_locally_callable conn es \<longleftrightarrow> (\<exists>e\<in>set es. eligible conn True e)"
  by (induction conn es rule: any_locally_callable.induct) (auto simp: eligible_def)

lemma count_callable_length: "count_callable conn es n = n + length (filter (IsCallable conn) es)"
  by (induction conn es n rule: count_callable.induct) auto

lemma collect_callable_filter:
  "collect_callable conn local_only es acc = acc @ filter (eligible conn local_only) es"
  by (induction conn local_only es acc rule: collect_callable.induct) (auto simp: eligible_def)

lemma IsLocal_IsCallable: "IsLocal e \<Longrightarrow> IsCallable conn e"
  by (cases "e_where e") (auto simp: IsLocal_def IsCallable_def)

lemma take_rotate1: "m < length ys \<Longrightarrow> take m (rotate1 ys) = tl (take (Suc m) ys)"
  by (cases ys) (auto simp: take_append)

lemma rotate_Suc_mod:
  assumes "l < length xs"
  shows "rotate (Suc ((l + 1) mod length xs)) xs = rotate1 (rotate (Suc l) xs)"
  by (metis Suc_eq_plus1 rotate_Suc rotate_conv_mod)

lemma rotate_hd: "xs \<noteq> [] \<Longrightarrow> hd (rotate n xs) = xs ! (n mod length xs)"
proof -
  assume "xs \<noteq> []"
  then have "n mod length xs < length xs" by simp
  then show ?thesis by (simp add: rotate_drop_take hd_append hd_drop_conv_nth)
qed

text \<open>The loop looks at the executors that follow the last one, in order.\<close>

definition select_spec :: "(string \<Rightarrow> bool) \<Rightarrow> bool \<Rightarrow> nat \<Rightarrow> caller \<Rightarrow> executor option \<times> caller \<Rightarrow> bool" where
  "select_spec conn only_local tries c r \<longleftrightarrow>
     fst r = find (eligible conn only_local)
        (take (length (c_executors c) - tries) (rotate (Suc (c_last c)) (c_executors c))) \<and>
     c_executors (snd r) = c_executors c \<and> c_last (snd r) < length (c_executors c)"

lemma take_rotate_step:
  assumes "l < length xs" and "t < length xs"
  shows "take (length xs - t) (rotate (Suc l) xs) =
    xs ! ((l + 1) mod length xs) # take (length xs - Suc t) (rotate (Suc ((l + 1) mod length xs)) xs)"
proof -
  let ?ys = "rotate (Suc l) xs"
  have ys: "?ys \<noteq> []" using assms by auto
  have hd: "hd ?ys = xs ! ((l + 1) mod length xs)" using assms by (subst rotate_hd) auto
  have d: "length xs - t = Suc (length xs - Suc t)" using assms by simp
  have "take (length xs - t) ?ys = hd ?ys # tl (take (Suc (length xs - Suc t)) ?ys)"
    unfolding d using ys by (cases ?ys) simp_all
  also have "tl (take (Suc (length xs - Suc t)) ?ys) = take (length xs - Suc t) (rotate1 ?ys)"
    using assms by (subst take_rotate1) simp_all
  finally show ?thesis unfolding hd rotate_Suc_mod [OF assms(1)] .
qed

lemma select_loop_spec:
  assumes "c_last c < length (c_executors c)" and "tries \<le> length (c_executors c)"
  shows "select_spec conn only_local tries c (select_loop conn only_local tries c)"
  using assms
proof (induction conn only_local tries c rule: select_loop.induct)
  case (1 conn only_local tries c)
  let ?xs = "c_executors c"
  let ?next = "(c_last c + 1) mod length ?xs"
  let ?c = "c\<lparr>c_last := ?next\<rparr>"
  have start: "min (length ?xs - 1) (c_last c) = c_last c" using "1.prems" by auto
  have lt: "?next < length ?xs" using "1.prems" by (intro mod_less_divisor) linarith
  show ?case
  proof (cases "tries < length ?xs")
    case False
    then show ?thesis using "1.prems" by (subst select_loop.simps) (simp add: select_spec_def)
  next
    case True
    note step = take_rotate_step [OF "1.prems"(1) True]
    show ?thesis
    proof (cases "eligible conn only_local (?xs ! ?next)")
      case yes: True
      then have "select_loop conn only_local tries c = (Some (?xs ! ?next), ?c)"
        using True start by (subst select_loop.simps) (auto simp: Let_def eligible_def)
      then show ?thesis using yes lt by (simp add: select_spec_def step del: rotate_Suc)
    next
      case no: False
      then have e: "select_loop conn only_local tries c = select_loop conn only_local (tries + 1) ?c"
        using True start by (subst select_loop.simps) (auto simp: Let_def eligible_def)
      have "select_spec conn only_local (tries + 1) ?c (select_loop conn only_local (tries + 1) ?c)"
      proof (cases "IsCallable conn (?xs ! ?next)")
        case True
        with no have "only_local \<and> \<not> IsLocal (?xs ! ?next)" by (simp add: eligible_def)
        then show ?thesis using "1.IH"(1) [OF \<open>tries < length ?xs\<close>] start True lt \<open>tries < length ?xs\<close> by simp
      next
        case False
        then show ?thesis using "1.IH"(2) [OF \<open>tries < length ?xs\<close>] start lt \<open>tries < length ?xs\<close> by simp
      qed
      then show ?thesis unfolding e using no by (simp add: select_spec_def step del: rotate_Suc)
    qed
  qed
qed

lemma select_clamped:
  "c_executors c \<noteq> [] \<Longrightarrow>
     select_loop conn only_local 0 (c\<lparr>c_last := min (length (c_executors c) - 1) (c_last c)\<rparr>)
     = select_loop conn only_local 0 c"
  by (subst (1 2) select_loop.simps) (simp add: Let_def)

lemma Select_spec:
  assumes "c_executors c \<noteq> []"
  shows "fst (SelectNextCallableExecutor conn only_local c) = find (eligible conn only_local)
      (rotate (Suc (min (length (c_executors c) - 1) (c_last c))) (c_executors c))"
    and "c_executors (snd (SelectNextCallableExecutor conn only_local c)) = c_executors c"
    and "c_last (snd (SelectNextCallableExecutor conn only_local c)) < length (c_executors c)"
proof -
  let ?n = "length (c_executors c)"
  let ?c = "c\<lparr>c_last := min (?n - 1) (c_last c)\<rparr>"
  have "min (?n - 1) (c_last c) < ?n" using assms by (cases ?n) auto
  then have "select_spec conn only_local 0 ?c (select_loop conn only_local 0 ?c)"
    by (intro select_loop_spec) simp_all
  then have sp: "select_spec conn only_local 0 ?c (SelectNextCallableExecutor conn only_local c)"
    unfolding select_clamped [OF assms] SelectNextCallableExecutor_def .
  then show "fst (SelectNextCallableExecutor conn only_local c) = find (eligible conn only_local)
      (rotate (Suc (min (?n - 1) (c_last c))) (c_executors c))"
    "c_executors (snd (SelectNextCallableExecutor conn only_local c)) = c_executors c"
    "c_last (snd (SelectNextCallableExecutor conn only_local c)) < ?n"
    by (simp_all add: select_spec_def del: rotate_Suc)
qed

lemma Select_empty: "c_executors c = [] \<Longrightarrow> SelectNextCallableExecutor conn only_local c = (None, c)"
  unfolding SelectNextCallableExecutor_def by (subst select_loop.simps) simp

lemma Select_executors [simp]:
  "c_executors (snd (SelectNextCallableExecutor conn only_local c)) = c_executors c"
  by (cases "c_executors c = []") (simp_all add: Select_empty Select_spec)

text \<open>When every executor is eligible, the next one in line is selected.\<close>

lemma Select_all_eligible:
  assumes "c_executors c \<noteq> []" and "\<forall>e\<in>set (c_executors c). eligible conn only_local e"
  shows "SelectNextCallableExecutor conn only_local c =
    (let next = (min (length (c_executors c) - 1) (c_last c) + 1) mod length (c_executors c)
     in (Some (c_executors c ! next), c\<lparr>c_last := next\<rparr>))"
proof -
  let ?next = "(min (length (c_executors c) - 1) (c_last c) + 1) mod length (c_executors c)"
  have "?next < length (c_executors c)" using assms(1) by simp
  then have "eligible conn only_local (c_executors c ! ?next)" using assms(2) by simp
  then show ?thesis
    unfolding SelectNextCallableExecutor_def
    by (subst select_loop.simps) (use assms(1) in \<open>auto simp: Let_def eligible_def\<close>)
qed

fun select_many :: "(string \<Rightarrow> bool) \<Rightarrow> bool \<Rightarrow> nat \<Rightarrow> caller \<Rightarrow> executor option list" where
  "select_many conn only_local 0 c = []"
| "select_many conn only_local (Suc k) c =
     (let (e, c') = SelectNextCallableExecutor conn only_local c
      in e # select_many conn only_local k c')"

lemma select_many_in_turn:
  assumes "c_executors c \<noteq> []" and "\<forall>e\<in>set (c_executors c). eligible conn only_local e"
    and "c_last c < length (c_executors c)"
  shows "select_many conn only_local k c =
    map (\<lambda>i. Some (c_executors c ! ((c_last c + 1 + i) mod length (c_executors c)))) [0..<k]"
  using assms
proof (induction k arbitrary: c)
  case (Suc k)
  let ?n = "length (c_executors c)" and ?next = "(c_last c + 1) mod length (c_executors c)"
  have m: "min (?n - 1) (c_last c) = c_last c" using Suc.prems(3) by auto
  have lt: "?next < ?n" using Suc.prems(1) by simp
  have sel: "SelectNextCallableExecutor conn only_local c = (Some (c_executors c ! ?next), c\<lparr>c_last := ?next\<rparr>)"
    using Select_all_eligible [OF Suc.prems(1,2)] by (simp only: m Let_def)
  have "select_many conn only_local k (c\<lparr>c_last := ?next\<rparr>) =
      map (\<lambda>i. Some (c_executors c ! ((?next + 1 + i) mod ?n))) [0..<k]"
    using Suc.IH [of "c\<lparr>c_last := ?next\<rparr>"] Suc.prems lt by simp
  also have "\<dots> = map (\<lambda>i. Some (c_executors c ! ((c_last c + 1 + i) mod ?n))) [Suc 0..<Suc k]"
  proof -
    have "(?next + 1 + i) mod ?n = (c_last c + 1 + Suc i) mod ?n" for i
      unfolding add.assoc mod_add_left_eq by simp
    then show ?thesis unfolding map_Suc_upt [symmetric] map_map comp_def by (simp only:)
  qed
  finally show ?case by (simp add: sel upt_conv_Cons del: upt_Suc)
qed simp

definition pick :: "(string \<Rightarrow> bool) \<Rightarrow> bool \<Rightarrow> executor option \<Rightarrow> caller \<Rightarrow> executor option \<times> caller" where
  "pick conn only_local ex c =
     (case ex of Some e \<Rightarrow> (Some e, c) | None \<Rightarrow> SelectNextCallableExecutor conn only_local c)"

text \<open>One attempt ends the call, or it is busy and the next attempt follows.\<close>

lemma resolve_call_step:
  assumes "pick (conn attempt) only_local ex c = (sel, c1)"
  shows "resolve_call policy conn answer only_local ex attempt c =
    (case sel of None \<Rightarrow> (CallFailed NoCallableServiceFound, [], c1)
     | Some e \<Rightarrow> (case answer attempt e of Inl x \<Rightarrow> (CallFailed CallFailedException, [e], c1)
        | Inr r \<Rightarrow> if rs_status r = BUSY \<and> attempt \<le> max_retries policy then
            (let (out, called, c2) = resolve_call policy conn answer only_local
                 (if try_next_executor policy then None else Some e) (attempt + 1) c1
             in (out, e # called, c2))
          else (Resolved (SetResolutionAttempts attempt r), [e], c1)))"
  using assms unfolding resolve_call.simps [of policy conn answer only_local ex attempt c] pick_def
  by (simp only: Let_def prod.case)

definition resolve_spec ::
  "retry_policy \<Rightarrow> (nat \<Rightarrow> executor \<Rightarrow> service_response result) \<Rightarrow> executor option \<Rightarrow> nat \<Rightarrow>
     call_outcome \<Rightarrow> executor list \<Rightarrow> bool" where
  "resolve_spec policy answer ex attempt out called \<longleftrightarrow>
     length called \<le> max_retries policy + 2 - min attempt (max_retries policy + 1) \<and>
     (\<forall>i. Suc i < length called \<longrightarrow>
        (\<exists>r. answer (attempt + i) (called ! i) = Inr r \<and> rs_status r = BUSY)) \<and>
     (\<forall>r. out = Resolved r \<longrightarrow> called \<noteq> [] \<and>
        (\<exists>r0. answer (attempt + length called - 1) (last called) = Inr r0 \<and>
           r = SetResolutionAttempts (attempt + length called - 1) r0) \<and>
        (rs_status r = BUSY \<longrightarrow> max_retries policy < attempt + length called - 1)) \<and>
     (\<not> try_next_executor policy \<longrightarrow>
        (\<forall>e\<in>set called. e = hd called) \<and> (\<forall>e. ex = Some e \<longrightarrow> called \<noteq> [] \<and> hd called = e))"

lemma resolve_spec_single:
  "resolve_spec policy answer (Some e) attempt (CallFailed x) [e]"
  "resolve_spec policy answer None attempt (CallFailed x) [e]"
  "resolve_spec policy answer None attempt (CallFailed x) []"
  by (auto simp: resolve_spec_def)

lemma resolve_spec_answered:
  assumes "answer attempt e = Inr r" and "\<not> (rs_status r = BUSY \<and> attempt \<le> max_retries policy)"
    and "ex = None \<or> ex = Some e"
  shows "resolve_spec policy answer ex attempt (Resolved (SetResolutionAttempts attempt r)) [e]"
  using assms by (auto simp: resolve_spec_def SetResolutionAttempts_def)

lemma resolve_spec_retry:
  assumes rec: "resolve_spec policy answer (if try_next_executor policy then None else Some e) (attempt + 1) out called"
    and "answer attempt e = Inr r" and "rs_status r = BUSY" and "attempt \<le> max_retries policy"
    and "ex = None \<or> ex = Some e"
  shows "resolve_spec policy answer ex attempt out (e # called)"
  unfolding resolve_spec_def
proof (intro conjI allI impI ballI)
  show "length (e # called) \<le> max_retries policy + 2 - min attempt (max_retries policy + 1)"
  proof -
    have "length called \<le> Suc (max_retries policy) - attempt"
      using rec assms(4) by (simp add: resolve_spec_def)
    then show ?thesis using assms(4) by simp
  qed
next
  fix i assume i: "Suc i < length (e # called)"
  show "\<exists>r. answer (attempt + i) ((e # called) ! i) = Inr r \<and> rs_status r = BUSY"
  proof (cases i)
    case 0
    with assms(2,3) show ?thesis by simp
  next
    case (Suc k)
    with i rec show ?thesis by (simp add: resolve_spec_def)
  qed
next
  fix r' assume "out = Resolved r'"
  with rec have *: "called \<noteq> []" "\<exists>r0. answer (attempt + length called) (last called) = Inr r0 \<and>
      r' = SetResolutionAttempts (attempt + length called) r0"
    "rs_status r' = BUSY \<longrightarrow> max_retries policy < attempt + length called"
    by (simp_all add: resolve_spec_def)
  then show "\<exists>r0. answer (attempt + length (e # called) - 1) (last (e # called)) = Inr r0 \<and>
      r' = SetResolutionAttempts (attempt + length (e # called) - 1) r0" by simp
  show "max_retries policy < attempt + length (e # called) - 1" if "rs_status r' = BUSY"
    using * that by simp
next
  fix e' assume "\<not> try_next_executor policy" "e' \<in> set (e # called)"
  with rec show "e' = hd (e # called)" by (auto simp: resolve_spec_def)
next
  fix e' assume "ex = Some e'"
  with assms(5) show "hd (e # called) = e'" by simp
qed simp_all

lemma resolve_call_spec:
  "resolve_spec policy answer ex attempt (fst (resolve_call policy conn answer only_local ex attempt c))
     (fst (snd (resolve_call policy conn answer only_local ex attempt c)))"
proof (induction "max_retries policy + 1 - attempt" arbitrary: ex attempt c rule: less_induct)
  case less
  obtain sel c1 where p: "pick (conn attempt) only_local ex c = (sel, c1)" by fastforce
  note step = resolve_call_step [where conn = conn and attempt = attempt and policy = policy and answer = answer, OF p]
  show ?case
  proof (cases sel)
    case None
    with p have "ex = None" by (simp add: pick_def split: option.splits)
    then show ?thesis unfolding step None by (simp add: resolve_spec_single)
  next
    case (Some e)
    with p have ex: "ex = None \<or> ex = Some e" by (auto simp: pick_def split: option.splits)
    show ?thesis
    proof (cases "answer attempt e")
      case (Inl x)
      then show ?thesis unfolding step Some using ex by (auto simp: resolve_spec_single)
    next
      case (Inr r)
      show ?thesis
      proof (cases "rs_status r = BUSY \<and> attempt \<le> max_retries policy")
        case False
        from resolve_spec_answered [where answer = answer and attempt = attempt, OF Inr False ex] show ?thesis
          unfolding step Some option.case Inr sum.case if_not_P [OF False] by simp
      next
        case True
        let ?ex = "if try_next_executor policy then None else Some e"
        have "max_retries policy + 1 - (attempt + 1) < max_retries policy + 1 - attempt"
          using conjunct2 [OF True] by arith
        from less(1) [OF this, of ?ex c1]
        have "resolve_spec policy answer ?ex (attempt + 1)
            (fst (resolve_call policy conn answer only_local ?ex (attempt + 1) c1))
            (fst (snd (resolve_call policy conn answer only_local ?ex (attempt + 1) c1)))" .
        from resolve_spec_retry [where answer = answer and attempt = attempt, OF this Inr _ _ ex] True
        show ?thesis
          unfolding step Some option.case Inr sum.case if_P [OF True] Let_def split_beta fst_conv snd_conv by blast
      qed
    qed
  qed
qed

lemma turns_are_a_rotation:
  "map (\<lambda>i. xs ! ((l + i) mod length xs)) [0..<length xs] = rotate l xs"
  by (rule nth_equalityI) (simp_all add: nth_rotate)

lemma mset_rotate1_self: "mset (rotate1 xs) = mset xs"
  by (cases xs) simp_all

lemma mset_rotate_self: "mset (rotate n xs) = mset xs"
  by (induction n) (simp_all add: mset_rotate1_self)

definition caller_ok :: "caller \<Rightarrow> bool" where
  "caller_ok c \<longleftrightarrow> distinct (map e_id (c_executors c))"

lemma caller_ok_make [inv_intro, simp]: "caller_ok (make_caller n)"
  by (simp add: caller_ok_def make_caller_def)

lemma caller_ok_Add [inv_intro, simp]: "caller_ok c \<Longrightarrow> caller_ok (AddExecutor e c)"
  by (simp add: caller_ok_def AddExecutor_def)

lemma caller_ok_Remove [inv_intro, simp]: "caller_ok c \<Longrightarrow> caller_ok (RemoveExecutor i c)"
  by (simp add: caller_ok_def RemoveExecutor_def distinct_map_filter)

lemma set_AddExecutor:
  "set (c_executors (AddExecutor e c)) =
     (if e_id e \<in> e_id ` set (c_executors c) then set (c_executors c) else insert e (set (c_executors c)))"
  by (simp add: AddExecutor_def)

lemma set_RemoveExecutor: "set (c_executors (RemoveExecutor i c)) = {e \<in> set (c_executors c). e_id e \<noteq> i}"
  by (simp add: RemoveExecutor_def)

section \<open>Properties\<close>

definition example_caller :: caller where
  "example_caller =
     AddExecutor \<lparr>e_id = ''c'', e_service = ''s'', e_where = RemoteExecutor ''n'', e_capacity = 1\<rparr>
       (AddExecutor \<lparr>e_id = ''b'', e_service = ''s'', e_where = LocalExecutor, e_capacity = 2\<rparr>
         (AddExecutor \<lparr>e_id = ''a'', e_service = ''s'', e_where = LocalExecutor, e_capacity = 4\<rparr>
           (make_caller ''s'')))"

lemma example_caller_facts:
  "map e_id (c_executors example_caller) = [''a'', ''b'', ''c'']" "c_last example_caller = 0"
  "map (sint \<circ> e_capacity) (c_executors example_caller) = [4, 2, 1]"
  "\<forall>e\<in>set (c_executors example_caller). eligible (\<lambda>_. True) False e"
  by (simp_all add: example_caller_def AddExecutor_def make_caller_def eligible_def IsCallable_def)

text \<open>
  C19: while all its executors can be called, the caller takes them strictly in turn,
  starting after the last one used: within as many calls as there are executors each is
  called exactly once.
\<close>

theorem round_robin_takes_turns:
  assumes "c_executors c \<noteq> []" and "\<forall>e\<in>set (c_executors c). eligible conn only_local e"
    and "c_last c < length (c_executors c)"
  shows "select_many conn only_local k c =
      map (\<lambda>i. Some (c_executors c ! ((c_last c + 1 + i) mod length (c_executors c)))) [0..<k] \<and>
    mset (select_many conn only_local (length (c_executors c)) c) = mset (map Some (c_executors c))"
proof -
  have "select_many conn only_local (length (c_executors c)) c =
      map Some (rotate (c_last c + 1) (c_executors c))"
    unfolding select_many_in_turn [OF assms] turns_are_a_rotation [symmetric] map_map comp_def ..
  then have "mset (select_many conn only_local (length (c_executors c)) c) = mset (map Some (c_executors c))"
    by (simp add: mset_rotate_self del: rotate_Suc)
  with select_many_in_turn [OF assms] show ?thesis by simp
qed

theorem round_robin_takes_turns_witness:
  "map (map_option e_id) (select_many (\<lambda>_. True) False 4 example_caller) =
     [Some ''b'', Some ''c'', Some ''a'', Some ''b'']"
proof -
  have ne: "c_executors example_caller \<noteq> []" "c_last example_caller < length (c_executors example_caller)"
    by (simp_all add: example_caller_def AddExecutor_def make_caller_def)
  show ?thesis
    using round_robin_takes_turns [OF ne(1) example_caller_facts(4) ne(2), of 4]
    by (simp add: example_caller_def AddExecutor_def make_caller_def upt_rec)
qed

text \<open>
  A selection returns the first eligible executor after the last one used, wherever
  it is in the list, and fails only when there is none; it changes nothing but the index.
\<close>

theorem selection_finds_the_next_eligible:
  "fst (SelectNextCallableExecutor conn only_local c) = find (eligible conn only_local)
      (rotate (Suc (min (length (c_executors c) - 1) (c_last c))) (c_executors c)) \<and>
    (fst (SelectNextCallableExecutor conn only_local c) = None \<longleftrightarrow>
      filter (eligible conn only_local) (c_executors c) = []) \<and>
    c_executors (snd (SelectNextCallableExecutor conn only_local c)) = c_executors c"
proof (cases "c_executors c = []")
  case False
  show ?thesis
    unfolding Select_spec(1) [OF False] by (auto simp: find_None_iff filter_empty_conv simp del: rotate_Suc)
qed (simp add: Select_empty)

text \<open>
  C18: a call makes at most one attempt more than the policy allows retries. Every attempt
  before the last was answered busy; a resolved call carries the answer of the last
  executor called, with the number of that attempt; a busy answer is handed on only when
  the retries are used up; and without \<open>try_next_executor\<close> all attempts go to one executor.
\<close>

theorem retries_are_bounded_and_justified:
  assumes "IssueCallAsJob policy conn answer only_local c = (out, called, c')"
  shows "length called \<le> max_retries policy + 1 \<and>
    (\<forall>i. Suc i < length called \<longrightarrow>
       (\<exists>r. answer (Suc i) (called ! i) = Inr r \<and> rs_status r = BUSY)) \<and>
    (\<forall>r. out = Resolved r \<longrightarrow> called \<noteq> [] \<and>
       (\<exists>r0. answer (length called) (last called) = Inr r0 \<and> r = SetResolutionAttempts (length called) r0) \<and>
       (rs_status r = BUSY \<longrightarrow> length called = max_retries policy + 1)) \<and>
    (\<not> try_next_executor policy \<longrightarrow> (\<forall>e\<in>set called. e = hd called))"
proof -
  have s: "resolve_spec policy answer None 1 out called"
    using resolve_call_spec [of policy answer None 1 conn only_local c] assms by (simp add: IssueCallAsJob_def)
  then have l: "length called \<le> max_retries policy + 1" by (simp add: resolve_spec_def)
  have "length called = max_retries policy + 1" if "out = Resolved r" "rs_status r = BUSY" for r
    using s l that by (fastforce simp: resolve_spec_def)
  with s l show ?thesis by (simp add: resolve_spec_def)
qed

theorem retries_are_bounded_and_justified_witness:
  "map e_id (fst (snd (IssueCallAsJob RETRY_POLICY_TRY_NEXT (\<lambda>_ _. True)
     (\<lambda>n e. Inr (make_response ''t'' (if n < 3 then BUSY else OK) '''')) False example_caller))) = [''b'', ''c'', ''a''] \<and>
   length (fst (snd (IssueCallAsJob RETRY_POLICY_TRY_NEXT (\<lambda>_ _. True)
     (\<lambda>n e. Inr (make_response ''t'' (if n < 3 then BUSY else OK) '''')) False example_caller))) \<le> 4"
  (is "?A \<and> ?B")
proof
  show ?A by code_simp
  obtain out called c' where e: "IssueCallAsJob RETRY_POLICY_TRY_NEXT (\<lambda>_ _. True)
     (\<lambda>n e. Inr (make_response ''t'' (if n < 3 then BUSY else OK) '''')) False example_caller = (out, called, c')"
    by (metis prod_cases3)
  show ?B
    unfolding e using conjunct1 [OF retries_are_bounded_and_justified [OF e]]
    by (simp add: RETRY_POLICY_TRY_NEXT_def)
qed

text \<open>
  The capacity of a caller is the sum over its callable (and, if asked, local)
  executors when all of them are limited and the sum fits an \<open>int32_t\<close>; one unlimited
  executor makes it unlimited, provided the capacities before it do not overflow.
\<close>

theorem capacity_is_the_sum_or_unlimited:
  assumes "(\<Sum>e\<leftarrow>filter (eligible conn lo) (c_executors c). max 0 (sint (e_capacity e))) < 2 ^ 31"
  shows "GetCapacity conn lo c = Inr
    (if \<exists>e\<in>set (c_executors c). eligible conn lo e \<and> sint (e_capacity e) < 0 then - 1
     else (\<Sum>e\<leftarrow>filter (eligible conn lo) (c_executors c). sint (e_capacity e)))"
proof -
  have "sum_capacity conn lo es a = Inr
      (if \<exists>e\<in>set es. eligible conn lo e \<and> sint (e_capacity e) < 0 then - 1
       else a + (\<Sum>e\<leftarrow>filter (eligible conn lo) es. sint (e_capacity e)))"
    if "a + (\<Sum>e\<leftarrow>filter (eligible conn lo) es. max 0 (sint (e_capacity e))) < 2 ^ 31" for es a
    using that
  proof (induction es arbitrary: a)
    case (Cons e es)
    have nn: "0 \<le> (\<Sum>e\<leftarrow>filter (eligible conn lo) es. max 0 (sint (e_capacity e)))"
      by (intro sum_list_nonneg) auto
    show ?case
    proof (cases "eligible conn lo e")
      case el: True
      show ?thesis
      proof (cases "sint (e_capacity e) < 0")
        case True
        with el show ?thesis by (auto simp: eligible_def)
      next
        case False
        then have "a + sint (e_capacity e) < 2 ^ 31"
          "a + sint (e_capacity e) + (\<Sum>e\<leftarrow>filter (eligible conn lo) es. max 0 (sint (e_capacity e))) < 2 ^ 31"
          using Cons.prems nn el by simp_all
        with Cons.IH [OF this(2)] el False show ?thesis by (auto simp: eligible_def)
      qed
    next
      case False
      with Cons show ?thesis by (auto simp: eligible_def)
    qed
  qed simp
  note sum = this
  show ?thesis
    unfolding GetCapacity_def by (subst sum) (use assms in \<open>simp_all only: add_0\<close>)
qed

theorem capacity_is_the_sum_or_unlimited_witness: "GetCapacity (\<lambda>_. True) False example_caller = Inr 7"
  using capacity_is_the_sum_or_unlimited [of "\<lambda>_. True" False example_caller]
  by (simp add: example_caller_def AddExecutor_def make_caller_def eligible_def IsCallable_def)

end
