(* ===== verification/Service_Registry.thy ===== *)
theory Service_Registry
  imports Service_Caller
begin

text \<open>
  The two service registries (\<open>LocalOnlyServiceRegistry\<close>, \<open>RemoteServiceRegistry\<close>) and the
  consumers of registration and request messages of the remote one. A caller found in a
  registry is a shared object in C++; here it is the value it has when it is found.
\<close>

section \<open>The contract of a registry\<close>

text \<open>
  The operations that change a registry, run on one that has the three given functions, and
  what they do to the sets of executors by service name: an id registers once per service.
\<close>

datatype registry_op = OpRegister executor | OpUnregister string | OpUnregisterAll string

fun run_op ::
  "(executor \<Rightarrow> 'r \<Rightarrow> 'r) \<Rightarrow> (string \<Rightarrow> 'r \<Rightarrow> 'r) \<Rightarrow> (string \<Rightarrow> 'r \<Rightarrow> 'r) \<Rightarrow> registry_op \<Rightarrow> 'r \<Rightarrow> 'r" where
  "run_op register unregister unregister_all (OpRegister e) r = register e r"
| "run_op register unregister unregister_all (OpUnregister i) r = unregister i r"
| "run_op register unregister unregister_all (OpUnregisterAll n) r = unregister_all n r"

fun holds_after :: "registry_op \<Rightarrow> (string \<Rightarrow> executor set) \<Rightarrow> string \<Rightarrow> executor set" where
  "holds_after (OpRegister e) held =
     (if e_id e \<in> e_id ` held (e_service e) then held else held(e_service e := insert e (held (e_service e))))"
| "holds_after (OpUnregister i) held = (\<lambda>n. {e \<in> held n. e_id e \<noteq> i})"
| "holds_after (OpUnregisterAll n) held = held(n := {})"

locale service_registry =
  fixes register :: "executor \<Rightarrow> 'r \<Rightarrow> 'r"
    and unregister :: "string \<Rightarrow> 'r \<Rightarrow> 'r"
    and unregister_all :: "string \<Rightarrow> 'r \<Rightarrow> 'r"
    and executors_of :: "'r \<Rightarrow> string \<Rightarrow> executor set"
    and ok :: "'r \<Rightarrow> bool"
  assumes ok_register: "ok r \<Longrightarrow> ok (register e r)"
    and ok_unregister: "ok r \<Longrightarrow> ok (unregister i r)"
    and ok_unregister_all: "ok r \<Longrightarrow> ok (unregister_all n r)"
    and of_register: "ok r \<Longrightarrow> executors_of (register e r) n =
          (if n = e_service e \<and> e_id e \<notin> e_id ` executors_of r n then insert e (executors_of r n)
           else executors_of r n)"
    and of_unregister: "ok r \<Longrightarrow> executors_of (unregister i r) n = {e \<in> executors_of r n. e_id e \<noteq> i}"
    and of_unregister_all: "ok r \<Longrightarrow> executors_of (unregister_all n r) n' =
          (if n' = n then {} else executors_of r n')"
begin

lemma registered_id: "ok r \<Longrightarrow> e_id e \<in> e_id ` executors_of (register e r) (e_service e)"
  by (simp add: of_register)

lemma register_twice: "ok r \<Longrightarrow> executors_of (register e (register e r)) n = executors_of (register e r) n"
  by (auto simp: of_register ok_register)

lemma unregistered_gone: "ok r \<Longrightarrow> i \<notin> e_id ` executors_of (unregister i r) n"
  by (auto simp: of_unregister)

text \<open>Registering one after the other: nothing is lost, every id is there, nothing else is.\<close>

lemma ok_register_all: "ok r \<Longrightarrow> ok (fold register es r)"
  by (induction es arbitrary: r) (auto simp: ok_register)

lemma register_all_keeps: "ok r \<Longrightarrow> executors_of r n \<subseteq> executors_of (fold register es r) n"
proof (induction es arbitrary: r)
  case (Cons e es)
  have "executors_of r n \<subseteq> executors_of (register e r) n" using Cons.prems by (auto simp: of_register)
  with Cons.IH [OF ok_register [OF Cons.prems, of e]] show ?case by auto
qed simp

lemma register_all_ids:
  "ok r \<Longrightarrow> e \<in> set es \<Longrightarrow> e_id e \<in> e_id ` executors_of (fold register es r) (e_service e)"
proof (induction es arbitrary: r)
  case (Cons x es)
  then show ?case
    using registered_id [of r e] register_all_keeps [OF ok_register [OF Cons.prems(1), of x], of "e_service e" es]
    by (auto simp: ok_register)
qed simp

lemma register_all_only:
  "ok r \<Longrightarrow> executors_of (fold register es r) n \<subseteq> executors_of r n \<union> {e \<in> set es. e_service e = n}"
proof (induction es arbitrary: r)
  case (Cons e es)
  then show ?case using Cons.IH [OF ok_register [OF Cons.prems, of e]] by (auto simp: of_register split: if_splits)
qed simp

lemma register_unregister:
  assumes "ok r" and "e_id e \<notin> e_id ` executors_of r n"
  shows "executors_of (unregister (e_id e) (register e r)) n = executors_of r n"
proof -
  have "e_id x \<noteq> e_id e" if "x \<in> executors_of r n" for x
    using assms(2) imageI [OF that, of e_id] by metis
  then show ?thesis using assms by (auto simp: of_register of_unregister ok_register)
qed

text \<open>Any sequence of operations does to the registry what the specification says.\<close>

lemma ok_run_op: "ok r \<Longrightarrow> ok (run_op register unregister unregister_all x r)"
  by (cases x) (simp_all add: ok_register ok_unregister ok_unregister_all)

lemma executors_of_run_op:
  "ok r \<Longrightarrow> executors_of (run_op register unregister unregister_all x r) = holds_after x (executors_of r)"
  by (cases x) (auto simp: of_register of_unregister of_unregister_all fun_eq_iff)

lemma run_refines:
  "ok r \<Longrightarrow> ok (fold (run_op register unregister unregister_all) xs r) \<and>
     executors_of (fold (run_op register unregister unregister_all) xs r) = fold holds_after xs (executors_of r)"
  by (induction xs arbitrary: r) (simp_all add: ok_run_op executors_of_run_op)

end

section \<open>Shared state\<close>

type_synonym callers = "caller smap"

definition entry_ok :: "string \<times> caller \<Rightarrow> bool" where
  "entry_ok nc \<longleftrightarrow> caller_ok (snd nc) \<and> (\<forall>e\<in>set (c_executors (snd nc)). e_service e = fst nc)"

definition registry_ok :: "callers \<Rightarrow> bool" where
  "registry_ok reg \<longleftrightarrow> map_ok reg \<and> (\<forall>nc\<in>set reg. entry_ok nc)"

definition executors_of :: "callers \<Rightarrow> string \<Rightarrow> executor set" where
  "executors_of reg n = (case map_get reg n of None \<Rightarrow> {} | Some c \<Rightarrow> set (c_executors c))"

section \<open>The local registry\<close>

definition local_Register :: "executor \<Rightarrow> callers \<Rightarrow> callers result" where
  "local_Register e reg =
     (let name = e_service e;
          reg1 = (if \<not> map_contains reg name then map_put name (make_caller name) reg else reg)
      in bind_result (map_at reg1 name) (\<lambda>c. Inr (map_put name (AddExecutor e c) reg1)))"

definition local_UnregisterAll :: "string \<Rightarrow> callers \<Rightarrow> callers" where
  "local_UnregisterAll name reg = (if map_contains reg name then map_erase name reg else reg)"

definition local_Unregister :: "string \<Rightarrow> callers \<Rightarrow> callers" where
  "local_Unregister i reg = map (\<lambda>(n, c). (n, RemoveExecutor i c)) reg"

definition local_Find :: "(string \<Rightarrow> bool) \<Rightarrow> string \<Rightarrow> bool \<Rightarrow> callers \<Rightarrow> caller option" where
  "local_Find conn name only_local reg =
     (case map_get reg name of
        Some c \<Rightarrow>
          if caller_IsCallable conn c then
            (if \<not> only_local \<and> ContainsLocallyCallable conn c then Some c else None)
          else None
      | None \<Rightarrow> None)"

section \<open>The remote registry\<close>

text \<open>
  Which subsystems are there when a call needs them, what the calls set in motion (jobs
  that send messages, events), and the registry operations.
\<close>

record subsystems_state =
  ss_alive :: bool
  ss_job_manager :: bool
  ss_endpoint :: bool
  ss_broker :: bool

datatype registry_effect =
    BroadcastRegistration executor
  | FireRegistered string
  | FireUnregistered string

definition enter_executor :: "executor \<Rightarrow> callers \<Rightarrow> callers" where
  "enter_executor e reg =
     (let name = e_service e;
          reg1 = (if \<not> map_contains reg name then map_put name (make_caller name) reg else reg)
      in case map_get reg1 name of Some c \<Rightarrow> map_put name (AddExecutor e c) reg1 | None \<Rightarrow> reg1)"

definition remote_Register ::
  "subsystems_state \<Rightarrow> (string \<Rightarrow> bool) \<Rightarrow> executor \<Rightarrow> callers \<Rightarrow> (callers \<times> registry_effect list) result" where
  "remote_Register ss conn e reg =
     (if \<not> IsCallable conn e then Inr (reg, [])
      else if \<not> ss_alive ss then Inr (reg, [])
      else if \<not> ss_job_manager ss \<or> \<not> ss_endpoint ss then Inl SubsystemNotFoundException
      else Inr (enter_executor e reg,
        (if IsLocal e then [BroadcastRegistration e] else []) @
        (if ss_broker ss then [FireRegistered (e_service e)] else [])))"

definition remote_UnregisterAll ::
  "subsystems_state \<Rightarrow> string \<Rightarrow> callers \<Rightarrow> callers \<times> registry_effect list" where
  "remote_UnregisterAll ss name reg =
     (if map_contains reg name then map_erase name reg else reg,
      if ss_alive ss \<and> ss_broker ss then [FireUnregistered name] else [])"

definition remote_Unregister :: "string \<Rightarrow> callers \<Rightarrow> callers" where
  "remote_Unregister i reg = map (\<lambda>(n, c). (n, RemoveExecutor i c)) reg"

text \<open>A promise is unset or holds its value; setting it again throws.\<close>

type_synonym 'a promise = "'a option"

fun set_value :: "'a \<Rightarrow> 'a promise \<Rightarrow> 'a promise result" where
  "set_value v None = Inr (Some v)"
| "set_value v (Some _) = Inl FutureError"

definition remote_Find :: "(string \<Rightarrow> bool) \<Rightarrow> string \<Rightarrow> bool \<Rightarrow> callers \<Rightarrow> caller option result" where
  "remote_Find conn service_name only_local reg =
     bind_result
       (case map_get reg service_name of
          Some c \<Rightarrow>
            if caller_IsCallable conn c then
              bind_result
                (if only_local then
                   (if \<not> ContainsLocallyCallable conn c then set_value None None else Inr None)
                 else Inr None)
                (\<lambda>p. set_value (Some c) p)
            else set_value None None
        | None \<Rightarrow> set_value None None)
       (\<lambda>p. of_opt FutureError p)"

section \<open>Offering services to other nodes\<close>

text \<open>
  The registration message of one executor, as built by \<open>broadcastServiceRegistration\<close> and
  by the job of \<open>CreateRemoteServiceRegistrationJob\<close>; the capacity is widened to \<open>size_t\<close>.
\<close>

definition registration_message :: "string \<Rightarrow> string \<Rightarrow> string \<Rightarrow> 64 word \<Rightarrow> message" where
  "registration_message uuid service_name service_id capacity =
     SetCapacity capacity (SetId service_id (SetServiceName service_name (make_registration uuid)))"

text \<open>The messages of \<open>SendServicePortfolioToEndpoint\<close>, in the order their jobs are kicked.\<close>

definition SendServicePortfolio :: "(string \<Rightarrow> bool) \<Rightarrow> string \<Rightarrow> callers \<Rightarrow> message list" where
  "SendServicePortfolio conn uuid reg =
     concat (map (\<lambda>(service_name, c).
       map (\<lambda>e. registration_message uuid service_name (e_id e) (scast (e_capacity e)))
         (GetCallableServiceExecutors conn True c)) reg)"

text \<open>\<open>RemoteServiceRegistrationConsumer\<close>: the executor it registers for a message.\<close>

definition process_registration :: "string \<Rightarrow> message \<Rightarrow> executor result" where
  "process_registration endpoint m =
     bind_result (RegGetCapacity m) (\<lambda>capacity.
       Inr \<lparr>e_id = RegGetId m, e_service = RegGetServiceName m, e_where = RemoteExecutor endpoint,
            e_capacity = ucast capacity\<rparr>)"

section \<open>Answering requests of other nodes\<close>

text \<open>
  \<open>RemoteServiceRequestConsumer\<close>: the job for one received message, up to the sending of the
  response. \<open>Inl\<close> is an exception that leaves the job, which then fails without having sent
  anything; \<open>None\<close> is a message that was dropped; otherwise it is the response message. The
  call moves the position of the caller it goes through.
\<close>

definition call_locally ::
  "(string \<Rightarrow> bool) \<Rightarrow> (service_request \<Rightarrow> nat \<Rightarrow> executor \<Rightarrow> service_response result) \<Rightarrow> (exn \<Rightarrow> string) \<Rightarrow>
     service_request \<Rightarrow> caller option \<Rightarrow> callers \<Rightarrow> service_response \<times> callers" where
  "call_locally conn answer what request maybe_caller reg =
     (case maybe_caller of
        None \<Rightarrow> (make_response (rq_transaction request) GONE ''service does not exist (anymore)'', reg)
      | Some c \<Rightarrow>
          (let (outcome, _, c') = IssueCallAsJob RETRY_POLICY_NONE (\<lambda>_. conn) (answer request) True c;
               reg' = map_put (rq_service request) c' reg
           in case outcome of
                Resolved r \<Rightarrow> (r, reg')
              | CallFailed x \<Rightarrow> (make_response (rq_transaction request) INTERNAL_ERROR (what x), reg')))"

definition process_request ::
  "(string \<Rightarrow> bool) \<Rightarrow> (service_request \<Rightarrow> nat \<Rightarrow> executor \<Rightarrow> service_response result) \<Rightarrow> string \<Rightarrow>
     (exn \<Rightarrow> string) \<Rightarrow> callers \<Rightarrow> message \<Rightarrow> (message option \<times> callers) result" where
  "process_request conn answer uuid what reg m =
     bind_result (ToServiceRequest m) (\<lambda>maybe_request.
       case maybe_request of
         None \<Rightarrow> Inr (None, reg)
       | Some request \<Rightarrow>
           bind_result (remote_Find conn (rq_service request) True reg) (\<lambda>maybe_caller.
             let (response, reg') = call_locally conn answer what request maybe_caller reg
             in bind_result (FromServiceResponse uuid response) (\<lambda>msg. Inr (Some msg, reg'))))"

section \<open>Lemmas\<close>

lemma executors_of_put: "map_ok reg \<Longrightarrow>
    executors_of (map_put n c reg) n' = (if n' = n then set (c_executors c) else executors_of reg n')"
  by (simp add: executors_of_def)

lemma registry_ok_put: "registry_ok reg \<Longrightarrow> entry_ok (n, c) \<Longrightarrow> registry_ok (map_put n c reg)"
  using set_map_put [of n c reg] by (auto simp: registry_ok_def)

lemma registry_ok_caller: "registry_ok reg \<Longrightarrow> map_get reg n = Some c \<Longrightarrow> entry_ok (n, c)"
  by (auto simp: registry_ok_def simp flip: map_entry_get)

lemma entry_ok_make: "entry_ok (n, make_caller n)"
  by (simp add: entry_ok_def make_caller_def caller_ok_def)

lemma entry_ok_Add: "entry_ok (e_service e, c) \<Longrightarrow> entry_ok (e_service e, AddExecutor e c)"
  by (auto simp: entry_ok_def set_AddExecutor split: if_splits)

lemma entry_ok_Remove: "entry_ok (n, c) \<Longrightarrow> entry_ok (n, RemoveExecutor i c)"
  by (simp add: entry_ok_def set_RemoveExecutor)

lemma registry_ok_erase: "registry_ok reg \<Longrightarrow> registry_ok (map_erase n reg)"
  by (auto simp: registry_ok_def map_erase_def map_ok_def sorted_wrt_filter_map)

lemma map_ok_map_values: "map_ok (map (\<lambda>(n, c). (n, f c)) reg) = map_ok reg"
  by (simp add: map_ok_def split_beta comp_def)

lemma map_get_map_values: "map_get (map (\<lambda>(n, c). (n, f c)) reg) k = map_option f (map_get reg k)"
  by (induction reg) auto

lemma registry_ok_Unregister: "registry_ok reg \<Longrightarrow> registry_ok (map (\<lambda>(n, c). (n, RemoveExecutor i c)) reg)"
  by (auto simp: registry_ok_def map_ok_map_values intro: entry_ok_Remove)

lemma executors_of_Unregister:
  "executors_of (map (\<lambda>(n, c). (n, RemoveExecutor i c)) reg) n = {e \<in> executors_of reg n. e_id e \<noteq> i}"
  by (auto simp: executors_of_def map_get_map_values set_RemoveExecutor split: option.splits)

lemma enter_executor_eq:
  "enter_executor e reg = map_put (e_service e)
     (AddExecutor e (case map_get reg (e_service e) of Some c \<Rightarrow> c | None \<Rightarrow> make_caller (e_service e)))
     (case map_get reg (e_service e) of Some c \<Rightarrow> reg | None \<Rightarrow> map_put (e_service e) (make_caller (e_service e)) reg)"
  by (auto simp: enter_executor_def Let_def split: option.splits)

lemma local_Register_eq: "local_Register e reg = Inr (enter_executor e reg)"
  by (auto simp: local_Register_def enter_executor_def Let_def map_at_def split: option.splits)

lemma enter_executor_ok: "registry_ok reg \<Longrightarrow> registry_ok (enter_executor e reg)"
  unfolding enter_executor_eq
  by (auto split: option.splits intro!: registry_ok_put entry_ok_Add entry_ok_make registry_ok_caller)

lemma executors_of_enter:
  "executors_of (enter_executor e reg) n =
     (if n = e_service e \<and> e_id e \<notin> e_id ` executors_of reg n then insert e (executors_of reg n)
      else executors_of reg n)"
  unfolding enter_executor_eq
  by (auto simp: executors_of_def set_AddExecutor make_caller_def split: option.splits)

lemma executors_of_erase:
  "executors_of (if map_contains reg n then map_erase n reg else reg) n' =
     (if n' = n then {} else executors_of reg n')"
  by (auto simp: executors_of_def split: option.splits)

interpretation local_registry: service_registry
  "\<lambda>e reg. case local_Register e reg of Inr reg' \<Rightarrow> reg' | Inl _ \<Rightarrow> reg"
  local_Unregister local_UnregisterAll executors_of registry_ok
  by unfold_locales
    (simp_all add: local_Register_eq enter_executor_ok local_Unregister_def registry_ok_Unregister
      local_UnregisterAll_def registry_ok_erase executors_of_enter executors_of_Unregister
      executors_of_erase del: map_contains_iff)

interpretation remote_registry: service_registry
  enter_executor remote_Unregister "\<lambda>n reg. fst (remote_UnregisterAll ss n reg)" executors_of registry_ok
  by unfold_locales
    (simp_all add: enter_executor_ok remote_Unregister_def registry_ok_Unregister
      remote_UnregisterAll_def registry_ok_erase executors_of_enter executors_of_Unregister
      executors_of_erase del: map_contains_iff)

text \<open>The two registries under a sequence of operations, as the code runs them.\<close>

fun local_run :: "registry_op list \<Rightarrow> callers \<Rightarrow> callers result" where
  "local_run [] reg = Inr reg"
| "local_run (OpRegister e # xs) reg = bind_result (local_Register e reg) (local_run xs)"
| "local_run (OpUnregister i # xs) reg = local_run xs (local_Unregister i reg)"
| "local_run (OpUnregisterAll n # xs) reg = local_run xs (local_UnregisterAll n reg)"

text \<open>With each operation comes which connections are open when it is called.\<close>

fun remote_run ::
  "subsystems_state \<Rightarrow> ((string \<Rightarrow> bool) \<times> registry_op) list \<Rightarrow> callers \<Rightarrow> callers result" where
  "remote_run ss [] reg = Inr reg"
| "remote_run ss ((conn, OpRegister e) # xs) reg =
     bind_result (remote_Register ss conn e reg) (\<lambda>(reg', effects). remote_run ss xs reg')"
| "remote_run ss ((conn, OpUnregister i) # xs) reg = remote_run ss xs (remote_Unregister i reg)"
| "remote_run ss ((conn, OpUnregisterAll n) # xs) reg = remote_run ss xs (fst (remote_UnregisterAll ss n reg))"

text \<open>Registering an executor that cannot be called does nothing.\<close>

fun takes_effect :: "(string \<Rightarrow> bool) \<times> registry_op \<Rightarrow> bool" where
  "takes_effect (conn, OpRegister e) = IsCallable conn e"
| "takes_effect (conn, OpUnregister i) = True"
| "takes_effect (conn, OpUnregisterAll n) = True"

lemma local_run_eq:
  "local_run xs reg = Inr (fold (run_op (\<lambda>e reg. case local_Register e reg of Inr reg' \<Rightarrow> reg' | Inl _ \<Rightarrow> reg)
     local_Unregister local_UnregisterAll) xs reg)"
  by (induction xs reg rule: local_run.induct) (simp_all add: local_Register_eq)

lemma remote_run_eq:
  assumes "ss_alive ss" "ss_job_manager ss" "ss_endpoint ss"
  shows "remote_run ss xs reg = Inr (fold (run_op enter_executor remote_Unregister
     (\<lambda>n reg. fst (remote_UnregisterAll ss n reg))) (map snd (filter takes_effect xs)) reg)"
  using assms by (induction ss xs reg rule: remote_run.induct) (simp_all add: remote_Register_def)

lemma ContainsLocallyCallable_iff: "ContainsLocallyCallable conn c \<longleftrightarrow> (\<exists>e\<in>set (c_executors c). IsLocal e)"
  by (auto simp: ContainsLocallyCallable_def eligible_def intro: IsLocal_IsCallable)

lemma caller_IsCallable_local: "e \<in> set (c_executors c) \<Longrightarrow> IsLocal e \<Longrightarrow> caller_IsCallable conn c"
  by (auto simp: caller_IsCallable_def intro: IsLocal_IsCallable)

lemma Select_local:
  assumes "ContainsLocallyCallable conn c"
  shows "\<exists>e. fst (SelectNextCallableExecutor conn True c) = Some e"
proof -
  have ne: "c_executors c \<noteq> []" and ex: "\<exists>e\<in>set (c_executors c). eligible conn True e"
    using assms by (auto simp: ContainsLocallyCallable_def)
  then show ?thesis
    unfolding Select_spec(1) [OF ne] by (auto simp: find_None_iff simp del: rotate_Suc simp flip: not_None_eq)
qed

lemma IssueCall_results_ok:
  assumes "\<And>n e r. answer n e = Inr r \<Longrightarrow> map_ok (rs_results r)"
    and "IssueCallAsJob policy conn answer only_local c = (Resolved r, called, c')"
  shows "map_ok (rs_results r)"
proof -
  have "resolve_spec policy answer None 1 (Resolved r) called"
    using resolve_call_spec [of policy answer None 1 conn only_local c] assms(2) by (simp add: IssueCallAsJob_def)
  then show ?thesis using assms(1) by (auto simp: resolve_spec_def SetResolutionAttempts_def)
qed

lemma call_locally_results_ok:
  assumes "\<And>n e r. answer request n e = Inr r \<Longrightarrow> map_ok (rs_results r)"
    and "call_locally conn answer what request maybe_caller reg = (response, reg')"
  shows "map_ok (rs_results response)"
proof (cases maybe_caller)
  case (Some c)
  obtain out called c' where call: "IssueCallAsJob RETRY_POLICY_NONE (\<lambda>_. conn) (answer request) True c = (out, called, c')"
    by (metis prod_cases3)
  show ?thesis
    using IssueCall_results_ok [OF assms(1)] call assms(2) Some
    by (auto simp: call_locally_def Let_def make_response_def split: call_outcome.splits)
qed (use assms(2) in \<open>auto simp: call_locally_def make_response_def\<close>)

section \<open>Properties\<close>

definition example_local :: executor where
  "example_local = \<lparr>e_id = ''a'', e_service = ''add'', e_where = LocalExecutor, e_capacity = - 1\<rparr>"

definition example_remote :: executor where
  "example_remote = \<lparr>e_id = ''b'', e_service = ''mul'', e_where = RemoteExecutor ''node'', e_capacity = 2\<rparr>"

definition example_registry :: callers where
  "example_registry = enter_executor example_remote (enter_executor example_local [])"

lemma example_registry_ok: "registry_ok example_registry"
  unfolding example_registry_def by (intro enter_executor_ok) (simp add: registry_ok_def)

text \<open>What a lookup that does not ask for local executors finds, by the executors there are.\<close>

lemma local_Find_held:
  "if \<exists>e\<in>executors_of reg n. IsLocal e
   then \<exists>c. local_Find conn n False reg = Some c \<and> set (c_executors c) = executors_of reg n
   else local_Find conn n False reg = None"
  using caller_IsCallable_local
  by (auto simp: local_Find_def executors_of_def ContainsLocallyCallable_iff split: option.splits)

lemma remote_Find_held:
  "if \<exists>e\<in>executors_of reg n. IsCallable conn e
   then \<exists>c. remote_Find conn n False reg = Inr (Some c) \<and> set (c_executors c) = executors_of reg n
   else remote_Find conn n False reg = Inr None"
  by (auto simp: remote_Find_def executors_of_def caller_IsCallable_def split: option.splits)



text \<open>
  The local registry answers nothing to whoever asks for local services only: the
  flag is negated in the condition that should honour it. Without the flag it finds
  exactly the services that have a local executor.
\<close>

theorem local_find_ignores_local_services:
  "local_Find conn name True reg = None \<and>
   (local_Find conn name False reg \<noteq> None \<longleftrightarrow> (\<exists>e\<in>executors_of reg name. IsLocal e))"
proof (cases "map_get reg name")
  case (Some c)
  then show ?thesis
    using caller_IsCallable_local [of _ c conn]
    by (auto simp: local_Find_def executors_of_def ContainsLocallyCallable_iff)
qed (simp add: local_Find_def executors_of_def)

text \<open>
  C23: a request from another node is answered exactly once: \<open>GONE\<close> when the service is
  not known here, otherwise the response of the local call. The exception is a service
  that this node only knows from other nodes: looking it up sets a promise twice, the job
  dies of the exception and the requesting node never gets an answer.
\<close>

theorem requests_are_answered_unless_only_remote:
  assumes "ToServiceRequest m = Inr (Some request)"
    and "\<And>n e r. answer request n e = Inr r \<Longrightarrow> map_ok (rs_results r)"
  shows "if \<exists>c. map_get reg (rq_service request) = Some c \<and> caller_IsCallable conn c \<and>
        \<not> (\<exists>e\<in>set (c_executors c). IsLocal e)
    then process_request conn answer uuid what reg m = Inl FutureError
    else \<exists>response msg reg'. process_request conn answer uuid what reg m = Inr (Some msg, reg') \<and>
      FromServiceResponse uuid response = Inr msg \<and>
      (map_get reg (rq_service request) = None \<longrightarrow> rs_status response = GONE \<and>
         rs_transaction response = rq_transaction request \<and> reg' = reg)"
proof -
  have conv: "\<exists>msg. FromServiceResponse uuid r = Inr msg" if "map_ok (rs_results r)" for r
    using from_response [OF that] by blast
  have made: "map_ok (rs_results (make_response t st s))" for t st s by (simp add: make_response_def)
  let ?gone = "make_response (rq_transaction request) GONE ''service does not exist (anymore)''"
  obtain gone where gone: "FromServiceResponse uuid ?gone = Inr gone" using conv [OF made] by blast
  show ?thesis
  proof (cases "map_get reg (rq_service request)")
    case None
    then have "process_request conn answer uuid what reg m = Inr (Some gone, reg)"
      using assms(1) gone by (simp add: process_request_def remote_Find_def call_locally_def)
    with None gone show ?thesis by (auto simp: make_response_def)
  next
    case (Some c)
    show ?thesis
    proof (cases "caller_IsCallable conn c")
      case False
      with Some have "process_request conn answer uuid what reg m = Inr (Some gone, reg)"
        using assms(1) gone by (simp add: process_request_def remote_Find_def call_locally_def)
      with Some False gone show ?thesis by auto
    next
      case callable: True
      show ?thesis
      proof (cases "ContainsLocallyCallable conn c")
        case False
        with Some callable have "process_request conn answer uuid what reg m = Inl FutureError"
          using assms(1) by (simp add: process_request_def remote_Find_def)
        with Some callable False show ?thesis by (auto simp: ContainsLocallyCallable_iff)
      next
        case True
        obtain response reg' where call: "call_locally conn answer what request (Some c) reg = (response, reg')"
          by (cases "call_locally conn answer what request (Some c) reg")
        have "map_ok (rs_results response)"
          using call_locally_results_ok [OF assms(2) call] by simp
        then obtain msg where msg: "FromServiceResponse uuid response = Inr msg" using conv by blast
        have "process_request conn answer uuid what reg m = Inr (Some msg, reg')"
          using assms(1) Some callable True call msg by (simp add: process_request_def remote_Find_def)
        with msg Some True show ?thesis by (auto simp: ContainsLocallyCallable_iff)
      qed
    qed
  qed
qed

theorem requests_are_answered_unless_only_remote_witness:
  "process_request (\<lambda>_. True) (\<lambda>_ n e. Inl CallFailedException) ''u'' (\<lambda>_. ''x'') example_registry
     (SetAttribute ''service'' ''mul'' (SetAttribute ''transaction-id'' ''t'' (make_message ''service-request'' ''u'')))
   = Inl FutureError"
proof -
  let ?m = "SetAttribute ''service'' ''mul'' (SetAttribute ''transaction-id'' ''t'' (make_message ''service-request'' ''u''))"
  have m: "message_ok ?m" by simp
  obtain request where rq: "ToServiceRequest ?m = Inr (Some request)" "rq_service request = ''mul''"
    using copy_all_parameters [OF m] by (simp add: ToServiceRequest_def make_message_def)
  have "\<exists>c. map_get example_registry ''mul'' = Some c \<and> caller_IsCallable (\<lambda>_. True) c \<and>
      \<not> (\<exists>e\<in>set (c_executors c). IsLocal e)"
    by (simp add: Let_def example_registry_def enter_executor_def example_local_def example_remote_def
        make_caller_def AddExecutor_def caller_IsCallable_def IsLocal_def IsCallable_def)
  then show ?thesis
    using requests_are_answered_unless_only_remote [OF rq(1), of "\<lambda>_ n e. Inl CallFailedException"
        example_registry "\<lambda>_. True" "''u''" "\<lambda>_. ''x''"] rq(2)
    by simp
qed

lemma portfolio_received:
  assumes "registry_ok reg"
  shows "map (process_registration endpoint) (SendServicePortfolio conn uuid reg) =
    map (\<lambda>e. Inr (e\<lparr>e_where := RemoteExecutor endpoint\<rparr>))
      (concat (map (\<lambda>(n, c). filter IsLocal (c_executors c)) reg))"
proof -
  have cap: "ucast (scast (c :: 32 word) :: 64 word) = c" for c
    by (rule bit_word_eqI) (simp add: bit_ucast_iff bit_signed_iff)
  have msg: "process_registration endpoint (registration_message uuid n i (scast c)) =
      Inr \<lparr>e_id = i, e_service = n, e_where = RemoteExecutor endpoint, e_capacity = c\<rparr>" for n i c
    by (simp add: process_registration_def registration_message_def RegGetCapacity_def RegGetId_def
        RegGetServiceName_def SetCapacity_def SetId_def SetServiceName_def make_registration_def
        stoul_to_string cap)
  have loc: "eligible conn True = IsLocal"
    by (auto simp: eligible_def fun_eq_iff intro: IsLocal_IsCallable)
  have "map (process_registration endpoint) (map (\<lambda>e. registration_message uuid n (e_id e) (scast (e_capacity e)))
      (GetCallableServiceExecutors conn True c)) =
      map (\<lambda>e. Inr (e\<lparr>e_where := RemoteExecutor endpoint\<rparr>)) (filter IsLocal (c_executors c))"
    if "(n, c) \<in> set reg" for n c
  proof -
    have "\<forall>e\<in>set (c_executors c). e_service e = n"
      using assms that by (auto simp: registry_ok_def entry_ok_def)
    then show ?thesis
      unfolding GetCallableServiceExecutors_def collect_callable_filter loc
      by (auto simp: msg intro!: executor.equality)
  qed
  then show ?thesis
    unfolding SendServicePortfolio_def map_concat map_map
    by (intro arg_cong [where f = concat] map_cong) auto
qed

text \<open>
  A node that receives the service portfolio of another node ends up with exactly the
  executors that are local there, in the same order, with the same ids, service names and
  capacities, each of them now to be called over the connection to that node; services
  the sender only knows from third nodes are not offered.
\<close>

theorem portfolio_is_received_as_offered:
  assumes "registry_ok reg"
  shows "map (process_registration endpoint) (SendServicePortfolio conn uuid reg) =
    map (\<lambda>e. Inr (e\<lparr>e_where := RemoteExecutor endpoint\<rparr>))
      (concat (map (\<lambda>(n, c). filter IsLocal (c_executors c)) reg))"
  using assms by (rule portfolio_received)

theorem portfolio_is_received_as_offered_witness:
  "map (process_registration ''me'') (SendServicePortfolio (\<lambda>_. True) ''u'' example_registry) =
     [Inr (example_local\<lparr>e_where := RemoteExecutor ''me''\<rparr>)]"
  using portfolio_is_received_as_offered [OF example_registry_ok, of "''me''" "\<lambda>_. True" "''u''"]
  by (simp add: Let_def example_registry_def enter_executor_def example_local_def example_remote_def
        make_caller_def AddExecutor_def IsLocal_def)

end
