(* ===== verification/Response_Consumer.thy ===== *)
theory Response_Consumer
  imports Service_Data
begin

text \<open>
  Calls to other nodes: the consumer of response messages with its table of pending
  requests (\<open>RemoteServiceResponseConsumer\<close>) and the job of \<open>RemoteServiceExecutor\<close>. Request
  objects and promises are shared, so they live in a store and are named by references.
\<close>

section \<open>State\<close>

type_synonym rref = nat
type_synonym pref = nat

datatype settled = Answered service_response | Broken exn

record pending_info =
  pi_request :: rref
  pi_promise :: pref
  pi_endpoint :: string

record rpc =
  pending_requests :: "pending_info smap"
  rpc_requests :: "rref \<Rightarrow> service_request"
  rpc_promises :: "pref \<Rightarrow> settled option"
  consumer_alive :: bool

text \<open>Setting a promise a second time throws \<open>std::future_error\<close>.\<close>

definition settle :: "pref \<Rightarrow> settled \<Rightarrow> rpc \<Rightarrow> rpc result" where
  "settle p x s =
     (if rpc_promises s p = None then Inr (s\<lparr>rpc_promises := (rpc_promises s)(p \<mapsto> x)\<rparr>) else Inl FutureError)"

definition mark :: "rref \<Rightarrow> bool \<Rightarrow> rpc \<Rightarrow> rpc" where
  "mark r b s = s\<lparr>rpc_requests := (rpc_requests s)(r := MarkAsCurrentlyProcessed b (rpc_requests s r))\<rparr>"

section \<open>The consumer\<close>

definition ProcessReceivedMessage :: "message \<Rightarrow> rpc \<Rightarrow> rpc result" where
  "ProcessReceivedMessage m s =
     bind_result (ToServiceResponse m) (\<lambda>maybe_response.
       case maybe_response of None \<Rightarrow> Inr s
       | Some response \<Rightarrow>
           (case map_get (pending_requests s) (rs_transaction response) of None \<Rightarrow> Inr s
            | Some info \<Rightarrow>
                bind_result (settle (pi_promise info) (Answered response) (mark (pi_request info) False s))
                  (\<lambda>s'. Inr (s'\<lparr>pending_requests :=
                     map_erase (rs_transaction response) (pending_requests s')\<rparr>))))"

text \<open>
  Registering the listener for lost connections and entering the request are one step here; an
  event between the two would find no entry, as one before both does. The subsystems are
  there, as they own the registry the consumer belongs to.
\<close>

definition AddResponsePromise :: "rref \<Rightarrow> string \<Rightarrow> pref \<Rightarrow> rpc \<Rightarrow> rpc" where
  "AddResponsePromise r endpoint p s =
     s\<lparr>pending_requests := map_put (rq_transaction (rpc_requests s r))
         \<lparr>pi_request = r, pi_promise = p, pi_endpoint = endpoint\<rparr> (pending_requests s)\<rparr>"

definition RemoveResponsePromise :: "string \<Rightarrow> rpc \<Rightarrow> pref option \<times> rpc" where
  "RemoveResponsePromise request_id s =
     (case map_get (pending_requests s) request_id of
        Some info \<Rightarrow> (Some (pi_promise info),
          s\<lparr>pending_requests := map_erase request_id (pending_requests s)\<rparr>)
      | None \<Rightarrow> (None, s))"

text \<open>
  The listener each pending request registers for \<open>connection-closed\<close> events; the table
  keeps it alive, so it runs for the requests that are pending when the event is fired.
\<close>

definition connection_closed_handler :: "string \<Rightarrow> string \<Rightarrow> string \<Rightarrow> rpc \<Rightarrow> rpc result" where
  "connection_closed_handler my_endpoint transaction closed s =
     (if my_endpoint = closed then
        (case RemoveResponsePromise transaction s of
           (Some p, s') \<Rightarrow> settle p (Broken ServiceEndpointDisconnectedException) s'
         | (None, s') \<Rightarrow> Inr s')
      else Inr s)"

fun run_handlers :: "(string \<times> pending_info) list \<Rightarrow> string \<Rightarrow> rpc \<Rightarrow> rpc result" where
  "run_handlers [] closed s = Inr s"
| "run_handlers ((t, info) # rest) closed s =
     bind_result (connection_closed_handler (pi_endpoint info) t closed s) (run_handlers rest closed)"

definition connection_closed :: "string \<Rightarrow> rpc \<Rightarrow> rpc result" where
  "connection_closed closed s = run_handlers (pending_requests s) closed s"

section \<open>The job of a remote executor\<close>

text \<open>
  Up to the sending of the request: the second component says whether a message is sent.
\<close>

definition remote_call_begin :: "bool \<Rightarrow> rref \<Rightarrow> string \<Rightarrow> pref \<Rightarrow> rpc \<Rightarrow> (rpc \<times> bool) result" where
  "remote_call_begin callable r endpoint p s =
     (if callable then
        (if consumer_alive s then Inr (AddResponsePromise r endpoint p (mark r True s), True)
         else bind_result (settle p (Broken CallFailedException) (mark r False s)) (\<lambda>s'. Inr (s', True)))
      else bind_result (settle p (Broken CallFailedException) (mark r False s)) (\<lambda>s'. Inr (s', False)))"

text \<open>
  After the sending. \<open>Send\<close> itself throws when the endpoint has no open connection to the
  node any more; nothing catches that exception, so the job ends and the entry and its
  promise stay. A failure reported by the future is caught: the pending entry is removed,
  through a pointer that is null when the consumer is gone, and the promise is broken.
\<close>

datatype sending = SendSucceeded | SendFailed | SendThrew

definition remote_call_sent :: "sending \<Rightarrow> rref \<Rightarrow> pref \<Rightarrow> rpc \<Rightarrow> rpc result" where
  "remote_call_sent sending r p s =
     (case sending of
        SendSucceeded \<Rightarrow> Inr s
      | SendThrew \<Rightarrow> Inr s
      | SendFailed \<Rightarrow>
          if \<not> consumer_alive s then Inl UndefinedBehaviour
          else (let (_, s') = RemoveResponsePromise (rq_transaction (rpc_requests s r)) s
                in settle p (Broken CallFailedException) (mark r False s')))"

section \<open>Invariant\<close>

text \<open>
  Every pending entry is filed under the transaction id of its request, its promise is
  still open, and no two entries share a promise.
\<close>

definition rpc_ok :: "rpc \<Rightarrow> bool" where
  "rpc_ok s \<longleftrightarrow> map_ok (pending_requests s) \<and>
     (\<forall>t info. map_get (pending_requests s) t = Some info \<longrightarrow>
        rq_transaction (rpc_requests s (pi_request info)) = t \<and> rpc_promises s (pi_promise info) = None) \<and>
     (\<forall>t t' info info'. map_get (pending_requests s) t = Some info \<longrightarrow>
        map_get (pending_requests s) t' = Some info' \<longrightarrow> pi_promise info = pi_promise info' \<longrightarrow> t = t')"

lemma mark_fields [simp, frame]:
  "pending_requests (mark r b s) = pending_requests s"
  "rpc_promises (mark r b s) = rpc_promises s"
  "consumer_alive (mark r b s) = consumer_alive s"
  "rq_transaction (rpc_requests (mark r b s) r') = rq_transaction (rpc_requests s r')"
  "rq_processed (rpc_requests (mark r b s) r') = (if r' = r then b else rq_processed (rpc_requests s r'))"
  by (simp_all add: mark_def MarkAsCurrentlyProcessed_def)

lemma rpc_ok_mark [inv_intro]: "rpc_ok s \<Longrightarrow> rpc_ok (mark r b s)"
  by (simp add: rpc_ok_def)

lemma rpc_ok_entry:
  assumes "rpc_ok s" and "map_get (pending_requests s) t = Some info"
  shows "rq_transaction (rpc_requests s (pi_request info)) = t" "rpc_promises s (pi_promise info) = None"
    and "\<And>t' info'. map_get (pending_requests s) t' = Some info' \<Longrightarrow> t' \<noteq> t \<Longrightarrow> pi_promise info' \<noteq> pi_promise info"
  using assms unfolding rpc_ok_def by blast+

text \<open>Removing an entry and settling its promise keeps the invariant.\<close>

lemma rpc_ok_resolve [inv_intro]:
  assumes ok: "rpc_ok s" and e: "map_get (pending_requests s) t = Some info"
    and s': "pending_requests s' = map_erase t (pending_requests s)"
      "rpc_promises s' = (rpc_promises s)(pi_promise info \<mapsto> x)"
      "\<And>r. rq_transaction (rpc_requests s' r) = rq_transaction (rpc_requests s r)"
  shows "rpc_ok s'"
  unfolding rpc_ok_def
proof (intro conjI allI impI)
  show "map_ok (pending_requests s')" using ok by (simp add: rpc_ok_def s')
  fix t1 i1 assume 1: "map_get (pending_requests s') t1 = Some i1"
  then have t1: "t1 \<noteq> t" "map_get (pending_requests s) t1 = Some i1" by (auto simp: s' split: if_splits)
  show "rq_transaction (rpc_requests s' (pi_request i1)) = t1"
    using rpc_ok_entry(1) [OF ok t1(2)] by (simp add: s')
  show "rpc_promises s' (pi_promise i1) = None"
    using rpc_ok_entry(2) [OF ok t1(2)] rpc_ok_entry(3) [OF ok e t1(2,1)] by (simp add: s')
  fix t2 i2 assume "map_get (pending_requests s') t2 = Some i2" "pi_promise i1 = pi_promise i2"
  then have t2: "map_get (pending_requests s) t2 = Some i2" by (auto simp: s' split: if_splits)
  show "t1 = t2"
    using rpc_ok_entry(3) [OF ok t1(2) t2] \<open>pi_promise i1 = pi_promise i2\<close> by auto
qed

lemma rpc_ok_Add [inv_intro]:
  assumes ok: "rpc_ok s" and "rpc_promises s p = None"
    and "\<And>t info. map_get (pending_requests s) t = Some info \<Longrightarrow> pi_promise info \<noteq> p"
  shows "rpc_ok (AddResponsePromise r endpoint p s)"
  using assms unfolding rpc_ok_def AddResponsePromise_def by (auto split: if_splits)

definition closed_spec :: "(string \<times> pending_info) list \<Rightarrow> string \<Rightarrow> rpc \<Rightarrow> rpc \<Rightarrow> bool" where
  "closed_spec L closed s s' \<longleftrightarrow> rpc_ok s' \<and> rpc_requests s' = rpc_requests s \<and> consumer_alive s' = consumer_alive s \<and>
     (\<forall>t. map_get (pending_requests s') t =
        (case map_get (pending_requests s) t of None \<Rightarrow> None
         | Some info \<Rightarrow> if (t, info) \<in> set L \<and> pi_endpoint info = closed then None else Some info)) \<and>
     (\<forall>(t, info)\<in>set L. pi_endpoint info = closed \<longrightarrow>
        rpc_promises s' (pi_promise info) = Some (Broken ServiceEndpointDisconnectedException)) \<and>
     (\<forall>p. (\<forall>(t, info)\<in>set L. pi_endpoint info = closed \<longrightarrow> pi_promise info \<noteq> p) \<longrightarrow>
        rpc_promises s' p = rpc_promises s p)"

lemma handler_effect:
  assumes ok: "rpc_ok s" and e: "map_get (pending_requests s) t = Some info" and my: "pi_endpoint info = closed"
  shows "\<exists>s'. connection_closed_handler (pi_endpoint info) t closed s = Inr s' \<and> rpc_ok s' \<and>
    rpc_requests s' = rpc_requests s \<and> consumer_alive s' = consumer_alive s \<and>
    pending_requests s' = map_erase t (pending_requests s) \<and>
    rpc_promises s' = (rpc_promises s)(pi_promise info \<mapsto> Broken ServiceEndpointDisconnectedException)"
proof (intro exI conjI)
  let ?s = "s\<lparr>pending_requests := map_erase t (pending_requests s),
     rpc_promises := (rpc_promises s)(pi_promise info \<mapsto> Broken ServiceEndpointDisconnectedException)\<rparr>"
  show "connection_closed_handler (pi_endpoint info) t closed s = Inr ?s"
    using rpc_ok_entry(2) [OF ok e] my e
    by (simp add: connection_closed_handler_def RemoveResponsePromise_def settle_def)
  show "rpc_ok ?s" by (rule rpc_ok_resolve [OF ok e]) simp_all
qed simp_all

lemma closed_spec_Cons:
  assumes sp: "closed_spec L closed s1 s'"
    and s1: "rpc_requests s1 = rpc_requests s" "consumer_alive s1 = consumer_alive s"
      "pending_requests s1 = map_erase t (pending_requests s)"
      "rpc_promises s1 = (rpc_promises s)(pi_promise info \<mapsto> Broken ServiceEndpointDisconnectedException)"
    and e: "map_get (pending_requests s) t = Some info" and closed: "pi_endpoint info = closed"
    and notin: "\<And>i. (t, i) \<notin> set L" and p: "\<And>t' i. (t', i) \<in> set L \<Longrightarrow> pi_promise i \<noteq> pi_promise info"
  shows "closed_spec ((t, info) # L) closed s s'"
  unfolding closed_spec_def
proof (intro conjI allI ballI impI)
  fix t'
  show "map_get (pending_requests s') t' = (case map_get (pending_requests s) t' of None \<Rightarrow> None
     | Some i \<Rightarrow> if (t', i) \<in> set ((t, info) # L) \<and> pi_endpoint i = closed then None else Some i)"
    using sp e closed notin by (auto simp: closed_spec_def s1(3) split: option.splits)
next
  fix y assume y: "y \<in> set ((t, info) # L)"
  show "case y of (t', i) \<Rightarrow> pi_endpoint i = closed \<longrightarrow>
      rpc_promises s' (pi_promise i) = Some (Broken ServiceEndpointDisconnectedException)"
  proof (cases "y = (t, info)")
    case True
    have "rpc_promises s' (pi_promise info) = rpc_promises s1 (pi_promise info)"
      using sp p by (fastforce simp: closed_spec_def)
    with True show ?thesis by (simp add: s1(4))
  next
    case False
    with y sp show ?thesis by (auto simp: closed_spec_def)
  qed
next
  fix q assume "\<forall>(t', i)\<in>set ((t, info) # L). pi_endpoint i = closed \<longrightarrow> pi_promise i \<noteq> q"
  then show "rpc_promises s' q = rpc_promises s q"
    using sp closed by (auto simp: closed_spec_def s1(4))
qed (use sp s1 in \<open>simp_all add: closed_spec_def\<close>)

lemma run_handlers_spec:
  assumes "rpc_ok s" and "distinct (map fst L)"
    and "\<forall>(t, info)\<in>set L. map_get (pending_requests s) t = Some info"
  shows "\<exists>s'. run_handlers L closed s = Inr s' \<and> closed_spec L closed s s'"
  using assms
proof (induction L arbitrary: s)
  case Nil
  then show ?case by (auto simp: closed_spec_def split: option.splits)
next
  case (Cons x L)
  obtain t info where x: "x = (t, info)" by (cases x)
  have e: "map_get (pending_requests s) t = Some info" using Cons.prems(3) x by simp
  have notin: "(t, i) \<notin> set L" for i using Cons.prems(2) x by (force simp: image_iff)
  show ?case
  proof (cases "pi_endpoint info = closed")
    case False
    then have h: "connection_closed_handler (pi_endpoint info) t closed s = Inr s"
      by (simp add: connection_closed_handler_def)
    obtain s' where s': "run_handlers L closed s = Inr s'" "closed_spec L closed s s'"
      using Cons.IH [of s] Cons.prems by (metis (no_types, lifting) distinct.simps(2) list.set_intros(2) list.simps(9))
    have "closed_spec (x # L) closed s s'"
      using s'(2) False unfolding closed_spec_def x by (auto split: option.splits)
    with s'(1) h x show ?thesis by simp
  next
    case True
    obtain s1 where h: "connection_closed_handler (pi_endpoint info) t closed s = Inr s1"
      and s1: "rpc_ok s1" "rpc_requests s1 = rpc_requests s" "consumer_alive s1 = consumer_alive s"
        "pending_requests s1 = map_erase t (pending_requests s)"
        "rpc_promises s1 = (rpc_promises s)(pi_promise info \<mapsto> Broken ServiceEndpointDisconnectedException)"
      using handler_effect [OF Cons.prems(1) e True] by blast
    have L: "\<forall>(t', i)\<in>set L. map_get (pending_requests s1) t' = Some i"
      using Cons.prems(3) notin by (auto simp: s1(4))
    obtain s' where s': "run_handlers L closed s1 = Inr s'" and sp: "closed_spec L closed s1 s'"
      using Cons.IH [OF s1(1) _ L] Cons.prems(2) by auto
    have p: "pi_promise i \<noteq> pi_promise info" if "(t', i) \<in> set L" for t' i
      using rpc_ok_entry(3) [OF Cons.prems(1) e, of t' i] Cons.prems(3) that notin by auto
    have "closed_spec (x # L) closed s s'"
      unfolding x by (rule closed_spec_Cons [OF sp s1(2-5) e True notin p])
    with s' h x show ?thesis by simp
  qed
qed

lemma connection_closed_spec:
  assumes "rpc_ok s"
  shows "\<exists>s'. connection_closed closed s = Inr s' \<and> closed_spec (pending_requests s) closed s s'"
proof -
  have ok: "map_ok (pending_requests s)" using assms by (simp add: rpc_ok_def)
  then show ?thesis
    unfolding connection_closed_def using map_keys_distinct [OF ok]
    by (intro run_handlers_spec [OF assms]) (auto simp: map_keys_def map_entry_get)
qed

section \<open>Properties\<close>

text \<open>
  C20: a response resolves the pending request with its transaction id, once: its promise
  gets the response, the request may be used again, the entry is gone, every other entry
  and promise is untouched, and a second response of the same id changes nothing.
\<close>

theorem response_resolves_its_request_once:
  assumes "rpc_ok s" and "ToServiceResponse m = Inr (Some response)"
    and "map_get (pending_requests s) (rs_transaction response) = Some info"
  shows "\<exists>s'. ProcessReceivedMessage m s = Inr s' \<and> rpc_ok s' \<and>
    rpc_promises s' = (rpc_promises s)(pi_promise info \<mapsto> Answered response) \<and>
    pending_requests s' = map_erase (rs_transaction response) (pending_requests s) \<and>
    \<not> rq_processed (rpc_requests s' (pi_request info)) \<and>
    ProcessReceivedMessage m s' = Inr s'"
proof (intro exI conjI)
  let ?s1 = "mark (pi_request info) False s"
  let ?s = "?s1\<lparr>rpc_promises := (rpc_promises s)(pi_promise info \<mapsto> Answered response),
      pending_requests := map_erase (rs_transaction response) (pending_requests s)\<rparr>"
  show "ProcessReceivedMessage m s = Inr ?s"
    using assms(2,3) rpc_ok_entry(2) [OF assms(1,3)] by (simp add: ProcessReceivedMessage_def settle_def)
  show "rpc_ok ?s" by (rule rpc_ok_resolve [OF assms(1,3)]) simp_all
  show "ProcessReceivedMessage m ?s = Inr ?s"
    using assms(2) by (simp add: ProcessReceivedMessage_def)
qed simp_all

definition example_rpc :: rpc where
  "example_rpc = AddResponsePromise 0 ''node'' 5
     (mark 0 True \<lparr>pending_requests = [], rpc_requests = (\<lambda>r. make_request ''add'' ''t''),
        rpc_promises = (\<lambda>_. None), consumer_alive = True\<rparr>)"

lemma example_rpc_facts:
  "rpc_ok example_rpc"
  "map_get (pending_requests example_rpc) ''t'' = Some \<lparr>pi_request = 0, pi_promise = 5, pi_endpoint = ''node''\<rparr>"
  "consumer_alive example_rpc" "rq_processed (rpc_requests example_rpc 0)"
  by (simp_all add: example_rpc_def AddResponsePromise_def mark_def MarkAsCurrentlyProcessed_def
      make_request_def rpc_ok_def)

theorem response_resolves_its_request_once_witness:
  "\<exists>s'. ProcessReceivedMessage
     (SetAttribute ''status'' ''0'' (SetAttribute ''transaction-id'' ''t'' (make_message ''service-response'' ''u''))) example_rpc = Inr s' \<and>
     pending_requests s' = []"
proof -
  let ?m = "SetAttribute ''status'' ''0'' (SetAttribute ''transaction-id'' ''t'' (make_message ''service-response'' ''u''))"
  have "message_ok ?m" by simp
  moreover have "std_stoi ''0'' = Inr 0" by code_simp
  ultimately obtain r where r: "ToServiceResponse ?m = Inr (Some r)" "rs_transaction r = ''t''"
    using copy_all_results [of ?m] by (simp add: ToServiceResponse_def make_message_def status_of_int_def)
  have "map_erase ''t'' (pending_requests example_rpc) = []"
    by (simp add: example_rpc_def AddResponsePromise_def mark_def make_request_def MarkAsCurrentlyProcessed_def map_erase_def)
  with response_resolves_its_request_once [OF example_rpc_facts(1) r(1)] r(2) example_rpc_facts(2)
  show ?thesis by fastforce
qed

text \<open>
  C21: when the connection to an endpoint closes, exactly the requests pending there are
  cancelled, each with a \<open>ServiceEndpointDisconnectedException\<close>, and no caller waits
  forever; but the cancelled request objects stay marked as being processed, so they can
  never be issued again, and a sending failure that is reported afterwards breaks the
  promise a second time, which throws.
\<close>

theorem disconnect_cancels_the_pending_requests:
  assumes "rpc_ok s" and "consumer_alive s"
  shows "\<exists>s'. connection_closed closed s = Inr s' \<and> rpc_ok s' \<and>
    (\<forall>t. map_get (pending_requests s') t =
      (case map_get (pending_requests s) t of None \<Rightarrow> None
       | Some info \<Rightarrow> if pi_endpoint info = closed then None else Some info)) \<and>
    (\<forall>(t, info)\<in>set (pending_requests s). pi_endpoint info = closed \<longrightarrow>
      rpc_promises s' (pi_promise info) = Some (Broken ServiceEndpointDisconnectedException) \<and>
      rq_processed (rpc_requests s' (pi_request info)) = rq_processed (rpc_requests s (pi_request info)) \<and>
      remote_call_sent SendFailed (pi_request info) (pi_promise info) s' = Inl FutureError)"
proof -
  have mok: "map_ok (pending_requests s)" using assms(1) by (simp add: rpc_ok_def)
  obtain s' where s': "connection_closed closed s = Inr s'" and sp: "closed_spec (pending_requests s) closed s s'"
    using connection_closed_spec [OF assms(1)] by blast
  have "map_get (pending_requests s') t = (case map_get (pending_requests s) t of None \<Rightarrow> None
       | Some info \<Rightarrow> if pi_endpoint info = closed then None else Some info)" for t
    using sp mok by (auto simp: closed_spec_def map_entry_get split: option.splits)
  moreover have "remote_call_sent SendFailed (pi_request info) (pi_promise info) s' = Inl FutureError"
    if "(t, info) \<in> set (pending_requests s)" "pi_endpoint info = closed" for t info
    using sp that assms(2)
    by (auto simp: closed_spec_def remote_call_sent_def RemoveResponsePromise_def settle_def split: option.splits)
  ultimately show ?thesis
    using s' sp by (intro exI [of _ s']) (auto simp: closed_spec_def)
qed

theorem disconnect_cancels_the_pending_requests_witness:
  "\<exists>s'. connection_closed ''node'' example_rpc = Inr s' \<and>
     rpc_promises s' 5 = Some (Broken ServiceEndpointDisconnectedException) \<and> rq_processed (rpc_requests s' 0)"
proof -
  have e: "(''t'', \<lparr>pi_request = 0, pi_promise = 5, pi_endpoint = ''node''\<rparr>) \<in> set (pending_requests example_rpc)"
    using example_rpc_facts(1,2) by (simp add: rpc_ok_def map_entry_get)
  from disconnect_cancels_the_pending_requests [OF example_rpc_facts(1,3), of "''node''"] e example_rpc_facts(4)
  show ?thesis by fastforce
qed

text \<open>
  Calling through an executor whose response consumer is gone breaks the promise at
  once but sends the request all the same, and if that sending fails the job
  dereferences a null pointer.
\<close>

theorem call_without_consumer_still_sends:
  assumes "\<not> consumer_alive s" and "rpc_promises s p = None"
  shows "\<exists>s'. remote_call_begin True r endpoint p s = Inr (s', True) \<and>
    rpc_promises s' p = Some (Broken CallFailedException) \<and>
    remote_call_sent SendFailed r p s' = Inl UndefinedBehaviour"
  using assms by (simp add: remote_call_begin_def settle_def remote_call_sent_def)

theorem call_without_consumer_still_sends_witness:
  "\<exists>s'. remote_call_begin True 0 ''node'' 7 (example_rpc\<lparr>consumer_alive := False\<rparr>) = Inr (s', True)"
proof -
  have "rpc_promises (example_rpc\<lparr>consumer_alive := False\<rparr>) 7 = None"
    by (simp add: example_rpc_def AddResponsePromise_def)
  from call_without_consumer_still_sends [OF _ this, of 0 "''node''"] show ?thesis by auto
qed

end
