(* ===== verification/Local_Executor.thy ===== *)
theory Local_Executor
  imports Service_Caller
begin

text \<open>
  \<open>LocalServiceExecutor\<close> (\<open>subsystems/services/src/LocalServiceExecutor.cpp\<close>): its jobs are
  admitted up to the capacity and answered busy beyond it. The jobs run on fibers of
  several threads, so the property is about every interleaving of their two critical
  moments, the admission under the mutex and the decrement at the end.
\<close>

record local_executor =
  le_capacity :: "32 word"
  le_current :: nat

text \<open>The constructor narrows its \<open>size_t\<close> argument to \<open>capacity_t\<close>.\<close>

definition make_local_executor :: "64 word \<Rightarrow> local_executor" where
  "make_local_executor capacity = \<lparr>le_capacity = ucast capacity, le_current = 0\<rparr>"

definition concurrency_limit_reached :: "local_executor \<Rightarrow> bool" where
  "concurrency_limit_reached x \<longleftrightarrow>
     0 < sint (le_capacity x) \<and> sint (le_capacity x) \<le> int (le_current x)"

datatype job_end = FunctionReturned service_response | FunctionThrew exn

text \<open>The promise of the call after the job has ended, however the functor ended.\<close>

fun completion :: "job_end \<Rightarrow> service_response result" where
  "completion (FunctionReturned r) = Inr r"
| "completion (FunctionThrew x) = Inl CallFailedException"

record local_calls =
  le :: local_executor
  running_calls :: "string list"
  completions :: "(string \<times> service_response result) list"

definition admit_call :: "string \<Rightarrow> local_calls \<Rightarrow> local_calls" where
  "admit_call transaction w =
     (if concurrency_limit_reached (le w) then
        w\<lparr>completions := completions w @
          [(transaction, Inr (make_response transaction BUSY ''Service is busy, try again later''))]\<rparr>
      else w\<lparr>le := (le w)\<lparr>le_current := le_current (le w) + 1\<rparr>,
             running_calls := running_calls w @ [transaction]\<rparr>)"

definition end_call :: "string \<Rightarrow> job_end \<Rightarrow> local_calls \<Rightarrow> local_calls" where
  "end_call transaction e w =
     w\<lparr>le := (le w)\<lparr>le_current := le_current (le w) - 1\<rparr>,
       running_calls := remove1 transaction (running_calls w),
       completions := completions w @ [(transaction, completion e)]\<rparr>"

inductive local_step :: "local_calls \<Rightarrow> local_calls \<Rightarrow> bool" where
  admit: "local_step w (admit_call t w)"
| finish: "t \<in> set (running_calls w) \<Longrightarrow> local_step w (end_call t e w)"

definition local_run :: "local_calls \<Rightarrow> local_calls \<Rightarrow> bool" where
  "local_run = local_step\<^sup>*\<^sup>*"

definition initial_calls :: "64 word \<Rightarrow> local_calls" where
  "initial_calls capacity = \<lparr>le = make_local_executor capacity, running_calls = [], completions = []\<rparr>"

definition within_limit :: "local_calls \<Rightarrow> bool" where
  "within_limit w \<longleftrightarrow> le_current (le w) = length (running_calls w) \<and>
     (0 < sint (le_capacity (le w)) \<longrightarrow> int (length (running_calls w)) \<le> sint (le_capacity (le w)))"

lemma within_limit_step: "local_step w w' \<Longrightarrow> within_limit w \<Longrightarrow> within_limit w'"
proof (induction rule: local_step.induct)
  case (admit w t)
  then show ?case by (auto simp: admit_call_def concurrency_limit_reached_def within_limit_def)
next
  case (finish t w e)
  then have "0 < length (running_calls w)" by (auto simp: length_pos_if_in_set)
  with finish show ?case by (auto simp: end_call_def within_limit_def length_remove1)
qed

lemma local_step_capacity: "local_step w w' \<Longrightarrow> le_capacity (le w') = le_capacity (le w)"
  by (induction rule: local_step.induct) (auto simp: admit_call_def end_call_def)

interpretation local_executor: invariant_system "\<lambda>w. w = initial_calls capacity" local_step
  "\<lambda>w. within_limit w \<and> le_capacity (le w) = ucast capacity" for capacity
proof unfold_locales
  show "within_limit w \<and> le_capacity (le w) = ucast capacity" if "w = initial_calls capacity" for w
    using that by (simp add: within_limit_def initial_calls_def make_local_executor_def)
qed (metis within_limit_step local_step_capacity)

text \<open>
  C17: however calls overlap, the executor counts exactly the calls that are running, never
  more of them run than its positive capacity allows, and a call is turned away as busy
  exactly when that many are running; a capacity of zero, like a negative one, admits all.
\<close>

theorem concurrent_calls_are_limited:
  assumes "local_run (initial_calls capacity) w"
  shows "le_current (le w) = length (running_calls w) \<and>
    (0 < sint (ucast capacity :: 32 word) \<longrightarrow> int (length (running_calls w)) \<le> sint (ucast capacity :: 32 word)) \<and>
    (concurrency_limit_reached (le w) \<longleftrightarrow>
       0 < sint (ucast capacity :: 32 word) \<and> int (length (running_calls w)) = sint (ucast capacity :: 32 word))"
  using local_executor.inv_run [OF refl assms [unfolded local_run_def]] by (auto simp: within_limit_def concurrency_limit_reached_def)

theorem concurrent_calls_are_limited_witness:
  "concurrency_limit_reached (le (admit_call ''a'' (initial_calls 1)))"
proof -
  have "local_run (initial_calls 1) (admit_call ''a'' (initial_calls 1))"
    unfolding local_run_def by (rule r_into_rtranclp) (rule local_step.admit)
  from concurrent_calls_are_limited [OF this] show ?thesis
    by (simp add: admit_call_def initial_calls_def make_local_executor_def concurrency_limit_reached_def)
qed

end
