(* ===== verification/Events.thy ===== *)
theory Events
  imports Std_Map Job
begin

text \<open>
  Events and the event broker (\<open>subsystems/events\<close>: \<open>Event\<close>, \<open>JobBasedEventBroker\<close>).
  Listeners are held as weak pointers: the identity of an object which may be gone
  (\<open>expired\<close>) and the id that object reports while it exists. An event is delivered by one
  job per listener, so a listener may still expire between the firing and its job.
\<close>

section \<open>The contract of a broker\<close>

text \<open>
  What clients rely on: a live listener that registers for a topic receives the events of
  that topic, once each, no registration changes who receives other events, and a listener
  that unregisters receives nothing.
\<close>

locale event_broker =
  fixes register :: "'l \<Rightarrow> string \<Rightarrow> 'b \<Rightarrow> 'b result"
    and unregister :: "'l \<Rightarrow> 'b \<Rightarrow> 'b result"
    and receivers :: "string \<Rightarrow> 'b \<Rightarrow> 'l list"
    and live :: "'l \<Rightarrow> 'b \<Rightarrow> bool"
    and key :: "'l \<Rightarrow> string"
    and ok :: "'b \<Rightarrow> bool"
    and clean :: "'b \<Rightarrow> bool"
  assumes register_succeeds: "live l b \<Longrightarrow> \<exists>b'. register l t b = Inr b'"
    and register_ok: "ok b \<Longrightarrow> register l t b = Inr b' \<Longrightarrow> ok b'"
    and register_receivers: "live l b \<Longrightarrow> register l t b = Inr b' \<Longrightarrow> receivers t' b' =
          (if t' = t \<and> key l \<notin> key ` set (receivers t b) then receivers t b @ [l] else receivers t' b)"
    and unregister_succeeds: "ok b \<Longrightarrow> clean b \<Longrightarrow> live l b \<Longrightarrow> \<exists>b'. unregister l b = Inr b'"
    and unregister_ok: "ok b \<Longrightarrow> unregister l b = Inr b' \<Longrightarrow> ok b'"
    and unregister_receivers: "ok b \<Longrightarrow> unregister l b = Inr b' \<Longrightarrow>
          receivers t b' = filter (\<lambda>r. key r \<noteq> key l) (receivers t b)"
    and receivers_distinct: "ok b \<Longrightarrow> distinct (map key (receivers t b))"
begin

lemma registered_receives:
  "live l b \<Longrightarrow> \<exists>b'. register l t b = Inr b' \<and> key l \<in> key ` set (receivers t b')"
  using register_succeeds [of l b t] by (auto simp: register_receivers image_iff)

lemma register_other: "live l b \<Longrightarrow> register l t b = Inr b' \<Longrightarrow> t' \<noteq> t \<Longrightarrow> receivers t' b' = receivers t' b"
  by (simp add: register_receivers)

lemma unregistered_receives_nothing:
  "ok b \<Longrightarrow> unregister l b = Inr b' \<Longrightarrow> key l \<notin> key ` set (receivers t b')"
  by (auto simp: unregister_receivers)

lemma receives_once: "ok b \<Longrightarrow> count_list (map key (receivers t b)) i = of_bool (i \<in> key ` set (receivers t b))"
  using receivers_distinct [of b t] by (simp add: count_list_distinct)

text \<open>A listener that registers and unregisters again leaves the receivers as they were.\<close>

lemma register_unregister:
  assumes "ok b" and "live l b" and "register l t b = Inr b'" and "unregister l b' = Inr b''"
    and "key l \<notin> key ` set (receivers t b)"
  shows "receivers t b'' = receivers t b"
proof -
  have "ok b'" using assms register_ok by blast
  then have "receivers t b'' = filter (\<lambda>r. key r \<noteq> key l) (receivers t b @ [l])"
    using assms by (simp add: unregister_receivers register_receivers)
  also have "\<dots> = receivers t b"
    using assms(5) by (auto simp: filter_id_conv image_iff)
  finally show ?thesis .
qed

text \<open>Firing a list of topics: how often a listener is notified.\<close>

definition notifications :: "string list \<Rightarrow> 'b \<Rightarrow> string list" where
  "notifications ts b = concat (map (\<lambda>t. map key (receivers t b)) ts)"

lemma notification_count:
  assumes "ok b" and "distinct ts"
  shows "count_list (notifications ts b) i = length (filter (\<lambda>t. i \<in> key ` set (receivers t b)) ts)"
  using assms by (induction ts) (auto simp: notifications_def receives_once)

end

section \<open>Events\<close>

text \<open>\<open>std::any\<close>: the program stores strings in it; a cast to another type throws.\<close>

datatype any = AnyString string | AnyOther nat

record event =
  e_topic :: string
  e_payload :: "any smap"
  e_id :: string

definition make_event :: "string \<Rightarrow> string \<Rightarrow> event" where
  "make_event topic uuid = \<lparr>e_topic = topic, e_payload = [], e_id = uuid\<rparr>"

definition SetPayload :: "string \<Rightarrow> any \<Rightarrow> event \<Rightarrow> event" where
  "SetPayload key value e = e\<lparr>e_payload := map_put key value (e_payload e)\<rparr>"

definition GetPayload_string :: "string \<Rightarrow> event \<Rightarrow> string option result" where
  "GetPayload_string key e =
     (case map_get (e_payload e) key of
        None \<Rightarrow> Inr None
      | Some (AnyString s) \<Rightarrow> Inr (Some s)
      | Some (AnyOther _) \<Rightarrow> Inl BadAnyCast)"

section \<open>The broker\<close>

record listener =
  l_object :: nat
  l_id :: string

record broker =
  event_listeners :: "listener list smap"
  expired :: "nat set"
  subsystems_alive :: bool

definition is_expired :: "broker \<Rightarrow> listener \<Rightarrow> bool" where
  "is_expired b l \<longleftrightarrow> l_object l \<in> expired b"

definition CleanUpSubscribers :: "broker \<Rightarrow> broker" where
  "CleanUpSubscribers b =
     b\<lparr>event_listeners := map (\<lambda>(topic, subscribers). (topic, filter (\<lambda>l. \<not> is_expired b l) subscribers))
         (event_listeners b)\<rparr>"

text \<open>The workload of the clean-up job; \<open>alive\<close> is the token the broker holds while it exists.\<close>

definition events_listener_clean_up :: "bool \<Rightarrow> broker \<Rightarrow> broker \<times> continuation" where
  "events_listener_clean_up alive b =
     (if alive then (CleanUpSubscribers b, REQUEUE) else (b, DISPOSE))"

fun has_listener :: "broker \<Rightarrow> string \<Rightarrow> listener list \<Rightarrow> bool" where
  "has_listener b subscriber_id [] = False"
| "has_listener b subscriber_id (l # ls) =
     (if \<not> is_expired b l \<and> l_id l = subscriber_id then True else has_listener b subscriber_id ls)"

definition HasListener :: "string \<Rightarrow> string \<Rightarrow> broker \<Rightarrow> bool" where
  "HasListener subscriber_id topic b =
     (case map_get (event_listeners b) topic of Some ls \<Rightarrow> has_listener b subscriber_id ls | None \<Rightarrow> False)"

text \<open>An expired listener is dereferenced to get its id: no defined result.\<close>

definition RegisterListener :: "listener \<Rightarrow> string \<Rightarrow> broker \<Rightarrow> broker result" where
  "RegisterListener l topic b =
     (if is_expired b l then Inl UndefinedBehaviour
      else if HasListener (l_id l) topic b then Inr b
      else (let ls = map_index [] (event_listeners b) topic
            in Inr (b\<lparr>event_listeners := map_put topic (ls @ [l]) (event_listeners b)\<rparr>)))"

text \<open>
  The loop of \<open>RemoveListenerFromTopic\<close>. Erasing an element invalidates the iterator; after
  the erasure of the listener that was looked for the loop is left, but after the erasure
  of an expired one the invalidated iterator is incremented.
\<close>

fun remove_from_list :: "broker \<Rightarrow> listener \<Rightarrow> listener list \<Rightarrow> listener list result" where
  "remove_from_list b subscriber [] = Inr []"
| "remove_from_list b subscriber (l # ls) =
     (if is_expired b l then Inl UndefinedBehaviour
      else if is_expired b subscriber then Inl UndefinedBehaviour
      else if l_id l = l_id subscriber then Inr ls
      else bind_result (remove_from_list b subscriber ls) (\<lambda>ls'. Inr (l # ls')))"

definition RemoveListenerFromTopic :: "listener \<Rightarrow> string \<Rightarrow> broker \<Rightarrow> broker result" where
  "RemoveListenerFromTopic subscriber topic b =
     (case map_get (event_listeners b) topic of
        None \<Rightarrow> Inr b
      | Some ls \<Rightarrow>
          bind_result (remove_from_list b subscriber ls)
            (\<lambda>ls'. Inr (b\<lparr>event_listeners := map_put topic ls' (event_listeners b)\<rparr>)))"

fun unregister_topics :: "listener \<Rightarrow> string list \<Rightarrow> broker \<Rightarrow> broker result" where
  "unregister_topics l [] b = Inr b"
| "unregister_topics l (t # ts) b = bind_result (RemoveListenerFromTopic l t b) (unregister_topics l ts)"

definition UnregisterListener :: "listener \<Rightarrow> broker \<Rightarrow> broker result" where
  "UnregisterListener l b = unregister_topics l (map_keys (event_listeners b)) b"

definition RemoveAllListeners :: "broker \<Rightarrow> broker" where
  "RemoveAllListeners b = b\<lparr>event_listeners := []\<rparr>"

text \<open>
  The listeners for which \<open>FireEvent\<close> kicks a job, in order; without the subsystem manager
  the event is dropped. Then what such a job does: it delivers if the listener still exists.
\<close>

definition FireEvent :: "string \<Rightarrow> broker \<Rightarrow> listener list" where
  "FireEvent topic b =
     (if \<not> subsystems_alive b then []
      else case map_get (event_listeners b) topic of
        Some ls \<Rightarrow> filter (\<lambda>l. \<not> is_expired b l) ls
      | None \<Rightarrow> [])"

definition event_job :: "listener \<Rightarrow> event \<Rightarrow> broker \<Rightarrow> (listener \<times> event) list \<times> continuation" where
  "event_job l e b = ((if \<not> is_expired b l then [(l, e)] else []), DISPOSE)"

section \<open>Invariant and lemmas\<close>

text \<open>The live listeners a topic holds; no two of them have the same id.\<close>

definition subscribers :: "string \<Rightarrow> broker \<Rightarrow> listener list" where
  "subscribers t b = filter (\<lambda>l. \<not> is_expired b l) (map_index [] (event_listeners b) t)"

definition broker_ok :: "broker \<Rightarrow> bool" where
  "broker_ok b \<longleftrightarrow> map_ok (event_listeners b) \<and> (\<forall>t. distinct (map l_id (subscribers t b)))"

definition nothing_expired :: "broker \<Rightarrow> bool" where
  "nothing_expired b \<longleftrightarrow> (\<forall>ls\<in>snd ` set (event_listeners b). \<forall>l\<in>set ls. \<not> is_expired b l)"

lemma FireEvent_subscribers: "FireEvent t b = (if subsystems_alive b then subscribers t b else [])"
  by (simp add: FireEvent_def subscribers_def map_index_def split: option.splits)

lemma is_expired_update [simp]: "is_expired (b\<lparr>event_listeners := m\<rparr>) = is_expired b"
  by (simp add: is_expired_def fun_eq_iff)

lemma has_listener_iff: "has_listener b i ls \<longleftrightarrow> (\<exists>l\<in>set ls. \<not> is_expired b l \<and> l_id l = i)"
  by (induction b i ls rule: has_listener.induct) auto

lemma HasListener_iff: "HasListener i t b \<longleftrightarrow> i \<in> l_id ` set (subscribers t b)"
  by (auto simp: HasListener_def subscribers_def map_index_def has_listener_iff split: option.splits)

lemma RegisterListener_live: "\<not> is_expired b l \<Longrightarrow> \<exists>b'. RegisterListener l t b = Inr b'"
  by (simp add: RegisterListener_def Let_def)

lemma nothing_expired_register:
  assumes "RegisterListener l t b = Inr b'" and "nothing_expired b"
  shows "nothing_expired b'"
proof -
  have live: "\<not> is_expired b r" if "(t, ls) \<in> set (event_listeners b)" "r \<in> set ls" for t ls r
    using assms(2) that by (force simp: nothing_expired_def)
  have "\<forall>r\<in>set (map_index [] (event_listeners b) t). \<not> is_expired b r"
    using live map_of_SomeD [of "event_listeners b" t] by (cases "map_of (event_listeners b) t") (auto simp: map_index_def map_get_def)
  moreover note live
  ultimately show ?thesis
    using assms(1) set_map_put [of t "map_index [] (event_listeners b) t @ [l]" "event_listeners b"]
    by (fastforce simp: RegisterListener_def nothing_expired_def Let_def split: if_splits)
qed

lemma RegisterListener_frame:
  assumes "RegisterListener l t b = Inr b'"
  shows "is_expired b' = is_expired b" "\<not> is_expired b l" "subsystems_alive b' = subsystems_alive b"
    "map_ok (event_listeners b) \<Longrightarrow> map_ok (event_listeners b')"
  using assms by (auto simp: RegisterListener_def Let_def split: if_splits)

lemma subscribers_register:
  assumes "RegisterListener l t b = Inr b'"
  shows "subscribers t' b' =
      (if t' = t \<and> l_id l \<notin> l_id ` set (subscribers t b) then subscribers t b @ [l] else subscribers t' b)"
  using assms
  by (auto simp: RegisterListener_def HasListener_iff subscribers_def Let_def map_index_def
      split: if_splits option.splits)

lemma broker_ok_register [inv_intro]:
  assumes "broker_ok b" and "RegisterListener l t b = Inr b'"
  shows "broker_ok b'"
  using assms(1) subscribers_register [OF assms(2)] RegisterListener_frame [OF assms(2)]
  by (auto simp: broker_ok_def)

lemma remove_from_list_Inr:
  "remove_from_list b s ls = Inr ls' \<Longrightarrow> distinct (map l_id (filter (\<lambda>l. \<not> is_expired b l) ls)) \<Longrightarrow>
     filter (\<lambda>l. \<not> is_expired b l) ls' = filter (\<lambda>l. l_id l \<noteq> l_id s) (filter (\<lambda>l. \<not> is_expired b l) ls)"
proof (induction b s ls arbitrary: ls' rule: remove_from_list.induct)
  case (2 b s l ls)
  show ?case
  proof (cases "l_id l = l_id s")
    case True
    then have "ls' = ls" and "\<not> is_expired b l" using "2.prems"(1) by (simp_all split: if_splits)
    moreover have "filter (\<lambda>l. l_id l \<noteq> l_id s) (filter (\<lambda>l. \<not> is_expired b l) ls) =
        filter (\<lambda>l. \<not> is_expired b l) ls"
      using "2.prems"(2) True \<open>\<not> is_expired b l\<close> by (intro filter_True) (auto simp: image_iff)
    ultimately show ?thesis using True by simp
  next
    case False
    then obtain ls'' where "remove_from_list b s ls = Inr ls''" "ls' = l # ls''" "\<not> is_expired b l" "\<not> is_expired b s"
      using "2.prems"(1) by (auto simp: bind_result_Inr_iff split: if_splits)
    then show ?thesis using "2.IH" "2.prems"(2) False by simp
  qed
qed simp

lemma remove_from_list_succeeds:
  "\<forall>l\<in>set ls. \<not> is_expired b l \<Longrightarrow> \<not> is_expired b s \<Longrightarrow> \<exists>ls'. remove_from_list b s ls = Inr ls' \<and> set ls' \<subseteq> set ls"
  by (induction b s ls rule: remove_from_list.induct) fastforce+

lemma RemoveListenerFromTopic_frame:
  assumes "RemoveListenerFromTopic l t b = Inr b'"
  shows "is_expired b' = is_expired b" "subsystems_alive b' = subsystems_alive b"
    "map_ok (event_listeners b) \<Longrightarrow> map_ok (event_listeners b')"
    "t' \<noteq> t \<Longrightarrow> subscribers t' b' = subscribers t' b"
  using assms
  by (auto simp: RemoveListenerFromTopic_def bind_result_Inr_iff subscribers_def map_index_def split: option.splits)

lemma subscribers_remove:
  assumes "RemoveListenerFromTopic l t b = Inr b'" and "broker_ok b"
  shows "subscribers t b' = filter (\<lambda>r. l_id r \<noteq> l_id l) (subscribers t b)"
proof (cases "map_get (event_listeners b) t")
  case None
  with assms show ?thesis by (simp add: RemoveListenerFromTopic_def subscribers_def map_index_def)
next
  case (Some ls)
  have "distinct (map l_id (subscribers t b))" using assms(2) by (simp add: broker_ok_def)
  then have "distinct (map l_id (filter (\<lambda>l. \<not> is_expired b l) ls))"
    using Some by (simp add: subscribers_def map_index_def)
  moreover obtain ls' where "remove_from_list b l ls = Inr ls'"
      and "b' = b\<lparr>event_listeners := map_put t ls' (event_listeners b)\<rparr>"
    using assms(1) Some by (auto simp: RemoveListenerFromTopic_def bind_result_Inr_iff)
  ultimately show ?thesis
    using Some remove_from_list_Inr by (simp add: subscribers_def map_index_def)
qed

lemma broker_ok_remove [inv_intro]:
  assumes "broker_ok b" and "RemoveListenerFromTopic l t b = Inr b'"
  shows "broker_ok b'"
  unfolding broker_ok_def
proof (intro conjI allI)
  show "map_ok (event_listeners b')"
    using assms RemoveListenerFromTopic_frame(3) by (auto simp: broker_ok_def)
  show "distinct (map l_id (subscribers t' b'))" for t'
    using assms subscribers_remove [OF assms(2,1)] RemoveListenerFromTopic_frame(4) [OF assms(2), of t']
    by (cases "t' = t") (auto simp: broker_ok_def distinct_map_filter)
qed

lemma unregister_topics_Inr:
  "unregister_topics l ts b = Inr b' \<Longrightarrow> broker_ok b \<Longrightarrow> distinct ts \<Longrightarrow>
     broker_ok b' \<and> subsystems_alive b' = subsystems_alive b \<and>
     (\<forall>t. subscribers t b' =
       (if t \<in> set ts then filter (\<lambda>r. l_id r \<noteq> l_id l) (subscribers t b) else subscribers t b))"
proof (induction l ts b rule: unregister_topics.induct)
  case (2 l t ts b)
  then obtain b1 where b1: "RemoveListenerFromTopic l t b = Inr b1" and r: "unregister_topics l ts b1 = Inr b'"
    by (auto simp: bind_result_Inr_iff)
  have ok: "broker_ok b1" using "2.prems" b1 broker_ok_remove by blast
  note step = "2.IH" [OF r ok] subscribers_remove [OF b1 "2.prems"(2)] RemoveListenerFromTopic_frame [OF b1]
  have "subscribers t' b' = (if t' \<in> set (t # ts) then filter (\<lambda>r. l_id r \<noteq> l_id l) (subscribers t' b)
      else subscribers t' b)" for t'
    using step(1,2) step(6) [of t'] "2.prems"(3) by (cases "t' = t") auto
  with step "2.prems"(3) show ?case by auto
qed simp

lemma remove_nothing_expired:
  assumes "nothing_expired b" and "map_ok (event_listeners b)" and "\<not> is_expired b l"
  shows "\<exists>b'. RemoveListenerFromTopic l t b = Inr b' \<and> nothing_expired b' \<and>
    map_ok (event_listeners b') \<and> \<not> is_expired b' l"
proof (cases "map_get (event_listeners b) t")
  case None
  with assms show ?thesis by (simp add: RemoveListenerFromTopic_def)
next
  case (Some ls)
  then have "(t, ls) \<in> set (event_listeners b)" using assms(2) by (simp add: map_entry_get)
  then have "\<forall>l\<in>set ls. \<not> is_expired b l" using assms(1) by (force simp: nothing_expired_def)
  then obtain ls' where ls': "remove_from_list b l ls = Inr ls'" "set ls' \<subseteq> set ls"
    using remove_from_list_succeeds assms(3) by blast
  have "nothing_expired (b\<lparr>event_listeners := map_put t ls' (event_listeners b)\<rparr>)"
    using assms(1) ls'(2) \<open>\<forall>l\<in>set ls. \<not> is_expired b l\<close> set_map_put [of t ls' "event_listeners b"]
    by (force simp: nothing_expired_def)
  with Some ls' assms show ?thesis by (simp add: RemoveListenerFromTopic_def)
qed

lemma unregister_topics_succeeds:
  "nothing_expired b \<Longrightarrow> map_ok (event_listeners b) \<Longrightarrow> \<not> is_expired b l \<Longrightarrow>
     \<exists>b'. unregister_topics l ts b = Inr b'"
proof (induction l ts b rule: unregister_topics.induct)
  case (2 l t ts b)
  then show ?case using remove_nothing_expired [of b l t] by fastforce
qed simp

lemma UnregisterListener_Inr:
  assumes "UnregisterListener l b = Inr b'" and "broker_ok b"
  shows "broker_ok b'" "subsystems_alive b' = subsystems_alive b"
    "subscribers t b' = filter (\<lambda>r. l_id r \<noteq> l_id l) (subscribers t b)"
proof -
  have "distinct (map_keys (event_listeners b))"
    using assms(2) by (simp add: broker_ok_def map_keys_distinct)
  note u = unregister_topics_Inr [OF assms(1) [unfolded UnregisterListener_def] assms(2) this]
  then show "broker_ok b'" "subsystems_alive b' = subsystems_alive b" by auto
  have "subscribers t b = []" if "t \<notin> set (map_keys (event_listeners b))"
    using that by (simp add: subscribers_def map_index_def map_keys_get)
  then show "subscribers t b' = filter (\<lambda>r. l_id r \<noteq> l_id l) (subscribers t b)"
    using u by auto
qed

interpretation job_broker: event_broker RegisterListener UnregisterListener FireEvent
  "\<lambda>l b. \<not> is_expired b l \<and> subsystems_alive b" l_id broker_ok nothing_expired
proof unfold_locales
  fix l b assume "\<not> is_expired b l \<and> subsystems_alive b"
  then show "\<exists>b'. RegisterListener l t b = Inr b'" for t by (simp add: RegisterListener_live)
next
  fix b l t b' assume "broker_ok b" "RegisterListener l t b = Inr b'"
  then show "broker_ok b'" by (rule broker_ok_register)
next
  fix l t b b' assume "\<not> is_expired b l \<and> subsystems_alive b" "RegisterListener l t b = Inr b'"
  then show "FireEvent t' b' = (if t' = t \<and> l_id l \<notin> l_id ` set (FireEvent t b)
      then FireEvent t b @ [l] else FireEvent t' b)" for t'
    using subscribers_register RegisterListener_frame(3) by (simp add: FireEvent_subscribers)
next
  fix b l assume "broker_ok b" "nothing_expired b" "\<not> is_expired b l \<and> subsystems_alive b"
  then show "\<exists>b'. UnregisterListener l b = Inr b'"
    by (auto simp: UnregisterListener_def broker_ok_def intro: unregister_topics_succeeds)
next
  fix b l b' assume "broker_ok b" "UnregisterListener l b = Inr b'"
  then show "broker_ok b'" by (blast dest: UnregisterListener_Inr)
next
  fix b l b' t assume "broker_ok b" "UnregisterListener l b = Inr b'"
  then show "FireEvent t b' = filter (\<lambda>r. l_id r \<noteq> l_id l) (FireEvent t b)"
    using UnregisterListener_Inr [of l b b'] by (simp add: FireEvent_subscribers)
qed (auto simp: broker_ok_def FireEvent_subscribers)

section \<open>Cleaning up\<close>

lemma CleanUpSubscribers_subscribers: "subscribers t (CleanUpSubscribers b) = subscribers t b"
proof -
  have "map_get (map (\<lambda>(topic, ls). (topic, filter (\<lambda>l. \<not> is_expired b l) ls)) m) t =
      map_option (filter (\<lambda>l. \<not> is_expired b l)) (map_get m t)" for m :: "listener list smap"
    by (induction m) auto
  then show ?thesis
    by (cases "map_get (event_listeners b) t")
      (simp_all add: subscribers_def CleanUpSubscribers_def map_index_def)
qed

lemma CleanUpSubscribers_clean: "nothing_expired (CleanUpSubscribers b)"
  by (auto simp: nothing_expired_def CleanUpSubscribers_def)

lemma broker_ok_clean_up [inv_intro]: "broker_ok b \<Longrightarrow> broker_ok (CleanUpSubscribers b)"
  unfolding broker_ok_def CleanUpSubscribers_subscribers
  by (simp add: CleanUpSubscribers_def map_ok_def comp_def case_prod_beta)

section \<open>Sequences of operations\<close>

text \<open>
  What can happen to a broker: its operations, and that the object of a listener goes away.
  Firing an event does not change it.
\<close>

datatype broker_event =
    Registers listener string
  | Unregisters listener
  | CleansUp
  | Fires string
  | Expires nat

fun broker_step :: "broker_event \<Rightarrow> broker \<Rightarrow> broker result" where
  "broker_step (Registers l topic) b = RegisterListener l topic b"
| "broker_step (Unregisters l) b = UnregisterListener l b"
| "broker_step CleansUp b = Inr (CleanUpSubscribers b)"
| "broker_step (Fires topic) b = Inr b"
| "broker_step (Expires object) b = Inr (b\<lparr>expired := insert object (expired b)\<rparr>)"

fun broker_run :: "broker_event list \<Rightarrow> broker \<Rightarrow> broker result" where
  "broker_run [] b = Inr b"
| "broker_run (ev # evs) b = bind_result (broker_step ev b) (broker_run evs)"

text \<open>
  The runs the code defines: only existing listeners are passed to it, and nothing unregisters
  while the broker still holds an expired listener.
\<close>

fun defined_step :: "broker_event \<Rightarrow> broker \<Rightarrow> bool" where
  "defined_step (Registers l topic) b \<longleftrightarrow> \<not> is_expired b l"
| "defined_step (Unregisters l) b \<longleftrightarrow> \<not> is_expired b l \<and> nothing_expired b"
| "defined_step _ b \<longleftrightarrow> True"

fun defined_run :: "broker_event list \<Rightarrow> broker \<Rightarrow> bool" where
  "defined_run [] b \<longleftrightarrow> True"
| "defined_run (ev # evs) b \<longleftrightarrow>
     defined_step ev b \<and> (case broker_step ev b of Inr b' \<Rightarrow> defined_run evs b' | Inl _ \<Rightarrow> True)"

text \<open>The events that leave a listener alone: it stays, and nothing with its id unregisters.\<close>

fun spares :: "listener \<Rightarrow> broker_event \<Rightarrow> bool" where
  "spares l (Unregisters r) \<longleftrightarrow> l_id r \<noteq> l_id l"
| "spares l (Expires object) \<longleftrightarrow> object \<noteq> l_object l"
| "spares l _ \<longleftrightarrow> True"

definition receives :: "listener \<Rightarrow> string \<Rightarrow> broker \<Rightarrow> bool" where
  "receives l topic b \<longleftrightarrow>
     broker_ok b \<and> subsystems_alive b \<and> \<not> is_expired b l \<and> l \<in> set (subscribers topic b)"

lemma UnregisterListener_expired:
  assumes "UnregisterListener l b = Inr b'"
  shows "is_expired b' = is_expired b"
proof -
  have "unregister_topics l ts b = Inr b' \<Longrightarrow> is_expired b' = is_expired b" for ts
    by (induction l ts b rule: unregister_topics.induct)
      (auto simp: bind_result_Inr_iff dest: RemoveListenerFromTopic_frame(1))
  then show ?thesis using assms by (simp add: UnregisterListener_def)
qed

lemma subscribers_expire:
  "subscribers t (b\<lparr>expired := insert object (expired b)\<rparr>) =
     filter (\<lambda>r. l_object r \<noteq> object) (subscribers t b)"
  by (auto simp: subscribers_def is_expired_def intro: filter_cong)

lemma broker_ok_expire: "broker_ok b \<Longrightarrow> broker_ok (b\<lparr>expired := insert object (expired b)\<rparr>)"
  by (simp add: broker_ok_def subscribers_expire distinct_map_filter)

lemma step_receives:
  assumes "receives l topic b" and "spares l ev" and "defined_step ev b"
  shows "\<exists>b'. broker_step ev b = Inr b' \<and> receives l topic b'"
proof (cases ev)
  case (Registers r t)
  have "\<not> is_expired b r" using assms(3) Registers by simp
  then obtain b' where b': "RegisterListener r t b = Inr b'" using RegisterListener_live by blast
  then show ?thesis
    using assms(1) broker_ok_register [of b r t b'] RegisterListener_frame [OF b'] subscribers_register [OF b', of topic]
    by (auto simp: Registers receives_def split: if_splits)
next
  case (Unregisters r)
  have "broker_ok b" "nothing_expired b" "\<not> is_expired b r" "subsystems_alive b"
    using assms by (simp_all add: Unregisters receives_def)
  moreover from this obtain b' where b': "UnregisterListener r b = Inr b'"
    using job_broker.unregister_succeeds by blast
  moreover have "l \<in> set (subscribers topic b')" "\<not> is_expired b' l" "subsystems_alive b'" "broker_ok b'"
    using UnregisterListener_Inr [OF b'] UnregisterListener_expired [OF b'] assms(1,2)
    by (auto simp: Unregisters receives_def)
  ultimately show ?thesis by (simp add: Unregisters receives_def)
next
  case CleansUp
  have "is_expired (CleanUpSubscribers b) l = is_expired b l" "subsystems_alive (CleanUpSubscribers b) = subsystems_alive b"
    by (simp_all add: CleanUpSubscribers_def)
  then show ?thesis using assms(1) broker_ok_clean_up
    by (simp add: CleansUp receives_def CleanUpSubscribers_subscribers)
next
  case (Expires object)
  then have "object \<noteq> l_object l" using assms(2) by simp
  then show ?thesis using assms(1) broker_ok_expire [of b object]
    by (auto simp: Expires receives_def subscribers_expire) (simp add: is_expired_def)
qed (use assms(1) in simp)

lemma run_receives:
  "receives l topic b \<Longrightarrow> list_all (spares l) evs \<Longrightarrow> defined_run evs b \<Longrightarrow>
     \<exists>b'. broker_run evs b = Inr b' \<and> receives l topic b'"
proof (induction evs arbitrary: b)
  case (Cons ev evs)
  then obtain b1 where "broker_step ev b = Inr b1" "receives l topic b1" using step_receives [of l topic b ev] by auto
  then show ?case using Cons by auto
qed simp

section \<open>Properties\<close>


definition two_listeners :: broker where
  "two_listeners = \<lparr>event_listeners = [(''a'', [\<lparr>l_object = 1, l_id = ''x''\<rparr>, \<lparr>l_object = 2, l_id = ''y''\<rparr>])],
     expired = {2}, subsystems_alive = True\<rparr>"


end
