(* ===== verification/Properties.thy ===== *)
theory Properties
  imports Events Std_String
begin

text \<open>
  The property system (\<open>subsystems/properties\<close>: \<open>PropertyProvider\<close>,
  \<open>PropertyChangeListener\<close>). A change of a property fires one event per sub-path of its key.
  The property tree is \<open>boost::property_tree::ptree\<close>, which is not part of the repository: its
  \<open>put\<close> and \<open>get_optional\<close> are parameters of the operations that use them.
\<close>

section \<open>Sub-paths and topics\<close>

text \<open>
  The loop of \<open>getSubpaths\<close>: \<open>index\<close> moves to the next delimiter after it. The searches start
  at \<open>index + 1\<close>, so a delimiter at position 0 is never found.
\<close>

function subpaths_from :: "string \<Rightarrow> char \<Rightarrow> nat \<Rightarrow> string list" where
  "subpaths_from path delimeter index =
     (case std_find_first_of path [delimeter] (index + 1) of
        None \<Rightarrow> []
      | Some index' \<Rightarrow> take index' path # subpaths_from path delimeter index')"
  by auto
termination
  by (relation "measure (\<lambda>(path, _, index). length path - index)") (auto dest: std_find_first_of_Some)

declare subpaths_from.simps [simp del]

definition getSubpaths :: "string \<Rightarrow> char \<Rightarrow> string list" where
  "getSubpaths path delimeter =
     (if path \<noteq> [] then subpaths_from path delimeter 0 @ [path] else [])"

definition buildTopicName :: "string \<Rightarrow> string" where
  "buildTopicName path = ''prop-change('' @ path @ '')''"

section \<open>The provider\<close>

text \<open>
  \<open>NotifyListenersAboutChange\<close>: the events it fires, and the jobs the broker kicks for them
  (the listener and the event it gets), in order. The ids of the events are random strings.
\<close>

definition change_event :: "string \<Rightarrow> string \<Rightarrow> string \<Rightarrow> event" where
  "change_event path uuid subpath =
     SetPayload ''property-key'' (AnyString path) (make_event (buildTopicName subpath) uuid)"

definition NotifyListenersAboutChange ::
  "(string \<Rightarrow> string) \<Rightarrow> string \<Rightarrow> broker \<Rightarrow> (listener \<times> event) list" where
  "NotifyListenersAboutChange uuid path b =
     (if subsystems_alive b
      then concat (map (\<lambda>subpath. map (\<lambda>l. (l, change_event path (uuid subpath) subpath))
             (FireEvent (buildTopicName subpath) b)) (getSubpaths path CHR ''.''))
      else [])"

definition prop_RegisterListener :: "string \<Rightarrow> listener \<Rightarrow> broker \<Rightarrow> broker result" where
  "prop_RegisterListener path l b =
     (if subsystems_alive b then RegisterListener l (buildTopicName path) b else Inr b)"

definition prop_UnregisterListener :: "listener \<Rightarrow> broker \<Rightarrow> broker result" where
  "prop_UnregisterListener l b = (if subsystems_alive b then UnregisterListener l b else Inr b)"

definition prop_Set ::
  "(string \<Rightarrow> 'v \<Rightarrow> 't \<Rightarrow> 't) \<Rightarrow> (string \<Rightarrow> string) \<Rightarrow> string \<Rightarrow> 'v \<Rightarrow> 't \<times> broker \<Rightarrow> 't \<times> (listener \<times> event) list" where
  "prop_Set tree_put uuid key value s =
     (case s of (tree, b) \<Rightarrow> (tree_put key value tree, NotifyListenersAboutChange uuid key b))"

definition prop_Get :: "('t \<Rightarrow> string \<Rightarrow> 'v option) \<Rightarrow> 't \<Rightarrow> string \<Rightarrow> 'v option" where
  "prop_Get tree_get tree key = (case tree_get tree key of Some v \<Rightarrow> Some v | None \<Rightarrow> None)"

definition prop_GetOrElse :: "('t \<Rightarrow> string \<Rightarrow> 'v option) \<Rightarrow> 't \<Rightarrow> string \<Rightarrow> 'v \<Rightarrow> 'v" where
  "prop_GetOrElse tree_get tree key value =
     (case prop_Get tree_get tree key of Some v \<Rightarrow> v | None \<Rightarrow> value)"

text \<open>\<open>PropertyChangeListener::HandleEvent\<close>: the key its \<open>ProcessPropertyChange\<close> is called with.\<close>

definition HandleEvent :: "event \<Rightarrow> string option result" where
  "HandleEvent e = GetPayload_string ''property-key'' e"

section \<open>Lemmas\<close>

lemma find_first_of_dot:
  assumes "std_find_first_of s [c] i = Some j"
  shows "i \<le> j" "j < length s" "s ! j = c" "\<forall>k. i \<le> k \<longrightarrow> k < j \<longrightarrow> s ! k \<noteq> c"
  using std_find_first_of_Some [OF assms] by auto

text \<open>A proper sub-path ends right before a delimiter that is not the first character.\<close>

lemma set_subpaths_from:
  "set (subpaths_from path d i) = {take j path |j. i < j \<and> j < length path \<and> path ! j = d}"
proof (induction path d i rule: subpaths_from.induct)
  case (1 path d i)
  show ?case
  proof (cases "std_find_first_of path [d] (i + 1)")
    case None
    then have "d \<notin> set (drop (i + 1) path)"
      by (simp add: std_find_first_of_None)
    then have "path ! j \<noteq> d" if "i < j" "j < length path" for j
      using that nth_mem [of "j - (i + 1)" "drop (i + 1) path"] by auto
    with None show ?thesis by (auto simp: subpaths_from.simps [of path d i])
  next
    case (Some k)
    note k = find_first_of_dot [OF Some]
    have "{j. i < j \<and> j < length path \<and> path ! j = d} = insert k {j. k < j \<and> j < length path \<and> path ! j = d}"
      using k by (auto simp: Suc_le_eq not_less_iff_gr_or_eq)
    moreover have "{take j path |j. P j} = (\<lambda>j. take j path) ` {j. P j}" for P by auto
    ultimately show ?thesis
      using 1 [OF Some] Some by (simp add: subpaths_from.simps [of path d i])
  qed
qed

lemma length_subpaths_from: "p \<in> set (subpaths_from path d i) \<Longrightarrow> i < length p \<and> length p < length path"
  by (auto simp: set_subpaths_from)

lemma distinct_subpaths_from: "distinct (subpaths_from path d i)"
proof (induction path d i rule: subpaths_from.induct)
  case (1 path d i)
  show ?case
  proof (cases "std_find_first_of path [d] (i + 1)")
    case (Some k)
    then show ?thesis
      using 1 [OF Some] length_subpaths_from [of "take k path" path d k]
      by (auto simp: subpaths_from.simps [of path d i])
  qed (simp add: subpaths_from.simps)
qed

lemma distinct_getSubpaths: "distinct (getSubpaths path d)"
  using length_subpaths_from by (auto simp: getSubpaths_def distinct_subpaths_from)

lemma getSubpaths_iff:
  "q \<in> set (getSubpaths path d) \<longleftrightarrow> q \<noteq> [] \<and> (q = path \<or> (\<exists>rest. path = q @ d # rest))"
proof -
  have "(\<exists>j. q = take j path \<and> 0 < j \<and> j < length path \<and> path ! j = d) \<longleftrightarrow> q \<noteq> [] \<and> (\<exists>rest. path = q @ d # rest)"
    by (auto simp: id_take_nth_drop [symmetric] intro!: exI [of _ "length q"])
      (metis id_take_nth_drop)
  then show ?thesis by (auto simp: getSubpaths_def set_subpaths_from)
qed

lemma buildTopicName_inj [simp]: "buildTopicName p = buildTopicName q \<longleftrightarrow> p = q"
  by (simp add: buildTopicName_def)

lemma HandleEvent_change [simp]: "HandleEvent (change_event path u subpath) = Inr (Some path)"
  by (simp add: HandleEvent_def GetPayload_string_def change_event_def SetPayload_def make_event_def)

lemma notified_listeners:
  "subsystems_alive b \<Longrightarrow> map (\<lambda>(r, e). l_id r) (NotifyListenersAboutChange uuid path b) =
     job_broker.notifications (map buildTopicName (getSubpaths path CHR ''.'')) b"
  by (simp add: NotifyListenersAboutChange_def job_broker.notifications_def map_concat comp_def case_prod_beta)

section \<open>Properties\<close>

text \<open>
  C32: a listener registered for the path \<open>q\<close> only is notified of a change of the key \<open>path\<close>
  exactly once when \<open>q\<close> is \<open>path\<close> itself or one of the nodes above it, and not at all
  otherwise; every notification carries the key that changed.
\<close>

theorem change_notifies_the_nodes_above:
  assumes "broker_ok b" and "subsystems_alive b" and "\<not> is_expired b l"
    and "\<forall>t. l_id l \<notin> l_id ` set (FireEvent t b)"
    and "prop_RegisterListener q l b = Inr b'"
  shows "count_list (map (\<lambda>(r, e). l_id r) (NotifyListenersAboutChange uuid path b')) (l_id l) =
      (if q \<noteq> [] \<and> (q = path \<or> (\<exists>rest. path = q @ CHR ''.'' # rest)) then 1 else 0) \<and>
    (\<forall>(r, e)\<in>set (NotifyListenersAboutChange uuid path b'). HandleEvent e = Inr (Some path))"
proof -
  have reg: "RegisterListener l (buildTopicName q) b = Inr b'"
    using assms(2,5) by (simp add: prop_RegisterListener_def)
  have ok: "broker_ok b'" and alive: "subsystems_alive b'"
    using job_broker.register_ok [OF assms(1) reg] RegisterListener_frame [OF reg] assms(2) by auto
  have "l_id l \<in> l_id ` set (FireEvent t b') \<longleftrightarrow> t = buildTopicName q" for t
    using job_broker.register_receivers [OF _ reg] assms(2-4) by simp
  note receives = this
  have topics: "distinct (map buildTopicName (getSubpaths path CHR ''.''))"
    by (simp add: distinct_map distinct_getSubpaths inj_on_def)
  have "count_list (map (\<lambda>(r, e). l_id r) (NotifyListenersAboutChange uuid path b')) (l_id l) =
      length (filter ((=) q) (getSubpaths path CHR ''.''))"
    unfolding notified_listeners [OF alive] job_broker.notification_count [OF ok topics] receives
    by (simp add: filter_map comp_def eq_commute [of _ q])
  also have "\<dots> = of_bool (q \<in> set (getSubpaths path CHR ''.''))"
    using count_list_distinct [OF distinct_getSubpaths, of path "CHR ''.''"]
    by (simp add: count_list_eq_length_filter)
  also have "\<dots> = (if q \<noteq> [] \<and> (q = path \<or> (\<exists>rest. path = q @ CHR ''.'' # rest)) then 1 else 0)"
    by (simp only: getSubpaths_iff of_bool_def)
  finally show ?thesis
    by (auto simp: NotifyListenersAboutChange_def)
qed

theorem change_notifies_the_nodes_above_witness:
  "\<exists>b'. prop_RegisterListener ''a.b'' \<lparr>l_object = 1, l_id = ''x''\<rparr>
      \<lparr>event_listeners = [], expired = {}, subsystems_alive = True\<rparr> = Inr b' \<and>
    count_list (map (\<lambda>(r, e). l_id r) (NotifyListenersAboutChange id ''a.b.c'' b')) ''x'' = 1"
proof -
  define b where "b = \<lparr>event_listeners = [], expired = {}, subsystems_alive = True\<rparr>"
  have "broker_ok b" "subsystems_alive b" "\<not> is_expired b \<lparr>l_object = 1, l_id = ''x''\<rparr>"
    "\<forall>t. l_id \<lparr>l_object = 1, l_id = ''x''\<rparr> \<notin> l_id ` set (FireEvent t b)"
    by (simp_all add: b_def broker_ok_def subscribers_def map_index_def is_expired_def FireEvent_def)
  moreover obtain b' where "prop_RegisterListener ''a.b'' \<lparr>l_object = 1, l_id = ''x''\<rparr> b = Inr b'"
    by (simp add: prop_RegisterListener_def RegisterListener_def b_def is_expired_def HasListener_def Let_def)
  ultimately show ?thesis
    using change_notifies_the_nodes_above [of b "\<lparr>l_object = 1, l_id = ''x''\<rparr>" "''a.b''" b' id "''a.b.c''"]
    by (auto simp: b_def)
qed

end
