(* ===== verification/Endpoint.thy ===== *)
theory Endpoint
  imports Message_Converter
begin

text \<open>
  The web-socket endpoint of a node and its connections (\<open>subsystems/networking\<close>:
  \<open>BoostWebSocketEndpoint\<close>, \<open>BoostWebSocketConnection\<close>). Connections are shared objects:
  the table holds references to them, and a pending read keeps a connection alive after
  the table has dropped it, so a connection is destroyed by a step of its own. What the
  socket reports (reads, writes) is an argument of the operations.
\<close>

section \<open>State\<close>

type_synonym conn = nat

record connection_info =
  hostname :: string
  endpoint_id :: string

record consumer =
  co_object :: nat
  co_type :: string

datatype network_event = ConnectionEstablished string | ConnectionClosed string

text \<open>
  \<open>events\<close> are the events handed to the broker so far, \<open>written\<close> what was written to the
  streams, \<open>live\<close> the connection objects that exist.
\<close>

record endpoint =
  running :: bool
  has_acceptor :: bool
  subsystems_up :: bool
  broker_up :: bool
  consumers :: "consumer list smap"
  gone_consumers :: "nat set"
  connections :: "conn smap"
  live :: "conn set"
  stream_open :: "conn set"
  reading :: "conn set"
  conn_info :: "conn \<Rightarrow> connection_info"
  events :: "network_event list"
  written :: "(conn \<times> string) list"

text \<open>The constructor; \<open>auto_init\<close> is the option \<open>net.server.auto-init\<close>.\<close>

definition make_endpoint :: "bool \<Rightarrow> bool \<Rightarrow> bool \<Rightarrow> endpoint" where
  "make_endpoint auto_init subsystems broker =
     \<lparr>running = auto_init, has_acceptor = auto_init, subsystems_up = subsystems, broker_up = broker,
      consumers = [], gone_consumers = {}, connections = [], live = {}, stream_open = {}, reading = {},
      conn_info = (\<lambda>_. \<lparr>hostname = [], endpoint_id = []\<rparr>), events = [], written = []\<rparr>"

section \<open>Connections\<close>

definition IsUsable :: "conn \<Rightarrow> endpoint \<Rightarrow> bool" where
  "IsUsable c s \<longleftrightarrow> c \<in> stream_open s"

definition fire_event :: "network_event \<Rightarrow> endpoint \<Rightarrow> endpoint" where
  "fire_event ev s = (if subsystems_up s \<and> broker_up s then s\<lparr>events := events s @ [ev]\<rparr> else s)"

definition OnConnectionClose :: "string \<Rightarrow> endpoint \<Rightarrow> endpoint" where
  "OnConnectionClose i s = fire_event (ConnectionClosed i) s"

text \<open>Closing a connection that is closed already fires the event again.\<close>

definition Close :: "conn \<Rightarrow> endpoint \<Rightarrow> endpoint" where
  "Close c s =
     (let s1 = (if c \<in> stream_open s then s\<lparr>stream_open := stream_open s - {c}\<rparr> else s)
      in OnConnectionClose (endpoint_id (conn_info s1 c)) s1)"

definition destroy_connection :: "conn \<Rightarrow> endpoint \<Rightarrow> endpoint" where
  "destroy_connection c s = (Close c s)\<lparr>live := live s - {c}\<rparr>"

text \<open>
  Sending: the message is encoded first, a closed stream throws, and the result of the
  synchronous write settles the future that is returned.
\<close>

datatype write_result = Written | WriteFailed | WriteTimedOut

definition OnMessageSent :: "conn \<Rightarrow> string \<Rightarrow> write_result \<Rightarrow> endpoint \<Rightarrow> unit result \<times> endpoint" where
  "OnMessageSent c data w s =
     (case w of
        Written \<Rightarrow> (Inr (), s\<lparr>written := written s @ [(c, data)]\<rparr>)
      | WriteFailed \<Rightarrow> (Inl MessageSendingException, s)
      | WriteTimedOut \<Rightarrow> (Inl MessageSendingException, Close c s))"

definition connection_Send ::
  "(json \<Rightarrow> string) \<Rightarrow> (conn \<Rightarrow> write_result) \<Rightarrow> conn \<Rightarrow> message \<Rightarrow> endpoint \<Rightarrow> (unit result \<times> endpoint) result" where
  "connection_Send serialize w c m s =
     bind_result (ToMultipartFormData serialize m) (\<lambda>payload.
       if c \<notin> stream_open s then Inl ConnectionClosedException
       else Inr (OnMessageSent c payload (w c) s))"

definition StartReceivingMessages :: "conn \<Rightarrow> endpoint \<Rightarrow> endpoint" where
  "StartReceivingMessages c s = s\<lparr>reading := insert c (reading s)\<rparr>"

text \<open>
  The handler of a read: it closes the connection when the other side is gone, drops it
  silently on any other error, and otherwise reads on and passes the data to the endpoint.
\<close>

datatype read_result = ReadData string | ReadClosed | ReadAborted | ReadFailed

definition OnMessageReceived :: "conn \<Rightarrow> read_result \<Rightarrow> endpoint \<Rightarrow> string option \<times> endpoint" where
  "OnMessageReceived c r s =
     (let s0 = s\<lparr>reading := reading s - {c}\<rparr>
      in case r of
           ReadClosed \<Rightarrow> (None, Close c s0)
         | ReadAborted \<Rightarrow> (None, s0)
         | ReadFailed \<Rightarrow> (None, s0)
         | ReadData data \<Rightarrow>
             (Some data, if IsUsable c s0 then s0\<lparr>reading := insert c (reading s0)\<rparr> else s0))"

section \<open>The connection table\<close>

text \<open>The reference \<open>c\<close> is the new connection object made for the stream.\<close>

definition AddConnection :: "conn \<Rightarrow> connection_info \<Rightarrow> endpoint \<Rightarrow> endpoint" where
  "AddConnection c info s =
     (if \<not> running s then s
      else
        (let s1 = StartReceivingMessages c
               (s\<lparr>live := insert c (live s), stream_open := insert c (stream_open s),
                  conn_info := (conn_info s)(c := info)\<rparr>);
             s2 = (case map_get (connections s1) (endpoint_id info) of
                     Some old \<Rightarrow> Close old s1
                   | None \<Rightarrow> s1);
             s3 = s2\<lparr>connections := map_put (endpoint_id info) c (connections s2)\<rparr>
         in fire_event (ConnectionEstablished (endpoint_id info)) s3))"

definition GetConnection :: "string \<Rightarrow> endpoint \<Rightarrow> conn option" where
  "GetConnection i s =
     (case map_get (connections s) i of
        Some c \<Rightarrow> (if IsUsable c s then Some c else None)
      | None \<Rightarrow> None)"

definition endpoint_Send ::
  "(json \<Rightarrow> string) \<Rightarrow> (conn \<Rightarrow> write_result) \<Rightarrow> string \<Rightarrow> message \<Rightarrow> endpoint \<Rightarrow> (unit result \<times> endpoint) result" where
  "endpoint_Send serialize w node m s =
     (case GetConnection node s of
        None \<Rightarrow> Inl NoSuchEndpointException
      | Some c \<Rightarrow> connection_Send serialize w c m s)"

definition CloseConnectionTo :: "string \<Rightarrow> endpoint \<Rightarrow> endpoint" where
  "CloseConnectionTo node s =
     (case map_get (connections s) node of
        Some c \<Rightarrow> (let s1 = Close c s in s1\<lparr>connections := map_erase node (connections s1)\<rparr>)
      | None \<Rightarrow> s)"

definition HasConnectionTo :: "string \<Rightarrow> endpoint \<Rightarrow> bool" where
  "HasConnectionTo node s =
     (case map_get (connections s) node of Some c \<Rightarrow> IsUsable c s | None \<Rightarrow> False)"

fun count_usable :: "endpoint \<Rightarrow> (string \<times> conn) list \<Rightarrow> nat \<Rightarrow> nat" where
  "count_usable s [] count = count"
| "count_usable s ((i, c) # rest) count = count_usable s rest (if IsUsable c s then count + 1 else count)"

definition GetActiveConnectionCount :: "endpoint \<Rightarrow> nat" where
  "GetActiveConnectionCount s = count_usable s (connections s) 0"

text \<open>
  The job of a broadcast: it sends over every usable connection, then counts the futures
  that hold no exception. A \<open>Send\<close> that throws ends the job.
\<close>

fun send_to_all ::
  "(json \<Rightarrow> string) \<Rightarrow> (conn \<Rightarrow> write_result) \<Rightarrow> message \<Rightarrow> (string \<times> conn) list \<Rightarrow> endpoint \<Rightarrow>
     (unit result list \<times> endpoint) result" where
  "send_to_all serialize w m [] s = Inr ([], s)"
| "send_to_all serialize w m ((i, c) # rest) s =
     (if IsUsable c s then
        bind_result (connection_Send serialize w c m s) (\<lambda>(f, s1).
          bind_result (send_to_all serialize w m rest s1) (\<lambda>(fs, s2). Inr (f # fs, s2)))
      else send_to_all serialize w m rest s)"

fun count_sent :: "unit result list \<Rightarrow> nat \<Rightarrow> nat" where
  "count_sent [] count = count"
| "count_sent (f # fs) count = count_sent fs (case f of Inr _ \<Rightarrow> count + 1 | Inl _ \<Rightarrow> count + 1 - 1)"

definition IssueBroadcastAsJob ::
  "(json \<Rightarrow> string) \<Rightarrow> (conn \<Rightarrow> write_result) \<Rightarrow> message \<Rightarrow> endpoint \<Rightarrow> (nat \<times> endpoint) result" where
  "IssueBroadcastAsJob serialize w m s =
     bind_result (send_to_all serialize w m (connections s) s) (\<lambda>(fs, s'). Inr (count_sent fs 0, s'))"

section \<open>Message consumers\<close>

definition AddMessageConsumer :: "consumer \<Rightarrow> endpoint \<Rightarrow> endpoint" where
  "AddMessageConsumer co s =
     (if co_object co \<notin> gone_consumers s then
        s\<lparr>consumers := map_put (co_type co) (map_index [] (consumers s) (co_type co) @ [co]) (consumers s)\<rparr>
      else s)"

definition CleanUpConsumersOfMessageType :: "string \<Rightarrow> endpoint \<Rightarrow> endpoint" where
  "CleanUpConsumersOfMessageType ty s =
     (case map_get (consumers s) ty of
        Some cs \<Rightarrow> s\<lparr>consumers := map_put ty (filter (\<lambda>co. co_object co \<notin> gone_consumers s) cs) (consumers s)\<rparr>
      | None \<Rightarrow> s)"

definition GetConsumersOfMessageType :: "string \<Rightarrow> endpoint \<Rightarrow> consumer list \<times> endpoint" where
  "GetConsumersOfMessageType ty s =
     (if map_contains (consumers s) ty then
        (let s1 = CleanUpConsumersOfMessageType ty s
         in (filter (\<lambda>co. co_object co \<notin> gone_consumers s1) (map_index [] (consumers s1) ty), s1))
      else ([], s))"

text \<open>
  \<open>ProcessReceivedMessage\<close>: the jobs it kicks, each a consumer with the message and where
  it came from. Only \<open>MessagePayloadInvalidException\<close> is caught.
\<close>

definition endpoint_ProcessReceivedMessage ::
  "(string \<Rightarrow> json option) \<Rightarrow> string \<Rightarrow> conn \<Rightarrow> endpoint \<Rightarrow>
     ((consumer \<times> message \<times> connection_info) list \<times> endpoint) result" where
  "endpoint_ProcessReceivedMessage parse data c s =
     (if \<not> subsystems_up s then Inr ([], s)
      else if \<not> running s then Inr ([], s)
      else case FromMultipartFormData parse data of
        Inl MessagePayloadInvalidException \<Rightarrow> Inr ([], s)
      | Inl x \<Rightarrow> Inl x
      | Inr None \<Rightarrow> Inl UndefinedBehaviour
      | Inr (Some m) \<Rightarrow>
          (let (cs, s1) = GetConsumersOfMessageType (m_type m) s
           in Inr (map (\<lambda>co. (co, m, conn_info s c)) cs, s1)))"

section \<open>Cleaning up and shutting down\<close>

fun clean_up_types :: "string list \<Rightarrow> endpoint \<Rightarrow> endpoint" where
  "clean_up_types [] s = s"
| "clean_up_types (ty # tys) s = clean_up_types tys (CleanUpConsumersOfMessageType ty s)"

fun clean_up_connections :: "(string \<times> conn) list \<Rightarrow> endpoint \<Rightarrow> endpoint" where
  "clean_up_connections [] s = s"
| "clean_up_connections ((i, c) # rest) s =
     (if \<not> IsUsable c s then
        (let s1 = OnConnectionClose i s
         in clean_up_connections rest (s1\<lparr>connections := map_erase i (connections s1)\<rparr>))
      else clean_up_connections rest s)"

definition clean_up_job :: "endpoint \<Rightarrow> endpoint" where
  "clean_up_job s =
     (let s1 = clean_up_types (map_keys (consumers s)) s
      in clean_up_connections (connections s1) s1)"

fun close_all :: "(string \<times> conn) list \<Rightarrow> endpoint \<Rightarrow> endpoint" where
  "close_all [] s = s"
| "close_all ((i, c) # rest) s = close_all rest (Close c s)"

text \<open>The destructor; an endpoint that was not set up to listen has no listener to shut down.\<close>

definition shut_down_endpoint :: "endpoint \<Rightarrow> endpoint result" where
  "shut_down_endpoint s =
     (let s1 = s\<lparr>running := False\<rparr>
      in if \<not> has_acceptor s1 then Inl UndefinedBehaviour
         else Inr (close_all (connections s1) s1))"

section \<open>Steps\<close>

text \<open>
  What can happen to an endpoint, in any order: the operations above, connections that
  break, and connection objects that go when neither the table nor a read refers to them.
\<close>

inductive ep_step :: "endpoint \<Rightarrow> endpoint \<Rightarrow> bool" where
  connect: "c \<notin> live s \<Longrightarrow> ep_step s (AddConnection c info s)"
| close_to: "ep_step s (CloseConnectionTo node s)"
| send: "endpoint_Send serialize w node m s = Inr (f, s') \<Longrightarrow> ep_step s s'"
| broadcast: "IssueBroadcastAsJob serialize w m s = Inr (n, s') \<Longrightarrow> ep_step s s'"
| received: "c \<in> reading s \<Longrightarrow> OnMessageReceived c r s = (d, s') \<Longrightarrow> ep_step s s'"
| process: "endpoint_ProcessReceivedMessage parse data c s = Inr (js, s') \<Longrightarrow> ep_step s s'"
| clean: "ep_step s (clean_up_job s)"
| breaks: "ep_step s (s\<lparr>stream_open := stream_open s - {c}\<rparr>)"
| destroy: "c \<in> live s \<Longrightarrow> c \<notin> reading s \<Longrightarrow> c \<notin> snd ` set (connections s) \<Longrightarrow> ep_step s (destroy_connection c s)"
| add_consumer: "ep_step s (AddMessageConsumer co s)"
| consumer_gone: "ep_step s (s\<lparr>gone_consumers := insert n (gone_consumers s)\<rparr>)"

definition ep_run :: "endpoint \<Rightarrow> endpoint \<Rightarrow> bool" where
  "ep_run = ep_step\<^sup>*\<^sup>*"

text \<open>
  The invariant: an open connection is the one the table files under its node, and every
  entry of the table is filed under the node of its connection.
\<close>

definition endpoint_ok :: "endpoint \<Rightarrow> bool" where
  "endpoint_ok s \<longleftrightarrow> map_ok (connections s) \<and> finite (stream_open s) \<and> stream_open s \<subseteq> live s \<and>
     (\<forall>i c. map_get (connections s) i = Some c \<longrightarrow> endpoint_id (conn_info s c) = i \<and> c \<in> live s) \<and>
     (\<forall>c\<in>stream_open s. map_get (connections s) (endpoint_id (conn_info s c)) = Some c)"

lemma endpoint_okI:
  assumes "map_ok (connections s)" "finite (stream_open s)" "stream_open s \<subseteq> live s"
    and "\<And>i c. map_get (connections s) i = Some c \<Longrightarrow> endpoint_id (conn_info s c) = i"
    and "\<And>i c. map_get (connections s) i = Some c \<Longrightarrow> c \<in> live s"
    and "\<And>c. c \<in> stream_open s \<Longrightarrow> map_get (connections s) (endpoint_id (conn_info s c)) = Some c"
  shows "endpoint_ok s"
  unfolding endpoint_ok_def using assms by blast

lemma endpoint_okD:
  assumes "endpoint_ok s"
  shows "map_ok (connections s)" "finite (stream_open s)" "stream_open s \<subseteq> live s"
    and "\<And>i c. map_get (connections s) i = Some c \<Longrightarrow> endpoint_id (conn_info s c) = i"
    and "\<And>i c. map_get (connections s) i = Some c \<Longrightarrow> c \<in> live s"
    and "\<And>c. c \<in> stream_open s \<Longrightarrow> map_get (connections s) (endpoint_id (conn_info s c)) = Some c"
  using assms unfolding endpoint_ok_def by blast+

lemma Close_simps [simp]:
  "stream_open (Close c s) = stream_open s - {c}"
  "connections (Close c s) = connections s"
  "conn_info (Close c s) = conn_info s"
  "live (Close c s) = live s"
  "running (Close c s) = running s"
  "reading (Close c s) = reading s"
  "written (Close c s) = written s"
  "consumers (Close c s) = consumers s"
  "subsystems_up (Close c s) = subsystems_up s"
  "broker_up (Close c s) = broker_up s"
  by (auto simp: Close_def OnConnectionClose_def fire_event_def Let_def)

lemma events_Close:
  "events (Close c s) = events s @
     (if subsystems_up s \<and> broker_up s then [ConnectionClosed (endpoint_id (conn_info s c))] else [])"
  by (simp add: Close_def OnConnectionClose_def fire_event_def Let_def)

lemma fire_event_simps [simp]:
  "stream_open (fire_event ev s) = stream_open s"
  "connections (fire_event ev s) = connections s"
  "conn_info (fire_event ev s) = conn_info s"
  "live (fire_event ev s) = live s"
  by (simp_all add: fire_event_def)

text \<open>Steps that only close streams, or touch nothing of the table, keep the invariant.\<close>

lemma endpoint_ok_shrink:
  assumes "endpoint_ok s" and "connections s' = connections s \<and> conn_info s' = conn_info s \<and>
    live s' = live s \<and> stream_open s' \<subseteq> stream_open s"
  shows "endpoint_ok s'"
proof -
  note ok = endpoint_okD [OF assms(1)]
  have eq: "connections s' = connections s" "conn_info s' = conn_info s" "live s' = live s"
    and sub: "stream_open s' \<subseteq> stream_open s" using assms(2) by auto
  show ?thesis
  proof (rule endpoint_okI; (unfold eq)?)
    show "finite (stream_open s')" using sub ok(2) by (rule finite_subset)
    show "stream_open s' \<subseteq> live s" using sub ok(3) by (rule subset_trans)
    show "map_get (connections s) (endpoint_id (conn_info s c)) = Some c" if "c \<in> stream_open s'" for c
      using sub that by (intro ok(6)) blast
  qed (fact ok)+
qed

lemma AddConnection_simps:
  assumes "running s"
  shows "connections (AddConnection c info s) = map_put (endpoint_id info) c (connections s)"
    "conn_info (AddConnection c info s) = (conn_info s)(c := info)"
    "live (AddConnection c info s) = insert c (live s)"
    "stream_open (AddConnection c info s) = insert c (stream_open s) -
       (case map_get (connections s) (endpoint_id info) of Some old \<Rightarrow> {old} | None \<Rightarrow> {})"
  using assms by (auto simp: AddConnection_def StartReceivingMessages_def Let_def split: option.splits)

lemma endpoint_ok_AddConnection [inv_intro]:
  assumes "endpoint_ok s" and "c \<notin> live s"
  shows "endpoint_ok (AddConnection c info s)"
proof (cases "running s")
  case True
  note ok = endpoint_okD [OF assms(1)]
  have old: "c' \<noteq> c" if "map_get (connections s) i = Some c'" for i c'
    using ok(5) [OF that] assms(2) by blast
  have op: "c' \<noteq> c" if "c' \<in> stream_open s" for c'
    using ok(3) that assms(2) by blast
  show ?thesis
  proof (rule endpoint_okI; unfold AddConnection_simps [OF True])
    show "map_ok (map_put (endpoint_id info) c (connections s))" using ok(1) by simp
    show "insert c (stream_open s) - (case map_get (connections s) (endpoint_id info) of
        Some old \<Rightarrow> {old} | None \<Rightarrow> {}) \<subseteq> insert c (live s)" using ok(3) by blast
  next
    fix i c' assume "map_get (map_put (endpoint_id info) c (connections s)) i = Some c'"
    then have *: "i = endpoint_id info \<and> c' = c \<or> map_get (connections s) i = Some c'"
      by (simp split: if_splits)
    show "endpoint_id (((conn_info s)(c := info)) c') = i"
      using * ok(4) [of i c'] old [of i c'] by (elim disjE) simp_all
    show "c' \<in> insert c (live s)"
      using * ok(5) [of i c'] by (elim disjE) simp_all
  next
    fix c' assume c': "c' \<in> insert c (stream_open s) - (case map_get (connections s) (endpoint_id info) of
        Some old \<Rightarrow> {old} | None \<Rightarrow> {})"
    show "map_get (map_put (endpoint_id info) c (connections s)) (endpoint_id (((conn_info s)(c := info)) c')) = Some c'"
    proof (cases "c' = c")
      case False
      with c' have "c' \<in> stream_open s" by blast
      moreover from this have "map_get (connections s) (endpoint_id (conn_info s c')) = Some c'" by (rule ok(6))
      moreover from this have "endpoint_id (conn_info s c') \<noteq> endpoint_id info"
        using c' by (cases "map_get (connections s) (endpoint_id info)") auto
      ultimately show ?thesis using False by simp
    qed simp
  qed (use ok(2) in simp)
qed (simp add: AddConnection_def assms(1))

lemma endpoint_ok_erase:
  assumes "endpoint_ok s" and "\<And>c. map_get (connections s) i = Some c \<Longrightarrow> c \<notin> stream_open s"
  shows "endpoint_ok (s\<lparr>connections := map_erase i (connections s)\<rparr>)"
proof -
  note ok = endpoint_okD [OF assms(1)]
  show ?thesis
  proof (rule endpoint_okI)
    fix c assume "c \<in> stream_open (s\<lparr>connections := map_erase i (connections s)\<rparr>)"
    then have "c \<in> stream_open s" by simp
    moreover from this have "map_get (connections s) (endpoint_id (conn_info s c)) = Some c" by (rule ok(6))
    ultimately have "endpoint_id (conn_info s c) \<noteq> i" using assms(2) by blast
    with \<open>map_get (connections s) (endpoint_id (conn_info s c)) = Some c\<close>
    show "map_get (connections (s\<lparr>connections := map_erase i (connections s)\<rparr>))
        (endpoint_id (conn_info (s\<lparr>connections := map_erase i (connections s)\<rparr>) c)) = Some c" by simp
  qed (use ok in \<open>simp_all split: if_splits\<close>)
qed

lemma endpoint_ok_CloseConnectionTo [inv_intro]:
  assumes "endpoint_ok s" shows "endpoint_ok (CloseConnectionTo node s)"
proof (cases "map_get (connections s) node")
  case (Some c)
  have "endpoint_ok (Close c s)" by (rule endpoint_ok_shrink [OF assms]) auto
  then have "endpoint_ok ((Close c s)\<lparr>connections := map_erase node (connections (Close c s))\<rparr>)"
    by (rule endpoint_ok_erase) (use Some in simp)
  with Some show ?thesis by (simp add: CloseConnectionTo_def Let_def)
qed (simp add: CloseConnectionTo_def assms)

lemma connection_Send_frame:
  assumes "connection_Send serialize w c m s = Inr (f, s')"
  shows "connections s' = connections s \<and> conn_info s' = conn_info s \<and> live s' = live s \<and>
    stream_open s' \<subseteq> stream_open s"
  using assms
  by (auto simp: connection_Send_def bind_result_Inr_iff OnMessageSent_def split: if_splits write_result.splits)

lemma send_to_all_frame:
  "send_to_all serialize w m cs s = Inr (fs, s') \<Longrightarrow>
     connections s' = connections s \<and> conn_info s' = conn_info s \<and> live s' = live s \<and>
     stream_open s' \<subseteq> stream_open s"
proof (induction serialize w m cs s arbitrary: fs s' rule: send_to_all.induct)
  case (2 serialize w m i c rest s)
  show ?case
  proof (cases "IsUsable c s")
    case True
    then obtain f s1 fs' where s1: "connection_Send serialize w c m s = Inr (f, s1)"
      and rest: "send_to_all serialize w m rest s1 = Inr (fs', s')"
      using "2.prems" by (auto simp: bind_result_Inr_iff)
    show ?thesis
      using "2.IH"(1) [OF True rest] connection_Send_frame [OF s1] by auto
  next
    case False
    with 2 show ?thesis by simp
  qed
qed simp

lemma CleanUpConsumers_frame [simp]:
  "connections (CleanUpConsumersOfMessageType ty s) = connections s"
  "conn_info (CleanUpConsumersOfMessageType ty s) = conn_info s"
  "live (CleanUpConsumersOfMessageType ty s) = live s"
  "stream_open (CleanUpConsumersOfMessageType ty s) = stream_open s"
  "gone_consumers (CleanUpConsumersOfMessageType ty s) = gone_consumers s"
  by (simp_all add: CleanUpConsumersOfMessageType_def split: option.splits)

lemma clean_up_types_frame [simp]:
  "connections (clean_up_types tys s) = connections s"
  "conn_info (clean_up_types tys s) = conn_info s"
  "live (clean_up_types tys s) = live s"
  "stream_open (clean_up_types tys s) = stream_open s"
  by (induction tys s rule: clean_up_types.induct) auto

lemma endpoint_ok_clean_up_connections:
  "endpoint_ok s \<Longrightarrow> set cs \<subseteq> set (connections s) \<Longrightarrow> distinct (map fst cs) \<Longrightarrow>
     endpoint_ok (clean_up_connections cs s)"
proof (induction cs s rule: clean_up_connections.induct)
  case (2 i c rest s)
  have get: "map_get (connections s) i = Some c"
    using "2.prems"(2) endpoint_okD(1) [OF "2.prems"(1)] by (simp add: map_entry_get)
  show ?case
  proof (cases "IsUsable c s")
    case True
    with 2 show ?thesis by simp
  next
    case False
    let ?s1 = "OnConnectionClose i s"
    have "endpoint_ok ?s1"
      by (rule endpoint_ok_shrink [OF "2.prems"(1)]) (auto simp: OnConnectionClose_def)
    then have "endpoint_ok (?s1\<lparr>connections := map_erase i (connections ?s1)\<rparr>)"
      using False get by (intro endpoint_ok_erase) (auto simp: OnConnectionClose_def IsUsable_def)
    moreover have "set rest \<subseteq> set (map_erase i (connections ?s1))"
      using "2.prems"(2,3) by (force simp: map_erase_def OnConnectionClose_def)
    ultimately show ?thesis
      using "2.IH"(1) [OF False refl] "2.prems"(3) False by (simp add: Let_def)
  qed
qed simp

lemma endpoint_ok_clean_up [inv_intro]: "endpoint_ok s \<Longrightarrow> endpoint_ok (clean_up_job s)"
proof -
  assume "endpoint_ok s"
  then have "endpoint_ok (clean_up_types (map_keys (consumers s)) s)"
    by (rule endpoint_ok_shrink) simp_all
  moreover from this have "distinct (map fst (connections (clean_up_types (map_keys (consumers s)) s)))"
    using map_keys_distinct by (auto simp: endpoint_ok_def map_keys_def)
  ultimately show ?thesis by (simp add: clean_up_job_def Let_def endpoint_ok_clean_up_connections)
qed

lemma endpoint_ok_destroy [inv_intro]:
  assumes "endpoint_ok s" and "c \<notin> snd ` set (connections s)"
  shows "endpoint_ok (destroy_connection c s)"
proof -
  note ok = endpoint_okD [OF assms(1)]
  have "map_get (connections s) i \<noteq> Some c" for i
    using assms(2) ok(1) by (force simp flip: map_entry_get)
  with ok show ?thesis by (intro endpoint_okI) (auto simp: destroy_connection_def)
qed

lemma ProcessReceived_frame:
  assumes "endpoint_ProcessReceivedMessage parse data c s = Inr (js, s')"
  shows "connections s' = connections s \<and> conn_info s' = conn_info s \<and> live s' = live s \<and>
    stream_open s' = stream_open s"
  using assms
  by (auto simp: endpoint_ProcessReceivedMessage_def GetConsumersOfMessageType_def Let_def
      split: if_splits sum.splits option.splits exn.splits)

lemma OnMessageReceived_frame:
  assumes "OnMessageReceived c r s = (d, s')"
  shows "connections s' = connections s \<and> conn_info s' = conn_info s \<and> live s' = live s \<and>
    stream_open s' \<subseteq> stream_open s"
  using assms by (auto simp: OnMessageReceived_def Let_def split: read_result.splits if_splits)

lemma endpoint_ok_step: "ep_step s s' \<Longrightarrow> endpoint_ok s \<Longrightarrow> endpoint_ok s'"
proof (induction rule: ep_step.induct)
  case (send serialize w node m s f s')
  then obtain c where "connection_Send serialize w c m s = Inr (f, s')"
    by (auto simp: endpoint_Send_def split: option.splits)
  with send.prems show ?case using connection_Send_frame endpoint_ok_shrink by blast
next
  case (broadcast serialize w m s n s')
  then obtain fs where "send_to_all serialize w m (connections s) s = Inr (fs, s')"
    by (auto simp: IssueBroadcastAsJob_def bind_result_Inr_iff)
  with broadcast.prems show ?case using send_to_all_frame endpoint_ok_shrink by blast
next
  case (received c s r d s')
  then show ?case using OnMessageReceived_frame endpoint_ok_shrink by blast
next
  case (process parse data c s js s')
  then show ?case using ProcessReceived_frame [of parse data c s js s'] endpoint_ok_shrink by auto
next
  case (breaks s c)
  then show ?case by (auto intro: endpoint_ok_shrink)
next
  case (add_consumer s co)
  then show ?case by (auto simp: AddMessageConsumer_def intro: endpoint_ok_shrink)
next
  case (consumer_gone s n)
  then show ?case by (auto intro: endpoint_ok_shrink)
qed (auto intro: inv_intro)

interpretation endpoints: invariant_system "\<lambda>s. \<exists>a b d. s = make_endpoint a b d" ep_step endpoint_ok
proof unfold_locales
  show "endpoint_ok s" if "\<exists>a b d. s = make_endpoint a b d" for s
    using that by (auto simp: endpoint_ok_def make_endpoint_def)
qed (rule endpoint_ok_step)

lemma endpoint_ok_run: "ep_run (make_endpoint a b d) s \<Longrightarrow> endpoint_ok s"
  unfolding ep_run_def by (rule endpoints.inv_run) blast

lemma count_usable: "count_usable s cs n = n + length (filter (\<lambda>(i, c). IsUsable c s) cs)"
  by (induction s cs n rule: count_usable.induct) auto

lemma active_count:
  assumes "endpoint_ok s"
  shows "GetActiveConnectionCount s = card (stream_open s)"
proof -
  note ok = endpoint_okD [OF assms]
  let ?us = "filter (\<lambda>(i, c). IsUsable c s) (connections s)"
  have "distinct (map fst (connections s))" using map_keys_distinct [OF ok(1)] by (simp add: map_keys_def)
  then have d: "distinct ?us" by (simp add: distinct_map)
  have "snd ` set ?us = stream_open s"
  proof
    show "stream_open s \<subseteq> snd ` set ?us"
    proof
      fix c assume c: "c \<in> stream_open s"
      then have "(endpoint_id (conn_info s c), c) \<in> set (connections s)"
        using ok(6) ok(1) by (simp add: map_entry_get)
      with c show "c \<in> snd ` set ?us" by (force simp: IsUsable_def)
    qed
  qed (auto simp: IsUsable_def)
  moreover have "inj_on snd (set ?us)"
    using ok(1,4) by (auto simp: inj_on_def map_entry_get)
  ultimately have "card (stream_open s) = card (set ?us)" by (metis card_image)
  also have "\<dots> = length ?us" using d by (rule distinct_card)
  finally show ?thesis by (simp add: GetActiveConnectionCount_def count_usable)
qed

lemma GetConnection_iff:
  assumes "endpoint_ok s"
  shows "GetConnection node s = Some c \<longleftrightarrow> c \<in> stream_open s \<and> endpoint_id (conn_info s c) = node"
  using endpoint_okD(4,6) [OF assms] by (auto simp: GetConnection_def IsUsable_def split: option.splits if_splits)

lemma HasConnectionTo_iff: "HasConnectionTo node s \<longleftrightarrow> GetConnection node s \<noteq> None"
  by (simp add: HasConnectionTo_def GetConnection_def split: option.splits)

section \<open>Properties\<close>

text \<open>
  C6: whatever happens to an endpoint, every open connection is the one its table gives
  for its node, so there is at most one per node, no open connection is forgotten, the
  table answers with open connections only, and the active count is their number.
\<close>

theorem table_names_the_open_connections:
  assumes "ep_run (make_endpoint auto_init subsystems broker) s"
  shows "(GetConnection node s = Some c \<longleftrightarrow> c \<in> stream_open s \<and> endpoint_id (conn_info s c) = node) \<and>
    (HasConnectionTo node s \<longleftrightarrow> (\<exists>c\<in>stream_open s. endpoint_id (conn_info s c) = node)) \<and>
    GetActiveConnectionCount s = card (stream_open s)"
proof -
  note ok = endpoint_ok_run [OF assms]
  have "HasConnectionTo node s \<longleftrightarrow> (\<exists>c\<in>stream_open s. endpoint_id (conn_info s c) = node)"
    unfolding HasConnectionTo_iff by (auto simp: GetConnection_iff [OF ok])
  then show ?thesis using GetConnection_iff [OF ok] active_count [OF ok] by simp
qed

theorem table_names_the_open_connections_witness:
  "GetActiveConnectionCount (AddConnection 2 \<lparr>hostname = ''h'', endpoint_id = ''n''\<rparr>
     (AddConnection 1 \<lparr>hostname = ''h'', endpoint_id = ''n''\<rparr> (make_endpoint True True True))) = 1"
proof -
  let ?i = "\<lparr>hostname = ''h'', endpoint_id = ''n''\<rparr>"
  let ?s1 = "AddConnection 1 ?i (make_endpoint True True True)"
  have "ep_step (make_endpoint True True True) ?s1" by (rule ep_step.connect) (simp add: make_endpoint_def)
  moreover have l: "live ?s1 = {1}" "connections ?s1 = [(''n'', 1)]" "stream_open ?s1 = {1}" "running ?s1"
    by (simp_all add: make_endpoint_def AddConnection_def StartReceivingMessages_def Let_def fire_event_def)
  then have "ep_step ?s1 (AddConnection 2 ?i ?s1)" by (intro ep_step.connect) simp
  ultimately have "ep_run (make_endpoint True True True) (AddConnection 2 ?i ?s1)"
    unfolding ep_run_def by (meson r_into_rtranclp rtranclp.rtrancl_into_rtrancl)
  note t = table_names_the_open_connections [OF this]
  have "stream_open (AddConnection 2 ?i ?s1) = {2}"
    unfolding AddConnection_simps [OF l(4)] l by (simp add: insert_Diff_if)
  with t show ?thesis by simp
qed

text \<open>The consumers a message type has, as \<open>ProcessReceivedMessage\<close> sees them.\<close>

definition consumers_of :: "string \<Rightarrow> endpoint \<Rightarrow> consumer list" where
  "consumers_of ty s = filter (\<lambda>co. co_object co \<notin> gone_consumers s) (map_index [] (consumers s) ty)"

lemma GetConsumersOfMessageType_fst: "fst (GetConsumersOfMessageType ty s) = consumers_of ty s"
  by (simp add: GetConsumersOfMessageType_def consumers_of_def CleanUpConsumersOfMessageType_def
      map_index_def Let_def split: option.splits)

text \<open>
  C7: delivery from node to node of a message that multipart form-data can carry (\<open>sendable\<close>): it
  has no attribute \<open>meta\<close>, no zero byte in its id and type, the names of its attributes hold no
  quotation mark and no carriage return, and their contents not the boundary between parts.
  (Messages that are not sendable do arrive changed.) If \<open>Send\<close> reports success for such a message, the
  bytes went over the open connection to that node, and a running receiver that is given these
  bytes kicks exactly one job per consumer of the message's type that still exists, in the order
  they were added, each with the very message that was sent. The JSON library is taken to read
  back the meta object it wrote, on one line and beginning with a brace.
\<close>

theorem sent_message_reaches_its_consumers:
  assumes "endpoint_Send serialize w node m s = Inr (Inr (), s')" and "sendable m"
    and "parse (serialize (meta_json m)) = Some (meta_json m)"
    and "CHR 0x0D \<notin> set (serialize (meta_json m))" and "take 1 (serialize (meta_json m)) = ''{''"
    and "running r" and "subsystems_up r"
  shows "\<exists>c data r'. written s' = written s @ [(c, data)] \<and> GetConnection node s = Some c \<and>
    endpoint_ProcessReceivedMessage parse data c' r =
      Inr (map (\<lambda>co. (co, m, conn_info r c')) (consumers_of (m_type m) r), r')"
proof -
  obtain c where c: "GetConnection node s = Some c" and send: "connection_Send serialize w c m s = Inr (Inr (), s')"
    using assms(1) by (auto simp: endpoint_Send_def split: option.splits)
  obtain data where data: "ToMultipartFormData serialize m = Inr data" "FromMultipartFormData parse data = Inr (Some m)"
    using multipart_trip [OF assms(2), of parse serialize, OF assms(3-5)] by blast
  have "written s' = written s @ [(c, data)]"
    using send data(1) by (auto simp: connection_Send_def OnMessageSent_def split: if_splits write_result.splits)
  moreover obtain cs r' where g: "GetConsumersOfMessageType (m_type m) r = (cs, r')" by (cases "GetConsumersOfMessageType (m_type m) r")
  then have "cs = consumers_of (m_type m) r" using GetConsumersOfMessageType_fst [of "m_type m" r] by simp
  with g data(2) assms(6,7) have "endpoint_ProcessReceivedMessage parse data c' r =
      Inr (map (\<lambda>co. (co, m, conn_info r c')) (consumers_of (m_type m) r), r')"
    by (simp add: endpoint_ProcessReceivedMessage_def)
  ultimately show ?thesis using c by blast
qed

theorem sent_message_reaches_its_consumers_witness:
  "\<exists>c data r' s. endpoint_ProcessReceivedMessage (\<lambda>_. Some (meta_json example_message)) data 9
     (AddMessageConsumer \<lparr>co_object = 1, co_type = ''call''\<rparr> (make_endpoint True True True)) =
   Inr ([(\<lparr>co_object = 1, co_type = ''call''\<rparr>, example_message, \<lparr>hostname = [], endpoint_id = []\<rparr>)], r')"
proof -
  let ?s = "AddConnection 1 \<lparr>hostname = ''h'', endpoint_id = ''n''\<rparr> (make_endpoint True True True)"
  let ?r = "AddMessageConsumer \<lparr>co_object = 1, co_type = ''call''\<rparr> (make_endpoint True True True)"
  have s: "GetConnection ''n'' ?s = Some 1" "1 \<in> stream_open ?s"
    by (simp_all add: make_endpoint_def AddConnection_def StartReceivingMessages_def Let_def fire_event_def
        GetConnection_def IsUsable_def)
  have ok: "sendable example_message" by code_simp
  obtain data where "ToMultipartFormData (\<lambda>_. ''{7}'') example_message = Inr data"
    using multipart_trip [OF ok, of "\<lambda>_. Some (meta_json example_message)" "\<lambda>_. ''{7}''"] by auto
  then have "endpoint_Send (\<lambda>_. ''{7}'') (\<lambda>_. Written) ''n'' example_message ?s =
      Inr (Inr (), ?s\<lparr>written := written ?s @ [(1, data)]\<rparr>)"
    using s by (simp add: endpoint_Send_def connection_Send_def OnMessageSent_def)
  from sent_message_reaches_its_consumers [OF this ok, of "\<lambda>_. Some (meta_json example_message)" ?r 9]
  show ?thesis
    by (auto simp: make_endpoint_def AddMessageConsumer_def consumers_of_def map_index_def example_message_def)
qed

text \<open>
  When a node connects again, the old connection object is closed at once, and closed
  a second time when it is destroyed later: the node is then reported as disconnected
  although its new connection is open and in the table. Listeners of that event, the
  table of pending requests among them, give up on a node that is reachable.
\<close>

theorem replaced_connection_reports_its_node_closed_later:
  assumes "endpoint_ok s" and "running s" and "subsystems_up s" and "broker_up s"
    and "map_get (connections s) (endpoint_id info) = Some old" and "c \<notin> live s"
  shows "let s' = destroy_connection old (AddConnection c info s)
    in events s' = events s @ [ConnectionClosed (endpoint_id info), ConnectionEstablished (endpoint_id info),
         ConnectionClosed (endpoint_id info)] \<and> GetConnection (endpoint_id info) s' = Some c"
proof -
  note ok = endpoint_okD [OF assms(1)]
  have old: "endpoint_id (conn_info s old) = endpoint_id info" "old \<noteq> c"
    using ok(4,5) [OF assms(5)] assms(6) by auto
  have "events (AddConnection c info s) =
      events s @ [ConnectionClosed (endpoint_id info), ConnectionEstablished (endpoint_id info)]"
    using assms(2-5) old by (simp add: AddConnection_def StartReceivingMessages_def Let_def fire_event_def events_Close)
  moreover have "subsystems_up (AddConnection c info s) \<and> broker_up (AddConnection c info s)"
    using assms(2-5) by (simp add: AddConnection_def StartReceivingMessages_def Let_def fire_event_def)
  ultimately show ?thesis
    using assms(5) old
    by (simp add: Let_def destroy_connection_def events_Close GetConnection_def IsUsable_def
        AddConnection_simps [OF assms(2)])
qed

theorem replaced_connection_reports_its_node_closed_later_witness:
  "let i = \<lparr>hostname = ''h'', endpoint_id = ''n''\<rparr>;
       s = destroy_connection 1 (AddConnection 2 i (AddConnection 1 i (make_endpoint True True True)))
   in last (events s) = ConnectionClosed ''n'' \<and> GetConnection ''n'' s = Some 2"
proof -
  let ?i = "\<lparr>hostname = ''h'', endpoint_id = ''n''\<rparr>"
  let ?s = "AddConnection 1 ?i (make_endpoint True True True)"
  have "endpoint_ok (make_endpoint True True True)" by (simp add: endpoint_ok_def make_endpoint_def)
  then have "endpoint_ok ?s" by (rule endpoint_ok_AddConnection) (simp add: make_endpoint_def)
  moreover have "running ?s" "subsystems_up ?s" "broker_up ?s" "map_get (connections ?s) (endpoint_id ?i) = Some 1"
    "2 \<notin> live ?s"
    by (simp_all add: make_endpoint_def AddConnection_def StartReceivingMessages_def Let_def fire_event_def)
  ultimately show ?thesis
    using replaced_connection_reports_its_node_closed_later [of ?s ?i 1 2] by (simp add: Let_def)
qed

end
