(* ===== verification/Spin_Lock.thy ===== *)
theory Spin_Lock
  imports Prelude
begin

text \<open>
  The user-space locks: \<open>SpinLock\<close> (\<open>common/synchronization\<close>), the \<open>BoostFiberSpinLock\<close> of
  the job system, which is the same lock with a yield in its loop, and the recursive lock
  \<open>BoostFiberRecursiveSpinLock\<close>. Agents are threads or fibers. A step is one access to an
  atomic variable, or a block that runs entirely under the inner spin lock of the
  recursive lock; the agents' steps interleave in any order.
\<close>

section \<open>The contract of a lock\<close>

text \<open>
  What every user of a lock relies on: at most one agent holds it at a time. \<open>inv\<close> is the
  reason the provider gives; users only see which states can be reached and \<open>holds\<close>.
\<close>

locale mutual_exclusion = invariant_system start step inv
  for start :: "'s \<Rightarrow> bool" and step :: "'s \<Rightarrow> 's \<Rightarrow> bool" and inv :: "'s \<Rightarrow> bool" +
  fixes holds :: "'a \<Rightarrow> 's \<Rightarrow> bool"
  assumes inv_exclusive: "inv s \<Longrightarrow> holds a s \<Longrightarrow> holds b s \<Longrightarrow> a = b"
begin

lemma exclusive: "start s0 \<Longrightarrow> step\<^sup>*\<^sup>* s0 s \<Longrightarrow> holds a s \<Longrightarrow> holds b s \<Longrightarrow> a = b"
  using inv_run inv_exclusive by blast

end

text \<open>
  What a lock promises, without flags and inner locks: only the depths of the agents, which
  change one at a time; an agent can lock while no other agent holds it.
\<close>

inductive lock_spec :: "('a \<Rightarrow> nat) \<Rightarrow> ('a \<Rightarrow> nat) \<Rightarrow> bool" where
  locks: "\<forall>b. b \<noteq> a \<longrightarrow> d b = 0 \<Longrightarrow> lock_spec d (d(a := d a + 1))"
| unlocks: "0 < d a \<Longrightarrow> lock_spec d (d(a := d a - 1))"

definition one_holder :: "('a \<Rightarrow> nat) \<Rightarrow> bool" where
  "one_holder d \<longleftrightarrow> (\<forall>a b. 0 < d a \<longrightarrow> 0 < d b \<longrightarrow> a = b)"

lemma one_holder_step: "lock_spec d d' \<Longrightarrow> one_holder d \<Longrightarrow> one_holder d'"
  by (induction rule: lock_spec.induct) (auto simp: one_holder_def split: if_splits)

text \<open>
  A lock refines this when the depths of its agents follow it; then it excludes, because the
  specification does.
\<close>

locale lock_refinement = refining_system start step inv lock_spec depth_of "\<lambda>d. d = (\<lambda>_. 0)" one_holder
  for start :: "'s \<Rightarrow> bool" and step :: "'s \<Rightarrow> 's \<Rightarrow> bool" and inv :: "'s \<Rightarrow> bool"
    and depth_of :: "'s \<Rightarrow> 'a \<Rightarrow> nat"
begin

lemma run_spec: "start s \<Longrightarrow> step\<^sup>*\<^sup>* s s' \<Longrightarrow> lock_spec\<^sup>*\<^sup>* (\<lambda>_. 0) (depth_of s')"
  using abs_run abs_start by metis

end

sublocale lock_refinement \<subseteq> mutex: mutual_exclusion start step "\<lambda>s. inv s \<and> one_holder (depth_of s)" "\<lambda>a s. 0 < depth_of s a"
  by unfold_locales (auto simp: one_holder_def)

section \<open>The spin lock\<close>

text \<open>\<open>atomic_flag::test_and_set\<close> returns the value before.\<close>

definition test_and_set :: "bool \<Rightarrow> bool \<times> bool" where
  "test_and_set flag = (flag, True)"

definition SpinLock_try_lock :: "bool \<Rightarrow> bool \<times> bool" where
  "SpinLock_try_lock flag = (let (already_locked, flag') = test_and_set flag in (\<not> already_locked, flag'))"

definition SpinLock_unlock :: "bool \<Rightarrow> bool" where
  "SpinLock_unlock flag = False"

text \<open>One turn of the loop of \<open>lock\<close>; a failed turn is repeated.\<close>

record 'a spin =
  sp_flag :: bool
  sp_holders :: "'a set"

inductive spin_step :: "'a spin \<Rightarrow> 'a spin \<Rightarrow> bool" where
  acquired: "SpinLock_try_lock (sp_flag s) = (True, f) \<Longrightarrow>
     spin_step s (s\<lparr>sp_flag := f, sp_holders := insert a (sp_holders s)\<rparr>)"
| spins: "SpinLock_try_lock (sp_flag s) = (False, f) \<Longrightarrow> spin_step s (s\<lparr>sp_flag := f\<rparr>)"
| released: "a \<in> sp_holders s \<Longrightarrow>
     spin_step s (s\<lparr>sp_flag := SpinLock_unlock (sp_flag s), sp_holders := sp_holders s - {a}\<rparr>)"

definition spin_init :: "'a spin" where
  "spin_init = \<lparr>sp_flag = False, sp_holders = {}\<rparr>"

definition spin_inv :: "'a spin \<Rightarrow> bool" where
  "spin_inv s \<longleftrightarrow> (sp_flag s \<longleftrightarrow> sp_holders s \<noteq> {}) \<and> (\<forall>a\<in>sp_holders s. \<forall>b\<in>sp_holders s. a = b)"

text \<open>The spin lock is not re-entrant: a holder has depth one.\<close>

definition spin_depth :: "'a spin \<Rightarrow> 'a \<Rightarrow> nat" where
  "spin_depth s = (\<lambda>a. of_bool (a \<in> sp_holders s))"

lemma spin_inv_step: "spin_step s s' \<Longrightarrow> spin_inv s \<Longrightarrow> spin_inv s'"
  by (induction rule: spin_step.induct)
    (auto simp: spin_inv_def SpinLock_try_lock_def SpinLock_unlock_def test_and_set_def)

lemma spin_step_spec:
  assumes "spin_step s s'" and "spin_inv s"
  shows "spin_depth s' = spin_depth s \<or> lock_spec (spin_depth s) (spin_depth s')"
  using assms(1)
proof (cases rule: spin_step.cases)
  case (acquired f a)
  then have "sp_holders s = {}"
    using assms(2) by (simp add: spin_inv_def SpinLock_try_lock_def test_and_set_def)
  then have "spin_depth s = (\<lambda>_. 0)" "spin_depth s' = (spin_depth s)(a := spin_depth s a + 1)"
    using acquired(1) by (auto simp: spin_depth_def)
  then show ?thesis using lock_spec.locks [of a "spin_depth s"] by simp
next
  case (spins f)
  then show ?thesis by (simp add: spin_depth_def)
next
  case (released a)
  then have "0 < spin_depth s a" "spin_depth s' = (spin_depth s)(a := spin_depth s a - 1)"
    by (auto simp: spin_depth_def)
  then show ?thesis using lock_spec.unlocks [of "spin_depth s" a] by simp
qed

interpretation spec_lock: invariant_system "\<lambda>d. d = (\<lambda>_. 0)" lock_spec one_holder
  by unfold_locales (simp add: one_holder_def, rule one_holder_step)

interpretation spin_lock: lock_refinement "\<lambda>s. s = spin_init" spin_step spin_inv spin_depth
proof unfold_locales
  show "lock_spec\<^sup>*\<^sup>* (spin_depth s) (spin_depth s')" if "spin_step s s'" "spin_inv s" for s s' :: "'a spin"
    using spin_step_spec [OF that] by auto
  show "spin_inv s'" if "spin_step s s'" "spin_inv s" for s s' :: "'a spin"
    using that by (rule spin_inv_step)
qed (simp_all add: spin_inv_def spin_init_def spin_depth_def)

lemma spin_lock_excludes:
  "spin_step\<^sup>*\<^sup>* spin_init s \<Longrightarrow> a \<in> sp_holders s \<Longrightarrow> b \<in> sp_holders s \<Longrightarrow> a = b"
  using spin_lock.mutex.exclusive [OF refl, of s a b] by (simp add: spin_depth_def)

section \<open>The recursive lock\<close>

text \<open>
  The state is the owner information, the count, the flag and the inner lock \<open>info_lock\<close>.
  \<open>depth\<close> counts how often an agent has locked without unlocking yet; it belongs to the
  agents, not to the lock. An agent is between calls (\<open>Outside\<close>), has seen that it is not
  the owner (\<open>NotOwner\<close>), has set the flag but not yet stored its identity (\<open>FlagSet\<close>), or
  is inside \<open>unlock\<close> after it cleared the flag (\<open>Clearing\<close>).
\<close>

datatype lock_pc = Outside | NotOwner | FlagSet | Clearing

record 'a rlock =
  owner_info :: "'a option"
  lock_count :: nat
  r_flag :: bool
  info_lock :: "'a option"
  lpc :: "'a \<Rightarrow> lock_pc"
  depth :: "'a \<Rightarrow> nat"

text \<open>The first block of \<open>try_lock\<close>: \<open>True\<close> if it returns there.\<close>

definition try_lock_owned :: "'a \<Rightarrow> 'a rlock \<Rightarrow> bool \<times> 'a rlock" where
  "try_lock_owned a s =
     (if owner_info s = Some a then (True, s\<lparr>lock_count := lock_count s + 1\<rparr>) else (False, s))"

definition try_lock_flag :: "'a rlock \<Rightarrow> bool \<times> 'a rlock" where
  "try_lock_flag s = (let (already_locked, f) = test_and_set (r_flag s) in (\<not> already_locked, s\<lparr>r_flag := f\<rparr>))"

definition try_lock_store :: "'a \<Rightarrow> 'a rlock \<Rightarrow> 'a rlock" where
  "try_lock_store a s = s\<lparr>owner_info := Some a, lock_count := 1\<rparr>"

text \<open>\<open>unlock\<close> up to and including the clearing of the flag: \<open>True\<close> if it returns before.\<close>

definition unlock_begin :: "'a \<Rightarrow> 'a rlock \<Rightarrow> bool \<times> 'a rlock" where
  "unlock_begin a s =
     (if owner_info s = Some a \<and> lock_count s > 1 then (True, s\<lparr>lock_count := lock_count s - 1\<rparr>)
      else (False, s\<lparr>r_flag := False\<rparr>))"

definition unlock_end :: "'a rlock \<Rightarrow> 'a rlock" where
  "unlock_end s = s\<lparr>owner_info := None, lock_count := 0\<rparr>"

definition set_pc :: "'a \<Rightarrow> lock_pc \<Rightarrow> 'a rlock \<Rightarrow> 'a rlock" where
  "set_pc a p s = s\<lparr>lpc := (lpc s)(a := p)\<rparr>"

definition set_depth :: "'a \<Rightarrow> nat \<Rightarrow> 'a rlock \<Rightarrow> 'a rlock" where
  "set_depth a n s = s\<lparr>depth := (depth s)(a := n)\<rparr>"

inductive rlock_step :: "'a rlock \<Rightarrow> 'a rlock \<Rightarrow> bool" where
  relock: "lpc s a = Outside \<Longrightarrow> info_lock s = None \<Longrightarrow> try_lock_owned a s = (True, s') \<Longrightarrow>
     rlock_step s (set_depth a (depth s a + 1) s')"
| not_owner: "lpc s a = Outside \<Longrightarrow> info_lock s = None \<Longrightarrow> try_lock_owned a s = (False, s') \<Longrightarrow>
     rlock_step s (set_pc a NotOwner s')"
| flag_taken: "lpc s a = NotOwner \<Longrightarrow> try_lock_flag s = (True, s') \<Longrightarrow> rlock_step s (set_pc a FlagSet s')"
| flag_busy: "lpc s a = NotOwner \<Longrightarrow> try_lock_flag s = (False, s') \<Longrightarrow> rlock_step s (set_pc a Outside s')"
| store: "lpc s a = FlagSet \<Longrightarrow> info_lock s = None \<Longrightarrow>
     rlock_step s (set_depth a 1 (set_pc a Outside (try_lock_store a s)))"
| unlock_nested: "lpc s a = Outside \<Longrightarrow> depth s a > 0 \<Longrightarrow> info_lock s = None \<Longrightarrow>
     unlock_begin a s = (True, s') \<Longrightarrow> rlock_step s (set_depth a (depth s a - 1) s')"
| unlock_flag: "lpc s a = Outside \<Longrightarrow> depth s a > 0 \<Longrightarrow> info_lock s = None \<Longrightarrow>
     unlock_begin a s = (False, s') \<Longrightarrow>
     rlock_step s (set_depth a (depth s a - 1) (set_pc a Clearing (s'\<lparr>info_lock := Some a\<rparr>)))"
| unlock_done: "lpc s a = Clearing \<Longrightarrow>
     rlock_step s (set_pc a Outside ((unlock_end s)\<lparr>info_lock := None\<rparr>))"

definition rlock_init :: "'a rlock" where
  "rlock_init = \<lparr>owner_info = None, lock_count = 0, r_flag = False, info_lock = None,
     lpc = (\<lambda>_. Outside), depth = (\<lambda>_. 0)\<rparr>"

text \<open>
  The invariant, with the agent \<open>h\<close> that holds the lock or is about to store its identity.
  The flag is set exactly while there is such an agent. The owner information names the
  holder, whose depth is the count, or the agent that is inside \<open>unlock\<close> with the inner
  lock; it is empty while no agent is past the inner lock.
\<close>

definition rlock_at :: "'a option \<Rightarrow> 'a rlock \<Rightarrow> bool" where
  "rlock_at h s \<longleftrightarrow>
     (\<forall>a. (0 < depth s a \<or> lpc s a = FlagSet) = (h = Some a)) \<and>
     (\<forall>a. 0 < depth s a \<longrightarrow> lpc s a = Outside \<and> owner_info s = Some a \<and> info_lock s = None \<and>
        lock_count s = depth s a) \<and>
     r_flag s = (h \<noteq> None) \<and>
     (\<forall>a. (lpc s a = Clearing) = (info_lock s = Some a)) \<and>
     (\<forall>a. owner_info s = Some a \<longrightarrow> info_lock s = Some a \<or> 0 < depth s a)"

definition rlock_inv :: "'a rlock \<Rightarrow> bool" where
  "rlock_inv s \<longleftrightarrow> (\<exists>h. rlock_at h s)"

lemma rlock_atI:
  assumes "\<And>a. (0 < depth s a \<or> lpc s a = FlagSet) = (h = Some a)"
    and "\<And>a. 0 < depth s a \<Longrightarrow> lpc s a = Outside \<and> owner_info s = Some a \<and> info_lock s = None \<and>
        lock_count s = depth s a"
    and "r_flag s = (h \<noteq> None)"
    and "\<And>a. (lpc s a = Clearing) = (info_lock s = Some a)"
    and "\<And>a. owner_info s = Some a \<Longrightarrow> info_lock s = Some a \<or> 0 < depth s a"
  shows "rlock_at h s"
  unfolding rlock_at_def by (intro conjI allI impI assms)

lemma rlock_atD:
  assumes "rlock_at h s"
  shows "\<And>a. (0 < depth s a \<or> lpc s a = FlagSet) = (h = Some a)"
    and "\<And>a. 0 < depth s a \<Longrightarrow> lpc s a = Outside \<and> owner_info s = Some a \<and> info_lock s = None \<and>
        lock_count s = depth s a"
    and "r_flag s = (h \<noteq> None)"
    and "\<And>a. (lpc s a = Clearing) = (info_lock s = Some a)"
    and "\<And>a. owner_info s = Some a \<Longrightarrow> info_lock s = Some a \<or> 0 < depth s a"
proof -
  note c = assms [unfolded rlock_at_def]
  note c2 = conjunct2 [OF c]
  note c3 = conjunct2 [OF c2]
  note c4 = conjunct2 [OF c3]
  show "(0 < depth s a \<or> lpc s a = FlagSet) = (h = Some a)" for a
    by (rule spec [OF conjunct1 [OF c]])
  show "lpc s a = Outside \<and> owner_info s = Some a \<and> info_lock s = None \<and> lock_count s = depth s a"
    if "0 < depth s a" for a by (rule mp [OF spec [OF conjunct1 [OF c2]] that])
  show "r_flag s = (h \<noteq> None)" by (rule conjunct1 [OF c3])
  show "(lpc s a = Clearing) = (info_lock s = Some a)" for a by (rule spec [OF conjunct1 [OF c4]])
  show "info_lock s = Some a \<or> 0 < depth s a" if "owner_info s = Some a" for a
    by (rule mp [OF spec [OF conjunct2 [OF c4]] that])
qed

lemmas rlock_op_defs = try_lock_owned_def try_lock_flag_def try_lock_store_def test_and_set_def
  unlock_begin_def unlock_end_def set_pc_def set_depth_def

text \<open>The agent that holds the lock, and nobody else, is known to have depth and count.\<close>

lemma rlock_at_other:
  assumes "rlock_at h s" and "h = Some a" and "b \<noteq> a"
  shows "depth s b = 0" "lpc s b \<noteq> FlagSet"
  using rlock_atD(1) [OF assms(1), of b] assms(2,3) by auto

section \<open>Preservation, step by step\<close>

lemma rlock_at_relock:
  assumes "rlock_at h s" "lpc s a = Outside" "info_lock s = None" "owner_info s = Some a"
  shows "rlock_at h (s\<lparr>lock_count := lock_count s + 1, depth := (depth s)(a := depth s a + 1)\<rparr>)"
proof -
  note D = rlock_atD [OF assms(1)]
  have d: "0 < depth s a" using D(5) [OF assms(4)] assms(3) by simp
  then have h: "h = Some a" using D(1) [of a] by simp
  show ?thesis using d h D(2) [OF d] D(3) assms(2-4) D(4) rlock_at_other [OF assms(1) h]
    by (intro rlock_atI) (auto split: if_splits)
qed

lemma rlock_at_not_owner:
  assumes "rlock_at h s" "lpc s a = Outside" "info_lock s = None" "owner_info s \<noteq> Some a"
  shows "rlock_at h (s\<lparr>lpc := (lpc s)(a := NotOwner)\<rparr>)"
proof -
  note D = rlock_atD [OF assms(1)]
  have d: "depth s a = 0" using D(2) [of a] assms(4) by fastforce
  have n: "h \<noteq> Some a" using D(1) [of a] assms(2) d by simp
  have i: "info_lock s \<noteq> Some a" using assms(3) by simp
  show ?thesis
  proof (rule rlock_atI)
    show "(0 < depth (s\<lparr>lpc := (lpc s)(a := NotOwner)\<rparr>) b \<or> lpc (s\<lparr>lpc := (lpc s)(a := NotOwner)\<rparr>) b = FlagSet) = (h = Some b)" for b
      using D(1) [of b] d n by (cases "b = a") simp_all
    show "(lpc (s\<lparr>lpc := (lpc s)(a := NotOwner)\<rparr>) b = Clearing) = (info_lock (s\<lparr>lpc := (lpc s)(a := NotOwner)\<rparr>) = Some b)" for b
      using D(4) [of b] i by (cases "b = a") simp_all
  qed (use D(2,3,5) d in \<open>auto split: if_splits\<close>)
qed

lemma rlock_at_flag_taken:
  assumes "rlock_at h s" "lpc s a = NotOwner" "\<not> r_flag s"
  shows "rlock_at (Some a) (s\<lparr>r_flag := True, lpc := (lpc s)(a := FlagSet)\<rparr>)"
proof -
  note D = rlock_atD [OF assms(1)]
  have h: "h = None" using D(3) assms(3) by simp
  have z: "depth s b = 0" "lpc s b \<noteq> FlagSet" for b using D(1) [of b] h by simp_all
  have i: "info_lock s \<noteq> Some a" using D(4) [of a] assms(2) by simp
  show ?thesis using i
    by (intro rlock_atI) (use D(4,5) z assms in \<open>auto\<close>)
qed

lemma rlock_at_left_alone:
  assumes "rlock_at h s" "lpc s a = NotOwner"
  shows "rlock_at h (s\<lparr>lpc := (lpc s)(a := Outside)\<rparr>)"
proof -
  note D = rlock_atD [OF assms(1)]
  have d: "depth s a = 0" using D(2) [of a] assms(2) by fastforce
  have n: "h \<noteq> Some a" using D(1) [of a] assms(2) d by simp
  have i: "info_lock s \<noteq> Some a" using D(4) [of a] assms(2) by simp
  show ?thesis 
    by (rule rlock_atI; use D d n i in \<open>auto split: if_splits\<close>)
qed

lemma rlock_at_store:
  assumes "rlock_at h s" "lpc s a = FlagSet" "info_lock s = None"
  shows "rlock_at h (s\<lparr>owner_info := Some a, lock_count := 1, lpc := (lpc s)(a := Outside), depth := (depth s)(a := 1)\<rparr>)"
proof -
  note D = rlock_atD [OF assms(1)]
  have h: "h = Some a" using D(1) [of a] assms(2) by simp
  show ?thesis 
    by (rule rlock_atI; use D(3) D(4) h rlock_at_other [OF assms(1) h] assms in \<open>auto split: if_splits\<close>)
qed

lemma rlock_at_unlock_nested:
  assumes "rlock_at h s" "lpc s a = Outside" "0 < depth s a" "lock_count s > 1"
  shows "rlock_at h (s\<lparr>lock_count := lock_count s - 1, depth := (depth s)(a := depth s a - 1)\<rparr>)"
proof -
  note D = rlock_atD [OF assms(1)]
  have h: "h = Some a" using D(1) [of a] assms(3) by simp
  show ?thesis 
    by (rule rlock_atI; use D(3) D(4) D(2) [OF assms(3)] h rlock_at_other [OF assms(1) h] assms in \<open>auto split: if_splits\<close>)
qed

lemma rlock_at_unlock_flag:
  assumes "rlock_at h s" "lpc s a = Outside" "0 < depth s a" "info_lock s = None" "\<not> (owner_info s = Some a \<and> lock_count s > 1)"
  shows "rlock_at None (s\<lparr>r_flag := False, info_lock := Some a, lpc := (lpc s)(a := Clearing), depth := (depth s)(a := depth s a - 1)\<rparr>)"
proof -
  note D = rlock_atD [OF assms(1)]
  have h: "h = Some a" using D(1) [of a] assms(3) by simp
  show ?thesis 
    by (rule rlock_atI; use D(4) D(2) [OF assms(3)] h rlock_at_other [OF assms(1) h] assms in \<open>auto split: if_splits\<close>)
qed

lemma rlock_at_unlock_done:
  assumes "rlock_at h s" "lpc s a = Clearing"
  shows "rlock_at h (s\<lparr>owner_info := None, lock_count := 0, info_lock := None, lpc := (lpc s)(a := Outside)\<rparr>)"
proof -
  note D = rlock_atD [OF assms(1)]
  have i: "info_lock s = Some a" using D(4) [of a] assms(2) by simp
  have z: "depth s b = 0" for b using D(2) [of b] i by fastforce
  have c: "lpc s b \<noteq> Clearing" if "b \<noteq> a" for b using D(4) [of b] i that by simp
  have n: "h \<noteq> Some a" using D(1) [of a] z [of a] assms(2) by simp
  have f: "(lpc s b = FlagSet) = (h = Some b)" for b using D(1) [of b] z [of b] by simp
  show ?thesis 
    by (rule rlock_atI; use f n D(3) z c in \<open>auto split: if_splits\<close>)
qed

lemma rlock_at_step:
  assumes "rlock_step s s'" and "rlock_at h s"
  shows "\<exists>h'. rlock_at h' s'"
  using assms
proof (cases rule: rlock_step.cases)
  case (relock a s1)
  then show ?thesis
    using rlock_at_relock [OF assms(2), of a] by (auto simp: rlock_op_defs split: if_splits)
next
  case (not_owner a s1)
  then show ?thesis
    using rlock_at_not_owner [OF assms(2), of a] by (auto simp: rlock_op_defs split: if_splits)
next
  case (flag_taken a s1)
  then show ?thesis
    using rlock_at_flag_taken [OF assms(2), of a] by (auto simp: rlock_op_defs)
next
  case (flag_busy a s1)
  then have "s' = s\<lparr>lpc := (lpc s)(a := Outside)\<rparr>" by (auto simp: rlock_op_defs)
  then show ?thesis using rlock_at_left_alone [OF assms(2) flag_busy(2)] by auto
next
  case (store a)
  then have "s' = s\<lparr>owner_info := Some a, lock_count := 1, lpc := (lpc s)(a := Outside), depth := (depth s)(a := 1)\<rparr>"
    by (simp add: rlock_op_defs)
  then show ?thesis using rlock_at_store [OF assms(2) store(2,3)] by auto
next
  case (unlock_nested a s1)
  then show ?thesis
    using rlock_at_unlock_nested [OF assms(2), of a] by (auto simp: rlock_op_defs split: if_splits)
next
  case (unlock_flag a s1)
  then show ?thesis
    using rlock_at_unlock_flag [OF assms(2), of a] by (auto simp: rlock_op_defs split: if_splits)
next
  case (unlock_done a)
  then show ?thesis
    using rlock_at_unlock_done [OF assms(2), of a] by (auto simp: rlock_op_defs)
qed

lemma rlock_at_exclusive:
  assumes "rlock_at h s" and "0 < depth s a" and "0 < depth s b"
  shows "a = b"
  using rlock_atD(1) [OF assms(1), of a] rlock_atD(1) [OF assms(1), of b] assms(2,3) by simp

lemma rlock_inv_init: "rlock_inv rlock_init"
  unfolding rlock_inv_def by (rule exI [of _ None], rule rlock_atI) (simp_all add: rlock_init_def)

lemma rlock_inv_step: "rlock_inv s \<Longrightarrow> rlock_step s s' \<Longrightarrow> rlock_inv s'"
  unfolding rlock_inv_def by (elim exE) (rule rlock_at_step)

section \<open>Refinement\<close>

lemma rlock_step_spec:
  assumes "rlock_inv s" and "rlock_step s s'"
  shows "depth s' = depth s \<or> lock_spec (depth s) (depth s')"
proof -
  obtain h where at: "rlock_at h s" using assms(1) by (auto simp: rlock_inv_def)
  note D = rlock_atD [OF at]
  show ?thesis
    using assms(2)
  proof (cases rule: rlock_step.cases)
    case (relock a s1)
    then have "owner_info s = Some a" by (auto simp: rlock_op_defs split: if_splits)
    then have "0 < depth s a" using D(5) relock(3) by fastforce
    then have "\<forall>b. b \<noteq> a \<longrightarrow> depth s b = 0" using rlock_at_exclusive [OF at] by blast
    moreover have "depth s' = (depth s)(a := depth s a + 1)"
      using relock by (auto simp: rlock_op_defs split: if_splits)
    ultimately show ?thesis using lock_spec.locks [of a "depth s"] by simp
  next
    case (store a)
    then have "h = Some a" using D(1) [of a] by simp
    then have "\<forall>b. b \<noteq> a \<longrightarrow> depth s b = 0" using rlock_at_other [OF at] by blast
    moreover have "depth s a = 0" using D(2) [of a] store(2) by fastforce
    moreover have "depth s' = (depth s)(a := depth s a + 1)"
      using store calculation(2) by (simp add: rlock_op_defs)
    ultimately show ?thesis using lock_spec.locks [of a "depth s"] by simp
  next
    case (unlock_nested a s1)
    then have "depth s' = (depth s)(a := depth s a - 1)" by (auto simp: rlock_op_defs split: if_splits)
    then show ?thesis using lock_spec.unlocks [of "depth s" a] unlock_nested(3) by simp
  next
    case (unlock_flag a s1)
    then have "depth s' = (depth s)(a := depth s a - 1)" by (auto simp: rlock_op_defs split: if_splits)
    then show ?thesis using lock_spec.unlocks [of "depth s" a] unlock_flag(3) by simp
  qed (auto simp: rlock_op_defs split: if_splits)
qed

interpretation recursive_lock: lock_refinement "\<lambda>s. s = rlock_init" rlock_step rlock_inv depth
proof unfold_locales
  show "lock_spec\<^sup>*\<^sup>* (depth s) (depth s')" if "rlock_step s s'" "rlock_inv s" for s s' :: "'a rlock"
    using rlock_step_spec [OF that(2,1)] by auto
  show "rlock_inv s'" if "rlock_step s s'" "rlock_inv s" for s s' :: "'a rlock"
    using that(2,1) by (rule rlock_inv_step)
  show "depth s = (\<lambda>_. 0)" if "s = rlock_init" for s :: "'a rlock"
    using that by (simp add: rlock_init_def)
qed (simp add: rlock_inv_init)

text \<open>A lock nobody uses can be taken in three steps.\<close>

lemma free_lock_is_taken:
  assumes "rlock_inv s" and "\<And>b. depth s b = 0" and "\<And>b. lpc s b = Outside"
  shows "\<exists>s'. rlock_step\<^sup>*\<^sup>* s s' \<and> depth s' a = 1"
proof -
  obtain h where at: "rlock_at h s" using assms(1) by (auto simp: rlock_inv_def)
  note D = rlock_atD [OF at]
  have "h \<noteq> Some b" for b using D(1) [of b] assms(2) [of b] assms(3) [of b] by simp
  then have "h = None" by (cases h) blast+
  then have "\<not> r_flag s" using D(3) by simp
  have "info_lock s \<noteq> Some b" for b using D(4) [of b] assms(3) [of b] by simp
  then have i: "info_lock s = None" by (cases "info_lock s") blast+
  have o: "owner_info s \<noteq> Some a" using D(5) [of a] i assms(2) [of a] by (cases "owner_info s = Some a") simp_all
  let ?s1 = "set_pc a NotOwner s" and ?s2 = "set_pc a FlagSet ((set_pc a NotOwner s)\<lparr>r_flag := True\<rparr>)"
  have "rlock_step s ?s1"
    by (rule rlock_step.not_owner) (use assms(3) i o in \<open>simp_all add: try_lock_owned_def\<close>)
  moreover have "rlock_step ?s1 ?s2"
    by (rule rlock_step.flag_taken)
      (use \<open>\<not> r_flag s\<close> in \<open>simp_all add: try_lock_flag_def test_and_set_def set_pc_def\<close>)
  moreover have "rlock_step ?s2 (set_depth a 1 (set_pc a Outside (try_lock_store a ?s2)))"
    by (rule rlock_step.store) (use i in \<open>simp_all add: set_pc_def\<close>)
  ultimately have "rlock_step\<^sup>*\<^sup>* s (set_depth a 1 (set_pc a Outside (try_lock_store a ?s2)))"
    by (intro converse_rtranclp_into_rtranclp [of rlock_step s ?s1]
        converse_rtranclp_into_rtranclp [of rlock_step ?s1 ?s2] r_into_rtranclp)
  moreover have "depth (set_depth a 1 (set_pc a Outside (try_lock_store a ?s2))) a = 1"
    by (simp add: set_depth_def)
  ultimately show ?thesis by blast
qed

section \<open>Property\<close>

text \<open>
  C12: in every interleaving of threads and fibers, the recursive lock behaves as the
  abstract lock: its depths are reached by locking and unlocking one at a time, with no
  locking while another agent holds it. So at most one agent holds it, its count is how
  often that agent has still to unlock, and when nobody uses it anyone can take it.
\<close>

theorem recursive_lock_refines_its_specification:
  assumes "rlock_step\<^sup>*\<^sup>* rlock_init s"
  shows "lock_spec\<^sup>*\<^sup>* (\<lambda>_. 0) (depth s) \<and>
    (0 < depth s a \<longrightarrow> 0 < depth s b \<longrightarrow> a = b) \<and>
    (0 < depth s a \<longrightarrow> owner_info s = Some a \<and> lock_count s = depth s a \<and> r_flag s) \<and>
    ((\<forall>c. depth s c = 0 \<and> lpc s c = Outside) \<longrightarrow> (\<exists>s'. rlock_step\<^sup>*\<^sup>* s s' \<and> depth s' a = 1))"
proof -
  note inv = recursive_lock.inv_run [OF refl assms]
  then obtain h where at: "rlock_at h s" by (auto simp: rlock_inv_def)
  have "owner_info s = Some a \<and> lock_count s = depth s a \<and> r_flag s" if "0 < depth s a"
    using rlock_atD(1,2) [OF at, of a] rlock_atD(3) [OF at] that by auto
  then show ?thesis
    using recursive_lock.run_spec [OF refl assms] recursive_lock.mutex.exclusive [OF refl assms, of a b]
      free_lock_is_taken [OF inv, of a]
    by blast
qed

theorem recursive_lock_refines_its_specification_witness:
  "\<exists>s' :: nat rlock. rlock_step\<^sup>*\<^sup>* rlock_init s' \<and> depth s' 7 = 1 \<and> lock_spec\<^sup>*\<^sup>* (\<lambda>_. 0) (depth s')"
proof -
  have "rlock_step\<^sup>*\<^sup>* (rlock_init :: nat rlock) rlock_init" by simp
  from recursive_lock_refines_its_specification [OF this, of 7 7]
  obtain s' :: "nat rlock" where s': "rlock_step\<^sup>*\<^sup>* rlock_init s'" "depth s' 7 = 1"
    by (auto simp: rlock_init_def)
  with recursive_lock_refines_its_specification [OF s'(1), of 7 7] show ?thesis by blast
qed

end
