(* ===== verification/Ownership.thy ===== *)
theory Ownership
  imports Prelude
begin

text \<open>
  Exclusive ownership (\<open>common/memory/ExclusiveOwnership.h\<close>): an \<open>Owner\<close> keeps an object,
  \<open>Reference\<close>s point at its shared state, and \<open>Borrower\<close>s use the object and are counted.
  The destructor of the owner waits until the count is zero. Blocks under the spin lock of
  the shared state are one step (theory \<open>Spin_Lock\<close> shows why they may be); the accesses
  of the destructor to the atomic variables are steps of their own.
\<close>

section \<open>The shared state and its operations\<close>

text \<open>
  The shared state, the borrowers that exist, where the destructor of the owner is, and
  whether the owned object still exists. Owners and borrowers are named by their address.
\<close>

datatype owner_pc = Owning | Waited | Buried

record ownership =
  borrows :: int
  alive :: bool
  owner_at :: nat
  borrowers :: "nat set"
  destructor :: owner_pc
  object_exists :: bool

text \<open>The constructors of \<open>Owner\<close>: a new one, and one that takes over from another.\<close>

definition Owner_new :: "nat \<Rightarrow> ownership" where
  "Owner_new this = \<lparr>borrows = 0, alive = True, owner_at = this, borrowers = {},
     destructor = Owning, object_exists = True\<rparr>"

definition Owner_move :: "nat \<Rightarrow> ownership \<Rightarrow> ownership" where
  "Owner_move this s = s\<lparr>owner_at := this\<rparr>"

text \<open>An owner of a copy of an object is a new one; an owner of a base class takes over like any other.\<close>

definition Owner_of_copy :: "nat \<Rightarrow> ownership" where
  "Owner_of_copy this = Owner_new this"

definition Owner_convert :: "nat \<Rightarrow> ownership \<Rightarrow> ownership" where
  "Owner_convert this s = s\<lparr>owner_at := this\<rparr>"

text \<open>A new borrower \<open>b\<close>: by the owner, or by copying a borrower.\<close>

definition Borrower_new :: "nat \<Rightarrow> ownership \<Rightarrow> ownership" where
  "Borrower_new b s = s\<lparr>borrows := borrows s + 1, borrowers := insert b (borrowers s)\<rparr>"

definition Owner_PerformBorrow :: "nat \<Rightarrow> ownership \<Rightarrow> ownership" where
  "Owner_PerformBorrow b s = Borrower_new b s"

definition Owner_Borrow :: "nat \<Rightarrow> ownership \<Rightarrow> ownership" where
  "Owner_Borrow b s = Owner_PerformBorrow b s"

definition Borrower_copy :: "nat \<Rightarrow> ownership \<Rightarrow> ownership" where
  "Borrower_copy b s = s\<lparr>borrows := borrows s + 1, borrowers := insert b (borrowers s)\<rparr>"

definition Borrower_destroy :: "nat \<Rightarrow> ownership \<Rightarrow> ownership" where
  "Borrower_destroy b s = s\<lparr>borrows := borrows s - 1, borrowers := borrowers s - {b}\<rparr>"

text \<open>Access through a borrower: the owner it finds, if the object is still there.\<close>

definition Borrower_deref :: "ownership \<Rightarrow> nat result" where
  "Borrower_deref s = (if object_exists s then Inr (owner_at s) else Inl UndefinedBehaviour)"

text \<open>
  References; \<open>None\<close> is a reference without shared state. \<open>TryBorrow\<close> checks and borrows
  under the lock, \<open>Borrow\<close> throws where \<open>TryBorrow\<close> gives nothing.
\<close>

fun Reference_CanBorrow :: "ownership option \<Rightarrow> bool" where
  "Reference_CanBorrow None = False"
| "Reference_CanBorrow (Some s) = alive s"

fun Reference_PerformBorrow :: "nat \<Rightarrow> ownership option \<Rightarrow> ownership result" where
  "Reference_PerformBorrow b None = Inl BorrowFailedException"
| "Reference_PerformBorrow b (Some s) =
     (if Reference_CanBorrow (Some s) then Inr (Owner_PerformBorrow b s) else Inl BorrowFailedException)"

fun Reference_TryBorrow :: "nat \<Rightarrow> ownership option \<Rightarrow> ownership option result" where
  "Reference_TryBorrow b None = Inr None"
| "Reference_TryBorrow b (Some s) =
     (if alive s then bind_result (Reference_PerformBorrow b (Some s)) (\<lambda>s'. Inr (Some s')) else Inr None)"

definition Reference_Borrow :: "nat \<Rightarrow> ownership option \<Rightarrow> ownership result" where
  "Reference_Borrow b r = Reference_PerformBorrow b r"

text \<open>
  A reference is the shared state it points at: an empty one, one of an owner or of a borrower,
  one that is converted to the reference of a base class.
\<close>

definition Reference_empty :: "ownership option" where
  "Reference_empty = None"

definition CreateReference :: "ownership \<Rightarrow> ownership option" where
  "CreateReference s = Some s"

definition ToReference :: "ownership \<Rightarrow> ownership option" where
  "ToReference s = Some s"

definition Reference_convert :: "ownership option \<Rightarrow> ownership option" where
  "Reference_convert other = other"

text \<open>
  An object that can borrow from itself keeps a reference once it has an owner.
\<close>

definition SetOwnerOfThis :: "ownership \<Rightarrow> ownership option" where
  "SetOwnerOfThis owner = CreateReference owner"

text \<open>The reference of an object without an owner is a null pointer, which is dereferenced.\<close>

definition ReferenceFromThis :: "ownership option \<Rightarrow> ownership option result" where
  "ReferenceFromThis this_reference =
     (case this_reference of None \<Rightarrow> Inl UndefinedBehaviour | Some s \<Rightarrow> Inr (Some s))"

fun HasOwner :: "ownership option \<Rightarrow> bool" where
  "HasOwner r = Reference_CanBorrow r"

definition BorrowFromThis :: "nat \<Rightarrow> ownership option \<Rightarrow> ownership result" where
  "BorrowFromThis b this_reference =
     (case this_reference of
        None \<Rightarrow> Inl UndefinedBehaviour
      | Some _ \<Rightarrow> bind_result (Reference_TryBorrow b this_reference) (\<lambda>r.
          case r of Some s \<Rightarrow> Inr s | None \<Rightarrow> Inl BorrowFailedException))"

text \<open>
  The destructor: the loop that waits for the borrowers, the end of the shared state, and
  the destruction of the members, the owned object among them.
\<close>

definition destructor_waits :: "ownership \<Rightarrow> bool" where
  "destructor_waits s \<longleftrightarrow> 0 < borrows s"

definition destructor_leaves_loop :: "ownership \<Rightarrow> ownership" where
  "destructor_leaves_loop s = s\<lparr>destructor := Waited\<rparr>"

definition destructor_buries :: "ownership \<Rightarrow> ownership" where
  "destructor_buries s = s\<lparr>alive := False, destructor := Buried\<rparr>"

definition destructor_frees :: "ownership \<Rightarrow> ownership" where
  "destructor_frees s = s\<lparr>object_exists := False\<rparr>"

section \<open>Steps\<close>

text \<open>
  \<open>own_step True\<close> allows a reference to borrow between the end of the waiting loop and
  the end of the shared state, as the code does; \<open>own_step False\<close> does not.
\<close>

inductive own_step :: "bool \<Rightarrow> ownership \<Rightarrow> ownership \<Rightarrow> bool" for racy where
  moves: "destructor s = Owning \<Longrightarrow> own_step racy s (Owner_move this s)"
| lends: "destructor s = Owning \<Longrightarrow> b \<notin> borrowers s \<Longrightarrow> own_step racy s (Owner_PerformBorrow b s)"
| try_borrow: "b \<notin> borrowers s \<Longrightarrow> racy \<or> destructor s \<noteq> Waited \<Longrightarrow>
     Reference_TryBorrow b (Some s) = Inr (Some s') \<Longrightarrow> own_step racy s s'"
| copies: "a \<in> borrowers s \<Longrightarrow> b \<notin> borrowers s \<Longrightarrow> own_step racy s (Borrower_copy b s)"
| returns: "b \<in> borrowers s \<Longrightarrow> own_step racy s (Borrower_destroy b s)"
| waited: "destructor s = Owning \<Longrightarrow> \<not> destructor_waits s \<Longrightarrow> own_step racy s (destructor_leaves_loop s)"
| buries: "destructor s = Waited \<Longrightarrow> own_step racy s (destructor_buries s)"
| frees: "destructor s = Buried \<Longrightarrow> own_step racy s (destructor_frees s)"

definition own_run :: "bool \<Rightarrow> nat \<Rightarrow> ownership \<Rightarrow> bool" where
  "own_run racy this = (own_step racy)\<^sup>*\<^sup>* (Owner_new this)"

text \<open>
  The invariant of every run, and what the discipline adds: a borrower exists only before
  the destructor has left its loop.
\<close>

definition own_inv :: "ownership \<Rightarrow> bool" where
  "own_inv s \<longleftrightarrow> finite (borrowers s) \<and> borrows s = int (card (borrowers s)) \<and>
     (alive s \<longleftrightarrow> destructor s \<noteq> Buried) \<and> (\<not> object_exists s \<longrightarrow> destructor s = Buried)"

definition own_safe :: "ownership \<Rightarrow> bool" where
  "own_safe s \<longleftrightarrow> own_inv s \<and> (borrowers s \<noteq> {} \<longrightarrow> destructor s = Owning)"

lemmas own_op_defs = Owner_move_def Owner_PerformBorrow_def Borrower_new_def Borrower_copy_def Borrower_destroy_def
  destructor_leaves_loop_def destructor_buries_def destructor_frees_def destructor_waits_def

lemma TryBorrow_iff: "Reference_TryBorrow b (Some s) = Inr (Some s') \<longleftrightarrow> alive s \<and> s' = Owner_PerformBorrow b s"
  by auto

lemma int_card_remove: "finite B \<Longrightarrow> b \<in> B \<Longrightarrow> int (card B) - 1 = int (card (B - {b}))"
  using card.remove [of B b] by simp

lemma own_inv_step: "own_step racy s s' \<Longrightarrow> own_inv s \<Longrightarrow> own_inv s'"
proof (induction rule: own_step.induct)
  case (returns b s)
  then have fin: "finite (borrowers s)" and eq: "borrows s = int (card (borrowers s))"
    by (simp_all add: own_inv_def)
  have "borrows s - 1 = int (card (borrowers s)) - 1" unfolding eq ..
  also have "\<dots> = int (card (borrowers s - {b}))" using fin returns(1) by (rule int_card_remove)
  finally have e: "borrows s - 1 = int (card (borrowers s - {b}))" .
  have p: "borrows (Borrower_destroy b s) = borrows s - 1" "borrowers (Borrower_destroy b s) = borrowers s - {b}"
    "alive (Borrower_destroy b s) = alive s" "destructor (Borrower_destroy b s) = destructor s"
    "object_exists (Borrower_destroy b s) = object_exists s" by (simp_all add: Borrower_destroy_def)
  have "alive s \<longleftrightarrow> destructor s \<noteq> Buried" "\<not> object_exists s \<longrightarrow> destructor s = Buried"
    using returns(2) by (simp_all add: own_inv_def)
  then show ?case unfolding own_inv_def p using fin e by - (intro conjI finite_Diff; assumption)
next
  case (try_borrow b s s')
  then have "s' = Owner_PerformBorrow b s" by (simp only: TryBorrow_iff)
  with try_borrow show ?case by (simp add: own_inv_def Owner_PerformBorrow_def Borrower_new_def)
qed (simp_all add: own_inv_def own_op_defs)

lemma own_safe_step:
  assumes "own_step False s s'" and "own_safe s"
  shows "own_safe s'"
proof -
  have "own_inv s" and b: "borrowers s \<noteq> {} \<longrightarrow> destructor s = Owning"
    using assms(2) by (simp_all add: own_safe_def)
  then have inv: "own_inv s'" using own_inv_step [OF assms(1)] by blast
  have "borrowers s' \<noteq> {} \<longrightarrow> destructor s' = Owning"
    using assms(1)
  proof (cases rule: own_step.cases)
    case (try_borrow c)
    then have "alive s" "s' = Owner_PerformBorrow c s" by (simp_all only: TryBorrow_iff)
    with try_borrow \<open>own_inv s\<close> show ?thesis
      by (cases "destructor s") (simp_all add: Owner_PerformBorrow_def Borrower_new_def own_inv_def)
  next
    case waited
    with \<open>own_inv s\<close> show ?thesis
      by (auto simp: own_inv_def destructor_waits_def destructor_leaves_loop_def)
  qed (use b in \<open>auto simp: own_op_defs\<close>)
  with inv show ?thesis by (simp add: own_safe_def)
qed

interpretation owners: invariant_system "\<lambda>s. s = Owner_new this" "own_step racy" own_inv for racy this
proof unfold_locales
  show "own_inv s" if "s = Owner_new this" for s
    using that by (simp add: own_inv_def Owner_new_def)
qed (rule own_inv_step)

interpretation checked_owners: invariant_system "\<lambda>s. s = Owner_new this" "own_step False" own_safe for this
proof unfold_locales
  show "own_safe s" if "s = Owner_new this" for s
    using that by (simp add: own_safe_def own_inv_def Owner_new_def)
qed (rule own_safe_step)

text \<open>
  A borrower that is never returned keeps the destructor in its loop for ever. The program
  has two of these: the rendering job of \<open>Core::EnableRenderingJob\<close> borrows the subsystem
  manager that owns the job manager which keeps the job, and the listener of the tiled
  renderer plugin borrows the service registry.
\<close>

lemma held_borrower_blocks_the_destructor:
  assumes "own_run racy this s" and "b \<in> borrowers s" and "destructor s = Owning"
    and "(\<lambda>s s'. own_step racy s s' \<and> b \<in> borrowers s')\<^sup>*\<^sup>* s s'"
  shows "destructor s' = Owning \<and> destructor_waits s' \<and> object_exists s'"
proof -
  have "own_inv s' \<and> b \<in> borrowers s' \<and> destructor s' = Owning"
    using assms(4)
  proof (induction rule: rtranclp_induct)
    case base
    then show ?case using assms owners.inv_run [OF refl] by (simp add: own_run_def)
  next
    case (step s s')
    then have "own_inv s'" using own_inv_step by blast
    moreover have "0 < borrows s" using step.IH by (auto simp: own_inv_def card_gt_0_iff)
    then have "destructor s' = Owning"
      using step.IH step.hyps(2) by (auto elim!: own_step.cases simp: own_op_defs TryBorrow_iff simp del: Reference_TryBorrow.simps)
    ultimately show ?case using step.hyps(2) by blast
  qed
  then show ?thesis by (auto simp: own_inv_def destructor_waits_def card_gt_0_iff)
qed

text \<open>
  The reference of an owned object to itself survives moves: it borrows from whichever owner has
  the object, and throws once the owner is gone.
\<close>

lemma owned_object_borrows_from_itself:
  "BorrowFromThis b (SetOwnerOfThis (Owner_move this s)) =
     (if HasOwner (SetOwnerOfThis s) then Inr (Borrower_new b (Owner_move this s)) else Inl BorrowFailedException)"
  by (simp add: BorrowFromThis_def SetOwnerOfThis_def CreateReference_def Owner_move_def Owner_PerformBorrow_def)

lemma references_agree:
  "Reference_TryBorrow b (Reference_convert (CreateReference s)) = Reference_TryBorrow b (ToReference s)"
  "Reference_Borrow b (CreateReference s) = Inr s' \<longleftrightarrow> Reference_TryBorrow b (ToReference s) = Inr (Some s')"
  by (auto simp: Reference_convert_def CreateReference_def ToReference_def Reference_Borrow_def)

section \<open>Properties\<close>

text \<open>
  C24: if no reference borrows in the gap between the destructor's waiting loop and the end
  of the shared state, then a borrower never outlives the object: while one exists, access
  through it finds the owner, the destructor is still waiting, and \<open>borrows\<close> is the number
  of borrowers.
\<close>

theorem borrowers_never_dangle:
  assumes "own_run False this s" and "b \<in> borrowers s"
  shows "Borrower_deref s = Inr (owner_at s) \<and> destructor_waits s \<and> borrows s = int (card (borrowers s))"
  using checked_owners.inv_run [OF refl assms(1) [unfolded own_run_def]] assms(2)
  by (auto simp: own_safe_def own_inv_def Borrower_deref_def destructor_waits_def card_gt_0_iff)

theorem borrowers_never_dangle_witness: "Borrower_deref (Owner_PerformBorrow 4 (Owner_new 9)) = Inr 9"
proof -
  have "own_step False (Owner_new 9) (Owner_PerformBorrow 4 (Owner_new 9))"
    by (rule own_step.lends) (simp_all add: Owner_new_def)
  then have "own_run False 9 (Owner_PerformBorrow 4 (Owner_new 9))" by (simp add: own_run_def)
  from borrowers_never_dangle [OF this, of 4] show ?thesis
    by (simp add: Owner_PerformBorrow_def Borrower_new_def Owner_new_def)
qed

text \<open>
  C40: the code does not keep that gap closed. A reference that borrows after the
  destructor has seen no borrowers still finds the owner alive and succeeds; the
  destructor goes on and frees the object, and the borrower is left dangling.
\<close>

theorem borrowing_races_with_the_destructor:
  "\<exists>s. own_run True this s \<and> b \<in> borrowers s \<and> Borrower_deref s = Inl UndefinedBehaviour"
proof -
  let ?s1 = "destructor_leaves_loop (Owner_new this)"
  let ?s2 = "Owner_PerformBorrow b ?s1"
  let ?s3 = "destructor_buries ?s2"
  have "own_step True (Owner_new this) ?s1"
    by (rule own_step.waited) (simp_all add: Owner_new_def destructor_waits_def)
  moreover have "own_step True ?s1 ?s2"
    by (rule own_step.try_borrow [of b])
      (simp_all add: TryBorrow_iff Owner_new_def destructor_leaves_loop_def del: Reference_TryBorrow.simps)
  moreover have "own_step True ?s2 ?s3"
    by (rule own_step.buries) (simp add: own_op_defs)
  moreover have "own_step True ?s3 (destructor_frees ?s3)"
    by (rule own_step.frees) (simp add: own_op_defs)
  ultimately have "own_run True this (destructor_frees ?s3)"
    unfolding own_run_def by (meson converse_rtranclp_into_rtranclp rtranclp.rtrancl_refl)
  then show ?thesis by (intro exI conjI) (assumption, simp_all add: own_op_defs Borrower_deref_def)
qed

end
