(* ===== verification/Subsystems.thy ===== *)
theory Subsystems
  imports Prelude
begin

text \<open>
  The subsystem manager (\<open>common/subsystems/SubsystemManager.h\<close>): owners of subsystems under
  the type they were registered for, as \<open>std::any\<close>. Types are named by strings, and the
  types of the operations, template arguments in C++, are arguments. The map is unordered
  and never iterated, so it is a HOL map.
\<close>

section \<open>The manager\<close>

datatype 'o any_subsystem = AnyOwner string 'o

type_synonym 'o subsystem_manager = "string \<rightharpoonup> 'o any_subsystem"

fun any_cast :: "string \<Rightarrow> 'o any_subsystem \<Rightarrow> 'o result" where
  "any_cast ty (AnyOwner ty' x) = (if ty = ty' then Inr x else Inl BadAnyCast)"

definition AddOrReplaceSubsystem :: "string \<Rightarrow> 'o \<Rightarrow> 'o subsystem_manager \<Rightarrow> 'o subsystem_manager" where
  "AddOrReplaceSubsystem ty x m = m(ty \<mapsto> AnyOwner ty x)"

definition ProvidesSubsystem :: "string \<Rightarrow> 'o subsystem_manager \<Rightarrow> bool" where
  "ProvidesSubsystem ty m \<longleftrightarrow> ty \<in> dom m"

text \<open>The owner that a borrow is made from.\<close>

definition GetSubsystem :: "string \<Rightarrow> 'o subsystem_manager \<Rightarrow> 'o option result" where
  "GetSubsystem ty m =
     (case m ty of
        Some a \<Rightarrow> bind_result (any_cast ty a) (\<lambda>x. Inr (Some x))
      | None \<Rightarrow> Inr None)"

definition RequireSubsystem :: "string \<Rightarrow> 'o subsystem_manager \<Rightarrow> 'o result" where
  "RequireSubsystem ty m =
     bind_result (GetSubsystem ty m) (\<lambda>r. of_opt SubsystemNotFoundException r)"

definition RemoveSubsystem :: "string \<Rightarrow> 'o subsystem_manager \<Rightarrow> ('o \<times> 'o subsystem_manager) result" where
  "RemoveSubsystem ty m =
     (case m ty of
        None \<Rightarrow> Inl SubsystemNotFoundException
      | Some a \<Rightarrow> bind_result (any_cast ty a) (\<lambda>x. Inr (x, m(ty := None))))"

section \<open>Its specification\<close>

text \<open>
  Abstractly the manager is a map from types to owners, and every stored value has the type
  it is filed under.
\<close>

definition well_typed :: "'o subsystem_manager \<Rightarrow> bool" where
  "well_typed m \<longleftrightarrow> (\<forall>ty a. m ty = Some a \<longrightarrow> (\<exists>x. a = AnyOwner ty x))"

definition abs_subsystems :: "'o subsystem_manager \<Rightarrow> string \<rightharpoonup> 'o" where
  "abs_subsystems m = (\<lambda>ty. case m ty of Some (AnyOwner _ x) \<Rightarrow> Some x | None \<Rightarrow> None)"

datatype 'o manager_op = Add string 'o | Remove string

text \<open>A sequence of registrations and removals; a removal that throws changes nothing.\<close>

fun run_ops :: "'o manager_op list \<Rightarrow> 'o subsystem_manager \<Rightarrow> 'o subsystem_manager" where
  "run_ops [] m = m"
| "run_ops (Add ty x # ops) m = run_ops ops (AddOrReplaceSubsystem ty x m)"
| "run_ops (Remove ty # ops) m =
     run_ops ops (case RemoveSubsystem ty m of Inr (_, m') \<Rightarrow> m' | Inl _ \<Rightarrow> m)"

fun spec_ops :: "'o manager_op list \<Rightarrow> (string \<rightharpoonup> 'o) \<Rightarrow> (string \<rightharpoonup> 'o)" where
  "spec_ops [] d = d"
| "spec_ops (Add ty x # ops) d = spec_ops ops (d(ty \<mapsto> x))"
| "spec_ops (Remove ty # ops) d = spec_ops ops (d(ty := None))"

section \<open>Lemmas\<close>

lemma well_typedD: "well_typed m \<Longrightarrow> m ty = Some a \<Longrightarrow> \<exists>x. a = AnyOwner ty x"
  by (simp add: well_typed_def)

lemma well_typed_Add [inv_intro]: "well_typed m \<Longrightarrow> well_typed (AddOrReplaceSubsystem ty x m)"
  by (simp add: well_typed_def AddOrReplaceSubsystem_def)

lemma abs_Add: "abs_subsystems (AddOrReplaceSubsystem ty x m) = (abs_subsystems m)(ty \<mapsto> x)"
  by (auto simp: abs_subsystems_def AddOrReplaceSubsystem_def fun_eq_iff)

lemma GetSubsystem_abs: "well_typed m \<Longrightarrow> GetSubsystem ty m = Inr (abs_subsystems m ty)"
  by (cases "m ty") (auto simp: GetSubsystem_def abs_subsystems_def dest: well_typedD)

lemma RemoveSubsystem_abs:
  "well_typed m \<Longrightarrow> RemoveSubsystem ty m =
     (case abs_subsystems m ty of None \<Rightarrow> Inl SubsystemNotFoundException | Some x \<Rightarrow> Inr (x, m(ty := None)))"
  by (cases "m ty") (auto simp: RemoveSubsystem_def abs_subsystems_def dest: well_typedD)

lemma well_typed_drop [inv_intro]: "well_typed m \<Longrightarrow> well_typed (m(ty := None))"
  by (simp add: well_typed_def)

lemma abs_drop: "abs_subsystems (m(ty := None)) = (abs_subsystems m)(ty := None)"
  by (auto simp: abs_subsystems_def fun_eq_iff)

lemma run_ops_refines:
  "well_typed m \<Longrightarrow> well_typed (run_ops ops m) \<and> abs_subsystems (run_ops ops m) = spec_ops ops (abs_subsystems m)"
proof (induction ops m rule: run_ops.induct)
  case (2 ty x ops m)
  then show ?case by (simp add: abs_Add well_typed_Add fun_upd_def)
next
  case (3 ty ops m)
  have e: "(case RemoveSubsystem ty m of Inr (_, m') \<Rightarrow> m' | Inl _ \<Rightarrow> m) = m(ty := None)"
    using 3(2) by (auto simp: RemoveSubsystem_abs abs_subsystems_def fun_eq_iff split: option.splits any_subsystem.splits)
  show ?case
    using 3(1) [unfolded e, OF well_typed_drop [OF 3(2)]]
    unfolding run_ops.simps spec_ops.simps e abs_drop .
qed simp

section \<open>Property\<close>

text \<open>
  C33: the manager is type safe. After any sequence of registrations and removals the cast
  inside never fails: requiring a type gives the owner registered for it last, unless it
  was removed since, and throws \<open>SubsystemNotFoundException\<close> exactly when there is none.
\<close>

theorem subsystems_are_type_safe:
  "RequireSubsystem ty (run_ops ops (\<lambda>_. None)) =
     of_opt SubsystemNotFoundException (spec_ops ops (\<lambda>_. None) ty) \<and>
   ProvidesSubsystem ty (run_ops ops (\<lambda>_. None)) = (spec_ops ops (\<lambda>_. None) ty \<noteq> None)"
proof -
  let ?m = "run_ops ops (\<lambda>_. None)"
  have "well_typed (\<lambda>_. None)" by (simp add: well_typed_def)
  from run_ops_refines [OF this, of ops]
  have wt: "well_typed ?m" and abs: "abs_subsystems ?m = spec_ops ops (\<lambda>_. None)"
    by (simp_all add: abs_subsystems_def)
  have "ty \<in> dom ?m \<longleftrightarrow> abs_subsystems ?m ty \<noteq> None"
    by (auto simp: abs_subsystems_def split: option.splits any_subsystem.splits)
  then show ?thesis by (simp add: RequireSubsystem_def GetSubsystem_abs [OF wt] abs ProvidesSubsystem_def)
qed

end
