(* ===== verification/Config.thy ===== *)
theory Config
  imports Std_Map Std_String
begin

text \<open>
  The configuration of the subsystems (\<open>common/config/Configuration.h\<close>): strings under
  names, parsed when they are read. \<open>std::stof\<close> is an argument of \<open>GetAsFloat\<close>; the type
  of floating-point numbers is a type variable.
\<close>

type_synonym configuration = "string smap"

definition Contains :: "string \<Rightarrow> configuration \<Rightarrow> bool" where
  "Contains name c = map_contains c name"

definition Get :: "string \<Rightarrow> string \<Rightarrow> configuration \<Rightarrow> string result" where
  "Get name alternative c = (if Contains name c then map_at c name else Inr alternative)"

definition GetAsInt :: "string \<Rightarrow> int \<Rightarrow> configuration \<Rightarrow> int result" where
  "GetAsInt name alternative c =
     (if Contains name c then bind_result (map_at c name) std_stoi else Inr alternative)"

definition GetAsFloat :: "(string \<Rightarrow> 'f result) \<Rightarrow> string \<Rightarrow> 'f \<Rightarrow> configuration \<Rightarrow> 'f result" where
  "GetAsFloat stof name alternative c =
     (if Contains name c then bind_result (map_at c name) stof else Inr alternative)"

definition GetBool :: "string \<Rightarrow> bool \<Rightarrow> configuration \<Rightarrow> bool result" where
  "GetBool name alternative c =
     (if Contains name c then
        bind_result (map_at c name) (\<lambda>v. if v = ''true'' \<or> v = ''1'' then Inr True else Inr False)
      else Inr alternative)"

text \<open>\<open>Set\<close> for strings, and for integers and booleans, which \<open>std::to_string\<close> prints as numbers.\<close>

definition Set_string :: "string \<Rightarrow> string \<Rightarrow> configuration \<Rightarrow> configuration" where
  "Set_string name v c = map_put name v c"

definition Set_int :: "string \<Rightarrow> int \<Rightarrow> configuration \<Rightarrow> configuration" where
  "Set_int name i c = map_put name (int_to_string i) c"

definition Set_bool :: "string \<Rightarrow> bool \<Rightarrow> configuration \<Rightarrow> configuration" where
  "Set_bool name b c = Set_int name (of_bool b) c"

lemmas config_defs = Contains_def Get_def GetAsInt_def GetBool_def Set_string_def Set_int_def Set_bool_def map_at_def

text \<open>What was set is read back by the getter of its type, and other names are untouched.\<close>

lemma Get_Set_string: "Get name a (Set_string n v c) = (if name = n then Inr v else Get name a c)"
  by (simp add: config_defs)

lemma GetAsInt_Set_int:
  "- (2 ^ 31) \<le> i \<Longrightarrow> i < 2 ^ 31 \<Longrightarrow>
     GetAsInt name a (Set_int n i c) = (if name = n then Inr i else GetAsInt name a c)"
  by (simp add: config_defs stoi_int_to_string)

lemma GetBool_Set_bool: "GetBool name a (Set_bool n b c) = (if name = n then Inr b else GetBool name a c)"
proof -
  have "to_string 0 = ''0''" "to_string 1 = ''1''" by code_simp+
  then show ?thesis by (cases b) (simp_all add: config_defs int_to_string_def)
qed

end
