(* ===== verification/Resources.thy ===== *)
theory Resources
  imports Std_Map Std_String "HOL-Library.Multiset"
begin

text \<open>
  The resource manager (\<open>subsystems/resources\<close>: \<open>Resource\<close>, \<open>FileLoader\<close>,
  \<open>ThreadPoolResourceManager\<close>): loaders under their ids, a queue of loads, and a pool of
  threads that sleep on a condition variable. A loader is what its \<open>Load\<close> returns or throws
  for a URL. A step is one critical section, or one access to a variable outside of any.
\<close>

section \<open>Resources and loaders\<close>

record 'v resource =
  re_type :: string
  re_value :: 'v

definition ExtractAsType :: "string \<Rightarrow> 'v resource \<Rightarrow> 'v result" where
  "ExtractAsType ty r = (if ty \<noteq> re_type r then Inl WrongResourceTypeRequestedException else Inr (re_value r))"

text \<open>
  \<open>FileLoader::Load\<close>: the size is the position of the stream at its end, \<open>-1\<close> when the file
  could not be opened. The bytes are read to the first element of a vector that is empty.
\<close>

definition FileLoader_Load :: "(string \<Rightarrow> string option) \<Rightarrow> string \<Rightarrow> string resource result" where
  "FileLoader_Load files uri =
     (let pos = (case files uri of Some bytes \<Rightarrow> int (length bytes) | None \<Rightarrow> - 1)
      in if pos \<noteq> 0 then Inl UndefinedBehaviour
         else Inr \<lparr>re_type = ''std::vector<char>'', re_value = []\<rparr>)"

record 'v loader =
  ld_id :: string
  ld_load :: "string \<Rightarrow> 'v resource result"

section \<open>The pool\<close>

record 'v task =
  tk_promise :: nat
  tk_loader :: "'v loader"
  tk_url :: string

text \<open>
  A worker evaluates the predicate of its wait (\<open>Checking\<close>), has found nothing to do and
  is about to sleep, still holding the mutex (\<open>GoingToSleep\<close>), sleeps, loads, or has ended.
\<close>

datatype 'v worker = Checking | GoingToSleep | Asleep | Loading "'v task" | Exited

text \<open>\<open>accepted\<close> lists every load that was queued, its promise being its position.\<close>

record 'v pool =
  registered_loaders :: "'v loader smap"
  loading_queue :: "'v task list"
  workers :: "'v worker list"
  queue_mutex :: "nat option"
  terminating :: bool
  settled :: "nat \<Rightarrow> 'v resource result option"
  accepted :: "'v task list"

definition make_pool :: "nat \<Rightarrow> 'v pool" where
  "make_pool loading_thread_count =
     \<lparr>registered_loaders = [], loading_queue = [], workers = replicate loading_thread_count Checking,
      queue_mutex = None, terminating = False, settled = (\<lambda>_. None), accepted = []\<rparr>"

definition RegisterLoader :: "'v loader \<Rightarrow> 'v pool \<Rightarrow> 'v pool result" where
  "RegisterLoader l s =
     (if map_contains (registered_loaders s) (ld_id l) then Inl DuplicateLoaderIdException
      else Inr (s\<lparr>registered_loaders := map_put (ld_id l) l (registered_loaders s)\<rparr>))"

definition UnregisterLoader :: "string \<Rightarrow> 'v pool \<Rightarrow> 'v pool" where
  "UnregisterLoader i s = s\<lparr>registered_loaders := map_erase i (registered_loaders s)\<rparr>"

text \<open>
  Which loader a URI names, and what that loader is given. \<open>find_first_of\<close> looks for any of
  the characters \<open>:\<close> and \<open>/\<close>, and three characters are skipped whatever they are.
\<close>

definition parse_uri :: "string \<Rightarrow> (string \<times> string) result" where
  "parse_uri uri =
     (case std_find_first_of uri ''://'' 0 of
        Some i \<Rightarrow> bind_result (std_substr uri 0 i) (\<lambda>resource_loader_id.
                    bind_result (std_substr_rest uri (i + 3)) (\<lambda>resource_url.
                    Inr (resource_loader_id, resource_url)))
      | None \<Rightarrow> Inr (''file'', uri))"

definition notify_one :: "'v worker list \<Rightarrow> nat \<Rightarrow> 'v worker list" where
  "notify_one ws w = (if w < length ws \<and> ws ! w = Asleep then ws[w := Checking] else ws)"

definition notify_all :: "'v worker list \<Rightarrow> 'v worker list" where
  "notify_all ws = map (\<lambda>w. case w of Asleep \<Rightarrow> Checking | _ \<Rightarrow> w) ws"

text \<open>The sleeper \<open>w\<close> is the one that is notified; the promise of the load is returned.\<close>

definition LoadResource :: "nat \<Rightarrow> string \<Rightarrow> 'v pool \<Rightarrow> (nat \<times> 'v pool) result" where
  "LoadResource w uri s =
     bind_result (parse_uri uri) (\<lambda>(resource_loader_id, resource_url).
       case map_get (registered_loaders s) resource_loader_id of
         None \<Rightarrow> Inl ResourceLoaderNotFound
       | Some l \<Rightarrow>
           (let p = length (accepted s);
                t = \<lparr>tk_promise = p, tk_loader = l, tk_url = resource_url\<rparr>
            in Inr (p, s\<lparr>loading_queue := loading_queue s @ [t], workers := notify_one (workers s) w,
                  accepted := accepted s @ [t]\<rparr>)))"

text \<open>The worker: evaluating the predicate and what follows it, and running a load.\<close>

definition worker_checks :: "nat \<Rightarrow> 'v pool \<Rightarrow> 'v pool" where
  "worker_checks w s =
     (if terminating s then s\<lparr>workers := (workers s)[w := Exited]\<rparr>
      else case loading_queue s of
             [] \<Rightarrow> s\<lparr>workers := (workers s)[w := GoingToSleep], queue_mutex := Some w\<rparr>
           | t # ts \<Rightarrow> s\<lparr>workers := (workers s)[w := Loading t], loading_queue := ts\<rparr>)"

definition worker_sleeps :: "nat \<Rightarrow> 'v pool \<Rightarrow> 'v pool" where
  "worker_sleeps w s = s\<lparr>workers := (workers s)[w := Asleep], queue_mutex := None\<rparr>"

text \<open>The promise is settled by the resource or by the exception of the loader.\<close>

definition run_load :: "'v task \<Rightarrow> 'v resource result" where
  "run_load t = ld_load (tk_loader t) (tk_url t)"

definition worker_loads :: "nat \<Rightarrow> 'v task \<Rightarrow> 'v pool \<Rightarrow> 'v pool" where
  "worker_loads w t s =
     s\<lparr>workers := (workers s)[w := Checking], settled := (settled s)(tk_promise t \<mapsto> run_load t)\<rparr>"

text \<open>The destructor: it sets the flag and notifies without the mutex, then joins.\<close>

definition destructor_terminates :: "'v pool \<Rightarrow> 'v pool" where
  "destructor_terminates s = s\<lparr>terminating := True\<rparr>"

definition destructor_notifies :: "'v pool \<Rightarrow> 'v pool" where
  "destructor_notifies s = s\<lparr>workers := notify_all (workers s)\<rparr>"

definition destructor_joined :: "'v pool \<Rightarrow> bool" where
  "destructor_joined s \<longleftrightarrow> (\<forall>w\<in>set (workers s). w = Exited)"

section \<open>Steps\<close>

text \<open>
  A wakeup is always due to a notification here; the standard also allows spurious ones,
  but no program may count on them. \<open>notify_one\<close> wakes any sleeper if there is one.
\<close>

inductive worker_step :: "'v pool \<Rightarrow> 'v pool \<Rightarrow> bool" where
  checks: "w < length (workers s) \<Longrightarrow> workers s ! w = Checking \<Longrightarrow> queue_mutex s = None \<Longrightarrow>
     worker_step s (worker_checks w s)"
| sleeps: "w < length (workers s) \<Longrightarrow> workers s ! w = GoingToSleep \<Longrightarrow> worker_step s (worker_sleeps w s)"
| runs: "w < length (workers s) \<Longrightarrow> workers s ! w = Loading t \<Longrightarrow> worker_step s (worker_loads w t s)"

inductive pool_step :: "'v pool \<Rightarrow> 'v pool \<Rightarrow> bool" where
  registers: "RegisterLoader l s = Inr s' \<Longrightarrow> pool_step s s'"
| unregisters: "pool_step s (UnregisterLoader i s)"
| loads: "queue_mutex s = None \<Longrightarrow> LoadResource w uri s = Inr (p, s') \<Longrightarrow>
     (w < length (workers s) \<and> workers s ! w = Asleep) \<or> Asleep \<notin> set (workers s) \<Longrightarrow> pool_step s s'"
| works: "worker_step s s' \<Longrightarrow> pool_step s s'"
| terminates: "pool_step s (destructor_terminates s)"
| notifies: "terminating s \<Longrightarrow> pool_step s (destructor_notifies s)"

definition pool_run :: "nat \<Rightarrow> 'v pool \<Rightarrow> bool" where
  "pool_run n = pool_step\<^sup>*\<^sup>* (make_pool n)"

section \<open>Invariants\<close>

fun loading_of :: "'v worker \<Rightarrow> 'v task multiset" where
  "loading_of (Loading t) = {#t#}"
| "loading_of _ = {#}"

definition in_flight :: "'v pool \<Rightarrow> 'v task multiset" where
  "in_flight s = mset (loading_queue s) + sum_mset (image_mset loading_of (mset (workers s)))"

text \<open>
  Every accepted load is in flight or settled, and never both; a worker is idle for good
  only when there is nothing in the queue.
\<close>

definition loads_ok :: "'v pool \<Rightarrow> bool" where
  "loads_ok s \<longleftrightarrow> map tk_promise (accepted s) = [0..<length (accepted s)] \<and>
     in_flight s \<subseteq># mset (accepted s) \<and>
     (\<forall>t\<in>set (accepted s). settled s (tk_promise t) = (if t \<in># in_flight s then None else Some (run_load t))) \<and>
     (\<forall>p. length (accepted s) \<le> p \<longrightarrow> settled s p = None)"

definition busy :: "'v worker \<Rightarrow> bool" where
  "busy w \<longleftrightarrow> w = Checking \<or> (\<exists>t. w = Loading t)"

definition sleepers_ok :: "'v pool \<Rightarrow> bool" where
  "sleepers_ok s \<longleftrightarrow> (\<forall>w<length (workers s). workers s ! w = GoingToSleep \<longrightarrow> queue_mutex s = Some w) \<and>
     (\<not> terminating s \<longrightarrow> Exited \<notin> set (workers s) \<and> (queue_mutex s \<noteq> None \<longrightarrow> loading_queue s = []) \<and>
        (loading_queue s \<noteq> [] \<and> workers s \<noteq> [] \<longrightarrow> (\<exists>w\<in>set (workers s). busy w)))"

lemma sum_mset_update:
  fixes f :: "'a \<Rightarrow> 'b multiset"
  assumes "i < length xs"
  shows "sum_mset (image_mset f (mset (xs[i := x]))) + f (xs ! i) = sum_mset (image_mset f (mset xs)) + f x"
proof -
  define r where "r = mset xs - {#xs ! i#}"
  have old: "mset xs = add_mset (xs ! i) r"
    using assms by (simp add: r_def nth_mem_mset)
  have "mset (xs[i := x]) = add_mset x r"
    unfolding r_def using assms by (rule mset_update)
  then show ?thesis unfolding old by (simp add: ac_simps)
qed

lemma in_flight_update:
  assumes "w < length (workers s)" and "loading_of (workers s ! w) = {#}"
  shows "sum_mset (image_mset loading_of (mset ((workers s)[w := x]))) =
    sum_mset (image_mset loading_of (mset (workers s))) + loading_of x"
  using sum_mset_update [OF assms(1), of loading_of x] assms(2) by simp

lemma in_flight_notify_one: "sum_mset (image_mset loading_of (mset (notify_one ws w))) = sum_mset (image_mset loading_of (mset ws))"
proof (cases "w < length ws \<and> ws ! w = Asleep")
  case True
  then show ?thesis using sum_mset_update [of w ws loading_of Checking] by (simp add: notify_one_def)
next
  case False
  then show ?thesis by (simp only: notify_one_def if_False)
qed

lemma in_flight_notify_all: "sum_mset (image_mset loading_of (mset (notify_all ws))) = sum_mset (image_mset loading_of (mset ws))"
  by (induction ws) (auto simp: notify_all_def split: worker.splits)

lemma in_flight_checks:
  assumes "w < length (workers s)" and "workers s ! w = Checking"
  shows "in_flight (worker_checks w s) = in_flight s"
  using in_flight_update [OF assms(1)] assms(2)
  by (auto simp: in_flight_def worker_checks_def split: list.splits)

lemma in_flight_loads:
  assumes "w < length (workers s)" and "workers s ! w = Loading t"
  shows "add_mset t (in_flight (worker_loads w t s)) = in_flight s"
  using sum_mset_update [OF assms(1), of loading_of Checking] assms(2)
  by (simp add: in_flight_def worker_loads_def)

lemma accepted_distinct: "map tk_promise xs = [0..<length xs] \<Longrightarrow> distinct xs"
  by (metis distinct_map distinct_upt)

lemma accepted_inj:
  "map tk_promise xs = [0..<length xs] \<Longrightarrow> t \<in> set xs \<Longrightarrow> u \<in> set xs \<Longrightarrow> tk_promise t = tk_promise u \<Longrightarrow> t = u"
  by (metis distinct_map distinct_upt inj_onD)

text \<open>Steps that leave the loads in flight, the accepted ones and the promises alone.\<close>

lemma loads_ok_same:
  assumes "loads_ok s" and "in_flight s' = in_flight s" and "accepted s' = accepted s" and "settled s' = settled s"
  shows "loads_ok s'"
  using assms by (simp add: loads_ok_def)

lemma loads_ok_LoadResource [inv_intro]:
  assumes "loads_ok s" and "LoadResource w uri s = Inr (p, s')"
  shows "loads_ok s'"
proof -
  obtain l url where s': "p = length (accepted s)"
    "s' = s\<lparr>loading_queue := loading_queue s @ [\<lparr>tk_promise = p, tk_loader = l, tk_url = url\<rparr>],
        workers := notify_one (workers s) w, accepted := accepted s @ [\<lparr>tk_promise = p, tk_loader = l, tk_url = url\<rparr>]\<rparr>"
    using assms(2) by (auto simp: LoadResource_def bind_result_Inr_iff Let_def split: option.splits)
  let ?t = "\<lparr>tk_promise = p, tk_loader = l, tk_url = url\<rparr>"
  have fl: "in_flight s' = add_mset ?t (in_flight s)"
    by (simp add: s'(2) in_flight_def in_flight_notify_one)
  have pr: "map tk_promise (accepted s) = [0..<length (accepted s)]"
    and sub: "in_flight s \<subseteq># mset (accepted s)" using assms(1) by (simp_all add: loads_ok_def)
  have "tk_promise t < p" if "t \<in> set (accepted s)" for t
    using that pr s'(1) by (metis atLeastLessThan_iff image_eqI set_map set_upt)
  then have new: "?t \<notin> set (accepted s)" by fastforce
  show ?thesis
    using assms(1) new s'(1) unfolding loads_ok_def fl
    by (auto simp: s'(2) pr)
qed

lemma loads_ok_worker_loads [inv_intro]:
  assumes "loads_ok s" and "w < length (workers s)" and "workers s ! w = Loading t"
  shows "loads_ok (worker_loads w t s)"
proof -
  note fl = in_flight_loads [OF assms(2,3)]
  have pr: "map tk_promise (accepted s) = [0..<length (accepted s)]"
    and sub: "in_flight s \<subseteq># mset (accepted s)" using assms(1) by (simp_all add: loads_ok_def)
  have sub': "add_mset t (in_flight (worker_loads w t s)) \<subseteq># mset (accepted s)" using fl sub by simp
  then have t: "t \<in> set (accepted s)" by (metis mset_subset_eqD set_mset_mset union_single_eq_member)
  have acc: "accepted (worker_loads w t s) = accepted s" by (simp add: worker_loads_def)
  have "count (mset (accepted s)) t = 1"
    using accepted_distinct [OF pr] t by (simp add: distinct_count_atmost_1)
  then have gone: "t \<notin># in_flight (worker_loads w t s)"
    using mset_subset_eq_count [OF sub', of t] by (simp add: not_in_iff)
  have "tk_promise t < length (accepted s)"
    using t pr by (metis atLeastLessThan_iff image_eqI set_map set_upt)
  then have late: "length (accepted s) \<le> p \<Longrightarrow> p \<noteq> tk_promise t" for p by auto
  have other: "u \<in># in_flight (worker_loads w t s) \<longleftrightarrow> u \<in># in_flight s" if "u \<noteq> t" for u
    using that by (simp flip: fl)
  have settled: "settled (worker_loads w t s) (tk_promise u) =
      (if u \<in># in_flight (worker_loads w t s) then None else Some (run_load u))"
    if u: "u \<in> set (accepted s)" for u
  proof (cases "u = t")
    case True
    with gone show ?thesis by (simp add: worker_loads_def)
  next
    case False
    then have "tk_promise u \<noteq> tk_promise t" using accepted_inj [OF pr u t] by auto
    then have "settled (worker_loads w t s) (tk_promise u) = settled s (tk_promise u)"
      by (simp add: worker_loads_def)
    also have "\<dots> = (if u \<in># in_flight s then None else Some (run_load u))"
      using assms(1) u unfolding loads_ok_def by blast
    finally show ?thesis using other [OF False] by simp
  qed
  have tail: "settled (worker_loads w t s) p = None" if "length (accepted s) \<le> p" for p
    using assms(1) that late [OF that] by (simp add: loads_ok_def worker_loads_def)
  have "in_flight (worker_loads w t s) \<subseteq># mset (accepted s)"
    using mset_subset_eq_insertD [OF sub'] by (simp add: subset_mset.less_imp_le)
  then show ?thesis using pr settled tail unfolding loads_ok_def acc by blast
qed

lemma loads_ok_worker_step: "worker_step s s' \<Longrightarrow> loads_ok s \<Longrightarrow> loads_ok s'"
proof (induction rule: worker_step.induct)
  case (checks w s)
  have "accepted (worker_checks w s) = accepted s" "settled (worker_checks w s) = settled s"
    by (auto simp: worker_checks_def split: list.splits)
  then show ?case using loads_ok_same [OF checks(4) in_flight_checks [OF checks(1,2)]] by blast
next
  case (sleeps w s)
  have "in_flight (worker_sleeps w s) = in_flight s"
    using in_flight_update [OF sleeps(1), of Asleep] sleeps(2) by (simp add: worker_sleeps_def in_flight_def)
  then show ?case by (rule loads_ok_same [OF sleeps(3)]) (simp_all add: worker_sleeps_def)
next
  case (runs w s t)
  then show ?case by (metis loads_ok_worker_loads)
qed

lemma loads_ok_step: "pool_step s s' \<Longrightarrow> loads_ok s \<Longrightarrow> loads_ok s'"
proof (induction rule: pool_step.induct)
  case (registers l s s')
  then have "s' = s\<lparr>registered_loaders := map_put (ld_id l) l (registered_loaders s)\<rparr>"
    by (simp add: RegisterLoader_def split: if_splits)
  with registers show ?case by (simp add: loads_ok_def in_flight_def)
next
  case (unregisters s i)
  then show ?case by (simp add: loads_ok_def in_flight_def UnregisterLoader_def)
next
  case (loads s w uri p s')
  then show ?case by (metis loads_ok_LoadResource)
next
  case (works s s')
  then show ?case by (metis loads_ok_worker_step)
next
  case (terminates s)
  then show ?case by (simp add: loads_ok_def in_flight_def destructor_terminates_def)
next
  case (notifies s)
  then show ?case
    by (simp add: loads_ok_def in_flight_def destructor_notifies_def in_flight_notify_all)
qed

interpretation pool_loads: invariant_system "\<lambda>s. s = make_pool n" pool_step loads_ok for n
proof unfold_locales
  show "loads_ok s" if "s = make_pool n" for s
    using that by (simp add: loads_ok_def make_pool_def in_flight_def)
qed (rule loads_ok_step)

lemmas loads_ok_run = pool_loads.inv_run [OF refl, folded pool_run_def]

text \<open>Sleeping workers: no queued load waits while all of them sleep.\<close>

lemma busy_update: "i < length ws \<Longrightarrow> busy x \<Longrightarrow> \<exists>w\<in>set (ws[i := x]). busy w"
  by (metis length_list_update nth_list_update_eq nth_mem)

lemma set_notify_one: "x \<in> set (notify_one ws w) \<Longrightarrow> x = Checking \<or> x \<in> set ws"
  by (auto simp: notify_one_def split: if_splits dest: set_update_subset_insert [THEN subsetD])

lemma nth_notify_one: "notify_one ws w ! i = GoingToSleep \<Longrightarrow> i < length ws \<Longrightarrow> ws ! i = GoingToSleep"
  by (auto simp: notify_one_def nth_list_update split: if_splits)

lemma length_notify_one [simp]: "length (notify_one ws w) = length ws"
  by (simp add: notify_one_def)

lemma LoadResource_state:
  assumes "LoadResource w uri s = Inr (p, s')"
  shows "\<exists>t. loading_queue s' = loading_queue s @ [t] \<and> workers s' = notify_one (workers s) w \<and>
    queue_mutex s' = queue_mutex s \<and> terminating s' = terminating s"
  using assms by (auto simp: LoadResource_def bind_result_Inr_iff Let_def split: option.splits)

lemma sleepers_ok_LoadResource:
  assumes "sleepers_ok s" and "queue_mutex s = None" and "LoadResource w uri s = Inr (p, s')"
    and "(w < length (workers s) \<and> workers s ! w = Asleep) \<or> Asleep \<notin> set (workers s)"
  shows "sleepers_ok s'"
proof -
  obtain t where s': "loading_queue s' = loading_queue s @ [t]" "workers s' = notify_one (workers s) w"
    "queue_mutex s' = None" "terminating s' = terminating s"
    using LoadResource_state [OF assms(3)] assms(2) by auto
  have awake: "\<exists>x\<in>set (workers s'). busy x" if live: "\<not> terminating s" "workers s \<noteq> []"
  proof (cases "w < length (workers s) \<and> workers s ! w = Asleep")
    case True
    then show ?thesis using busy_update [of w "workers s" Checking] by (simp add: s' notify_one_def busy_def)
  next
    case False
    then have no: "Asleep \<notin> set (workers s)" "workers s' = workers s"
      using assms(4) by (auto simp: s' notify_one_def)
    have "GoingToSleep \<notin> set (workers s)"
      using assms(1,2) by (auto simp: sleepers_ok_def in_set_conv_nth)
    moreover have "Exited \<notin> set (workers s)" using assms(1) live by (simp add: sleepers_ok_def)
    moreover have "hd (workers s) \<in> set (workers s)" using live by simp
    ultimately show ?thesis using no by (metis busy_def worker.exhaust)
  qed
  have "Exited \<notin> set (workers s')" if "\<not> terminating s"
    using assms(1) that set_notify_one [of Exited "workers s" w] by (auto simp: s' sleepers_ok_def)
  moreover have "workers s' ! i = GoingToSleep \<Longrightarrow> i < length (workers s') \<Longrightarrow> queue_mutex s' = Some i" for i
    using assms(1,2) nth_notify_one [of "workers s" w i] by (auto simp: s' sleepers_ok_def)
  ultimately show ?thesis using awake s' by (auto simp: sleepers_ok_def notify_one_def)
qed

lemma set_update: "x \<in> set (ws[i := y]) \<Longrightarrow> x = y \<or> x \<in> set ws"
  by (auto dest: set_update_subset_insert [THEN subsetD])

lemma sleepers_okI:
  assumes "\<And>w. w < length (workers s) \<Longrightarrow> workers s ! w = GoingToSleep \<Longrightarrow> queue_mutex s = Some w"
    and "\<not> terminating s \<Longrightarrow> Exited \<notin> set (workers s)"
    and "\<not> terminating s \<Longrightarrow> queue_mutex s \<noteq> None \<Longrightarrow> loading_queue s = []"
    and "\<not> terminating s \<Longrightarrow> loading_queue s \<noteq> [] \<Longrightarrow> workers s \<noteq> [] \<Longrightarrow> \<exists>w\<in>set (workers s). busy w"
  shows "sleepers_ok s"
  using assms by (auto simp: sleepers_ok_def)

lemma sleepers_ok_worker_checks:
  assumes "sleepers_ok s" and "w < length (workers s)" and "queue_mutex s = None"
  shows "sleepers_ok (worker_checks w s)"
proof -
  have none: "i < length (workers s) \<Longrightarrow> workers s ! i \<noteq> GoingToSleep" for i
    using assms(1,3) by (auto simp: sleepers_ok_def)
  have live: "\<not> terminating s \<Longrightarrow> Exited \<notin> set (workers s)" using assms(1) by (simp add: sleepers_ok_def)
  consider "terminating s" | "\<not> terminating s" "loading_queue s = []"
    | t ts where "\<not> terminating s" "loading_queue s = t # ts" by (cases "loading_queue s") auto
  then show ?thesis
  proof cases
    case 1
    then show ?thesis using none assms(2) by (intro sleepers_okI) (auto simp: worker_checks_def nth_list_update split: if_splits)
  next
    case 2
    then show ?thesis using none live assms(2)
      by (intro sleepers_okI) (auto simp: worker_checks_def nth_list_update split: if_splits dest: set_update)
  next
    case 3
    then have "\<exists>x\<in>set ((workers s)[w := Loading t]). busy x"
      using busy_update [OF assms(2)] by (simp add: busy_def)
    with 3 show ?thesis using none live assms(2,3)
      by (intro sleepers_okI) (auto simp: worker_checks_def nth_list_update split: if_splits dest: set_update)
  qed
qed

lemma sleepers_ok_worker_sleeps:
  assumes "sleepers_ok s" and "w < length (workers s)" and "workers s ! w = GoingToSleep"
  shows "sleepers_ok (worker_sleeps w s)"
proof -
  have mutex: "queue_mutex s = Some w" using assms by (simp add: sleepers_ok_def)
  then have "\<not> terminating s \<Longrightarrow> loading_queue s = []" using assms(1) by (simp add: sleepers_ok_def)
  moreover have "i \<noteq> w \<Longrightarrow> i < length (workers s) \<Longrightarrow> workers s ! i \<noteq> GoingToSleep" for i
    using assms(1) mutex by (auto simp: sleepers_ok_def)
  ultimately show ?thesis using assms(1,2)
    by (intro sleepers_okI) (auto simp: worker_sleeps_def nth_list_update sleepers_ok_def split: if_splits dest: set_update)
qed

lemma sleepers_ok_worker_loads:
  assumes "sleepers_ok s" and "w < length (workers s)"
  shows "sleepers_ok (worker_loads w t s)"
  using assms busy_update [OF assms(2), of Checking]
  by (intro sleepers_okI)
    (auto simp: worker_loads_def nth_list_update sleepers_ok_def busy_def split: if_splits dest: set_update)

lemma sleepers_ok_worker_step: "worker_step s s' \<Longrightarrow> sleepers_ok s \<Longrightarrow> sleepers_ok s'"
  by (induction rule: worker_step.induct)
    (auto intro: sleepers_ok_worker_checks sleepers_ok_worker_sleeps sleepers_ok_worker_loads)

lemma sleepers_ok_step: "pool_step s s' \<Longrightarrow> sleepers_ok s \<Longrightarrow> sleepers_ok s'"
proof (induction rule: pool_step.induct)
  case (registers l s s')
  then have "s' = s\<lparr>registered_loaders := map_put (ld_id l) l (registered_loaders s)\<rparr>"
    by (simp add: RegisterLoader_def split: if_splits)
  with registers show ?case by (simp add: sleepers_ok_def)
next
  case (loads s w uri p s')
  then show ?case by (metis sleepers_ok_LoadResource)
next
  case (works s s')
  then show ?case by (metis sleepers_ok_worker_step)
next
  case (notifies s)
  then show ?case
    by (intro sleepers_okI) (auto simp: destructor_notifies_def notify_all_def sleepers_ok_def split: worker.splits)
qed (simp_all add: sleepers_ok_def UnregisterLoader_def destructor_terminates_def)

interpretation pool_sleepers: invariant_system "\<lambda>s. s = make_pool n" pool_step sleepers_ok for n
proof unfold_locales
  show "sleepers_ok s" if "s = make_pool n" for s
    using that by (auto simp: sleepers_ok_def make_pool_def)
qed (rule sleepers_ok_step)

lemmas sleepers_ok_run = pool_sleepers.inv_run [OF refl, folded pool_run_def]

text \<open>Progress: as long as the pool is not destroyed, one load after the other can finish.\<close>

lemma worker_step_frame: "worker_step s s' \<Longrightarrow> accepted s' = accepted s \<and> terminating s' = terminating s \<and>
    length (workers s') = length (workers s)"
  by (induction rule: worker_step.induct)
    (auto simp: worker_checks_def worker_sleeps_def worker_loads_def split: list.splits)

lemma a_load_can_finish:
  assumes "sleepers_ok s" and "\<not> terminating s" and "workers s \<noteq> []" and "in_flight s \<noteq> {#}"
  shows "\<exists>s' t. worker_step\<^sup>*\<^sup>* s s' \<and> in_flight s = add_mset t (in_flight s')"
proof (cases "\<exists>w t. w < length (workers s) \<and> workers s ! w = Loading t")
  case True
  then obtain w t where w: "w < length (workers s)" "workers s ! w = Loading t" by blast
  then show ?thesis using in_flight_loads [OF w] worker_step.runs [OF w] by (metis r_into_rtranclp)
next
  case False
  then have "loading_of x = {#}" if "x \<in> set (workers s)" for x
    using that by (cases x) (auto simp: in_set_conv_nth)
  then have "sum_mset (image_mset loading_of (mset (workers s))) = {#}" by (auto intro: sum_mset.neutral)
  then have "loading_queue s \<noteq> []" using assms(4) by (auto simp: in_flight_def)
  then obtain t ts where q: "loading_queue s = t # ts" by (cases "loading_queue s") auto
  then obtain x where "x \<in> set (workers s)" "busy x" using assms(1-3) by (auto simp: sleepers_ok_def)
  then obtain w where w: "w < length (workers s)" "workers s ! w = Checking"
    using False by (auto simp: busy_def in_set_conv_nth)
  have "queue_mutex s = None" using assms(1,2) q by (auto simp: sleepers_ok_def)
  then have "worker_step s (worker_checks w s)" by (rule worker_step.checks [OF w])
  moreover have l: "w < length (workers (worker_checks w s))" "workers (worker_checks w s) ! w = Loading t"
    using w assms(2) q by (simp_all add: worker_checks_def)
  ultimately show ?thesis
    using in_flight_loads [OF l] in_flight_checks [OF w] worker_step.runs [OF l]
    by (metis converse_rtranclp_into_rtranclp r_into_rtranclp)
qed

lemma all_loads_can_finish:
  assumes "sleepers_ok s" and "\<not> terminating s" and "workers s \<noteq> []"
  shows "\<exists>s'. worker_step\<^sup>*\<^sup>* s s' \<and> in_flight s' = {#}"
  using assms
proof (induction "size (in_flight s)" arbitrary: s rule: less_induct)
  case less
  show ?case
  proof (cases "in_flight s = {#}")
    case True
    then show ?thesis by blast
  next
    case False
    obtain s1 t where s1: "worker_step\<^sup>*\<^sup>* s s1" "in_flight s = add_mset t (in_flight s1)"
      using a_load_can_finish [OF less.prems False] by blast
    have frame: "sleepers_ok s1 \<and> \<not> terminating s1 \<and> workers s1 \<noteq> []"
      using s1(1) less.prems
    proof (induction rule: rtranclp_induct)
      case (step y z)
      then show ?case using worker_step_frame [OF step(2)] sleepers_ok_worker_step [OF step(2)]
        by (metis length_0_conv)
    qed simp
    obtain s' where "worker_step\<^sup>*\<^sup>* s1 s'" "in_flight s' = {#}"
      using less.hyps [of s1] s1(2) frame by auto
    with s1(1) show ?thesis by (meson rtranclp_trans)
  qed
qed

lemma worker_steps_accepted: "worker_step\<^sup>*\<^sup>* s s' \<Longrightarrow> accepted s' = accepted s"
  by (induction rule: rtranclp_induct) (auto dest: worker_step_frame)

lemma worker_steps_pool_run: "worker_step\<^sup>*\<^sup>* s s' \<Longrightarrow> pool_run n s \<Longrightarrow> pool_run n s'"
  unfolding pool_run_def
  by (induction rule: rtranclp_induct) (auto intro: pool_step.works rtranclp.rtrancl_into_rtrancl)

interpretation pool_size: invariant_system "\<lambda>s. s = make_pool n" pool_step "\<lambda>s. length (workers s) = n" for n
proof unfold_locales
  show "length (workers s') = n" if "pool_step s s'" and "length (workers s) = n" for s s' :: "'v pool"
    using that
  proof (induction rule: pool_step.induct)
    case (loads s w uri p s')
    then show ?case using LoadResource_state [OF loads(2)] by auto
  qed (auto simp: RegisterLoader_def UnregisterLoader_def destructor_terminates_def destructor_notifies_def
      notify_all_def dest: worker_step_frame split: if_splits)
qed (simp add: make_pool_def)

lemmas pool_run_workers = pool_size.inv_run [OF refl, folded pool_run_def]

lemma settled_or_in_flight:
  assumes "loads_ok s" and "t \<in> set (accepted s)"
  shows "settled s (tk_promise t) = (if t \<in># in_flight s then None else Some (run_load t))"
  using assms unfolding loads_ok_def by blast

text \<open>
  C25: in every state the manager can reach, the promise of an accepted load is either
  unsettled, and then the load is in the queue or with one of the threads, or holds what the
  loader it was given to returned or threw for its URL. Until the destructor runs, the threads
  (at least one) can always go on to a state in which every accepted load is settled.
\<close>

theorem every_accepted_load_is_settled:
  assumes "pool_run n s"
  shows "(\<forall>t\<in>set (accepted s). settled s (tk_promise t) = (if t \<in># in_flight s then None else Some (run_load t))) \<and>
    (n \<noteq> 0 \<and> \<not> terminating s \<longrightarrow> (\<exists>s'. worker_step\<^sup>*\<^sup>* s s' \<and> accepted s' = accepted s \<and>
       (\<forall>t\<in>set (accepted s). settled s' (tk_promise t) = Some (run_load t))))"
proof (intro conjI impI)
  show "\<forall>t\<in>set (accepted s). settled s (tk_promise t) = (if t \<in># in_flight s then None else Some (run_load t))"
    using settled_or_in_flight [OF loads_ok_run [OF assms]] by blast
next
  assume "n \<noteq> 0 \<and> \<not> terminating s"
  then obtain s' where s': "worker_step\<^sup>*\<^sup>* s s'" "in_flight s' = {#}"
    using all_loads_can_finish [OF sleepers_ok_run [OF assms]] pool_run_workers [OF assms] by force
  have "loads_ok s'" using worker_steps_pool_run [OF s'(1) assms] by (rule loads_ok_run)
  then show "\<exists>s'. worker_step\<^sup>*\<^sup>* s s' \<and> accepted s' = accepted s \<and>
           (\<forall>t\<in>set (accepted s). settled s' (tk_promise t) = Some (run_load t))"
    using s' worker_steps_accepted [OF s'(1)] settled_or_in_flight [of s'] by auto
qed

definition demo_loader :: "nat loader" where
  "demo_loader = \<lparr>ld_id = ''mem'', ld_load = (\<lambda>url. Inr \<lparr>re_type = ''nat'', re_value = length url\<rparr>)\<rparr>"

definition demo_pool :: "nat pool" where
  "demo_pool = (make_pool 1)\<lparr>registered_loaders := [(''mem'', demo_loader)],
     loading_queue := [\<lparr>tk_promise = 0, tk_loader = demo_loader, tk_url = ''abc''\<rparr>],
     accepted := [\<lparr>tk_promise = 0, tk_loader = demo_loader, tk_url = ''abc''\<rparr>]\<rparr>"

lemma demo_pool_run: "pool_run 1 demo_pool"
proof -
  let ?s = "(make_pool 1)\<lparr>registered_loaders := [(''mem'', demo_loader)]\<rparr>"
  have "RegisterLoader demo_loader (make_pool 1) = Inr ?s"
    by (simp add: RegisterLoader_def make_pool_def demo_loader_def map_get_def)
  moreover have "parse_uri ''mem://abc'' = Inr (''mem'', ''abc'')"
    by code_simp
  then have "LoadResource 0 ''mem://abc'' ?s = Inr (0, demo_pool)"
    by (simp add: LoadResource_def make_pool_def demo_pool_def map_get_def notify_one_def Let_def)
  moreover have "Asleep \<notin> set (workers ?s)" "queue_mutex ?s = None"
    by (simp_all add: make_pool_def)
  ultimately have "pool_step (make_pool 1) ?s" "pool_step ?s demo_pool"
    by (blast intro: pool_step.registers pool_step.loads)+
  then show ?thesis unfolding pool_run_def by (rule converse_rtranclp_into_rtranclp [OF _ r_into_rtranclp])
qed

theorem every_accepted_load_is_settled_witness:
  "\<exists>s'. worker_step\<^sup>*\<^sup>* demo_pool s' \<and> settled s' 0 = Some (Inr \<lparr>re_type = ''nat'', re_value = 3\<rparr>)"
  using every_accepted_load_is_settled [OF demo_pool_run]
  by (auto simp: demo_pool_def make_pool_def run_load_def demo_loader_def)

text \<open>
  The destructor can wait for ever. A thread that has found nothing to do and is about to
  sleep, still holding the mutex, misses both the flag and the notification, which the
  destructor gives without the mutex; from then on no step of the threads ends it. This
  happens to any pool, before the first load already.
\<close>

theorem destructor_can_wait_forever:
  "\<exists>s. pool_run (Suc n) s \<and>
     (\<nexists>s'. worker_step\<^sup>*\<^sup>* (destructor_notifies (destructor_terminates s)) s' \<and> destructor_joined s')"
proof -
  let ?s = "worker_checks 0 (make_pool (Suc n) :: 'a pool)"
  have "pool_run (Suc n) ?s"
    unfolding pool_run_def
    by (intro r_into_rtranclp pool_step.works worker_step.checks) (simp_all add: make_pool_def)
  moreover have "\<not> destructor_joined s'"
    if "worker_step\<^sup>*\<^sup>* (destructor_notifies (destructor_terminates ?s)) s'" for s'
  proof -
    have "workers s' \<noteq> [] \<and> (workers s' ! 0 = GoingToSleep \<or> workers s' ! 0 = Asleep)"
      using that
    proof (induction rule: rtranclp_induct)
      case base
      show ?case by (simp add: destructor_notifies_def destructor_terminates_def worker_checks_def make_pool_def notify_all_def)
    next
      case (step s1 s2)
      from step(2,3) show ?case
        by (induction rule: worker_step.induct)
          (auto simp: worker_checks_def worker_sleeps_def worker_loads_def nth_list_update split: list.splits intro!: gr0I)
    qed
    then have "workers s' ! 0 \<in> set (workers s')" "workers s' ! 0 \<noteq> Exited" by auto
    then show ?thesis unfolding destructor_joined_def by blast
  qed
  ultimately show ?thesis by blast
qed

end
