(* ===== verification/Url_Parser.thy ===== *)
theory Url_Parser
  imports Std_String
begin

text \<open>
  The URL parser (\<open>subsystems/networking/src/util/UrlParser.cpp\<close>). It is one \<open>regex_match\<close>, so the
  theory has the part of ECMAScript regular expressions that its pattern uses, as a
  backtracking matcher: greedy repetitions of a class of characters, literals, sequences,
  greedy options and capturing groups. The lemmas show what a match implies, and that parsing
  what was put together gives the parts back.
\<close>

section \<open>Regular expressions\<close>

datatype rx =
    Lit string
  | Star "char \<Rightarrow> bool"
  | Plus "char \<Rightarrow> bool"
  | Seq rx rx
  | Opt rx
  | Group nat rx

text \<open>
  The matcher tries the alternatives in the order of the standard and gives the first for
  which the rest of the match, the continuation \<open>k\<close>, succeeds. A group that took part in the
  match holds what it matched, any other one the empty string.
\<close>

fun greedy :: "(char \<Rightarrow> bool) \<Rightarrow> string \<Rightarrow> (string \<Rightarrow> 'r option) \<Rightarrow> 'r option" where
  "greedy P [] k = k []"
| "greedy P (c # cs) k =
     (if P c then (case greedy P cs k of Some r \<Rightarrow> Some r | None \<Rightarrow> k (c # cs)) else k (c # cs))"

type_synonym groups = "nat \<Rightarrow> string"

fun rx_match :: "rx \<Rightarrow> string \<Rightarrow> groups \<Rightarrow> (string \<Rightarrow> groups \<Rightarrow> 'r option) \<Rightarrow> 'r option" where
  "rx_match (Lit w) s m k = (if prefix w s then k (drop (length w) s) m else None)"
| "rx_match (Star P) s m k = greedy P s (\<lambda>s'. k s' m)"
| "rx_match (Plus P) s m k =
     (case s of c # cs \<Rightarrow> (if P c then greedy P cs (\<lambda>s'. k s' m) else None) | [] \<Rightarrow> None)"
| "rx_match (Seq a b) s m k = rx_match a s m (\<lambda>s' m'. rx_match b s' m' k)"
| "rx_match (Opt a) s m k = (case rx_match a s m k of Some r \<Rightarrow> Some r | None \<Rightarrow> k s m)"
| "rx_match (Group n a) s m k =
     rx_match a s m (\<lambda>s' m'. k s' (m'(n := take (length s - length s') s)))"

definition regex_match :: "rx \<Rightarrow> string \<Rightarrow> groups option" where
  "regex_match r s = rx_match r s (\<lambda>_. []) (\<lambda>rest m. if rest = [] then Some m else None)"

section \<open>The parser\<close>

record parsed_url =
  scheme :: string
  host :: string
  port :: string
  path :: string
  query :: string

definition scheme_char :: "char \<Rightarrow> bool" where
  "scheme_char c \<longleftrightarrow> (CHR ''a'' \<le> c \<and> c \<le> CHR ''z'') \<or> c = CHR ''.''"

definition host_char :: "char \<Rightarrow> bool" where
  "host_char c \<longleftrightarrow> c \<notin> set ''/:?#'' \<and> \<not> is_space c"

definition path_char :: "char \<Rightarrow> bool" where
  "path_char c \<longleftrightarrow> c \<noteq> CHR ''?'' \<and> \<not> is_space c"

definition scheme_rx :: rx where
  "scheme_rx = Opt (Group 1 (Seq (Group 2 (Star scheme_char)) (Lit ''://'')))"

definition port_rx :: rx where
  "port_rx = Opt (Group 4 (Seq (Lit '':'') (Group 5 (Plus is_digit))))"

definition query_rx :: rx where
  "query_rx = Opt (Group 7 (Seq (Lit ''?'') (Group 8 (Star (\<lambda>c. \<not> is_space c)))))"

definition uriRegex :: rx where
  "uriRegex = Seq scheme_rx (Seq (Group 3 (Plus host_char))
     (Seq port_rx (Seq (Opt (Group 6 (Star path_char))) query_rx)))"

definition parse_url :: "string \<Rightarrow> parsed_url option" where
  "parse_url url =
     (case regex_match uriRegex url of
        Some m \<Rightarrow> Some \<lparr>scheme = m 2, host = m 3, port = m 5, path = m 6, query = m 8\<rparr>
      | None \<Rightarrow> None)"

section \<open>Matching\<close>

lemma greedy_Some:
  "greedy P s k = Some r \<Longrightarrow> \<exists>a b. s = a @ b \<and> list_all P a \<and> k b = Some r"
proof (induction P s k rule: greedy.induct)
  case (2 P c cs k)
  show ?case
  proof (cases "P c \<and> greedy P cs k = Some r")
    case True
    then obtain a b where "cs = a @ b" "list_all P a" "k b = Some r" using 2(1) by blast
    then have "c # cs = (c # a) @ b" "list_all P (c # a)" "k b = Some r" using True by simp_all
    then show ?thesis by blast
  next
    case False
    then have "k (c # cs) = Some r" using 2(2) by (auto split: if_splits option.splits)
    then have "c # cs = [] @ c # cs" "list_all P []" "k (c # cs) = Some r" by simp_all
    then show ?thesis by blast
  qed
qed simp

text \<open>A repetition that has to stop at \<open>b\<close> takes everything before it if the rest then matches.\<close>

lemma greedy_all:
  assumes "list_all P a" and "b = [] \<or> \<not> P (hd b)" and "k b = Some r"
  shows "greedy P (a @ b) k = Some r"
  using assms by (induction a) (cases b; simp)+

lemma greedy_None:
  assumes "list_all P a" and "b = [] \<or> \<not> P (hd b)" and "\<And>c d. a = c @ d \<Longrightarrow> k (d @ b) = None"
  shows "greedy P (a @ b) k = None"
  using assms
proof (induction a)
  case Nil
  then show ?case using Nil(3) [of "[]" "[]"] by (cases b) auto
next
  case (Cons c a)
  have "greedy P (a @ b) k = None"
    using Cons.IH Cons.prems(1,2) Cons.prems(3) [of "c # _"] by auto
  then show ?case using Cons.prems(3) [of "[]" "c # a"] by simp
qed

section \<open>Parsing what was put together\<close>

definition render_query :: "string \<Rightarrow> string" where
  "render_query q = (if q = [] then [] else CHR ''?'' # q)"

definition render_port :: "string \<Rightarrow> string" where
  "render_port p = (if p = [] then [] else CHR '':'' # p)"

definition render_url :: "parsed_url \<Rightarrow> string" where
  "render_url u = (if scheme u = [] then [] else scheme u @ ''://'') @ host u @ render_port (port u) @
     path u @ render_query (query u)"

definition url_ok :: "parsed_url \<Rightarrow> bool" where
  "url_ok u \<longleftrightarrow> list_all scheme_char (scheme u) \<and> host u \<noteq> [] \<and> list_all host_char (host u) \<and>
     list_all is_digit (port u) \<and> list_all path_char (path u) \<and>
     (path u = [] \<or> hd (path u) \<in> set ''/#'') \<and> list_all (\<lambda>c. \<not> is_space c) (query u)"

definition final :: "string \<Rightarrow> groups \<Rightarrow> groups option" where
  "final rest m = (if rest = [] then Some m else None)"

lemma match_query:
  assumes "list_all (\<lambda>c. \<not> is_space c) q" and "m 8 = []"
  shows "\<exists>m'. rx_match query_rx (render_query q) m final = Some m' \<and> m' 8 = q \<and> (\<forall>n<7. m' n = m n)"
proof (cases q)
  case Nil
  with assms(2) show ?thesis by (simp add: query_rx_def render_query_def final_def)
next
  case (Cons c cs)
  have "greedy (\<lambda>c. \<not> is_space c) (q @ []) (\<lambda>s'. final s' (m(8 := take (length q - length s') q,
      7 := take (Suc (length q) - length s') (CHR ''?'' # q)))) = Some (m(8 := q, 7 := CHR ''?'' # q))"
    using assms(1) by (intro greedy_all) (simp_all add: final_def)
  then show ?thesis using Cons by (simp add: query_rx_def render_query_def)
qed

lemma match_path:
  assumes "list_all path_char p" and "list_all (\<lambda>c. \<not> is_space c) q" and "m 8 = []" and "m 6 = []"
  shows "\<exists>m'. rx_match (Seq (Opt (Group 6 (Star path_char))) query_rx) (p @ render_query q) m final = Some m' \<and>
    m' 6 = p \<and> m' 8 = q \<and> (\<forall>n<6. m' n = m n)"
proof -
  obtain m' where m': "rx_match query_rx (render_query q) (m(6 := p)) final = Some m'" "m' 8 = q"
    "\<forall>n<7. m' n = (m(6 := p)) n"
    using match_query [OF assms(2), of "m(6 := p)"] assms(3) by auto
  have "render_query q = [] \<or> \<not> path_char (hd (render_query q))"
    by (simp add: render_query_def path_char_def)
  then have "greedy path_char (p @ render_query q) (\<lambda>s'. rx_match query_rx s'
      (m(6 := take (length (p @ render_query q) - length s') (p @ render_query q))) final) = Some m'"
    using assms(1) m'(1) by (intro greedy_all) simp_all
  then show ?thesis using m'(2,3) by (intro exI [of _ m']) simp
qed

text \<open>What follows the host starts with none of the characters of a host.\<close>

definition rest_rx :: rx where
  "rest_rx = Seq (Opt (Group 6 (Star path_char))) query_rx"

lemma match_port:
  assumes "list_all is_digit pt" and "list_all path_char p" and "p = [] \<or> hd p \<in> set ''/#''"
    and "list_all (\<lambda>c. \<not> is_space c) q" and "m 8 = []" and "m 6 = []" and "m 5 = []"
  shows "\<exists>m'. rx_match (Seq port_rx rest_rx) (render_port pt @ p @ render_query q) m final = Some m' \<and>
    m' 5 = pt \<and> m' 6 = p \<and> m' 8 = q \<and> (\<forall>n<4. m' n = m n)"
proof (cases "pt = []")
  case True
  obtain m' where m': "rx_match rest_rx (p @ render_query q) m final = Some m'"
    "m' 6 = p" "m' 8 = q" "\<forall>n<6. m' n = m n"
    using match_path [OF assms(2,4,5,6)] by (auto simp: rest_rx_def)
  have "\<not> prefix '':'' (p @ render_query q)"
    using assms(3) by (cases p) (auto simp: render_query_def)
  then have "rx_match (Seq port_rx rest_rx) (render_port pt @ p @ render_query q) m final = Some m'"
    using True m'(1) by (simp add: render_port_def port_rx_def)
  then show ?thesis using m'(2,3,4) True assms(7) by (intro exI [of _ m']) simp
next
  case False
  then obtain d ds where pt: "pt = d # ds" by (cases pt) auto
  let ?t = "p @ render_query q"
  let ?m = "m(5 := pt, 4 := CHR '':'' # pt)"
  obtain m' where m': "rx_match rest_rx ?t ?m final = Some m'"
    "m' 6 = p" "m' 8 = q" "\<forall>n<6. m' n = ?m n"
    using match_path [OF assms(2,4), of ?m] assms(5,6) by (auto simp: rest_rx_def)
  have "?t = [] \<or> \<not> is_digit (hd ?t)"
    using assms(3) by (cases p) (auto simp: render_query_def is_digit_def)
  then have "greedy is_digit (ds @ ?t) (\<lambda>s'. rx_match rest_rx s'
      (m(5 := take (length (pt @ ?t) - length s') (pt @ ?t),
         4 := take (Suc (length (pt @ ?t)) - length s') (CHR '':'' # pt @ ?t))) final) = Some m'"
    using assms(1) m'(1) pt by (intro greedy_all) (simp_all add: Suc_diff_le)
  then have "rx_match (Seq port_rx rest_rx) (render_port pt @ ?t) m final = Some m'"
    using pt assms(1) by (simp add: render_port_def port_rx_def)
  then show ?thesis using m'(2,3,4) by (intro exI [of _ m']) simp
qed

definition after_scheme_rx :: rx where
  "after_scheme_rx = Seq (Group 3 (Plus host_char)) (Seq port_rx rest_rx)"

lemma match_host:
  assumes "h \<noteq> []" and "list_all host_char h"
    and "list_all is_digit pt" and "list_all path_char p" and "p = [] \<or> hd p \<in> set ''/#''"
    and "list_all (\<lambda>c. \<not> is_space c) q" and "m 8 = []" and "m 6 = []" and "m 5 = []"
  shows "\<exists>m'. rx_match after_scheme_rx (h @ render_port pt @ p @ render_query q) m final = Some m' \<and>
    m' 3 = h \<and> m' 5 = pt \<and> m' 6 = p \<and> m' 8 = q \<and> m' 2 = m 2"
proof -
  let ?t = "render_port pt @ p @ render_query q"
  obtain m' where m': "rx_match (Seq port_rx rest_rx) ?t (m(3 := h)) final = Some m'"
    "m' 5 = pt" "m' 6 = p" "m' 8 = q" "\<forall>n<4. m' n = (m(3 := h)) n"
    using match_port [OF assms(3-6), of "m(3 := h)"] assms(7-9) by auto
  obtain c cs where h: "h = c # cs" using assms(1) by (cases h) auto
  have "?t = [] \<or> \<not> host_char (hd ?t)"
    using assms(5) by (cases p) (auto simp: render_port_def render_query_def host_char_def)
  then have "greedy host_char (cs @ ?t) (\<lambda>s'. rx_match (Seq port_rx rest_rx) s'
      (m(3 := take (length (h @ ?t) - length s') (h @ ?t))) final) = Some m'"
    using assms(2) m'(1) h by (intro greedy_all) simp_all
  then have "rx_match after_scheme_rx (h @ ?t) m final = Some m'"
    using h assms(2) by (simp add: after_scheme_rx_def)
  then show ?thesis using m'(2-5) by (intro exI [of _ m']) simp
qed

lemma no_scheme:
  assumes "list_all host_char h" and "rest = [] \<or> \<not> scheme_char (hd rest)" and "\<not> prefix ''://'' rest"
  shows "greedy scheme_char (h @ rest) (\<lambda>s'. if prefix ''://'' s' then k s' else None) = None"
proof -
  define a where "a = takeWhile scheme_char (h @ rest)"
  define b where "b = dropWhile scheme_char (h @ rest)"
  have split: "h @ rest = a @ b" by (simp add: a_def b_def)
  have no_b: "\<not> prefix ''://'' b"
  proof (cases "dropWhile scheme_char h")
    case Nil
    then have "b = rest"
      using assms(2) by (cases rest) (auto simp: b_def dropWhile_append)
    with assms(3) show ?thesis by simp
  next
    case (Cons c cs)
    then have "c \<in> set h" by (metis list.set_intros(1) set_dropWhileD)
    then have "c \<noteq> CHR '':''" using assms(1) by (auto simp: list_all_iff host_char_def)
    moreover have "\<not> (\<forall>x\<in>set h. scheme_char x)" using Cons by (metis dropWhile_eq_Nil_conv list.distinct(1))
    ultimately show ?thesis using Cons unfolding b_def dropWhile_append by auto
  qed
  have "\<not> prefix ''://'' (d @ b)" if "a = c @ d" for c d
  proof (cases d)
    case Nil
    then show ?thesis using no_b by simp
  next
    case (Cons x xs)
    then have "x \<in> set (takeWhile scheme_char (h @ rest))" using that by (simp add: a_def [symmetric])
    then have "scheme_char x" by (meson set_takeWhileD)
    then show ?thesis using Cons by (auto simp: scheme_char_def)
  qed
  moreover have "list_all scheme_char a" by (auto simp: a_def list_all_iff dest: set_takeWhileD)
  moreover have "b = [] \<or> \<not> scheme_char (hd b)" by (metis b_def hd_dropWhile)
  ultimately show ?thesis unfolding split by (intro greedy_None) auto
qed

lemma render_match:
  assumes "url_ok u"
  shows "\<exists>m. regex_match uriRegex (render_url u) = Some m \<and>
    m 2 = scheme u \<and> m 3 = host u \<and> m 5 = port u \<and> m 6 = path u \<and> m 8 = query u"
proof -
  let ?r = "render_port (port u) @ path u @ render_query (query u)"
  let ?w = "host u @ ?r"
  note ok = assms [unfolded url_ok_def]
  have host: "\<exists>m'. rx_match after_scheme_rx ?w m final = Some m' \<and>
    m' 3 = host u \<and> m' 5 = port u \<and> m' 6 = path u \<and> m' 8 = query u \<and> m' 2 = m 2"
    if "m 8 = []" "m 6 = []" "m 5 = []" for m
    using ok that by (intro match_host) auto
  have rx: "regex_match uriRegex s = rx_match (Seq scheme_rx after_scheme_rx) s (\<lambda>_. []) final" for s
    by (simp add: regex_match_def uriRegex_def after_scheme_rx_def rest_rx_def final_def [abs_def])
  show ?thesis
  proof (cases "scheme u = []")
    case True
    have "?r = [] \<or> \<not> scheme_char (hd ?r)" "\<not> prefix ''://'' ?r"
      using ok by (cases "path u"; cases "port u";
        auto simp: render_port_def render_query_def scheme_char_def is_digit_def)+
    then have "greedy scheme_char (host u @ ?r) (\<lambda>s'. if prefix ''://'' s' then k s' else None) = None" for k :: "string \<Rightarrow> groups option"
      using ok by (intro no_scheme) auto
    then have "rx_match (Seq scheme_rx after_scheme_rx) ?w (\<lambda>_. []) final = rx_match after_scheme_rx ?w (\<lambda>_. []) final"
      by (simp add: scheme_rx_def)
    then show ?thesis using host [of "\<lambda>_. []"] True by (auto simp: rx render_url_def)
  next
    case False
    let ?s = "scheme u @ ''://'' @ ?w"
    let ?m = "(\<lambda>_. [])(2 := scheme u, 1 := scheme u @ ''://'') :: groups"
    obtain m' where m': "rx_match after_scheme_rx ?w ?m final = Some m'"
      "m' 3 = host u \<and> m' 5 = port u \<and> m' 6 = path u \<and> m' 8 = query u \<and> m' 2 = ?m 2"
      using host [of ?m] by auto
    have "rx_match (Group 1 (Seq (Group 2 (Star scheme_char)) (Lit ''://''))) ?s (\<lambda>_. []) (\<lambda>s' m. rx_match after_scheme_rx s' m final) = Some m'"
      unfolding rx_match.simps
      using ok m'(1) by (intro greedy_all) (simp_all add: scheme_char_def)
    then show ?thesis using m'(2) False by (simp add: rx render_url_def scheme_rx_def)
  qed
qed

text \<open>
  C34: the parser takes apart what was put together: for a scheme, host, port, path and query
  of the characters each may have, a non-empty host, and a path that is empty or starts with
  \<open>/\<close> or \<open>#\<close>, the URL built from them is parsed to exactly these five.
\<close>

theorem parse_render_url:
  assumes "url_ok u"
  shows "parse_url (render_url u) = Some u"
  using render_match [OF assms] by (cases u) (auto simp: parse_url_def)

theorem parse_render_url_witness:
  "parse_url ''ws://node.a:9000/x?y=1'' =
     Some \<lparr>scheme = ''ws'', host = ''node.a'', port = ''9000'', path = ''/x'', query = ''y=1''\<rparr>"
  using parse_render_url [of "\<lparr>scheme = ''ws'', host = ''node.a'', port = ''9000'', path = ''/x'', query = ''y=1''\<rparr>"]
  by (simp add: url_ok_def render_url_def render_port_def render_query_def scheme_char_def host_char_def
      path_char_def is_digit_def is_space_def less_eq_char_def)

text \<open>
  The path may start with anything, so a URL with a malformed port or with a scheme outside
  \<open>[a-z.]\<close> is accepted: the port becomes part of the path, the scheme becomes the host.
\<close>

lemma malformed_urls_are_accepted:
  "parse_url ''node:http/x'' =
     Some \<lparr>scheme = [], host = ''node'', port = [], path = '':http/x'', query = []\<rparr>"
  "parse_url ''Ws://node/x'' =
     Some \<lparr>scheme = [], host = ''Ws'', port = [], path = ''://node/x'', query = []\<rparr>"
  by (simp_all add: parse_url_def regex_match_def uriRegex_def scheme_rx_def port_rx_def query_rx_def
      scheme_char_def host_char_def path_char_def is_digit_def is_space_def less_eq_char_def)

end
