(* ===== verification/Handshake.thy ===== *)
theory Handshake
  imports Endpoint Url_Parser Config
begin

text \<open>
  How two nodes connect (\<open>subsystems/networking\<close>: \<open>BoostWebSocketConnectionEstablisher\<close>,
  \<open>BoostWebSocketConnectionListener\<close>, \<open>NetworkingManager\<close>): the node that dials resolves and
  connects, then sends its id and waits for the id of the other; the node that listens accepts
  one connection after the other, reads that id and answers with its own. What the sockets
  report and deliver is a parameter; the ids that are written are results. The lemmas show when
  the listener accepts again, and that both nodes end up with the connection in their tables
  under the id the other node was given.
\<close>

section \<open>Dialling\<close>

text \<open>
  What the operations of one attempt report: the resolver for host and port, then the TCP
  connection, the web-socket handshake, the write of the own id, and the read of the other id,
  which gives the bytes that were read or fails.
\<close>

record dial =
  di_resolves :: "string \<Rightarrow> string \<Rightarrow> bool"
  di_connects :: bool
  di_upgrades :: bool
  di_writes :: bool
  di_reads :: "string option"

text \<open>
  Each handler gives the messages it has written to the stream, what becomes of the promise,
  and the endpoint; \<open>me\<close> is the id of the dialling node (\<open>m_this_node_uuid\<close>) and \<open>c\<close> the
  connection object the endpoint makes for the stream.
\<close>

type_synonym attempt = "string list \<times> connection_info result \<times> endpoint"

definition ProcessNodeHandshakeResponse :: "dial \<Rightarrow> conn \<Rightarrow> connection_info \<Rightarrow> endpoint \<Rightarrow> attempt" where
  "ProcessNodeHandshakeResponse d c info s =
     (case di_reads d of
        None \<Rightarrow> ([], Inl ConnectionFailedException, s)
      | Some other \<Rightarrow>
          (let info1 = info\<lparr>endpoint_id := other\<rparr> in ([], Inr info1, AddConnection c info1 s)))"

definition PerformNodeHandshake :: "string \<Rightarrow> dial \<Rightarrow> conn \<Rightarrow> connection_info \<Rightarrow> endpoint \<Rightarrow> attempt" where
  "PerformNodeHandshake me d c info s =
     (if \<not> di_writes d then ([], Inl ConnectionFailedException, s)
      else (let (sent, r, s') = ProcessNodeHandshakeResponse d c info s in (me # sent, r, s')))"

definition dial_ProcessWebSocketHandshake :: "string \<Rightarrow> dial \<Rightarrow> conn \<Rightarrow> string \<Rightarrow> endpoint \<Rightarrow> attempt" where
  "dial_ProcessWebSocketHandshake me d c uri s =
     (if \<not> di_upgrades d then ([], Inl ConnectionFailedException, s)
      else PerformNodeHandshake me d c \<lparr>hostname = uri, endpoint_id = []\<rparr> s)"

definition ProcessEstablishedTcpConnection :: "string \<Rightarrow> dial \<Rightarrow> conn \<Rightarrow> string \<Rightarrow> endpoint \<Rightarrow> attempt" where
  "ProcessEstablishedTcpConnection me d c uri s =
     (if \<not> di_connects d then ([], Inl ConnectionFailedException, s)
      else dial_ProcessWebSocketHandshake me d c uri s)"

definition ProcessResolvedHostnameOfServer ::
  "string \<Rightarrow> dial \<Rightarrow> conn \<Rightarrow> string \<Rightarrow> bool \<Rightarrow> endpoint \<Rightarrow> attempt" where
  "ProcessResolvedHostnameOfServer me d c uri resolved s =
     (if \<not> resolved then ([], Inl CannotResolveHostException, s)
      else ProcessEstablishedTcpConnection me d c uri s)"

definition EstablishConnectionTo :: "string \<Rightarrow> dial \<Rightarrow> conn \<Rightarrow> string \<Rightarrow> endpoint \<Rightarrow> attempt result" where
  "EstablishConnectionTo me d c uri s =
     (case parse_url uri of
        None \<Rightarrow> Inl UrlMalformedException
      | Some url \<Rightarrow>
          Inr (ProcessResolvedHostnameOfServer me d c uri (di_resolves d (host url) (port url)) s))"

lemmas dial_defs = EstablishConnectionTo_def ProcessResolvedHostnameOfServer_def
  ProcessEstablishedTcpConnection_def dial_ProcessWebSocketHandshake_def PerformNodeHandshake_def
  ProcessNodeHandshakeResponse_def

section \<open>Listening\<close>

text \<open>
  The listener: the id of its node (\<open>m_this_node_uuid\<close>), whether its acceptor is open and has
  an accept pending, the streams that are in the web-socket handshake or whose node id it waits
  for, and the messages it has written, each with its stream.
\<close>

record acceptor =
  ac_uuid :: string
  ac_open :: bool
  ac_pending :: bool
  ac_upgrading :: "nat set"
  ac_waiting :: "(nat \<times> string) set"
  ac_written :: "(nat \<times> string) list"

definition make_listener :: "string \<Rightarrow> acceptor" where
  "make_listener me = \<lparr>ac_uuid = me, ac_open = True, ac_pending = False, ac_upgrading = {},
     ac_waiting = {}, ac_written = []\<rparr>"

text \<open>The steps of \<open>Init\<close> and what they may fail with.\<close>

definition Init :: "string \<Rightarrow> bool list \<Rightarrow> acceptor result" where
  "Init me steps_ok =
     (if list_all id steps_ok then Inr (make_listener me) else Inl WebSocketTcpServerException)"

definition StartAcceptingAnotherConnection :: "acceptor \<Rightarrow> acceptor" where
  "StartAcceptingAnotherConnection a = (if \<not> ac_open a then a else a\<lparr>ac_pending := True\<rparr>)"

datatype accept_result = Accepted nat | AcceptedClosed | AcceptAborted | AcceptFailed

definition ProcessTcpConnection :: "accept_result \<Rightarrow> acceptor \<Rightarrow> acceptor" where
  "ProcessTcpConnection r a =
     (let a0 = a\<lparr>ac_pending := False\<rparr>
      in case r of
           AcceptAborted \<Rightarrow> a0
         | AcceptFailed \<Rightarrow> StartAcceptingAnotherConnection a0
         | AcceptedClosed \<Rightarrow> a0
         | Accepted c \<Rightarrow> a0\<lparr>ac_upgrading := insert c (ac_upgrading a0)\<rparr>)"

definition listen_ProcessWebSocketHandshake :: "nat \<Rightarrow> string \<Rightarrow> bool \<Rightarrow> acceptor \<Rightarrow> acceptor" where
  "listen_ProcessWebSocketHandshake c peer ok a =
     (let a0 = a\<lparr>ac_upgrading := ac_upgrading a - {c}\<rparr>
      in if \<not> ok then StartAcceptingAnotherConnection a0
         else a0\<lparr>ac_waiting := insert (c, peer) (ac_waiting a0)\<rparr>)"

text \<open>
  The request: the id that was read, and whether the answer, the id of this node, could be
  written. A failure closes the stream and returns without accepting again.
\<close>

definition ProcessNodeHandshakeRequest ::
  "nat \<Rightarrow> string \<Rightarrow> string option \<Rightarrow> bool \<Rightarrow> acceptor \<times> endpoint \<Rightarrow> acceptor \<times> endpoint" where
  "ProcessNodeHandshakeRequest c peer request written_ok st =
     (let (a, s) = st; a0 = a\<lparr>ac_waiting := ac_waiting a - {(c, peer)}\<rparr>
      in case request of
           None \<Rightarrow> (a0, s)
         | Some other \<Rightarrow>
             (if \<not> written_ok then (a0, s)
              else (StartAcceptingAnotherConnection (a0\<lparr>ac_written := ac_written a0 @ [(c, ac_uuid a0)]\<rparr>),
                    AddConnection c \<lparr>hostname = peer, endpoint_id = other\<rparr> s)))"

definition acceptor_ShutDown :: "acceptor \<Rightarrow> acceptor" where
  "acceptor_ShutDown a = (if ac_open a then a\<lparr>ac_open := False\<rparr> else a)"

text \<open>What can happen to a listener; a pending accept is completed by the acceptor, once.\<close>

inductive listen_step :: "acceptor \<times> endpoint \<Rightarrow> acceptor \<times> endpoint \<Rightarrow> bool" where
  accepts: "ac_pending a \<Longrightarrow> listen_step (a, s) (ProcessTcpConnection r a, s)"
| upgrades: "c \<in> ac_upgrading a \<Longrightarrow> listen_step (a, s) (listen_ProcessWebSocketHandshake c peer ok a, s)"
| requests: "(c, peer) \<in> ac_waiting a \<Longrightarrow>
     listen_step (a, s) (ProcessNodeHandshakeRequest c peer request written_ok (a, s))"
| shuts_down: "listen_step (a, s) (acceptor_ShutDown a, s)"

definition listening :: "string \<Rightarrow> endpoint \<Rightarrow> acceptor \<times> endpoint" where
  "listening me s = (StartAcceptingAnotherConnection (make_listener me), s)"

section \<open>One connection at a time\<close>

text \<open>What the listener is busy with: a pending accept, or one stream in one of the handshakes.\<close>

definition listen_inv :: "acceptor \<Rightarrow> bool" where
  "listen_inv a \<longleftrightarrow> finite (ac_upgrading a) \<and> finite (ac_waiting a) \<and>
     of_bool (ac_pending a) + card (ac_upgrading a) + card (ac_waiting a) \<le> 1"

lemma only_element: "finite A \<Longrightarrow> x \<in> A \<Longrightarrow> card A \<le> 1 \<Longrightarrow> A = {x}"
  by (metis One_nat_def card_le_Suc0_iff_eq insertI1 singletonD subsetI subset_antisym)

lemma listen_inv_busy:
  assumes "listen_inv a"
  shows "ac_pending a \<Longrightarrow> ac_upgrading a = {} \<and> ac_waiting a = {}"
    and "c \<in> ac_upgrading a \<Longrightarrow> ac_upgrading a = {c} \<and> \<not> ac_pending a \<and> ac_waiting a = {}"
    and "w \<in> ac_waiting a \<Longrightarrow> ac_waiting a = {w} \<and> \<not> ac_pending a \<and> ac_upgrading a = {}"
proof -
  have fin: "finite (ac_upgrading a)" "finite (ac_waiting a)"
    and sum: "of_bool (ac_pending a) + card (ac_upgrading a) + card (ac_waiting a) \<le> 1"
    using assms by (simp_all add: listen_inv_def)
  show "ac_pending a \<Longrightarrow> ac_upgrading a = {} \<and> ac_waiting a = {}"
    using fin sum by simp
  show "ac_upgrading a = {c} \<and> \<not> ac_pending a \<and> ac_waiting a = {}" if c: "c \<in> ac_upgrading a"
  proof -
    have "0 < card (ac_upgrading a)" using c fin by (auto simp: card_gt_0_iff)
    then have "card (ac_waiting a) = 0" "\<not> ac_pending a" "card (ac_upgrading a) \<le> 1"
      using sum by (cases "ac_pending a"; simp)+
    with only_element [OF fin(1) c] fin show ?thesis by (metis card_0_eq)
  qed
  show "ac_waiting a = {w} \<and> \<not> ac_pending a \<and> ac_upgrading a = {}" if w: "w \<in> ac_waiting a"
  proof -
    have "0 < card (ac_waiting a)" using w fin by (auto simp: card_gt_0_iff)
    then have "card (ac_upgrading a) = 0" "\<not> ac_pending a" "card (ac_waiting a) \<le> 1"
      using sum by (cases "ac_pending a"; simp)+
    with only_element [OF fin(2) w] fin show ?thesis by (metis card_0_eq)
  qed
qed

lemma listen_inv_ProcessTcpConnection:
  assumes "listen_inv a" and "ac_pending a"
  shows "listen_inv (ProcessTcpConnection r a)"
proof -
  have "ac_upgrading a = {}" "ac_waiting a = {}" using listen_inv_busy(1) [OF assms] by blast+
  then show ?thesis
    by (cases r) (simp_all add: ProcessTcpConnection_def StartAcceptingAnotherConnection_def listen_inv_def Let_def)
qed

lemma listen_inv_upgrades:
  assumes "listen_inv a" and "c \<in> ac_upgrading a"
  shows "listen_inv (listen_ProcessWebSocketHandshake c peer ok a)"
proof -
  have "ac_upgrading a = {c}" "\<not> ac_pending a" "ac_waiting a = {}"
    using listen_inv_busy(2) [OF assms] by blast+
  then show ?thesis
    by (simp add: listen_ProcessWebSocketHandshake_def StartAcceptingAnotherConnection_def listen_inv_def Let_def)
qed

lemma listen_inv_requests:
  assumes "listen_inv a" and "(c, peer) \<in> ac_waiting a"
  shows "listen_inv (fst (ProcessNodeHandshakeRequest c peer request written_ok (a, s)))"
proof -
  have "ac_waiting a = {(c, peer)}" "\<not> ac_pending a" "ac_upgrading a = {}"
    using listen_inv_busy(3) [OF assms] by blast+
  then show ?thesis
    by (cases request)
      (simp_all add: ProcessNodeHandshakeRequest_def StartAcceptingAnotherConnection_def listen_inv_def Let_def)
qed

lemma listen_inv_step: "listen_step st st' \<Longrightarrow> listen_inv (fst st) \<Longrightarrow> listen_inv (fst st')"
  by (induction rule: listen_step.induct)
    (simp_all add: listen_inv_ProcessTcpConnection listen_inv_upgrades listen_inv_requests,
      simp add: acceptor_ShutDown_def listen_inv_def)

interpretation listeners: invariant_system "\<lambda>st. \<exists>me e. st = listening me e" listen_step "\<lambda>st. listen_inv (fst st)"
proof unfold_locales
  show "listen_inv (fst st)" if "\<exists>me e. st = listening me e" for st
    using that by (auto simp: listening_def make_listener_def StartAcceptingAnotherConnection_def listen_inv_def)
qed (rule listen_inv_step)

definition idle :: "acceptor \<Rightarrow> bool" where
  "idle a \<longleftrightarrow> \<not> ac_pending a \<and> ac_upgrading a = {} \<and> ac_waiting a = {}"

lemma idle_step: "listen_step st st' \<Longrightarrow> idle (fst st) \<Longrightarrow> idle (fst st') \<and> snd st' = snd st"
  by (induction rule: listen_step.induct) (auto simp: idle_def acceptor_ShutDown_def)

text \<open>An acceptor with nothing to do stays so, and the endpoint \<open>e\<close> gets no more connections.\<close>

interpretation idle_listener: invariant_system "\<lambda>st. idle (fst st) \<and> snd st = e" listen_step
  "\<lambda>st. idle (fst st) \<and> snd st = e" for e
  by unfold_locales (auto dest: idle_step)

text \<open>
  C38: one peer can end the listening. The listener deals with one connection at a time, and
  it does not accept another one when the id of a peer cannot be read or answered: from then
  on nothing is pending and, whatever happens, no connection is added any more.
\<close>

theorem failed_node_handshake_ends_the_listening:
  assumes "listen_step\<^sup>*\<^sup>* (listening me e) (a, s)" and "(c, peer) \<in> ac_waiting a"
    and "request = None \<or> \<not> written_ok"
    and "listen_step\<^sup>*\<^sup>* (ProcessNodeHandshakeRequest c peer request written_ok (a, s)) (a', s')"
  shows "\<not> ac_pending a' \<and> ac_upgrading a' = {} \<and> ac_waiting a' = {} \<and> s' = s"
proof -
  let ?st = "ProcessNodeHandshakeRequest c peer request written_ok (a, s)"
  have "listen_inv a" using listeners.inv_run [OF _ assms(1)] by auto
  from listen_inv_busy(3) [OF this assms(2)] have "idle (fst ?st)" "snd ?st = s"
    using assms(3) by (auto simp: ProcessNodeHandshakeRequest_def idle_def Let_def split: option.splits)
  then show ?thesis using idle_listener.inv_steps [OF assms(4)] by (simp add: idle_def)
qed

definition demo_acceptor :: acceptor where
  "demo_acceptor = (make_listener ''b'')\<lparr>ac_waiting := {(7, ''10.0.0.2:5000'')}\<rparr>"

lemma demo_acceptor_reachable: "listen_step\<^sup>*\<^sup>* (listening ''b'' e) (demo_acceptor, e)"
proof -
  let ?a0 = "(make_listener ''b'')\<lparr>ac_upgrading := {7}\<rparr>"
  have "listen_step (listening ''b'' e) (ProcessTcpConnection (Accepted 7) (fst (listening ''b'' e)), e)"
    unfolding listening_def fst_conv
    by (rule listen_step.accepts) (simp add: StartAcceptingAnotherConnection_def make_listener_def)
  moreover have "ProcessTcpConnection (Accepted 7) (fst (listening ''b'' e)) = ?a0"
    by (simp add: ProcessTcpConnection_def listening_def make_listener_def StartAcceptingAnotherConnection_def)
  moreover have "listen_step (?a0, e) (listen_ProcessWebSocketHandshake 7 ''10.0.0.2:5000'' True ?a0, e)"
    by (rule listen_step.upgrades) simp
  moreover have "listen_ProcessWebSocketHandshake 7 ''10.0.0.2:5000'' True ?a0 = demo_acceptor"
    by (simp add: listen_ProcessWebSocketHandshake_def demo_acceptor_def make_listener_def)
  ultimately show ?thesis by (simp add: converse_rtranclp_into_rtranclp [OF _ r_into_rtranclp])
qed

theorem failed_node_handshake_ends_the_listening_witness:
  "\<not> ac_pending (fst (ProcessNodeHandshakeRequest 7 ''10.0.0.2:5000'' None True
     (demo_acceptor, make_endpoint True True True)))"
proof -
  obtain a' s' where st: "ProcessNodeHandshakeRequest 7 ''10.0.0.2:5000'' None True
      (demo_acceptor, make_endpoint True True True) = (a', s')" by fastforce
  have "(7, ''10.0.0.2:5000'') \<in> ac_waiting demo_acceptor" by (simp add: demo_acceptor_def)
  from failed_node_handshake_ends_the_listening [OF demo_acceptor_reachable this, where e = "make_endpoint True True True" and request = None and written_ok = True and a' = a' and s' = s'] st
  show ?thesis by simp
qed

section \<open>Both ends\<close>

lemma GetConnection_AddConnection:
  assumes "endpoint_ok s" and "running s" and "c \<notin> live s"
  shows "GetConnection (endpoint_id info) (AddConnection c info s) = Some c"
proof -
  have "endpoint_ok (AddConnection c info s)" using assms(1,3) by (rule endpoint_ok_AddConnection)
  moreover have "map_get (connections s) (endpoint_id info) \<noteq> Some c"
    using endpoint_okD(5) [OF assms(1)] assms(3) by blast
  then have "c \<in> stream_open (AddConnection c info s)"
    using assms(2) by (auto simp: AddConnection_def StartReceivingMessages_def Let_def split: option.splits)
  ultimately show ?thesis using assms(2) by (simp add: GetConnection_iff AddConnection_simps)
qed

lemma attempt_succeeds_iff:
  "EstablishConnectionTo me d c uri s = Inr (sent, Inr info, s') \<longleftrightarrow>
     (\<exists>url other. parse_url uri = Some url \<and> di_resolves d (host url) (port url) \<and> di_connects d \<and>
        di_upgrades d \<and> di_writes d \<and> di_reads d = Some other \<and> sent = [me] \<and>
        info = \<lparr>hostname = uri, endpoint_id = other\<rparr> \<and> s' = AddConnection c info s)"
  by (auto simp: dial_defs Let_def split: option.splits)

lemma failed_attempt:
  "EstablishConnectionTo me d c uri s = Inr (sent, Inl x, s') \<Longrightarrow>
     s' = s \<and> (sent = [] \<or> sent = [me] \<and> di_reads d = None) \<and>
     (x = CannotResolveHostException \<or> x = ConnectionFailedException)"
  by (auto simp: dial_defs Let_def split: option.splits if_splits)

text \<open>
  The two ends of one stream: what has been written to it, and what the read at the other end
  gives when nothing is lost, the first message or, if there is none, an error.
\<close>

definition written_to :: "nat \<Rightarrow> acceptor \<Rightarrow> string list" where
  "written_to c a = map snd (filter (\<lambda>(c', _). c' = c) (ac_written a))"

definition delivered :: "string list \<Rightarrow> string option" where
  "delivered ms = (case ms of [] \<Rightarrow> None | m # _ \<Rightarrow> Some m)"

lemma answer_written:
  "written_to c (fst (ProcessNodeHandshakeRequest c peer request ok (a, s))) =
     written_to c a @ (if request \<noteq> None \<and> ok then [ac_uuid a] else [])"
  by (auto simp: ProcessNodeHandshakeRequest_def StartAcceptingAnotherConnection_def written_to_def
      Let_def split: option.splits)

lemma request_outcome:
  "snd (ProcessNodeHandshakeRequest c peer request ok (a, s)) =
     (case request of Some other \<Rightarrow>
        if ok then AddConnection c \<lparr>hostname = peer, endpoint_id = other\<rparr> s else s | None \<Rightarrow> s)"
  "request \<noteq> None \<Longrightarrow> ok \<Longrightarrow> ac_open a \<Longrightarrow>
     ac_pending (fst (ProcessNodeHandshakeRequest c peer request ok (a, s)))"
  by (auto simp: ProcessNodeHandshakeRequest_def StartAcceptingAnotherConnection_def Let_def
      split: option.splits)

text \<open>
  C8: a handshake connects both nodes or neither. A node with the id \<open>me\<close> dials a listener and
  the two are joined by a fresh stream that loses nothing: the listener reads what the dialler
  wrote, and the dialler reads what the listener wrote in return. If the attempt succeeds, the
  dialler's promise holds the id of the listening node, the dialler uses the new connection for
  that id and the listener uses it for \<open>me\<close>, and the listener, unless shut down, accepts again.
  If it fails, in any of its steps, both endpoints are as they were.
\<close>

theorem handshake_connects_both_nodes:
  assumes "endpoint_ok e1" and "running e1" and "c1 \<notin> live e1"
    and "endpoint_ok e2" and "running e2" and "c2 \<notin> live e2"
    and "EstablishConnectionTo me d c1 uri e1 = Inr (sent, r, e1')"
    and "ProcessNodeHandshakeRequest c2 peer request written_ok (a, e2) = (a', e2')"
    and "written_to c2 a = []" and "request = delivered sent"
    and "di_reads d = delivered (written_to c2 a')"
  shows "case r of
      Inr info \<Rightarrow> endpoint_id info = ac_uuid a \<and> hostname info = uri \<and>
        GetConnection (ac_uuid a) e1' = Some c1 \<and> GetConnection me e2' = Some c2 \<and>
        (ac_open a \<longrightarrow> ac_pending a')
    | Inl x \<Rightarrow> e1' = e1 \<and> e2' = e2 \<and>
        (x = CannotResolveHostException \<or> x = ConnectionFailedException)"
proof (cases r)
  case (Inl x)
  have "written_to c2 a' = (if request \<noteq> None \<and> written_ok then [ac_uuid a] else [])"
    using answer_written [of c2 peer request written_ok a e2] assms(8,9) by simp
  moreover have "e1' = e1" "sent = [] \<or> di_reads d = None"
    "x = CannotResolveHostException \<or> x = ConnectionFailedException"
    using failed_attempt [OF assms(7) [unfolded Inl]] by auto
  moreover have "e2' = snd (ProcessNodeHandshakeRequest c2 peer request written_ok (a, e2))"
    using assms(8) by simp
  ultimately show ?thesis
    using Inl assms(10,11) unfolding request_outcome
    by (cases sent; cases written_ok) (auto simp: delivered_def)
next
  case (Inr info)
  obtain other where sent: "sent = [me]" and reads: "di_reads d = Some other"
    and info: "info = \<lparr>hostname = uri, endpoint_id = other\<rparr>" "e1' = AddConnection c1 info e1"
    using assms(7) unfolding Inr attempt_succeeds_iff by blast
  have req: "request = Some me" using assms(10) sent by (simp add: delivered_def)
  have "written_to c2 a' = (if written_ok then [ac_uuid a] else [])"
    using answer_written [of c2 peer request written_ok a e2] assms(8,9) req by simp
  then have ok: "written_ok" "other = ac_uuid a"
    using assms(11) reads by (auto simp: delivered_def split: if_splits)
  have "e2' = AddConnection c2 \<lparr>hostname = peer, endpoint_id = me\<rparr> e2" "ac_open a \<longrightarrow> ac_pending a'"
    using request_outcome(1) [of c2 peer request written_ok a e2]
      request_outcome(2) [of request written_ok a c2 peer e2] assms(8) req ok by simp_all
  then show ?thesis
    using Inr info ok GetConnection_AddConnection [OF assms(1-3), of info]
      GetConnection_AddConnection [OF assms(4-6), of "\<lparr>hostname = peer, endpoint_id = me\<rparr>"] by simp
qed

theorem handshake_connects_both_nodes_witness:
  "GetConnection ''b'' (AddConnection 1 \<lparr>hostname = ''ws://b:9000'', endpoint_id = ''b''\<rparr>
      (make_endpoint True True True)) = Some 1 \<and>
   GetConnection ''a'' (snd (ProcessNodeHandshakeRequest 7 ''10.0.0.2:5000'' (Some ''a'') True
      (demo_acceptor, make_endpoint True True True))) = Some 7"
proof -
  let ?e = "make_endpoint True True True"
  let ?info = "\<lparr>hostname = ''ws://b:9000'', endpoint_id = ''b''\<rparr>"
  let ?d = "\<lparr>di_resolves = \<lambda>_ _. True, di_connects = True, di_upgrades = True, di_writes = True, di_reads = Some ''b''\<rparr>"
  have ok: "endpoint_ok ?e" "running ?e" "1 \<notin> live ?e" "7 \<notin> live ?e"
    by (simp_all add: endpoint_ok_def make_endpoint_def)
  have "\<exists>url. parse_url ''ws://b:9000'' = Some url"
    by (simp add: parse_url_def regex_match_def uriRegex_def scheme_rx_def port_rx_def query_rx_def
        scheme_char_def host_char_def path_char_def is_digit_def is_space_def less_eq_char_def)
  then have dial: "EstablishConnectionTo ''a'' ?d 1 ''ws://b:9000'' ?e = Inr ([''a''], Inr ?info, AddConnection 1 ?info ?e)"
    by (auto simp: attempt_succeeds_iff)
  obtain a' e2' where l: "ProcessNodeHandshakeRequest 7 ''10.0.0.2:5000'' (Some ''a'') True (demo_acceptor, ?e) = (a', e2')"
    by fastforce
  have demo: "written_to 7 demo_acceptor = []" "ac_uuid demo_acceptor = ''b''"
    by (simp_all add: demo_acceptor_def make_listener_def written_to_def)
  then have "written_to 7 a' = [''b'']"
    using answer_written [of 7 "''10.0.0.2:5000''" "Some ''a''" True demo_acceptor ?e] l by simp
  then show ?thesis
    using handshake_connects_both_nodes [OF ok(1,2,3) ok(1,2,4) dial l demo(1)] l demo(2)
    by (simp add: delivered_def)
qed

end
