(* ===== verification/Core_System.thy ===== *)
theory Core_System
  imports Handshake Subsystems
begin

text \<open>
  Starting the kernel (\<open>core/src/Core.cpp\<close>) and the networking manager
  (\<open>subsystems/networking/src/NetworkingManager.cpp\<close>): the subsystems are constructed in one
  order, each from the configuration and from the subsystems that exist already. The theory
  keeps of each subsystem what the construction of the others sees of it, and shows which
  subsystems a started kernel provides and which options keep it from starting.
\<close>

section \<open>The kernel\<close>

datatype kernel_object =
    KJobManager int "string list"
  | KEventBroker "string list"
  | KPropertyProvider "string smap"
  | KResourceManager "string list"
  | KLocalRegistry "string list"
  | KRemoteRegistry "string list"
  | KNetworkingManager
  | KEndpoint nat endpoint
  | KPluginManager
  | KEncoder string
  | KRenderer nat

type_synonym kernel = "kernel_object subsystem_manager"

text \<open>
  What the environment decides: the random id of a node, whether the text of an address is
  one, whether the acceptor can be set up, and how many more threads the system will start.
\<close>

record environment =
  en_uuid :: string
  en_address :: "string \<Rightarrow> bool"
  en_listens :: "bool list"
  en_threads :: nat

definition put_object :: "string \<Rightarrow> kernel_object \<Rightarrow> kernel \<Rightarrow> kernel" where
  "put_object ty x k = AddOrReplaceSubsystem ty x k"

text \<open>A call on a required subsystem that changes it.\<close>

definition on_object :: "string \<Rightarrow> (kernel_object \<Rightarrow> kernel_object) \<Rightarrow> kernel \<Rightarrow> kernel result" where
  "on_object ty f k = bind_result (RequireSubsystem ty k) (\<lambda>x. Inr (put_object ty (f x) k))"

fun add_job :: "string \<Rightarrow> kernel_object \<Rightarrow> kernel_object" where
  "add_job name (KJobManager n names) = KJobManager n (names @ [name])"
| "add_job name x = x"

fun add_topic :: "string \<Rightarrow> kernel_object \<Rightarrow> kernel_object" where
  "add_topic topic (KEventBroker topics) = KEventBroker (topics @ [topic])"
| "add_topic topic x = x"

fun set_property :: "string \<Rightarrow> string \<Rightarrow> kernel_object \<Rightarrow> kernel_object" where
  "set_property key v (KPropertyProvider tree) = KPropertyProvider (map_put key v tree)"
| "set_property key v x = x"

fun add_consumer_of :: "nat \<Rightarrow> string \<Rightarrow> kernel_object \<Rightarrow> kernel_object" where
  "add_consumer_of n ty (KEndpoint t e) = KEndpoint t (AddMessageConsumer \<lparr>co_object = n, co_type = ty\<rparr> e)"
| "add_consumer_of n ty x = x"

fun add_service :: "string \<Rightarrow> kernel_object \<Rightarrow> kernel_object" where
  "add_service name (KLocalRegistry names) = KLocalRegistry (names @ [name])"
| "add_service name (KRemoteRegistry names) = KRemoteRegistry (names @ [name])"
| "add_service name x = x"

fun property_or_else :: "string \<Rightarrow> string \<Rightarrow> kernel_object \<Rightarrow> string" where
  "property_or_else key v (KPropertyProvider tree) = (case map_get tree key of Some x \<Rightarrow> x | None \<Rightarrow> v)"
| "property_or_else key v x = v"

text \<open>
  The loop that starts threads, from the index \<open>i\<close> up to the count \<open>n\<close>, with \<open>free\<close> the number
  of threads the system still has to give; the result is what is left of them. When it has none,
  the constructor of \<open>std::thread\<close> throws, and unwinding destroys the threads already started,
  which are still joinable: that ends the program.
\<close>

fun create_threads :: "nat \<Rightarrow> nat \<Rightarrow> nat \<Rightarrow> nat result" where
  "create_threads i n free =
     (if i < n then
        (case free of
           0 \<Rightarrow> Inl (if i = 0 then SystemError else Terminated)
         | Suc rest \<Rightarrow> create_threads (Suc i) n rest)
      else Inr free)"

declare create_threads.simps [simp del]

definition use_threads :: "nat \<Rightarrow> environment \<Rightarrow> environment result" where
  "use_threads n env = bind_result (create_threads 0 n (en_threads env)) (\<lambda>free. Inr (env\<lparr>en_threads := free\<rparr>))"

section \<open>Constructors\<close>

definition new_job_manager :: "configuration \<Rightarrow> kernel_object result" where
  "new_job_manager config =
     bind_result (GetAsInt ''jobs.concurrency'' 4 config) (\<lambda>n. Inr (KJobManager n []))"

text \<open>The broker and the endpoint kick their clean-up jobs.\<close>

definition new_event_broker :: "kernel \<Rightarrow> (kernel_object \<times> kernel) result" where
  "new_event_broker k =
     bind_result (on_object ''JobManager'' (add_job ''events-listener-clean-up'') k) (\<lambda>k1. Inr (KEventBroker [], k1))"

definition InitAndStartConnectionListener :: "environment \<Rightarrow> kernel \<Rightarrow> acceptor result" where
  "InitAndStartConnectionListener env k =
     bind_result (RequireSubsystem ''PropertyProvider'' k) (\<lambda>property_provider.
     bind_result (Init (property_or_else ''net.node.id'' [] property_provider) (en_listens env)) (\<lambda>a. Inr (StartAcceptingAnotherConnection a)))"

text \<open>
  The thread count is an \<open>int\<close> that the loop converts to \<open>size_t\<close> to compare it: a negative one
  asks for more than \<open>2 ^ 63\<close> threads.
\<close>

definition io_threads :: "int \<Rightarrow> nat" where
  "io_threads thread_count = unat (word_of_int thread_count :: 64 word)"

definition new_endpoint :: "environment \<Rightarrow> configuration \<Rightarrow> kernel \<Rightarrow> (kernel_object \<times> kernel) result" where
  "new_endpoint env config k =
     bind_result (GetBool ''net.server.auto-init'' True config) (\<lambda>init_server_at_startup.
     bind_result (GetAsInt ''net.threads'' 1 config) (\<lambda>thread_count.
     bind_result (GetAsInt ''net.port'' 9000 config) (\<lambda>local_endpoint_port.
     bind_result (Get ''net.address'' ''127.0.0.1'' config) (\<lambda>local_endpoint_address.
       if \<not> en_address env local_endpoint_address then Inl (UserException ''make_address'')
       else bind_result (if init_server_at_startup
                         then bind_result (InitAndStartConnectionListener env k) (\<lambda>a. Inr ()) else Inr ()) (\<lambda>_.
            bind_result (use_threads (io_threads thread_count) env) (\<lambda>_.
            bind_result (on_object ''JobManager''
              (add_job (''boost-web-socket-endpoints-clean-up-'' @
                 to_string (unat (word_of_int local_endpoint_port :: 16 word)))) k) (\<lambda>k1.
            Inr (KEndpoint (io_threads thread_count)
                   (make_endpoint init_server_at_startup True (ProvidesSubsystem ''IEventBroker'' k)), k1))))))))"

definition ConfigureNode :: "environment \<Rightarrow> configuration \<Rightarrow> kernel \<Rightarrow> kernel result" where
  "ConfigureNode env config k =
     bind_result (Get ''net.node.id'' (en_uuid env) config) (\<lambda>node_id.
       on_object ''PropertyProvider'' (set_property ''net.node.id'' node_id) k)"

definition StartMessageEndpointServer :: "environment \<Rightarrow> configuration \<Rightarrow> kernel \<Rightarrow> kernel result" where
  "StartMessageEndpointServer env config k =
     bind_result (new_endpoint env config k) (\<lambda>(message_endpoint, k1).
       Inr (put_object ''IMessageEndpoint'' message_endpoint k1))"

text \<open>The flag is read as a number, with \<open>true\<close> as the default.\<close>

definition new_networking_manager :: "environment \<Rightarrow> configuration \<Rightarrow> kernel \<Rightarrow> (kernel_object \<times> kernel) result" where
  "new_networking_manager env config k =
     bind_result (ConfigureNode env config k) (\<lambda>k1.
     bind_result (GetAsInt ''net.autoInit'' 1 config) (\<lambda>auto_init_websocket_server.
     bind_result (if auto_init_websocket_server \<noteq> 0 then StartMessageEndpointServer env config k1 else Inr k1) (\<lambda>k2.
       Inr (KNetworkingManager, k2))))"

definition SetupMessageConsumers :: "kernel \<Rightarrow> kernel result" where
  "SetupMessageConsumers k =
     on_object ''IMessageEndpoint''
       (add_consumer_of 3 ''service-request'' \<circ> add_consumer_of 2 ''service-response'' \<circ>
          add_consumer_of 1 ''register-remote-service'') k"

definition SetupEventSubscribers :: "kernel \<Rightarrow> kernel result" where
  "SetupEventSubscribers k = on_object ''IEventBroker'' (add_topic ''connection-established'') k"

definition new_remote_registry :: "kernel \<Rightarrow> (kernel_object \<times> kernel) result" where
  "new_remote_registry k =
     bind_result (SetupMessageConsumers k) (\<lambda>k1.
     bind_result (SetupEventSubscribers k1) (\<lambda>k2. Inr (KRemoteRegistry [], k2)))"

section \<open>The core\<close>

definition Core_set :: "string \<Rightarrow> kernel_object \<times> kernel \<Rightarrow> kernel" where
  "Core_set ty xk = put_object ty (fst xk) (snd xk)"

definition Core_get :: "string \<Rightarrow> kernel \<Rightarrow> kernel_object result" where
  "Core_get ty k = RequireSubsystem ty k"

text \<open>
  The constructor up to the registry, then the registry and the plugin manager. Starting the
  execution of jobs starts a thread per worker (none for a negative number, which is compared as
  an \<open>int\<close>), and the resource manager starts one thread.
\<close>

fun worker_count :: "kernel_object \<Rightarrow> nat" where
  "worker_count (KJobManager n names) = nat n"
| "worker_count x = 0"

definition start_base :: "environment \<Rightarrow> configuration \<Rightarrow> (environment \<times> kernel) result" where
  "start_base env config =
     bind_result (new_job_manager config) (\<lambda>job_manager.
     bind_result (use_threads (worker_count job_manager) env) (\<lambda>env1.
     bind_result (new_event_broker (Core_set ''JobManager'' (job_manager, Map.empty))) (\<lambda>broker.
       let k1 = Core_set ''IEventBroker'' broker;
           k2 = Core_set ''PropertyProvider'' (KPropertyProvider [], k1)
       in bind_result (use_threads 1 env1) (\<lambda>env2.
            Inr (env2, Core_set ''IResourceManager'' (KResourceManager [''file''], k2))))))"

definition start_registry :: "environment \<Rightarrow> configuration \<Rightarrow> bool \<Rightarrow> kernel \<Rightarrow> kernel result" where
  "start_registry env config only_local k =
     (if only_local then Inr (Core_set ''IServiceRegistry'' (KLocalRegistry [], k))
      else bind_result (new_networking_manager env config k) (\<lambda>networking.
           bind_result (new_remote_registry (Core_set ''NetworkingManager'' networking)) (\<lambda>registry.
             Inr (Core_set ''IServiceRegistry'' registry))))"

definition Core_init :: "environment \<Rightarrow> configuration \<Rightarrow> bool \<Rightarrow> kernel result" where
  "Core_init env config only_local =
     bind_result (start_base env config) (\<lambda>(env1, k).
     bind_result (start_registry env1 config only_local k) (\<lambda>k1.
       Inr (Core_set ''IPluginManager'' (KPluginManager, k1))))"

text \<open>
  The rendering service: its renderer is the one given or the subsystem; constructing it
  registers an encoder if there is none.
\<close>

definition EnableRenderingService :: "nat option \<Rightarrow> kernel \<Rightarrow> kernel result" where
  "EnableRenderingService service_renderer k =
     bind_result (case service_renderer of
                    Some r \<Rightarrow> Inr (KRenderer r)
                  | None \<Rightarrow> RequireSubsystem ''IRenderer'' k) (\<lambda>_.
       let k1 = (if \<not> ProvidesSubsystem ''IRenderResultEncoder'' k
                 then put_object ''IRenderResultEncoder'' (KEncoder ''plain'') k else k)
       in on_object ''IServiceRegistry'' (add_service ''render'') k1)"

text \<open>The rendering job: \<open>render\<close> is what the renderer's \<open>Render\<close> returns.\<close>

definition EnableRenderingJob :: "kernel \<Rightarrow> kernel result" where
  "EnableRenderingJob k = on_object ''JobManager'' (add_job ''enable-rendering-job'') k"

definition rendering_job :: "(kernel_object \<Rightarrow> bool) \<Rightarrow> kernel \<Rightarrow> bool result" where
  "rendering_job render k =
     bind_result (GetSubsystem ''IRenderer'' k) (\<lambda>r.
       Inr (case r of Some x \<Rightarrow> render x | None \<Rightarrow> False))"

section \<open>Its subsystems\<close>

text \<open>
  Setters replace an owner, getters borrow from it and throw if there is none; the flag that the
  main loop asks for is beside them.
\<close>

definition Core_SetEventBroker :: "kernel_object \<Rightarrow> kernel \<Rightarrow> kernel" where
  "Core_SetEventBroker x k = put_object ''IEventBroker'' x k"

definition Core_GetEventBroker :: "kernel \<Rightarrow> kernel_object result" where
  "Core_GetEventBroker k = RequireSubsystem ''IEventBroker'' k"

definition Core_SetPropertyProvider :: "kernel_object \<Rightarrow> kernel \<Rightarrow> kernel" where
  "Core_SetPropertyProvider x k = put_object ''PropertyProvider'' x k"

definition Core_GetPropertyProvider :: "kernel \<Rightarrow> kernel_object result" where
  "Core_GetPropertyProvider k = RequireSubsystem ''PropertyProvider'' k"

definition Core_SetResourceManager :: "kernel_object \<Rightarrow> kernel \<Rightarrow> kernel" where
  "Core_SetResourceManager x k = put_object ''IResourceManager'' x k"

definition Core_GetResourceManager :: "kernel \<Rightarrow> kernel_object result" where
  "Core_GetResourceManager k = RequireSubsystem ''IResourceManager'' k"

definition Core_SetServiceRegistry :: "kernel_object \<Rightarrow> kernel \<Rightarrow> kernel" where
  "Core_SetServiceRegistry x k = put_object ''IServiceRegistry'' x k"

definition Core_GetServiceRegistry :: "kernel \<Rightarrow> kernel_object result" where
  "Core_GetServiceRegistry k = RequireSubsystem ''IServiceRegistry'' k"

definition Core_SetNetworkingManager :: "kernel_object \<Rightarrow> kernel \<Rightarrow> kernel" where
  "Core_SetNetworkingManager x k = put_object ''NetworkingManager'' x k"

definition Core_GetNetworkingManager :: "kernel \<Rightarrow> kernel_object result" where
  "Core_GetNetworkingManager k = RequireSubsystem ''NetworkingManager'' k"

definition Core_SetPluginManager :: "kernel_object \<Rightarrow> kernel \<Rightarrow> kernel" where
  "Core_SetPluginManager x k = put_object ''IPluginManager'' x k"

definition Core_GetPluginManager :: "kernel \<Rightarrow> kernel_object result" where
  "Core_GetPluginManager k = RequireSubsystem ''IPluginManager'' k"

definition Core_SetRenderer :: "kernel_object \<Rightarrow> kernel \<Rightarrow> kernel" where
  "Core_SetRenderer x k = put_object ''IRenderer'' x k"

definition Core_GetRenderer :: "kernel \<Rightarrow> kernel_object result" where
  "Core_GetRenderer k = RequireSubsystem ''IRenderer'' k"

definition Core_GetJobManager :: "kernel \<Rightarrow> kernel_object result" where
  "Core_GetJobManager k = RequireSubsystem ''JobManager'' k"

record core =
  core_subsystems :: kernel
  m_should_shutdown :: bool

definition Core_Shutdown :: "bool \<Rightarrow> core \<Rightarrow> core" where
  "Core_Shutdown v c = c\<lparr>m_should_shutdown := v\<rparr>"

definition Core_ShouldShutdown :: "core \<Rightarrow> bool" where
  "Core_ShouldShutdown c = m_should_shutdown c"

section \<open>What a started kernel provides\<close>

lemma Require_put [simp]:
  "RequireSubsystem ty (put_object ty' x k) = (if ty = ty' then Inr x else RequireSubsystem ty k)"
  by (simp add: RequireSubsystem_def GetSubsystem_def put_object_def AddOrReplaceSubsystem_def)

lemma Provides_put [simp]: "ProvidesSubsystem ty (put_object ty' x k) \<longleftrightarrow> ty = ty' \<or> ProvidesSubsystem ty k"
  by (auto simp: ProvidesSubsystem_def put_object_def AddOrReplaceSubsystem_def)

lemma Require_empty [simp]: "RequireSubsystem ty Map.empty = Inl SubsystemNotFoundException"
  by (simp add: RequireSubsystem_def GetSubsystem_def)

lemma Provides_empty [simp]: "\<not> ProvidesSubsystem ty Map.empty"
  by (simp add: ProvidesSubsystem_def)

lemma setters_do_not_interfere:
  "Core_GetEventBroker (Core_SetEventBroker x k) = Inr x"
  "Core_GetPropertyProvider (Core_SetPropertyProvider x k) = Inr x"
  "Core_GetResourceManager (Core_SetResourceManager x k) = Inr x"
  "Core_GetServiceRegistry (Core_SetServiceRegistry x k) = Inr x"
  "Core_GetNetworkingManager (Core_SetNetworkingManager x k) = Inr x"
  "Core_GetPluginManager (Core_SetPluginManager x k) = Inr x"
  "Core_GetRenderer (Core_SetRenderer x k) = Inr x"
  "Core_GetJobManager (Core_SetRenderer x k) = Core_GetJobManager k"
  "ty \<noteq> ''IRenderer'' \<Longrightarrow> RequireSubsystem ty (Core_SetRenderer x k) = RequireSubsystem ty k"
  by (simp_all add: Core_SetEventBroker_def Core_GetEventBroker_def Core_SetPropertyProvider_def Core_GetPropertyProvider_def Core_SetResourceManager_def Core_GetResourceManager_def Core_SetServiceRegistry_def Core_GetServiceRegistry_def Core_SetNetworkingManager_def Core_GetNetworkingManager_def Core_SetPluginManager_def Core_GetPluginManager_def Core_SetRenderer_def Core_GetRenderer_def Core_GetJobManager_def)

definition base_kernel :: "int \<Rightarrow> kernel" where
  "base_kernel n =
     put_object ''IResourceManager'' (KResourceManager [''file''])
    (put_object ''PropertyProvider'' (KPropertyProvider [])
    (put_object ''IEventBroker'' (KEventBroker [])
    (put_object ''JobManager'' (KJobManager n [''events-listener-clean-up''])
    (put_object ''JobManager'' (KJobManager n []) Map.empty))))"

lemma create_threads_eq:
  assumes "i \<le> n"
  shows "create_threads i n free =
    (if n - i \<le> free then Inr (free - (n - i)) else Inl (if i = 0 \<and> free = 0 then SystemError else Terminated))"
  using assms
proof (induction i n free rule: create_threads.induct)
  case (1 i n free)
  show ?case
  proof (cases "i < n")
    case True
    show ?thesis
    proof (cases free)
      case 0
      with True show ?thesis by (simp add: create_threads.simps [of i])
    next
      case (Suc rest)
      with True 1 have "create_threads (Suc i) n rest = (if n - Suc i \<le> rest then Inr (rest - (n - Suc i))
          else Inl (if Suc i = 0 \<and> rest = 0 then SystemError else Terminated))" by simp
      with True Suc show ?thesis by (subst create_threads.simps) (simp, linarith)
    qed
  next
    case False
    with "1.prems" show ?thesis by (subst create_threads.simps) simp
  qed
qed

lemma use_threads_eq:
  "use_threads n env = (if n \<le> en_threads env then Inr (env\<lparr>en_threads := en_threads env - n\<rparr>)
     else Inl (if en_threads env = 0 then SystemError else Terminated))"
  by (simp add: use_threads_def create_threads_eq)

text \<open>The environment when the workers and the thread of the resource manager run.\<close>

definition base_environment :: "environment \<Rightarrow> int \<Rightarrow> environment" where
  "base_environment env n = env\<lparr>en_threads := en_threads env - Suc (nat n)\<rparr>"

lemma start_base_Inr_iff:
  "start_base env config = Inr r \<longleftrightarrow> (\<exists>n. GetAsInt ''jobs.concurrency'' 4 config = Inr n \<and>
     nat n < en_threads env \<and> r = (base_environment env n, base_kernel n))"
proof (cases "GetAsInt ''jobs.concurrency'' 4 config")
  case (Inr n)
  have "start_base env config = (if nat n \<le> en_threads env
      then if 1 \<le> en_threads env - nat n then Inr (base_environment env n, base_kernel n)
        else Inl (if en_threads env - nat n = 0 then SystemError else Terminated)
      else Inl (if en_threads env = 0 then SystemError else Terminated))"
    using Inr
    by (simp add: start_base_def new_job_manager_def new_event_broker_def on_object_def Core_set_def
      base_kernel_def base_environment_def use_threads_eq Let_def)
  with Inr show ?thesis by auto
qed (simp add: start_base_def new_job_manager_def)

text \<open>The options the networking subsystem reads, and the kernel it leaves for the registry.\<close>

record net_options =
  no_auto :: int
  no_listen :: bool
  no_threads :: int
  no_port :: int
  no_address :: string
  no_node :: string

definition net_options_of :: "environment \<Rightarrow> configuration \<Rightarrow> net_options \<Rightarrow> bool" where
  "net_options_of env config opt \<longleftrightarrow>
     GetAsInt ''net.autoInit'' 1 config = Inr (no_auto opt) \<and>
     GetBool ''net.server.auto-init'' True config = Inr (no_listen opt) \<and>
     GetAsInt ''net.threads'' 1 config = Inr (no_threads opt) \<and>
     GetAsInt ''net.port'' 9000 config = Inr (no_port opt) \<and>
     Get ''net.address'' ''127.0.0.1'' config = Inr (no_address opt) \<and>
     Get ''net.node.id'' (en_uuid env) config = Inr (no_node opt)"

definition can_network :: "environment \<Rightarrow> net_options \<Rightarrow> bool" where
  "can_network env opt \<longleftrightarrow> no_auto opt \<noteq> 0 \<and> en_address env (no_address opt) \<and>
     (if no_listen opt then list_all id (en_listens env) else True) \<and>
     io_threads (no_threads opt) \<le> en_threads env"

definition service_consumers :: "endpoint \<Rightarrow> endpoint" where
  "service_consumers e =
     AddMessageConsumer \<lparr>co_object = 3, co_type = ''service-request''\<rparr>
    (AddMessageConsumer \<lparr>co_object = 2, co_type = ''service-response''\<rparr>
    (AddMessageConsumer \<lparr>co_object = 1, co_type = ''register-remote-service''\<rparr> e))"

definition networked_kernel :: "net_options \<Rightarrow> int \<Rightarrow> kernel" where
  "networked_kernel opt n =
     (let k1 = put_object ''PropertyProvider'' (KPropertyProvider (map_put ''net.node.id'' (no_node opt) [])) (base_kernel n);
          k2 = put_object ''JobManager'' (KJobManager n [''events-listener-clean-up'',
                 ''boost-web-socket-endpoints-clean-up-'' @ to_string (unat (word_of_int (no_port opt) :: 16 word))]) k1;
          e = make_endpoint (no_listen opt) True True;
          t = io_threads (no_threads opt);
          k3 = put_object ''NetworkingManager'' KNetworkingManager (put_object ''IMessageEndpoint'' (KEndpoint t e) k2);
          k4 = put_object ''IMessageEndpoint'' (KEndpoint t (service_consumers e)) k3;
          k5 = put_object ''IEventBroker'' (KEventBroker [''connection-established'']) k4
      in put_object ''IServiceRegistry'' (KRemoteRegistry []) k5)"

lemma start_registry_eq:
  assumes "net_options_of env config opt" and "can_network env opt"
  shows "start_registry env config False (base_kernel n) = Inr (networked_kernel opt n)"
proof -
  have "Init me (en_listens env) = Inr (make_listener me)" if "no_listen opt" for me
    using assms(2) that by (simp add: can_network_def Init_def)
  then have listen: "(if no_listen opt then bind_result (InitAndStartConnectionListener env k) (\<lambda>a. Inr ()) else Inr ()) = Inr ()"
    if "RequireSubsystem ''PropertyProvider'' k = Inr x" for k x
    using that by (simp add: InitAndStartConnectionListener_def)
  show ?thesis
    using assms
    by (simp add: start_registry_def new_networking_manager_def ConfigureNode_def StartMessageEndpointServer_def
        new_endpoint_def new_remote_registry_def SetupMessageConsumers_def SetupEventSubscribers_def on_object_def
        net_options_of_def can_network_def Core_set_def networked_kernel_def service_consumers_def listen base_kernel_def
        use_threads_eq Let_def)
qed

lemma base_kernel_simps:
  "RequireSubsystem ''IMessageEndpoint'' (base_kernel n) = Inl SubsystemNotFoundException"
  "RequireSubsystem ''PropertyProvider'' (base_kernel n) = Inr (KPropertyProvider [])"
  by (simp_all add: base_kernel_def)

lemma new_endpoint_Inr:
  assumes "new_endpoint env config k = Inr r"
  shows "\<exists>b t p a. GetBool ''net.server.auto-init'' True config = Inr b \<and> GetAsInt ''net.threads'' 1 config = Inr t \<and>
    GetAsInt ''net.port'' 9000 config = Inr p \<and> Get ''net.address'' ''127.0.0.1'' config = Inr a \<and>
    en_address env a \<and> (if b then list_all id (en_listens env) else True) \<and> io_threads t \<le> en_threads env"
proof -
  obtain b where b: "GetBool ''net.server.auto-init'' True config = Inr b"
    using bind_result_InrD [OF assms [unfolded new_endpoint_def]] by blast
  obtain t where t: "GetAsInt ''net.threads'' 1 config = Inr t"
    using bind_result_InrD [OF assms [unfolded new_endpoint_def b bind_result.simps]] by blast
  obtain p where p: "GetAsInt ''net.port'' 9000 config = Inr p"
    using bind_result_InrD [OF assms [unfolded new_endpoint_def b t bind_result.simps]] by blast
  obtain a where a: "Get ''net.address'' ''127.0.0.1'' config = Inr a"
    using bind_result_InrD [OF assms [unfolded new_endpoint_def b t p bind_result.simps]] by blast
  have ok: "en_address env a"
    using assms unfolding new_endpoint_def b t p a bind_result.simps by (cases "en_address env a") simp_all
  have threads: "io_threads t \<le> en_threads env"
  proof (rule ccontr)
    assume "\<not> io_threads t \<le> en_threads env"
    then have "use_threads (io_threads t) env \<noteq> Inr x" for x by (simp add: use_threads_eq)
    then show False
      using assms ok unfolding new_endpoint_def b t p a bind_result.simps
      by (auto simp: bind_result_Inr_iff [of "bind_result _ _"] bind_result_Inr_iff [of "use_threads _ _"]
          bind_result_Inr_iff [of "if _ then _ else _"])
  qed
  have "list_all id (en_listens env)" if "b"
  proof (rule ccontr)
    assume no: "\<not> list_all id (en_listens env)"
    have "InitAndStartConnectionListener env k \<noteq> Inr x" for x
      using no by (cases "RequireSubsystem ''PropertyProvider'' k")
        (simp_all add: InitAndStartConnectionListener_def Init_def)
    then have "bind_result (InitAndStartConnectionListener env k) (\<lambda>a. Inr ()) \<noteq> Inr x" for x
      by (simp add: bind_result_Inr_iff)
    then show False
      using assms that ok unfolding new_endpoint_def b t p a bind_result.simps
      by (auto simp: bind_result_Inr_iff [of "bind_result _ _"])
  qed
  with b t p a ok threads show ?thesis by auto
qed

lemma start_registry_Inr:
  assumes "start_registry env config False (base_kernel n) = Inr k"
  shows "\<exists>opt. net_options_of env config opt \<and> can_network env opt"
proof -
  obtain x k0 where nm: "new_networking_manager env config (base_kernel n) = Inr (x, k0)"
    and rr: "\<exists>r. new_remote_registry (put_object ''NetworkingManager'' x k0) = Inr r"
    using assms by (auto simp: start_registry_def bind_result_Inr_iff Core_set_def)
  obtain node k1 i where node: "Get ''net.node.id'' (en_uuid env) config = Inr node"
    and k1: "k1 = put_object ''PropertyProvider'' (set_property ''net.node.id'' node (KPropertyProvider [])) (base_kernel n)"
    and i: "GetAsInt ''net.autoInit'' 1 config = Inr i"
    and k0: "(if i \<noteq> 0 then StartMessageEndpointServer env config k1 else Inr k1) = Inr k0"
    using nm by (auto simp: new_networking_manager_def ConfigureNode_def on_object_def base_kernel_simps bind_result_Inr_iff)
  have "RequireSubsystem ''IMessageEndpoint'' k0 \<noteq> Inl SubsystemNotFoundException"
    using rr by (auto simp: new_remote_registry_def SetupMessageConsumers_def on_object_def bind_result_Inr_iff)
  then have "i \<noteq> 0" using k0 k1 by (auto simp: base_kernel_simps split: if_splits)
  with k0 obtain r where "new_endpoint env config k1 = Inr r"
    by (auto simp: StartMessageEndpointServer_def bind_result_Inr_iff)
  then obtain b t p a where o: "GetBool ''net.server.auto-init'' True config = Inr b" "GetAsInt ''net.threads'' 1 config = Inr t"
    "GetAsInt ''net.port'' 9000 config = Inr p" "Get ''net.address'' ''127.0.0.1'' config = Inr a"
    "en_address env a" "if b then list_all id (en_listens env) else True" "io_threads t \<le> en_threads env"
    using new_endpoint_Inr by blast
  let ?opt = "\<lparr>no_auto = i, no_listen = b, no_threads = t, no_port = p, no_address = a, no_node = node\<rparr>"
  have "net_options_of env config ?opt" "can_network env ?opt"
    using node i o \<open>i \<noteq> 0\<close> by (simp_all add: net_options_of_def can_network_def)
  then show ?thesis by blast
qed

lemma can_network_base: "can_network (base_environment env n) opt \<longleftrightarrow>
    can_network env opt \<and> Suc (nat n) + io_threads (no_threads opt) \<le> en_threads env" if "nat n < en_threads env"
  using that by (auto simp: can_network_def base_environment_def)

lemma net_options_base: "net_options_of (base_environment env n) = net_options_of env"
  by (simp add: net_options_of_def base_environment_def fun_eq_iff)

text \<open>
  C10: which options let a networked kernel start. It starts exactly if the number of job
  threads and all network options can be read, the address is one, the acceptor can be set
  up when it is wanted, \<open>net.autoInit\<close> is not 0, and the system can start all the threads that are
  asked for: one per job worker, one of the resource manager, and those of the endpoint. Without
  the endpoint the service registry cannot be constructed, so switching networking off keeps the
  kernel from starting; and the number of threads of the endpoint is read as a \<open>size_t\<close>, so a
  negative one asks for more than \<open>2 ^ 63\<close> of them and keeps the kernel from starting on any system
  that has fewer.
\<close>

theorem networked_kernel_starts_exactly_with:
  "(\<exists>k. Core_init env config False = Inr k) \<longleftrightarrow>
     (\<exists>n opt. GetAsInt ''jobs.concurrency'' 4 config = Inr n \<and> net_options_of env config opt \<and>
        can_network env opt \<and> nat n + 1 + io_threads (no_threads opt) \<le> en_threads env)"
proof
  assume "\<exists>k. Core_init env config False = Inr k"
  then obtain n k1 where n: "GetAsInt ''jobs.concurrency'' 4 config = Inr n" "nat n < en_threads env"
    and k1: "start_registry (base_environment env n) config False (base_kernel n) = Inr k1"
    by (auto simp: Core_init_def start_base_Inr_iff bind_result_Inr_iff)
  from start_registry_Inr [OF k1] show "\<exists>n opt. GetAsInt ''jobs.concurrency'' 4 config = Inr n \<and>
      net_options_of env config opt \<and> can_network env opt \<and> nat n + 1 + io_threads (no_threads opt) \<le> en_threads env"
    using n by (auto simp: net_options_base can_network_base)
next
  assume "\<exists>n opt. GetAsInt ''jobs.concurrency'' 4 config = Inr n \<and> net_options_of env config opt \<and>
        can_network env opt \<and> nat n + 1 + io_threads (no_threads opt) \<le> en_threads env"
  then obtain n opt where n: "GetAsInt ''jobs.concurrency'' 4 config = Inr n" "net_options_of env config opt"
      "can_network env opt" "nat n + 1 + io_threads (no_threads opt) \<le> en_threads env" by blast
  have "start_registry (base_environment env n) config False (base_kernel n) = Inr (networked_kernel opt n)"
    using n(2-4) by (intro start_registry_eq) (simp_all add: net_options_base can_network_base)
  with n(1,4) show "\<exists>k. Core_init env config False = Inr k"
    by (auto simp: Core_init_def start_base_Inr_iff bind_result_Inr_iff)
qed

lemma networked_Core_init:
  assumes "Core_init env config False = Inr k"
  shows "\<exists>n opt. net_options_of env config opt \<and>
    k = put_object ''IPluginManager'' KPluginManager (networked_kernel opt n)"
proof -
  obtain n k1 where n: "start_registry (base_environment env n) config False (base_kernel n) = Inr k1"
    and k: "k = put_object ''IPluginManager'' KPluginManager k1"
    using assms by (auto simp: Core_init_def start_base_Inr_iff bind_result_Inr_iff Core_set_def)
  obtain opt where "net_options_of (base_environment env n) config opt" "can_network (base_environment env n) opt"
    using start_registry_Inr [OF n] by blast
  with n k start_registry_eq [of "base_environment env n" config opt n] show ?thesis by (auto simp: net_options_base)
qed

lemma local_Core_init:
  assumes "Core_init env config True = Inr k"
  shows "\<exists>n. k = put_object ''IPluginManager'' KPluginManager (put_object ''IServiceRegistry'' (KLocalRegistry []) (base_kernel n))"
  using assms by (auto simp: Core_init_def start_base_Inr_iff start_registry_def bind_result_Inr_iff Core_set_def)

text \<open>
  A kernel that has started provides every subsystem its getters ask for. The local one
  has the local registry and no endpoint; the networked one has an endpoint that passes
  requests, responses and registrations of services to the registry, a registry that is told
  of new connections, and its node id among the properties.
\<close>

theorem started_kernel_is_complete:
  assumes "Core_init env config only_local = Inr k"
  shows "(\<forall>ty\<in>{''JobManager'', ''IEventBroker'', ''PropertyProvider'', ''IResourceManager'', ''IServiceRegistry'',
      ''IPluginManager''}. \<exists>x. Core_get ty k = Inr x) \<and>
    (if only_local then Core_get ''IServiceRegistry'' k = Inr (KLocalRegistry []) \<and> \<not> ProvidesSubsystem ''IMessageEndpoint'' k
     else Core_get ''IServiceRegistry'' k = Inr (KRemoteRegistry []) \<and>
       Core_get ''NetworkingManager'' k = Inr KNetworkingManager \<and>
       Core_get ''IEventBroker'' k = Inr (KEventBroker [''connection-established'']) \<and>
       (\<exists>t e. Core_get ''IMessageEndpoint'' k = Inr (KEndpoint t e) \<and>
         (\<forall>ty\<in>{''service-request'', ''service-response'', ''register-remote-service''}. length (consumers_of ty e) = 1)) \<and>
       (\<exists>tree node. Core_get ''PropertyProvider'' k = Inr (KPropertyProvider tree) \<and>
         Get ''net.node.id'' (en_uuid env) config = Inr node \<and> map_get tree ''net.node.id'' = Some node))"
proof (cases only_local)
  case True
  then obtain n where "k = put_object ''IPluginManager'' KPluginManager (put_object ''IServiceRegistry'' (KLocalRegistry []) (base_kernel n))"
    using local_Core_init [of env config k] assms by auto
  then show ?thesis using True by (simp add: Core_get_def base_kernel_def)
next
  case False
  then obtain n opt where opt: "net_options_of env config opt"
    and k: "k = put_object ''IPluginManager'' KPluginManager (networked_kernel opt n)"
    using networked_Core_init [of env config k] assms by auto
  have e: "length (consumers_of ty (service_consumers (make_endpoint b c d))) = 1"
    if "ty \<in> {''service-request'', ''service-response'', ''register-remote-service''}" for ty b c d
    using that by (auto simp: consumers_of_def service_consumers_def make_endpoint_def AddMessageConsumer_def map_index_def)
  show ?thesis
    using False opt e by (simp add: k Core_get_def networked_kernel_def base_kernel_def net_options_of_def Let_def)
qed

definition demo_environment :: environment where
  "demo_environment = \<lparr>en_uuid = ''n1'', en_address = (\<lambda>_. True), en_listens = [True, True], en_threads = 30000\<rparr>"

definition demo_options :: net_options where
  "demo_options = \<lparr>no_auto = 1, no_listen = True, no_threads = 1, no_port = 9000,
     no_address = ''127.0.0.1'', no_node = ''n1''\<rparr>"

lemma demo_facts:
  "net_options_of demo_environment [] demo_options" "GetAsInt ''jobs.concurrency'' 4 [] = Inr 4"
  "can_network demo_environment demo_options" "io_threads (no_threads demo_options) = 1"
  by (simp_all add: net_options_of_def demo_environment_def demo_options_def config_defs can_network_def io_threads_def)

lemma demo_starts: "\<exists>k. Core_init demo_environment [] False = Inr k"
proof -
  have "start_registry (base_environment demo_environment 4) [] False (base_kernel 4) = Inr (networked_kernel demo_options 4)"
    using demo_facts by (intro start_registry_eq) (simp_all add: net_options_base can_network_base demo_environment_def)
  then show ?thesis
    using demo_facts(2) by (simp add: Core_init_def start_base_Inr_iff bind_result_Inr_iff demo_environment_def)
qed

theorem networked_kernel_starts_exactly_with_witness:
  "(\<exists>k. Core_init demo_environment [] False = Inr k) \<and>
   (\<nexists>k. Core_init demo_environment (Set_int ''net.threads'' (- 1) []) False = Inr k)"
proof -
  have "GetAsInt ''net.threads'' 1 (Set_int ''net.threads'' (- 1) []) = Inr (- 1)"
    by (simp add: GetAsInt_Set_int)
  then have "opt_threads = - 1" if "GetAsInt ''net.threads'' 1 (Set_int ''net.threads'' (- 1) []) = Inr opt_threads" for opt_threads
    using that by simp
  moreover have "en_threads demo_environment < io_threads (- 1)"
    by (simp add: demo_environment_def io_threads_def unsigned_minus_1_eq_mask mask_eq_exp_minus_1)
  ultimately show ?thesis
    using networked_kernel_starts_exactly_with [of demo_environment "[]"] demo_facts
      networked_kernel_starts_exactly_with [of demo_environment "Set_int ''net.threads'' (- 1) []"]
    by (fastforce simp: net_options_of_def demo_environment_def)
qed

theorem started_kernel_is_complete_witness:
  "\<exists>k x. Core_init demo_environment [] False = Inr k \<and> Core_get ''IPluginManager'' k = Inr x"
proof -
  obtain k where "Core_init demo_environment [] False = Inr k" using demo_starts by blast
  then show ?thesis using started_kernel_is_complete [of demo_environment "[]" False k] by auto
qed

end
