(* ===== verification/Plugins.thy ===== *)
theory Plugins
  imports Resources
begin

text \<open>
  The plugin manager (\<open>subsystems/plugins/src/BoostPluginManager.cpp\<close>): installing and
  uninstalling plugins, and installing those of a directory or of its descriptor. Everything
  happens in jobs. The installations that were kicked run concurrently: they are the pending
  jobs, and a schedule says whose next step comes. The file system, the loading of a library and
  the JSON parser are parameters.
\<close>

section \<open>Plugins\<close>

text \<open>
  A plugin object, with its name and what its \<open>Init\<close> and \<open>ShutDown\<close> throw. The manager keeps
  \<open>None\<close> where its map holds a null pointer. \<open>calls\<close> lists what was called so far.
\<close>

record plugin =
  pl_object :: nat
  pl_name :: string
  pl_init :: "exn option"
  pl_shut_down :: "exn option"

datatype plugin_call = Init nat | ShutDown nat

record plugin_manager =
  pm_plugins :: "plugin option smap"
  pm_calls :: "plugin_call list"

definition make_plugin_manager :: plugin_manager where
  "make_plugin_manager = \<lparr>pm_plugins = [], pm_calls = []\<rparr>"

definition call_plugin :: "plugin_call \<Rightarrow> plugin_manager \<Rightarrow> plugin_manager" where
  "call_plugin c s = s\<lparr>pm_calls := pm_calls s @ [c]\<rparr>"

text \<open>
  The job of \<open>InstallPlugin\<close> in its two steps: it calls \<open>Init\<close>, and unless that throws it
  enters the plugin, holding the lock. In between other jobs run. \<open>None\<close> when it is disposed.
\<close>

datatype installing = Kicked plugin | Initialised plugin

definition install_job :: "installing \<Rightarrow> plugin_manager \<Rightarrow> installing option \<times> plugin_manager" where
  "install_job j s =
     (case j of
        Kicked p \<Rightarrow>
          (let s1 = call_plugin (Init (pl_object p)) s
           in case pl_init p of
                Some _ \<Rightarrow> (None, s1)
              | None \<Rightarrow> (Some (Initialised p), s1))
      | Initialised p \<Rightarrow> (None, s\<lparr>pm_plugins := map_put (pl_name p) (Some p) (pm_plugins s)\<rparr>))"

text \<open>The next step of the \<open>i\<close>-th pending installation, and a schedule of such steps.\<close>

definition install_step :: "nat \<Rightarrow> installing list \<times> plugin_manager \<Rightarrow> installing list \<times> plugin_manager" where
  "install_step i = (\<lambda>(js, s).
     if i < length js then
       (case install_job (js ! i) s of
          (Some j, s') \<Rightarrow> (js[i := j], s')
        | (None, s') \<Rightarrow> (take i js @ drop (Suc i) js, s'))
     else (js, s))"

fun install_run :: "nat list \<Rightarrow> installing list \<times> plugin_manager \<Rightarrow> installing list \<times> plugin_manager" where
  "install_run [] x = x"
| "install_run (i # is) x = install_run is (install_step i x)"

text \<open>
  The job of \<open>UninstallPlugin\<close>: it moves the pointer out of the map, shuts the plugin down,
  and erases the entry unless that threw.
\<close>

definition uninstall_job :: "string \<Rightarrow> plugin_manager \<Rightarrow> plugin_manager result" where
  "uninstall_job name s =
     (case map_get (pm_plugins s) name of
        None \<Rightarrow> Inr s
      | Some entry \<Rightarrow>
          (let s1 = s\<lparr>pm_plugins := map_put name None (pm_plugins s)\<rparr>
           in case entry of
                None \<Rightarrow> Inl UndefinedBehaviour
              | Some p \<Rightarrow>
                  (let s2 = call_plugin (ShutDown (pl_object p)) s1
                   in case pl_shut_down p of
                        Some _ \<Rightarrow> Inr s2
                      | None \<Rightarrow> Inr (s2\<lparr>pm_plugins := map_erase name (pm_plugins s2)\<rparr>))))"

section \<open>Directories and descriptors\<close>

text \<open>
  What \<open>boost::json\<close> gives for a descriptor, as far as it is looked at, and the file system:
  the entries of a directory in its order, each with whether it is a regular file and its
  extension, the canonical path of an existing file, the plugin a library provides, and what
  the resource manager does with a URI: throw, or give a future that holds bytes or throws.
\<close>

datatype descriptor_value = DString string | DArray "descriptor_value list" | DObject "(string \<times> descriptor_value) list" | DOther

record dir_entry =
  de_path :: string
  de_regular :: bool
  de_extension :: string

record file_system =
  fs_entries :: "string \<Rightarrow> dir_entry list"
  fs_directory :: "string \<Rightarrow> bool"
  fs_exists :: "string \<Rightarrow> bool"
  fs_absolute :: "string \<Rightarrow> bool"
  fs_canonical :: "string \<Rightarrow> string option"
  fs_symbol :: "string \<Rightarrow> plugin option result"
  fs_load :: "string \<Rightarrow> string result result"

definition listAllSharedLibsInDirectory :: "string \<Rightarrow> file_system \<Rightarrow> string \<Rightarrow> string list" where
  "listAllSharedLibsInDirectory lib_extension fs path =
     map de_path (filter (\<lambda>e. de_regular e \<and> de_extension e = lib_extension) (fs_entries fs path))"

fun plugin_names :: "descriptor_value list \<Rightarrow> string list" where
  "plugin_names [] = []"
| "plugin_names (DString s # vs) = c_str s # plugin_names vs"
| "plugin_names (_ # vs) = plugin_names vs"

text \<open>A descriptor that cannot be parsed or lacks the array lists nothing.\<close>

definition listAllPluginsInDescriptor :: "(string \<Rightarrow> descriptor_value option) \<Rightarrow> string \<Rightarrow> string list" where
  "listAllPluginsInDescriptor parse descriptor =
     (case parse descriptor of
        Some (DObject kvs) \<Rightarrow>
          (case map_of kvs ''plugins'' of Some (DArray vs) \<Rightarrow> plugin_names vs | _ \<Rightarrow> [])
      | _ \<Rightarrow> [])"

text \<open>\<open>InstallPlugin\<close> with a path: the plugin whose installation it kicks, if any.\<close>

definition InstallPlugin_path :: "file_system \<Rightarrow> string \<Rightarrow> plugin option result" where
  "InstallPlugin_path fs path =
     bind_result (of_opt (UserException ''filesystem_error'') (fs_canonical fs path)) (\<lambda>absolute_path.
       fs_symbol fs absolute_path)"

text \<open>
  The loop over the paths. An exception ends it, and with it the job; what was kicked before
  stays kicked.
\<close>

fun install_all :: "file_system \<Rightarrow> string list \<Rightarrow> plugin list \<times> exn option" where
  "install_all fs [] = ([], None)"
| "install_all fs (path # paths) =
     (case InstallPlugin_path fs path of
        Inl x \<Rightarrow> ([], Some x)
      | Inr p \<Rightarrow> (let (ps, x) = install_all fs paths
                  in (case p of Some q \<Rightarrow> q # ps | None \<Rightarrow> ps, x)))"

definition absolute_path_of :: "file_system \<Rightarrow> string \<Rightarrow> string option" where
  "absolute_path_of fs path = (if \<not> fs_absolute fs path then fs_canonical fs path else Some path)"

text \<open>
  The paths to install from. A failure to load the descriptor ends the job quietly, unless the
  resource manager throws at once.
\<close>

definition plugin_paths_of ::
  "(string \<Rightarrow> descriptor_value option) \<Rightarrow> string \<Rightarrow> file_system \<Rightarrow> string \<Rightarrow> string \<Rightarrow> string list result" where
  "plugin_paths_of parse lib_extension fs path absolute_path =
     (let json = absolute_path @ ''/plugins.json''
      in if fs_exists fs json then
           bind_result (fs_load fs (''file://'' @ json)) (\<lambda>future.
             case future of
               Inr descriptor \<Rightarrow> Inr (listAllPluginsInDescriptor parse descriptor)
             | Inl _ \<Rightarrow> Inr [])
         else Inr (listAllSharedLibsInDirectory lib_extension fs path))"

text \<open>The job of \<open>InstallPlugins\<close>: the installations it kicks, and what it throws.\<close>

definition InstallPlugins ::
  "(string \<Rightarrow> descriptor_value option) \<Rightarrow> string \<Rightarrow> file_system \<Rightarrow> string \<Rightarrow> plugin list \<times> exn option" where
  "InstallPlugins parse lib_extension fs path =
     (case absolute_path_of fs path of
        None \<Rightarrow> ([], None)
      | Some absolute_path \<Rightarrow>
          (if \<not> fs_directory fs path then ([], None)
           else case plugin_paths_of parse lib_extension fs path absolute_path of
                  Inl x \<Rightarrow> ([], Some x)
                | Inr paths \<Rightarrow> install_all fs paths))"

section \<open>Lemmas\<close>

text \<open>The plugins of the loop: those of the paths before the first that throws.\<close>

definition installable :: "file_system \<Rightarrow> string \<Rightarrow> bool" where
  "installable fs path \<longleftrightarrow> (\<exists>p. InstallPlugin_path fs path = Inr p)"

fun plugin_at :: "file_system \<Rightarrow> string \<Rightarrow> plugin option" where
  "plugin_at fs path = (case InstallPlugin_path fs path of Inr p \<Rightarrow> p | Inl _ \<Rightarrow> None)"

lemma install_all_prefix:
  "fst (install_all fs paths) = List.map_filter (plugin_at fs) (takeWhile (installable fs) paths)"
  "snd (install_all fs paths) = None \<longleftrightarrow> list_all (installable fs) paths"
  by (induction paths)
    (auto simp: installable_def map_filter_simps Let_def split: sum.splits option.splits prod.splits)

text \<open>
  What holds at any time while the installations \<open>ps\<close> run: the plugins not initialised yet are
  those that wait, and the manager has changed only by plugins of \<open>ps\<close> whose \<open>Init\<close> returned,
  each of which waits, is on its way, or has been followed by one of its name.
\<close>

fun waiting :: "installing list \<Rightarrow> plugin list" where
  "waiting [] = []"
| "waiting (Kicked p # js) = p # waiting js"
| "waiting (Initialised p # js) = waiting js"

definition kept_as :: "plugin list \<Rightarrow> string \<Rightarrow> plugin option option \<Rightarrow> bool" where
  "kept_as ps n entry \<longleftrightarrow> (\<exists>p\<in>set ps. pl_name p = n \<and> pl_init p = None \<and> entry = Some (Some p))"

definition underway :: "plugin list \<Rightarrow> plugin_manager \<Rightarrow> installing list \<times> plugin_manager \<Rightarrow> bool" where
  "underway ps s0 = (\<lambda>(js, s).
     (\<exists>done. pm_calls s = pm_calls s0 @ map (\<lambda>p. Init (pl_object p)) done \<and> mset done + mset (waiting js) = mset ps) \<and>
     (\<forall>p. Initialised p \<in> set js \<longrightarrow> p \<in> set ps \<and> pl_init p = None) \<and>
     (\<forall>n. map_get (pm_plugins s) n = map_get (pm_plugins s0) n \<or> kept_as ps n (map_get (pm_plugins s) n)) \<and>
     (\<forall>p\<in>set ps. pl_init p = None \<longrightarrow> p \<in> set (waiting js) \<or> Initialised p \<in> set js \<or>
        kept_as ps (pl_name p) (map_get (pm_plugins s) (pl_name p))))"

lemma waiting_append [simp]: "waiting (xs @ ys) = waiting xs @ waiting ys"
  by (induction xs rule: waiting.induct) simp_all

lemma waiting_Kicked [simp]: "waiting (map Kicked ps) = ps"
  by (induction ps) simp_all

lemma underway_start: "underway ps s (map Kicked ps, s)"
  by (auto simp: underway_def)

lemma underway_step:
  assumes "underway ps s0 (js, s)"
  shows "underway ps s0 (install_step i (js, s))"
proof (cases "i < length js")
  case True
  define xs ys where "xs = take i js" and "ys = drop (Suc i) js"
  have js: "js = xs @ js ! i # ys" using True by (simp add: xs_def ys_def id_take_nth_drop)
  have upd: "js[i := j] = xs @ j # ys" for j using True by (simp add: xs_def ys_def upd_conv_take_nth_drop)
  obtain "done" where calls: "pm_calls s = pm_calls s0 @ map (\<lambda>p. Init (pl_object p)) done"
    "mset done + mset (waiting js) = mset ps" using assms by (auto simp: underway_def)
  show ?thesis
  proof (cases "js ! i")
    case (Kicked p)
    have ms: "mset (done @ [p]) + mset (waiting (xs @ ys)) = mset ps"
      using calls(2) by (subst (asm) js) (simp add: Kicked)
    then have p: "p \<in> set ps" by (metis UnCI list.set_intros(1) set_append set_mset_mset set_mset_union)
    have step: "install_step i (js, s) = (if pl_init p = None then xs @ [Initialised p] @ ys else xs @ ys,
        call_plugin (Init (pl_object p)) s)"
      using True by (simp add: install_step_def install_job_def Kicked upd xs_def ys_def Let_def split: option.splits)
    have "\<exists>done. pm_calls (call_plugin (Init (pl_object p)) s) = pm_calls s0 @ map (\<lambda>p. Init (pl_object p)) done \<and>
        mset done + mset (waiting (xs @ ys)) = mset ps"
      using ms calls(1) by (intro exI [of _ "done @ [p]"]) (simp add: call_plugin_def)
    moreover have "pm_plugins (call_plugin (Init (pl_object p)) s) = pm_plugins s" by (simp add: call_plugin_def)
    ultimately show ?thesis
      using assms p unfolding step by (subst (asm) (1) js) (auto simp: underway_def Kicked)
  next
    case (Initialised p)
    have p: "p \<in> set ps" "pl_init p = None" using assms True Initialised by (auto simp: underway_def dest: nth_mem)
    have step: "install_step i (js, s) = (xs @ ys, s\<lparr>pm_plugins := map_put (pl_name p) (Some p) (pm_plugins s)\<rparr>)"
      using True by (simp add: install_step_def install_job_def Initialised xs_def ys_def)
    have kept: "kept_as ps (pl_name p) (Some (Some p))" using p by (auto simp: kept_as_def)
    have sets: "set js = insert (Initialised p) (set (xs @ ys))" "waiting js = waiting (xs @ ys)"
      by (subst js; simp add: Initialised)+
    show ?thesis using assms kept unfolding step underway_def prod.case sets by auto
  qed
qed (use assms in \<open>simp add: install_step_def\<close>)

lemma underway_run: "underway ps s0 x \<Longrightarrow> underway ps s0 (install_run is x)"
proof (induction "is" arbitrary: x)
  case (Cons i "is")
  then show ?case using underway_step [of ps s0 "fst x" "snd x" i] by simp
qed simp

text \<open>Run one after the other, all come to an end.\<close>

fun steps_of :: "installing \<Rightarrow> nat" where
  "steps_of (Kicked p) = 2"
| "steps_of (Initialised p) = 1"

lemma steps_of_pos: "0 < steps_of j"
  by (cases j) simp_all

lemma first_step_ends_soon:
  "sum_list (map steps_of (fst (install_step 0 (js, s)))) \<le> sum_list (map steps_of js) - 1"
  by (cases js; cases "hd js") (auto simp: install_step_def install_job_def Let_def split: option.splits)

lemma run_in_turn: "sum_list (map steps_of js) \<le> n \<Longrightarrow> fst (install_run (replicate n 0) (js, s)) = []"
proof (induction n arbitrary: js s)
  case 0
  then show ?case using steps_of_pos [of "hd js"] by (cases js) simp_all
next
  case (Suc n)
  obtain js' s' where step: "install_step 0 (js, s) = (js', s')" by fastforce
  have "sum_list (map steps_of js') \<le> n" using first_step_ends_soon [of js s] Suc.prems step by simp
  with Suc.IH step show ?case by simp
qed

lemma installed_in_turn: "fst (install_run (replicate (2 * length ps) 0) (map Kicked ps, s)) = []"
proof (rule run_in_turn)
  show "sum_list (map steps_of (map Kicked ps)) \<le> 2 * length ps" by (induction ps) simp_all
qed

text \<open>When none is pending any more.\<close>

lemma underway_end:
  assumes "underway ps s ([], s')"
  shows "\<exists>order. mset order = mset ps \<and> pm_calls s' = pm_calls s @ map (\<lambda>p. Init (pl_object p)) order"
    "if \<exists>p\<in>set ps. pl_name p = n \<and> pl_init p = None then kept_as ps n (map_get (pm_plugins s') n)
     else map_get (pm_plugins s') n = map_get (pm_plugins s) n"
proof -
  show "\<exists>order. mset order = mset ps \<and> pm_calls s' = pm_calls s @ map (\<lambda>p. Init (pl_object p)) order"
    using assms by (auto simp: underway_def)
  have "map_get (pm_plugins s') n = map_get (pm_plugins s) n \<or> kept_as ps n (map_get (pm_plugins s') n)"
    "\<And>p. p \<in> set ps \<Longrightarrow> pl_init p = None \<Longrightarrow> kept_as ps (pl_name p) (map_get (pm_plugins s') (pl_name p))"
    using assms by (simp_all add: underway_def)
  then show "if \<exists>p\<in>set ps. pl_name p = n \<and> pl_init p = None then kept_as ps n (map_get (pm_plugins s') n)
     else map_get (pm_plugins s') n = map_get (pm_plugins s) n"
    by (auto simp: kept_as_def)
qed

text \<open>
  C35: installing a directory kicks an installation for each plugin of the paths before the
  first one that cannot be loaded, and for none after it, and throws exactly if there is such
  a path. The installations run concurrently: whatever the schedule, when none is pending
  each of them has called its \<open>Init\<close> once, in some order, and the manager holds under each
  name one of those plugins with that name whose \<open>Init\<close> returned, if there is one, and
  otherwise what it held before. So the result depends on the order only where two of
  them have one name. They can all come to an end.
\<close>

theorem directory_is_installed_up_to_the_first_failure:
  assumes "absolute_path_of fs path = Some absolute_path" and "fs_directory fs path"
    and "plugin_paths_of parse lib_extension fs path absolute_path = Inr paths"
    and "InstallPlugins parse lib_extension fs path = (ps, x)"
  shows "ps = List.map_filter (plugin_at fs) (takeWhile (installable fs) paths) \<and>
    (x = None \<longleftrightarrow> list_all (installable fs) paths) \<and>
    (\<forall>schedule s'. install_run schedule (map Kicked ps, s) = ([], s') \<longrightarrow>
       (\<exists>order. mset order = mset ps \<and> pm_calls s' = pm_calls s @ map (\<lambda>p. Init (pl_object p)) order) \<and>
       (\<forall>n. if \<exists>p\<in>set ps. pl_name p = n \<and> pl_init p = None then kept_as ps n (map_get (pm_plugins s') n)
            else map_get (pm_plugins s') n = map_get (pm_plugins s) n)) \<and>
    (\<exists>schedule s'. install_run schedule (map Kicked ps, s) = ([], s'))"
proof -
  have paths: "install_all fs paths = (ps, x)" using assms by (simp add: InstallPlugins_def)
  have "underway ps s (install_run schedule (map Kicked ps, s))" for schedule
    by (rule underway_run [OF underway_start])
  then have ended: "underway ps s ([], s')" if "install_run schedule (map Kicked ps, s) = ([], s')" for schedule s'
    using that by metis
  have "\<exists>schedule s'. install_run schedule (map Kicked ps, s) = ([], s')"
    using installed_in_turn [of ps s] by (metis prod.collapse)
  with underway_end [OF ended] show ?thesis
    using install_all_prefix [of fs paths] unfolding paths fst_conv snd_conv by blast
qed

definition demo_plugin :: "nat \<Rightarrow> string \<Rightarrow> plugin" where
  "demo_plugin i n = \<lparr>pl_object = i, pl_name = n, pl_init = None, pl_shut_down = Some (UserException ''busy'')\<rparr>"

definition demo_fs :: file_system where
  "demo_fs = \<lparr>fs_entries = (\<lambda>_. [\<lparr>de_path = ''a.so'', de_regular = True, de_extension = ''.so''\<rparr>,
       \<lparr>de_path = ''b.so'', de_regular = True, de_extension = ''.so''\<rparr>]),
     fs_directory = (\<lambda>_. True), fs_exists = (\<lambda>_. False), fs_absolute = (\<lambda>_. True),
     fs_canonical = (\<lambda>p. if p = ''a.so'' then Some ''/a.so'' else None),
     fs_symbol = (\<lambda>_. Inr (Some (demo_plugin 1 ''a''))), fs_load = (\<lambda>_. Inl ResourceLoaderNotFound)\<rparr>"

theorem directory_is_installed_up_to_the_first_failure_witness:
  "fst (InstallPlugins (\<lambda>_. None) ''.so'' demo_fs ''/p'') = [demo_plugin 1 ''a''] \<and>
   snd (InstallPlugins (\<lambda>_. None) ''.so'' demo_fs ''/p'') \<noteq> None \<and>
   (\<exists>schedule s'. install_run schedule (map Kicked [demo_plugin 1 ''a''], make_plugin_manager) = ([], s') \<and>
      map_get (pm_plugins s') ''a'' = Some (Some (demo_plugin 1 ''a'')))"
proof -
  obtain ps x where r: "InstallPlugins (\<lambda>_. None) ''.so'' demo_fs ''/p'' = (ps, x)" by fastforce
  have "absolute_path_of demo_fs ''/p'' = Some ''/p''" "fs_directory demo_fs ''/p''"
    by (simp_all add: absolute_path_of_def demo_fs_def)
  moreover have "plugin_paths_of (\<lambda>_. None) ''.so'' demo_fs ''/p'' ''/p'' = Inr [''a.so'', ''b.so'']"
    by (simp add: plugin_paths_of_def listAllSharedLibsInDirectory_def demo_fs_def Let_def)
  ultimately have all: "ps = List.map_filter (plugin_at demo_fs) (takeWhile (installable demo_fs) [''a.so'', ''b.so''])"
    "x = None \<longleftrightarrow> list_all (installable demo_fs) [''a.so'', ''b.so'']"
    "\<forall>schedule s'. install_run schedule (map Kicked ps, make_plugin_manager) = ([], s') \<longrightarrow>
       (\<forall>n. if \<exists>p\<in>set ps. pl_name p = n \<and> pl_init p = None then kept_as ps n (map_get (pm_plugins s') n)
            else map_get (pm_plugins s') n = map_get (pm_plugins make_plugin_manager) n)"
    "\<exists>schedule s'. install_run schedule (map Kicked ps, make_plugin_manager) = ([], s')"
    using directory_is_installed_up_to_the_first_failure [OF _ _ _ r, of "''/p''" "[''a.so'', ''b.so'']" make_plugin_manager]
    by blast+
  have "installable demo_fs ''a.so''" "\<not> installable demo_fs ''b.so''"
    "plugin_at demo_fs ''a.so'' = Some (demo_plugin 1 ''a'')"
    by (simp_all add: installable_def InstallPlugin_path_def demo_fs_def)
  with all(1,2) have ps: "ps = [demo_plugin 1 ''a'']" "x \<noteq> None" by (auto simp: map_filter_simps)
  moreover have "pl_name (demo_plugin 1 ''a'') = ''a''" "pl_init (demo_plugin 1 ''a'') = None"
    by (simp_all add: demo_plugin_def)
  ultimately have "\<exists>schedule s'. install_run schedule (map Kicked ps, make_plugin_manager) = ([], s') \<and>
      kept_as ps ''a'' (map_get (pm_plugins s') ''a'')"
    using all(3,4) by (metis list.set_intros(1))
  with r ps show ?thesis by (auto simp: kept_as_def)
qed

text \<open>
  A plugin whose \<open>ShutDown\<close> throws has already been moved out of the map. The manager
  keeps its name with a null pointer, and uninstalling the name once more dereferences it.
\<close>

theorem failed_shutdown_leaves_a_null_plugin:
  assumes "map_get (pm_plugins s) name = Some (Some p)" and "pl_shut_down p = Some x"
    and "uninstall_job name s = Inr s'"
  shows "map_get (pm_plugins s') name = Some None \<and> uninstall_job name s' = Inl UndefinedBehaviour"
  using assms by (auto simp: uninstall_job_def call_plugin_def Let_def)

theorem failed_shutdown_leaves_a_null_plugin_witness:
  "\<exists>s. uninstall_job ''a'' (snd (install_run [0, 0] ([Kicked (demo_plugin 1 ''a'')], make_plugin_manager))) = Inr s \<and>
     uninstall_job ''a'' s = Inl UndefinedBehaviour"
proof -
  let ?s = "snd (install_run [0, 0] ([Kicked (demo_plugin 1 ''a'')], make_plugin_manager))"
  have p: "map_get (pm_plugins ?s) ''a'' = Some (Some (demo_plugin 1 ''a''))"
    by (simp add: install_step_def install_job_def demo_plugin_def make_plugin_manager_def call_plugin_def Let_def)
  moreover have x: "pl_shut_down (demo_plugin 1 ''a'') = Some (UserException ''busy'')"
    by (simp add: demo_plugin_def)
  ultimately obtain s where "uninstall_job ''a'' ?s = Inr s"
    by (auto simp: uninstall_job_def Let_def)
  then show ?thesis using failed_shutdown_leaves_a_null_plugin [OF p x] by blast
qed

end
