(* ===== verification/Render_Request.thy ===== *)
theory Render_Request
  imports Service_Data
begin

text \<open>
  Requests for the rendering service (\<open>subsystems/graphics/src/RenderServiceRequest.cpp\<close>): a
  view of a \<open>ServiceRequest\<close> that writes sizes, projections and matrices as parameters and
  reads them back. How a floating-point number is written to text, by \<open>std::to_string\<close> or by
  a stream, and read by \<open>std::stof\<close>, is a parameter. Both texts keep six digits and the
  \<open>float\<close> that is read back fewer than the \<open>double\<close> that was written, so a number arrives as
  another one in general, or not at all if \<open>std::stof\<close> throws. The lemmas say which sizes,
  projections and matrices arrive.
\<close>

section \<open>Vectors and matrices as text\<close>

text \<open>The loop over \<open>std::getline\<close> with a delimiter: a last line that is empty is not seen.\<close>

fun getlines :: "char \<Rightarrow> string \<Rightarrow> string list" where
  "getlines d [] = []"
| "getlines d (c # cs) =
     (if c = d then [] # getlines d cs
      else case getlines d cs of
             [] \<Rightarrow> [[c]]
           | t # ts \<Rightarrow> (c # t) # ts)"

fun stof_all :: "(string \<Rightarrow> 'f result) \<Rightarrow> string list \<Rightarrow> 'f list result" where
  "stof_all stof [] = Inr []"
| "stof_all stof (t # ts) =
     bind_result (stof t) (\<lambda>x. bind_result (stof_all stof ts) (\<lambda>xs. Inr (x # xs)))"

definition toVec3 :: "(string \<Rightarrow> 'f result) \<Rightarrow> string \<Rightarrow> 'f list result" where
  "toVec3 stof s =
     (let components = getlines CHR '' '' s
      in if length components \<noteq> 3 then Inl VectorConversionException
         else stof_all stof components)"

definition toMat4 :: "(string \<Rightarrow> 'f result) \<Rightarrow> string \<Rightarrow> 'f list result" where
  "toMat4 stof s =
     (let components = getlines CHR '' '' s
      in if length components \<noteq> 16 then Inl VectorConversionException
         else stof_all stof components)"

fun spaced :: "('f \<Rightarrow> string) \<Rightarrow> 'f list \<Rightarrow> string" where
  "spaced stream [] = []"
| "spaced stream (x # xs) = CHR '' '' # stream x @ spaced stream xs"

definition toString_mat :: "('f \<Rightarrow> string) \<Rightarrow> 'f list \<Rightarrow> string" where
  "toString_mat stream mat = stream (hd mat) @ spaced stream (tl mat)"

definition toString_vec :: "('f \<Rightarrow> string) \<Rightarrow> 'f \<times> 'f \<times> 'f \<Rightarrow> string" where
  "toString_vec stream v = (case v of (x, y, z) \<Rightarrow> stream x @ '' '' @ stream y @ '' '' @ stream z)"

section \<open>The parameters of a request\<close>

record extend =
  ex_width :: int
  ex_height :: int

record 'f perspective =
  near_plane :: 'f
  far_plane :: 'f
  fov :: 'f

datatype projection_type = PERSPECTIVE | ORTHOGRAPHIC

definition SetExtend :: "extend \<Rightarrow> service_request \<Rightarrow> service_request" where
  "SetExtend e r =
     SetParameter ''height'' (int_to_string (ex_height e))
       (SetParameter ''width'' (int_to_string (ex_width e)) r)"

definition GetExtend :: "service_request \<Rightarrow> extend option result" where
  "GetExtend r =
     (case (GetParameter ''width'' r, GetParameter ''height'' r) of
        (Some w, Some h) \<Rightarrow>
          bind_result (std_stoi w) (\<lambda>width. bind_result (std_stoi h) (\<lambda>height.
            Inr (Some \<lparr>ex_width = width, ex_height = height\<rparr>)))
      | _ \<Rightarrow> Inr None)"

definition GetProjectionType :: "service_request \<Rightarrow> projection_type option" where
  "GetProjectionType r =
     (case GetParameter ''projection-type'' r of
        Some ty \<Rightarrow> (if ty = ''perspective'' then Some PERSPECTIVE
                   else if ty = ''orthographic'' then Some ORTHOGRAPHIC else None)
      | None \<Rightarrow> None)"

definition SetPerspectiveProjection :: "('f \<Rightarrow> string) \<Rightarrow> 'f perspective \<Rightarrow> service_request \<Rightarrow> service_request" where
  "SetPerspectiveProjection to_str p r =
     SetParameter ''perspective-fov'' (to_str (fov p))
       (SetParameter ''perspective-far-plane'' (to_str (far_plane p))
         (SetParameter ''perspective-near-plane'' (to_str (near_plane p))
           (SetParameter ''projection-type'' ''perspective'' r)))"

definition float_parameter :: "(string \<Rightarrow> 'f result) \<Rightarrow> string \<Rightarrow> service_request \<Rightarrow> 'f result" where
  "float_parameter stof name r = bind_result (of_opt BadOptionalAccess (GetParameter name r)) stof"

definition GetPerspectiveProjection :: "(string \<Rightarrow> 'f result) \<Rightarrow> service_request \<Rightarrow> 'f perspective result" where
  "GetPerspectiveProjection stof r =
     bind_result (float_parameter stof ''perspective-near-plane'' r) (\<lambda>near.
     bind_result (float_parameter stof ''perspective-far-plane'' r) (\<lambda>far.
     bind_result (float_parameter stof ''perspective-fov'' r) (\<lambda>angle.
       Inr \<lparr>near_plane = near, far_plane = far, fov = angle\<rparr>)))"

definition SetViewMatrix :: "('f \<Rightarrow> string) \<Rightarrow> 'f list option \<Rightarrow> service_request \<Rightarrow> service_request" where
  "SetViewMatrix stream matrix r =
     (case matrix of Some mat \<Rightarrow> SetParameter ''view-matrix'' (toString_mat stream mat) r | None \<Rightarrow> r)"

definition GetViewMatrix :: "(string \<Rightarrow> 'f result) \<Rightarrow> service_request \<Rightarrow> 'f list option result" where
  "GetViewMatrix stof r =
     (case GetParameter ''view-matrix'' r of
        Some s \<Rightarrow> bind_result (toMat4 stof s) (\<lambda>mat. Inr (Some mat))
      | None \<Rightarrow> Inr None)"

section \<open>Round trips\<close>

lemma GetParameter_Set: "GetParameter n (SetParameter name v r) = (if n = name then Some v else GetParameter n r)"
  by (simp add: GetParameter_def SetParameter_def)

lemma getlines_word: "d \<notin> set t \<Longrightarrow> t \<noteq> [] \<Longrightarrow> getlines d t = [t]"
proof (induction t)
  case (Cons c t)
  then show ?case by (cases t) auto
qed simp

lemma getlines_append: "d \<notin> set t \<Longrightarrow> getlines d (t @ d # s) = t # getlines d s"
  by (induction t) auto

lemma getlines_spaced:
  assumes "\<forall>x\<in>set (x # xs). stream x \<noteq> [] \<and> CHR '' '' \<notin> set (stream x)"
  shows "getlines CHR '' '' (stream x @ spaced stream xs) = map stream (x # xs)"
  using assms
proof (induction xs arbitrary: x)
  case (Cons y ys)
  then show ?case using getlines_append [of "CHR '' ''" "stream x" "stream y @ spaced stream ys"] by simp
qed (simp add: getlines_word)

text \<open>
  What the reader of a request gets for a projection and a view that were written: every number
  is what \<open>std::stof\<close> makes of its text. Of the text that a stream gives for a number only that
  it is not empty and has no space in it is assumed.
\<close>

definition stream_text :: "('f \<Rightarrow> string) \<Rightarrow> bool" where
  "stream_text stream \<longleftrightarrow> (\<forall>x. stream x \<noteq> [] \<and> CHR '' '' \<notin> set (stream x))"

definition perspective_as_read ::
  "('f \<Rightarrow> string) \<Rightarrow> (string \<Rightarrow> 'f result) \<Rightarrow> 'f perspective \<Rightarrow> 'f perspective result" where
  "perspective_as_read to_str stof p =
     bind_result (stof (to_str (near_plane p))) (\<lambda>near.
     bind_result (stof (to_str (far_plane p))) (\<lambda>far.
     bind_result (stof (to_str (fov p))) (\<lambda>angle.
       Inr \<lparr>near_plane = near, far_plane = far, fov = angle\<rparr>)))"

definition view_as_read :: "('f \<Rightarrow> string) \<Rightarrow> (string \<Rightarrow> 'f result) \<Rightarrow> 'f list \<Rightarrow> 'f list result" where
  "view_as_read stream stof view = stof_all stof (map stream view)"

lemma toMat4_toString:
  assumes "length mat = 16" and "stream_text stream"
  shows "toMat4 stof (toString_mat stream mat) = view_as_read stream stof mat"
proof (cases mat)
  case (Cons x xs)
  then have "getlines CHR '' '' (toString_mat stream mat) = map stream mat"
    using assms(2) getlines_spaced [of x xs stream] by (simp add: toString_mat_def stream_text_def)
  then show ?thesis using assms(1) by (simp add: toMat4_def view_as_read_def)
qed (use assms(1) in simp)

lemma GetExtend_parameters:
  assumes "GetParameter ''width'' r = Some (int_to_string w)" and "GetParameter ''height'' r = Some (int_to_string h)"
    and "- (2 ^ 31) \<le> w" and "w < 2 ^ 31" and "- (2 ^ 31) \<le> h" and "h < 2 ^ 31"
  shows "GetExtend r = Inr (Some \<lparr>ex_width = w, ex_height = h\<rparr>)"
  using assms stoi_int_to_string [of w] stoi_int_to_string [of h] by (simp add: GetExtend_def)

end
