(* ===== verification/Tiling.thy ===== *)
theory Tiling
  imports Render_Request "HOL-Library.Word" "HOL-Library.Signed_Division"
begin

text \<open>
  Rendering in tiles: the rendering service (\<open>subsystems/graphics/src/RenderService.cpp\<close>), the
  size of the off-screen renderer it uses, and the composite renderer that asks one service
  per tile and copies what comes back into the tile's image buffer
  (\<open>plugins/tiled-composite-renderer-plugin/src/TiledCompositeRenderer.cpp\<close>). What is drawn,
  and the text of floating-point numbers, are parameters.
\<close>

section \<open>The rendering service\<close>

text \<open>
  A renderer: its size, the projection last set, with the size whose ratio was used, and the
  view. \<open>drawing\<close> gives its colour and depth data, if \<open>GetResult\<close> has one.
\<close>

record 'f renderer =
  rd_size :: extend
  rd_projection :: "('f perspective \<times> extend) option"
  rd_view :: "'f list option"

type_synonym 'f drawing = "'f renderer \<Rightarrow> (string \<times> string) option"

definition Offscreen_Resize :: "int \<Rightarrow> int \<Rightarrow> 'f renderer \<Rightarrow> 'f renderer" where
  "Offscreen_Resize width height s =
     s\<lparr>rd_size := \<lparr>ex_width = max width 1, ex_height = max height 1\<rparr>\<rparr>"

record encoder =
  en_name :: string
  en_encode :: "string \<Rightarrow> string"
  en_decode :: "string \<Rightarrow> string result"

definition PlainRenderResultEncoder :: encoder where
  "PlainRenderResultEncoder = \<lparr>en_name = ''plain'', en_encode = (\<lambda>b. b), en_decode = (\<lambda>s. Inr s)\<rparr>"

text \<open>The compressing encoder: one call each of the compressor and decompressor of Boost.\<close>

definition GzipRenderResultEncoder :: "(string \<Rightarrow> string) \<Rightarrow> (string \<Rightarrow> string result) \<Rightarrow> encoder" where
  "GzipRenderResultEncoder compress decompress =
     \<lparr>en_name = ''gzip'', en_encode = compress, en_decode = decompress\<rparr>"

text \<open>The camera settings a request asks for, inside the \<open>try\<close> block.\<close>

definition apply_projection ::
  "(string \<Rightarrow> 'f result) \<Rightarrow> service_request \<Rightarrow> extend \<Rightarrow> 'f renderer \<Rightarrow> 'f renderer result" where
  "apply_projection stof r e s =
     (case GetProjectionType r of
        Some PERSPECTIVE \<Rightarrow>
          bind_result (GetPerspectiveProjection stof r) (\<lambda>p. Inr (s\<lparr>rd_projection := Some (p, e)\<rparr>))
      | _ \<Rightarrow> Inr s)"

definition apply_view :: "'f list option \<Rightarrow> 'f renderer \<Rightarrow> 'f renderer" where
  "apply_view view s = (case view of Some mat \<Rightarrow> s\<lparr>rd_view := Some mat\<rparr> | None \<Rightarrow> s)"

text \<open>The results of a drawing, as far as the request asks for them.\<close>

definition attach_results ::
  "encoder \<Rightarrow> service_request \<Rightarrow> string \<times> string \<Rightarrow> service_response \<Rightarrow> service_response result" where
  "attach_results en r drawn response =
     (let response1 = SetResult ''color'' (en_encode en (fst drawn)) (SetResult ''encoding'' (en_name en) response)
      in bind_result (std_stoi (case GetParameter ''include-depth-buffer'' r of Some v \<Rightarrow> v | None \<Rightarrow> ''0''))
           (\<lambda>depth_requested.
             Inr (if depth_requested \<noteq> 0 then SetResult ''depth'' (en_encode en (snd drawn)) response1
                  else response1)))"

text \<open>
  \<open>RenderService::Render\<close>: what its future holds or the functor throws, and the renderer
  afterwards. \<open>encoder\<close> is \<open>None\<close> when the subsystems are gone, \<open>what\<close> the text of an exception.
\<close>

definition RenderService_Render ::
  "(string \<Rightarrow> 'f result) \<Rightarrow> 'f drawing \<Rightarrow> (exn \<Rightarrow> string) \<Rightarrow> encoder option \<Rightarrow> service_request \<Rightarrow>
     'f renderer option \<Rightarrow> service_response result \<times> 'f renderer option" where
  "RenderService_Render stof drawing what encoder r renderer =
     (case bind_result (bind_result (GetExtend r) (of_opt BadOptionalAccess)) (\<lambda>e.
             bind_result (GetViewMatrix stof r) (\<lambda>view. Inr (e, view))) of
        Inl x \<Rightarrow> (Inl x, renderer)
      | Inr (e, view) \<Rightarrow>
          (let response = make_response (rq_transaction r) OK []
           in case renderer of
                None \<Rightarrow> (Inr (make_response (rq_transaction r) INTERNAL_ERROR
                   ''Cannot perform rendering service because there is no renderer available''), None)
              | Some s \<Rightarrow>
                  (let s1 = (if rd_size s \<noteq> e then Offscreen_Resize (ex_width e) (ex_height e) s else s)
                   in case apply_projection stof r e s1 of
                        Inl x \<Rightarrow> (Inr (make_response (rq_transaction r) PARAMETER_ERROR (what x)), Some s1)
                      | Inr s2 \<Rightarrow>
                          (let s3 = apply_view view s2
                           in case drawing s3 of
                                None \<Rightarrow> (Inr (make_response (rq_transaction r) INTERNAL_ERROR
                                   ''renderer did not return any rendering result''), Some s3)
                              | Some drawn \<Rightarrow>
                                  (case encoder of
                                     None \<Rightarrow> (Inr (make_response (rq_transaction r) INTERNAL_ERROR
                                        ''no encoder found for result''), Some s3)
                                   | Some en \<Rightarrow> (attach_results en r drawn response, Some s3))))))"

section \<open>Tiles\<close>

record tile =
  ti_x :: int
  ti_y :: int
  ti_width :: int
  ti_height :: int
  ti_image_index :: int

text \<open>An image buffer holds four bytes per pixel.\<close>

record tiling =
  service_count :: nat
  image_buffers :: "string list"
  tile_infos :: "tile list"

definition make_tile :: "int \<Rightarrow> int \<Rightarrow> nat \<Rightarrow> tile" where
  "make_tile tile_width tile_height i =
     \<lparr>ti_x = int i * tile_width, ti_y = 0, ti_width = tile_width, ti_height = tile_height, ti_image_index = int i\<rparr>"

text \<open>
  \<open>UpdateTilingInfo\<close> for an output of the given size. The count is a \<open>size_t\<close> that is cast to
  \<open>int\<close> for the division.
\<close>

definition UpdateTilingInfo :: "int \<Rightarrow> int \<Rightarrow> nat \<Rightarrow> tiling result" where
  "UpdateTilingInfo width height tile_count =
     (if 0 < tile_count then
        (let c = sint (word_of_nat tile_count :: 32 word)
         in if c = 0 then Inl UndefinedBehaviour
            else (let tile_width = width sdiv c
                  in Inr \<lparr>service_count = tile_count,
                       image_buffers = replicate tile_count (replicate (nat (tile_width * height * 4)) CHR 0x00),
                       tile_infos = map (make_tile tile_width height) [0..<tile_count]\<rparr>))
      else Inr \<lparr>service_count = tile_count, image_buffers = [], tile_infos = []\<rparr>)"

text \<open>The request for a tile, and the copy of a response into a buffer, whose size is not compared.\<close>

definition tile_request ::
  "('f \<Rightarrow> string) \<Rightarrow> ('f \<Rightarrow> string) \<Rightarrow> 'f perspective \<Rightarrow> 'f list \<Rightarrow> string \<Rightarrow> tile \<Rightarrow> service_request" where
  "tile_request to_str stream p view transaction t =
     SetPerspectiveProjection to_str p (SetViewMatrix stream (Some view)
       (SetExtend \<lparr>ex_width = ti_width t, ex_height = ti_height t\<rparr> (make_request ''render'' transaction)))"

definition memcpy_into :: "string \<Rightarrow> string \<Rightarrow> string result" where
  "memcpy_into buffer bytes =
     (if length buffer < length bytes then Inl UndefinedBehaviour
      else Inr (bytes @ drop (length bytes) buffer))"

definition copy_response :: "encoder \<Rightarrow> nat \<Rightarrow> service_response \<Rightarrow> tiling \<Rightarrow> tiling result" where
  "copy_response decoder i response s =
     (if rs_status response = OK then
        bind_result (of_opt BadOptionalAccess (GetResult ''color'' response)) (\<lambda>color_buffer_encoded.
        bind_result (of_opt BadOptionalAccess (GetResult ''encoding'' response)) (\<lambda>encoding.
          if encoding = en_name decoder then
            bind_result (en_decode decoder color_buffer_encoded) (\<lambda>color_buffer.
            bind_result (memcpy_into (image_buffers s ! i) color_buffer) (\<lambda>buffer.
              Inr (s\<lparr>image_buffers := (image_buffers s)[i := buffer]\<rparr>)))
          else Inr s))
      else Inr s)"

text \<open>
  The jobs of a frame, in the order in which they end; \<open>responses\<close> is what the call for each
  tile gives. A job that throws leaves its buffer alone.
\<close>

definition render_tile :: "encoder \<Rightarrow> (nat \<Rightarrow> service_response result) \<Rightarrow> nat \<Rightarrow> tiling \<Rightarrow> tiling result" where
  "render_tile decoder responses i s =
     (case responses i of
        Inl _ \<Rightarrow> Inr s
      | Inr response \<Rightarrow>
          (case copy_response decoder i response s of
             Inr s' \<Rightarrow> Inr s'
           | Inl x \<Rightarrow> (if x = UndefinedBehaviour then Inl x else Inr s)))"

fun render_tiles :: "encoder \<Rightarrow> (nat \<Rightarrow> service_response result) \<Rightarrow> nat list \<Rightarrow> tiling \<Rightarrow> tiling result" where
  "render_tiles decoder responses [] s = Inr s"
| "render_tiles decoder responses (i # is) s =
     bind_result (render_tile decoder responses i s) (render_tiles decoder responses is)"

text \<open>
  \<open>TiledCompositeRenderer::Render\<close>; \<open>caller\<close> is the caller the registry finds, if any. It always
  asks to be called again.
\<close>

definition composite_Render ::
  "encoder \<Rightarrow> (nat \<Rightarrow> service_response result) option \<Rightarrow> nat list \<Rightarrow> tiling \<Rightarrow> (bool \<times> tiling) result" where
  "composite_Render decoder caller order s =
     (if service_count s < 1 then Inr (True, s)
      else case caller of
             None \<Rightarrow> Inr (True, s)
           | Some responses \<Rightarrow>
               bind_result (render_tiles decoder responses order s) (\<lambda>s'. Inr (True, s')))"

section \<open>The partition of the image\<close>

lemma sint_count: "n < 2 ^ 31 \<Longrightarrow> sint (word_of_nat n :: 32 word) = int n"
  by (simp add: signed_of_nat signed_take_bit_int_eq_self)

lemma UpdateTilingInfo_Inr:
  assumes "0 < count" and "count < 2 ^ 31" and "0 \<le> width"
  shows "UpdateTilingInfo width height count = Inr \<lparr>service_count = count,
     image_buffers = replicate count (replicate (nat (width div int count * height * 4)) CHR 0x00),
     tile_infos = map (make_tile (width div int count) height) [0..<count]\<rparr>"
proof -
  have "width sdiv int count = width div int count"
    using assms by (cases "width = 0") (simp_all add: signed_divide_int_def)
  then show ?thesis using assms by (simp add: UpdateTilingInfo_def Let_def sint_count)
qed

definition in_tile :: "int \<Rightarrow> tile \<Rightarrow> bool" where
  "in_tile x t \<longleftrightarrow> ti_x t \<le> x \<and> x < ti_x t + ti_width t"

lemma in_make_tile:
  assumes "0 < w"
  shows "in_tile x (make_tile w h i) \<longleftrightarrow> x div w = int i"
proof
  assume "in_tile x (make_tile w h i)"
  then have "x = w * int i + (x - w * int i)" "0 \<le> x - w * int i" "x - w * int i < w"
    by (simp_all add: in_tile_def make_tile_def mult.commute)
  then show "x div w = int i" by (rule int_div_pos_eq)
next
  assume "x div w = int i"
  then have "x = w * int i + x mod w" by (metis mult_div_mod_eq)
  moreover have "0 \<le> x mod w" "x mod w < w" using assms by simp_all
  ultimately show "in_tile x (make_tile w h i)"
    unfolding in_tile_def make_tile_def by (simp add: mult.commute)
qed

lemma less_mult_iff_div_less:
  assumes "0 < (w :: int)"
  shows "x < c * w \<longleftrightarrow> x div w < c"
proof -
  have split: "x = x div w * w + x mod w" and r: "0 \<le> x mod w" "x mod w < w" using assms by simp_all
  show ?thesis
  proof (cases "x div w < c")
    case True
    then have "(x div w + 1) * w \<le> c * w" using assms by (intro mult_right_mono) simp_all
    then have "x div w * w + w \<le> c * w" by (simp only: distrib_right mult_1_left)
    with True split r show ?thesis by linarith
  next
    case False
    then have "c * w \<le> x div w * w" using assms by (intro mult_right_mono) simp_all
    with False split r show ?thesis by linarith
  qed
qed

text \<open>
  C36: the tiles cut the image into columns of equal width that cover it from the left edge
  on: every pixel column of the output belongs to exactly one tile, the one with the index
  \<open>x div tile_width\<close>, except the last \<open>width mod count\<close> columns, which belong to none.
\<close>

theorem tiles_cover_all_but_the_remainder:
  assumes "0 < count" and "count < 2 ^ 31" and "int count \<le> width"
    and "UpdateTilingInfo width height count = Inr s" and "0 \<le> x" and "x < width"
  shows "if x < width - width mod int count
    then (\<exists>!i. i < count \<and> in_tile x (tile_infos s ! i)) \<and>
      in_tile x (tile_infos s ! nat (x div (width div int count)))
    else (\<nexists>i. i < count \<and> in_tile x (tile_infos s ! i))"
proof -
  let ?w = "width div int count"
  have w: "0 < ?w" using assms(1,3) by (simp add: pos_imp_zdiv_pos_iff)
  have tiles: "tile_infos s = map (make_tile ?w height) [0..<count]"
    using UpdateTilingInfo_Inr [OF assms(1,2), of width height] assms(3,4) by simp
  have mem: "in_tile x (tile_infos s ! i) \<longleftrightarrow> x div ?w = int i" if "i < count" for i
    using that by (simp add: tiles in_make_tile [OF w])
  have bound: "width - width mod int count = int count * ?w"
    by (simp add: minus_mod_eq_mult_div)
  have "x < int count * ?w \<longleftrightarrow> x div ?w < int count"
    using w by (rule less_mult_iff_div_less)
  moreover have "0 \<le> x div ?w" using assms(5) w by (simp add: pos_imp_zdiv_nonneg_iff)
  ultimately show ?thesis
    unfolding bound
    by (auto simp: mem intro!: ex1I [of _ "nat (x div ?w)"])
qed

theorem tiles_cover_all_but_the_remainder_witness:
  "(\<exists>!i. i < 3 \<and> in_tile 8 (map (make_tile 3 5) [0..<3] ! i)) \<and> in_tile 8 (map (make_tile 3 5) [0..<3] ! 2)"
proof -
  let ?s = "\<lparr>service_count = 3, image_buffers = replicate 3 (replicate 60 CHR 0x00),
     tile_infos = map (make_tile 3 5) [0..<3]\<rparr>"
  have "UpdateTilingInfo 10 5 3 = Inr ?s"
    using UpdateTilingInfo_Inr [of 3 10 5] by simp
  from tiles_cover_all_but_the_remainder [OF _ _ _ this, of 8] show ?thesis by simp
qed

section \<open>A tile through the service\<close>

text \<open>
  A projection and a view, and what the service reads for them: conversions that lose digits are
  allowed, those that \<open>std::stof\<close> refuses are not.
\<close>

definition arrives_as ::
  "('f \<Rightarrow> string) \<Rightarrow> ('f \<Rightarrow> string) \<Rightarrow> (string \<Rightarrow> 'f result) \<Rightarrow> 'f perspective \<Rightarrow> 'f list \<Rightarrow>
     'f perspective \<Rightarrow> 'f list \<Rightarrow> bool" where
  "arrives_as to_str stream stof p view p' view' \<longleftrightarrow> length view = 16 \<and>
     perspective_as_read to_str stof p = Inr p' \<and> view_as_read stream stof view = Inr view'"

lemma tile_request_parameters:
  "map_get (rq_parameters (tile_request to_str stream p view tx t)) ''width'' = Some (int_to_string (ti_width t))"
  "map_get (rq_parameters (tile_request to_str stream p view tx t)) ''height'' = Some (int_to_string (ti_height t))"
  "map_get (rq_parameters (tile_request to_str stream p view tx t)) ''view-matrix'' = Some (toString_mat stream view)"
  "map_get (rq_parameters (tile_request to_str stream p view tx t)) ''projection-type'' = Some ''perspective''"
  "map_get (rq_parameters (tile_request to_str stream p view tx t)) ''perspective-near-plane'' = Some (to_str (near_plane p))"
  "map_get (rq_parameters (tile_request to_str stream p view tx t)) ''perspective-far-plane'' = Some (to_str (far_plane p))"
  "map_get (rq_parameters (tile_request to_str stream p view tx t)) ''perspective-fov'' = Some (to_str (fov p))"
  "map_get (rq_parameters (tile_request to_str stream p view tx t)) ''include-depth-buffer'' = None"
  by (simp_all add: tile_request_def SetPerspectiveProjection_def SetViewMatrix_def SetExtend_def SetParameter_def
      make_request_def)

definition tile_extend :: "tile \<Rightarrow> extend" where
  "tile_extend t = \<lparr>ex_width = ti_width t, ex_height = ti_height t\<rparr>"

definition int_range :: "int \<Rightarrow> bool" where
  "int_range i \<longleftrightarrow> - (2 ^ 31) \<le> i \<and> i < 2 ^ 31"

lemma tile_request_reads_back:
  assumes "stream_text stream" and "arrives_as to_str stream stof p view p' view'"
    and "int_range (ti_width t)" and "int_range (ti_height t)"
  shows "GetExtend (tile_request to_str stream p view tx t) = Inr (Some (tile_extend t))"
    and "GetViewMatrix stof (tile_request to_str stream p view tx t) = Inr (Some view')"
    and "GetProjectionType (tile_request to_str stream p view tx t) = Some PERSPECTIVE"
    and "GetPerspectiveProjection stof (tile_request to_str stream p view tx t) = Inr p'"
proof -
  show "GetExtend (tile_request to_str stream p view tx t) = Inr (Some (tile_extend t))"
    unfolding tile_extend_def
    using assms(3,4) by (intro GetExtend_parameters) (simp_all add: int_range_def tile_request_parameters)
  have "toMat4 stof (toString_mat stream view) = Inr view'"
    using assms(1,2) toMat4_toString [of view stream stof] by (simp add: arrives_as_def)
  then show "GetViewMatrix stof (tile_request to_str stream p view tx t) = Inr (Some view')"
    by (simp add: GetViewMatrix_def tile_request_parameters)
  show "GetProjectionType (tile_request to_str stream p view tx t) = Some PERSPECTIVE"
    by (simp add: GetProjectionType_def tile_request_parameters)
  show "GetPerspectiveProjection stof (tile_request to_str stream p view tx t) = Inr p'"
    using assms(2)
    by (simp add: GetPerspectiveProjection_def float_parameter_def tile_request_parameters arrives_as_def
        perspective_as_read_def)
qed

text \<open>The renderer as the service leaves it for a tile.\<close>

definition set_up_for :: "extend \<Rightarrow> 'f perspective \<Rightarrow> 'f list \<Rightarrow> 'f renderer \<Rightarrow> 'f renderer" where
  "set_up_for e p view s =
     (if rd_size s \<noteq> e then Offscreen_Resize (ex_width e) (ex_height e) s else s)
       \<lparr>rd_projection := Some (p, e), rd_view := Some view\<rparr>"

definition drawn_response :: "string \<Rightarrow> encoder \<Rightarrow> string \<Rightarrow> service_response" where
  "drawn_response tx en bytes =
     SetResult ''color'' (en_encode en bytes) (SetResult ''encoding'' (en_name en) (make_response tx OK []))"

lemma stoi_0: "std_stoi ''0'' = Inr 0"
  by (simp add: std_stoi_def strto_def is_space_def is_digit_def digits_value_def digit_value_def)

lemma service_draws_tile:
  assumes "stream_text stream" and "arrives_as to_str stream stof p view p' view'"
    and "int_range (ti_width t)" and "int_range (ti_height t)"
    and "drawing (set_up_for (tile_extend t) p' view' s) = Some (c, d)"
  shows "RenderService_Render stof drawing what (Some en) (tile_request to_str stream p view tx t) (Some s) =
     (Inr (drawn_response tx en c), Some (set_up_for (tile_extend t) p' view' s))"
proof -
  let ?r = "tile_request to_str stream p view tx t"
  let ?s1 = "if rd_size s \<noteq> tile_extend t then Offscreen_Resize (ex_width (tile_extend t)) (ex_height (tile_extend t)) s else s"
  have tx: "rq_transaction ?r = tx"
    by (simp add: tile_request_def SetPerspectiveProjection_def SetViewMatrix_def SetExtend_def SetParameter_def make_request_def)
  have s1: "?s1\<lparr>rd_projection := Some (p', tile_extend t), rd_view := Some view'\<rparr> = set_up_for (tile_extend t) p' view' s"
    by (simp add: set_up_for_def)
  have "apply_projection stof ?r (tile_extend t) ?s1 = Inr (?s1\<lparr>rd_projection := Some (p', tile_extend t)\<rparr>)"
    using tile_request_reads_back(3,4) [OF assms(1-4)] by (simp add: apply_projection_def)
  moreover have "apply_view (Some view') (?s1\<lparr>rd_projection := Some (p', tile_extend t)\<rparr>) = set_up_for (tile_extend t) p' view' s"
    by (simp add: apply_view_def s1)
  moreover have "attach_results en ?r (c, d) (make_response tx OK []) = Inr (drawn_response tx en c)"
    by (simp add: attach_results_def tile_request_parameters stoi_0 drawn_response_def Let_def)
  ultimately show ?thesis
    using tile_request_reads_back(1,2) [OF assms(1-4)] assms(5)
    by (simp add: RenderService_Render_def tx Let_def del: if_split)
qed

text \<open>A renderer whose image has four bytes for each pixel of its size.\<close>

definition draws_its_size :: "'f drawing \<Rightarrow> bool" where
  "draws_its_size drawing \<longleftrightarrow> (\<forall>s. \<exists>c d. drawing s = Some (c, d) \<and>
     (0 < ex_width (rd_size s) \<and> 0 < ex_height (rd_size s) \<longrightarrow>
        int (length c) = 4 * (ex_width (rd_size s) * ex_height (rd_size s))))"

lemma draws_its_sizeD:
  assumes "draws_its_size drawing" and "drawing s = Some (c, d)"
    and "0 < ex_width (rd_size s)" and "0 < ex_height (rd_size s)"
  shows "int (length c) = 4 * (ex_width (rd_size s) * ex_height (rd_size s))"
  using assms unfolding draws_its_size_def by (metis Pair_inject option.inject)

text \<open>
  What the composite renderer relies on when it decodes an image: the encoder loses nothing.
\<close>

locale lossless_encoder =
  fixes en :: encoder
  assumes decode_encode: "en_decode en (en_encode en b) = Inr b"
begin

lemma copy_drawn_response:
  "copy_response en i (drawn_response tx en c) s =
     bind_result (memcpy_into (image_buffers s ! i) c) (\<lambda>b. Inr (s\<lparr>image_buffers := (image_buffers s)[i := b]\<rparr>))"
  by (simp add: copy_response_def drawn_response_def SetResult_def GetResult_def make_response_def decode_encode)

lemma render_tile_draws:
  assumes "length (image_buffers s ! i) = length c" and "responses i = Inr (drawn_response tx en c)"
  shows "render_tile en responses i s = Inr (s\<lparr>image_buffers := (image_buffers s)[i := c]\<rparr>)"
  using assms by (simp add: render_tile_def copy_drawn_response memcpy_into_def)

lemma render_tile_overflows:
  assumes "length (image_buffers s ! i) < length c" and "responses i = Inr (drawn_response tx en c)"
  shows "render_tile en responses i s = Inl UndefinedBehaviour"
  using assms by (simp add: render_tile_def copy_drawn_response memcpy_into_def)

lemma render_tiles_draws:
  assumes "\<And>i. i \<in> set is \<Longrightarrow> i < length (image_buffers s) \<and> length (image_buffers s ! i) = length (c i) \<and>
      responses i = Inr (drawn_response (tx i) en (c i))"
    and "distinct is"
  shows "\<exists>s'. render_tiles en responses is s = Inr s' \<and>
    length (image_buffers s') = length (image_buffers s) \<and>
    (\<forall>i<length (image_buffers s). image_buffers s' ! i = (if i \<in> set is then c i else image_buffers s ! i))"
  using assms
proof (induction "is" arbitrary: s)
  case (Cons j js)
  let ?s = "s\<lparr>image_buffers := (image_buffers s)[j := c j]\<rparr>"
  have "render_tile en responses j s = Inr ?s"
    using Cons.prems(1) [of j] by (intro render_tile_draws) auto
  moreover have "\<exists>s'. render_tiles en responses js ?s = Inr s' \<and>
    length (image_buffers s') = length (image_buffers ?s) \<and>
    (\<forall>i<length (image_buffers ?s). image_buffers s' ! i = (if i \<in> set js then c i else image_buffers ?s ! i))"
    using Cons.prems by (intro Cons.IH) (auto simp: nth_list_update)
  ultimately show ?case by (auto simp: nth_list_update)
qed simp

end

interpretation plain: lossless_encoder PlainRenderResultEncoder
  by unfold_locales (simp add: PlainRenderResultEncoder_def)

lemma gzip_is_lossless:
  "(\<And>b. decompress (compress b) = Inr b) \<Longrightarrow> lossless_encoder (GzipRenderResultEncoder compress decompress)"
  by unfold_locales (simp add: GzipRenderResultEncoder_def)

lemma tiles_are_drawn:
  assumes "0 < count" and "count < 2 ^ 31" and "int count \<le> width" and "width < 2 ^ 31"
    and "0 < height" and "height < 2 ^ 31" and "UpdateTilingInfo width height count = Inr s"
    and "stream_text stream" and "draws_its_size drawing"
    and "\<forall>i<count. arrives_as to_str stream stof p (view i) p' (view' i)"
    and "\<forall>i<count. responses i = fst (RenderService_Render stof drawing what (Some PlainRenderResultEncoder)
      (tile_request to_str stream p (view i) (tx i) (tile_infos s ! i)) (Some (renderers i)))"
    and "distinct order" and "set order = {..<count}"
  shows "\<exists>s'. composite_Render PlainRenderResultEncoder (Some responses) order s = Inr (True, s') \<and>
    (\<forall>i<count. \<exists>d. drawing (set_up_for (tile_extend (tile_infos s ! i)) p' (view' i) (renderers i)) =
       Some (image_buffers s' ! i, d) \<and>
       rd_size (set_up_for (tile_extend (tile_infos s ! i)) p' (view' i) (renderers i)) = tile_extend (tile_infos s ! i))"
proof -
  let ?w = "width div int count"
  have w: "0 < ?w" using assms(1,3) by (simp add: pos_imp_zdiv_pos_iff)
  have "?w \<le> width" using assms(1,3) by (intro int_div_le_self) simp_all
  then have range: "int_range ?w" "int_range height" using w assms(4-6) by (simp_all add: int_range_def)
  have s: "image_buffers s = replicate count (replicate (nat (?w * height * 4)) CHR 0x00)"
    "tile_infos s = map (make_tile ?w height) [0..<count]"
    using UpdateTilingInfo_Inr [OF assms(1,2), of width height] assms(3,7) by simp_all
  define r where "r i = set_up_for (tile_extend (make_tile ?w height i)) p' (view' i) (renderers i)" for i
  have size: "rd_size (r i) = tile_extend (make_tile ?w height i)" for i
    using w assms(5) by (simp add: r_def set_up_for_def Offscreen_Resize_def tile_extend_def make_tile_def)
  define c where "c i = fst (the (drawing (r i)))" for i
  define d where "d i = snd (the (drawing (r i)))" for i
  have drawn: "drawing (r i) = Some (c i, d i)" for i
    using assms(9) unfolding draws_its_size_def c_def d_def by (metis fst_conv option.sel snd_conv)
  have len: "int (length (c i)) = 4 * (?w * height)" for i
    using draws_its_sizeD [OF assms(9) drawn [of i]] w assms(5)
    by (simp add: size tile_extend_def make_tile_def)
  have "responses i = Inr (drawn_response (tx i) PlainRenderResultEncoder (c i))" if "i < count" for i
  proof -
    have "RenderService_Render stof drawing what (Some PlainRenderResultEncoder)
      (tile_request to_str stream p (view i) (tx i) (make_tile ?w height i)) (Some (renderers i)) =
      (Inr (drawn_response (tx i) PlainRenderResultEncoder (c i)), Some (r i))"
      unfolding r_def using assms(8,10) that range drawn [of i]
      by (intro service_draws_tile [where d = "d i"]) (simp_all add: make_tile_def r_def)
    with assms(11) that show ?thesis by (simp add: s)
  qed
  moreover have "length (image_buffers s ! i) = length (c i)" if "i < count" for i
    using that len [of i] by (simp add: s nat_eq_iff)
  ultimately have "\<exists>s'. render_tiles PlainRenderResultEncoder responses order s = Inr s' \<and>
    length (image_buffers s') = length (image_buffers s) \<and>
    (\<forall>i<length (image_buffers s). image_buffers s' ! i = (if i \<in> set order then c i else image_buffers s ! i))"
    using assms(12,13) by (intro plain.render_tiles_draws [where tx = tx]) (auto simp: s)
  then obtain s' where s': "render_tiles PlainRenderResultEncoder responses order s = Inr s'"
    "\<And>i. i < count \<Longrightarrow> image_buffers s' ! i = c i"
    using assms(13) by (auto simp: s)
  have "\<exists>d. drawing (set_up_for (tile_extend (tile_infos s ! i)) p' (view' i) (renderers i)) = Some (image_buffers s' ! i, d) \<and>
      rd_size (set_up_for (tile_extend (tile_infos s ! i)) p' (view' i) (renderers i)) = tile_extend (tile_infos s ! i)"
    if "i < count" for i
    using that drawn [of i] size [of i] s'(2) by (auto simp: s r_def)
  moreover have "0 < service_count s"
    using UpdateTilingInfo_Inr [OF assms(1,2), of width height] assms(1,3,7) by auto
  ultimately show ?thesis using s'(1) by (auto simp: composite_Render_def)
qed

text \<open>
  C13: a frame. If the image is at least as wide as there are services and every renderer draws an
  image of its size, then the request for each tile sets its renderer to the size of the tile and
  to the projection and view that the service reads, and after the jobs have ended, in whatever
  order, the buffer of every tile holds what its renderer drew with these. The numbers of the
  projection \<open>p\<close> and of the views travel as text, of six decimals or six significant digits, and
  are read as \<open>float\<close>: \<open>p'\<close> and \<open>view'\<close> are what is read for them, other numbers in general; they
  have to be numbers \<open>std::stof\<close> accepts.
\<close>

theorem every_tile_gets_its_drawing:
  assumes "0 < count" and "count < 2 ^ 31" and "int count \<le> width" and "width < 2 ^ 31"
    and "0 < height" and "height < 2 ^ 31" and "UpdateTilingInfo width height count = Inr s"
    and "stream_text stream" and "draws_its_size drawing"
    and "\<forall>i<count. arrives_as to_str stream stof p (view i) p' (view' i)"
    and "\<forall>i<count. responses i = fst (RenderService_Render stof drawing what (Some PlainRenderResultEncoder)
      (tile_request to_str stream p (view i) (tx i) (tile_infos s ! i)) (Some (renderers i)))"
    and "distinct order" and "set order = {..<count}"
  shows "\<exists>s'. composite_Render PlainRenderResultEncoder (Some responses) order s = Inr (True, s') \<and>
    (\<forall>i<count. \<exists>d. drawing (set_up_for (tile_extend (tile_infos s ! i)) p' (view' i) (renderers i)) =
       Some (image_buffers s' ! i, d) \<and>
       rd_size (set_up_for (tile_extend (tile_infos s ! i)) p' (view' i) (renderers i)) = tile_extend (tile_infos s ! i))"
  using assms by (rule tiles_are_drawn)

text \<open>A drawing that tells by its bytes whether the view is the one below as it is read.\<close>

definition demo_drawing :: "int drawing" where
  "demo_drawing s = Some (replicate (nat (4 * (ex_width (rd_size s) * ex_height (rd_size s))))
     (if rd_view s = Some (replicate 16 20) then CHR ''x'' else CHR ''?''), [])"

definition demo_renderer :: "int renderer" where
  "demo_renderer = \<lparr>rd_size = \<lparr>ex_width = 5, ex_height = 7\<rparr>, rd_projection = None, rd_view = None\<rparr>"

text \<open>Numbers with one decimal, of which the text keeps none: 2.5 is read back as 2.\<close>

definition demo_text :: "int \<Rightarrow> string" where
  "demo_text x = int_to_string (x div 10)"

definition demo_float :: "string \<Rightarrow> int result" where
  "demo_float t = bind_result (std_stoi t) (\<lambda>n. Inr (10 * n))"

definition demo_perspective :: "int perspective" where
  "demo_perspective = \<lparr>near_plane = 12, far_plane = 20007, fov = 605\<rparr>"

definition demo_perspective_read :: "int perspective" where
  "demo_perspective_read = \<lparr>near_plane = 10, far_plane = 20000, fov = 600\<rparr>"

definition demo_view :: "int list" where
  "demo_view = replicate 16 25"

definition demo_view_read :: "int list" where
  "demo_view_read = replicate 16 20"

lemma demo_arrives:
  "stream_text demo_text"
  "arrives_as demo_text demo_text demo_float demo_perspective demo_view demo_perspective_read demo_view_read"
  using int_to_string_chars
  by (simp_all add: stream_text_def demo_text_def) code_simp

text \<open>What the service answers for the tile \<open>i\<close> of an image of the given size.\<close>

definition demo_response :: "tile \<Rightarrow> service_response result" where
  "demo_response t = fst (RenderService_Render demo_float demo_drawing (\<lambda>_. []) (Some PlainRenderResultEncoder)
     (tile_request demo_text demo_text demo_perspective demo_view ''tx'' t) (Some demo_renderer))"

theorem every_tile_gets_its_drawing_witness:
  "\<exists>s'. composite_Render PlainRenderResultEncoder (Some (\<lambda>i. demo_response (make_tile 2 1 i))) [1, 0]
      \<lparr>service_count = 2, image_buffers = replicate 2 (replicate 8 CHR 0x00), tile_infos = map (make_tile 2 1) [0..<2]\<rparr> = Inr (True, s') \<and>
    image_buffers s' ! 1 = replicate 8 CHR ''x''"
proof -
  let ?s = "\<lparr>service_count = 2, image_buffers = replicate 2 (replicate 8 CHR 0x00), tile_infos = map (make_tile 2 1) [0..<2]\<rparr>"
  have "UpdateTilingInfo 5 1 2 = Inr ?s"
    using UpdateTilingInfo_Inr [of 2 5 1] by simp
  moreover have "draws_its_size demo_drawing"
    unfolding draws_its_size_def demo_drawing_def by auto
  moreover have "{Suc 0, 0} = {..<2}" by auto
  ultimately obtain s' where s': "composite_Render PlainRenderResultEncoder (Some (\<lambda>i. demo_response (make_tile 2 1 i))) [1, 0] ?s = Inr (True, s')"
    "\<forall>i<2. \<exists>d. demo_drawing (set_up_for (tile_extend (tile_infos ?s ! i)) demo_perspective_read demo_view_read demo_renderer) =
       Some (image_buffers s' ! i, d) \<and>
       rd_size (set_up_for (tile_extend (tile_infos ?s ! i)) demo_perspective_read demo_view_read demo_renderer) = tile_extend (tile_infos ?s ! i)"
    using every_tile_gets_its_drawing [where width = 5 and height = 1 and s = ?s and drawing = demo_drawing and
        responses = "\<lambda>i. demo_response (make_tile 2 1 i)" and view = "\<lambda>_. demo_view" and view' = "\<lambda>_. demo_view_read" and
        renderers = "\<lambda>_. demo_renderer" and order = "[1, 0]" and tx = "\<lambda>_. ''tx''" and what = "\<lambda>_. []" and count = 2 and
        p = demo_perspective and p' = demo_perspective_read and to_str = demo_text and stof = demo_float, OF _ _ _ _ _ _ _ demo_arrives(1)] demo_arrives(2)
    by (auto simp: demo_response_def)
  from s'(2) [rule_format, of 1] have "image_buffers s' ! 1 = replicate 8 CHR ''x''"
    by (auto simp: demo_drawing_def tile_extend_def make_tile_def set_up_for_def demo_view_read_def split: if_splits)
  with s'(1) show ?thesis by blast
qed

text \<open>
  With more services than pixel columns every tile is 0 pixels wide and its buffer
  empty, but the renderer draws at least one column: copying the answer writes past the end of
  the buffer.
\<close>

theorem too_many_services_overflow_the_buffers:
  assumes "0 \<le> width" and "width < int count" and "count < 2 ^ 31" and "0 < height" and "height < 2 ^ 31"
    and "UpdateTilingInfo width height count = Inr s" and "i < count"
    and "stream_text stream" and "draws_its_size drawing" and "arrives_as to_str stream stof p view p' view'"
    and "0 < ex_width (rd_size renderer)"
    and "responses i = fst (RenderService_Render stof drawing what (Some PlainRenderResultEncoder)
      (tile_request to_str stream p view tx (tile_infos s ! i)) (Some renderer))"
  shows "render_tile PlainRenderResultEncoder responses i s = Inl UndefinedBehaviour"
proof -
  have zero: "width div int count = 0" using assms(1,2) by simp
  have s: "image_buffers s = replicate count []" "tile_infos s = map (make_tile 0 height) [0..<count]"
    using UpdateTilingInfo_Inr [OF _ assms(3,1), of height] assms(1,2,6) zero by simp_all
  define t where "t = make_tile 0 height i"
  define r where "r = set_up_for (tile_extend t) p' view' renderer"
  have "0 < ex_width (rd_size r)" "0 < ex_height (rd_size r)"
    using assms(4,11) by (auto simp: r_def t_def set_up_for_def Offscreen_Resize_def tile_extend_def make_tile_def)
  moreover obtain c d where cd: "drawing r = Some (c, d)"
    using assms(9) unfolding draws_its_size_def by blast
  ultimately have "0 < int (length c)" using draws_its_sizeD [OF assms(9) cd] by simp
  then have "c \<noteq> []" by auto
  moreover have "RenderService_Render stof drawing what (Some PlainRenderResultEncoder)
      (tile_request to_str stream p view tx t) (Some renderer) =
      (Inr (drawn_response tx PlainRenderResultEncoder c), Some r)"
    unfolding r_def using assms(4,5,8,10) cd
    by (intro service_draws_tile [where d = d]) (simp_all add: int_range_def t_def r_def make_tile_def)
  ultimately show ?thesis
    using assms(7,12) by (intro plain.render_tile_overflows [where c = c and tx = tx]) (simp_all add: s t_def)
qed

theorem too_many_services_overflow_the_buffers_witness:
  "render_tile PlainRenderResultEncoder (\<lambda>i. demo_response (make_tile 0 1 i)) 0
     \<lparr>service_count = 3, image_buffers = replicate 3 [], tile_infos = map (make_tile 0 1) [0..<3]\<rparr> =
   Inl UndefinedBehaviour"
proof -
  let ?s = "\<lparr>service_count = 3, image_buffers = replicate 3 [], tile_infos = map (make_tile 0 1) [0..<3]\<rparr>"
  have "UpdateTilingInfo 2 1 3 = Inr ?s"
    using UpdateTilingInfo_Inr [of 3 2 1] by simp
  moreover have "draws_its_size demo_drawing"
    unfolding draws_its_size_def demo_drawing_def by auto
  ultimately show ?thesis
    using too_many_services_overflow_the_buffers [where width = 2 and count = 3 and height = 1 and s = ?s and i = 0 and
        drawing = demo_drawing and renderer = demo_renderer and responses = "\<lambda>i. demo_response (make_tile 0 1 i)" and
        what = "\<lambda>_. []" and tx = "''tx''", OF _ _ _ _ _ _ _ demo_arrives(1) _ demo_arrives(2)]
    by (simp add: demo_response_def demo_renderer_def)
qed

end
