(* ===== verification/Profiling.thy ===== *)
theory Profiling
  imports Std_Map "HOL-Library.Word"
begin

text \<open>
  The profiler (\<open>subsystems/common/src/TimerManager.cpp\<close>, compiled with profiling): the
  measurements of each timer, of which the latest fifty are kept beside the extremes of all.
\<close>

record measurement =
  total_min_ns :: int
  total_max_ns :: int
  ms_values :: "int list"

type_synonym timers = "measurement smap"

definition max_samples :: nat where
  "max_samples = 50"

definition Commit :: "string \<Rightarrow> int \<Rightarrow> timers \<Rightarrow> timers" where
  "Commit name ns m =
     (let current = (case map_get m name of
            Some c \<Rightarrow> c
          | None \<Rightarrow> \<lparr>total_min_ns = 2 ^ 63 - 1, total_max_ns = - (2 ^ 63), ms_values = []\<rparr>);
          samples = ns # ms_values current
      in map_put name
           \<lparr>total_min_ns = min ns (total_min_ns current), total_max_ns = max ns (total_max_ns current),
            ms_values = (if max_samples < length samples then take max_samples samples else samples)\<rparr> m)"

definition Reset :: "timers \<Rightarrow> timers" where
  "Reset m = []"

text \<open>
  The numbers of one line of \<open>Print\<close>: total minimum and maximum, and average, minimum and
  maximum of the kept values. The average divides a \<open>long\<close> by a \<open>size_t\<close>, so it is unsigned.
\<close>

definition print_line :: "measurement \<Rightarrow> int \<times> int \<times> int \<times> int \<times> int" where
  "print_line c =
     (total_min_ns c, total_max_ns c,
      sint (word_of_int (sum_list (ms_values c)) div word_of_nat (length (ms_values c)) :: 64 word),
      Min (set (ms_values c)), Max (set (ms_values c)))"

text \<open>A timer: it starts running when constructed and commits once when it stops.\<close>

record timer =
  tm_name :: string
  tm_start :: int
  tm_running :: bool

definition Timer_Start :: "int \<Rightarrow> timer \<Rightarrow> timer" where
  "Timer_Start now t = t\<lparr>tm_start := now, tm_running := True\<rparr>"

definition make_timer :: "string \<Rightarrow> int \<Rightarrow> timer" where
  "make_timer name now = Timer_Start now \<lparr>tm_name = name, tm_start = 0, tm_running = False\<rparr>"

definition Timer_Stop :: "int \<Rightarrow> timer \<times> timers \<Rightarrow> timer \<times> timers" where
  "Timer_Stop now tm =
     (let (t, m) = tm
      in if \<not> tm_running t then (t, m)
         else (t\<lparr>tm_running := False\<rparr>, Commit (tm_name t) (now - tm_start t) m))"

section \<open>Lemmas\<close>

lemma Commit_other: "n \<noteq> name \<Longrightarrow> map_get (Commit name ns m) n = map_get m n"
  by (simp add: Commit_def Let_def)

lemma Commit_first:
  "map_get m name = None \<Longrightarrow> map_get (Commit name ns m) name =
     Some \<lparr>total_min_ns = min ns (2 ^ 63 - 1), total_max_ns = max ns (- (2 ^ 63)), ms_values = [ns]\<rparr>"
  by (simp add: Commit_def max_samples_def Let_def)

lemma Commit_next:
  "map_get m name = Some c \<Longrightarrow> map_get (Commit name ns m) name =
     Some \<lparr>total_min_ns = min ns (total_min_ns c), total_max_ns = max ns (total_max_ns c),
           ms_values = take max_samples (ns # ms_values c)\<rparr>"
  by (simp add: Commit_def Let_def)

text \<open>Stopping twice commits once; the destructor stops a timer that still runs.\<close>

lemma Timer_Stop_twice: "Timer_Stop later (Timer_Stop now tm) = Timer_Stop now tm"
  by (auto simp: Timer_Stop_def Let_def split: prod.splits)

text \<open>
  After a sequence of measurements of a timer, its entry has the least and the greatest of all
  of them and the latest fifty, newest first; the other timers are as before.
\<close>

lemma Commit_all:
  assumes "map_get m name = None" and "ts \<noteq> []" and "\<forall>t\<in>set ts. - (2 ^ 63) \<le> t \<and> t < 2 ^ 63"
  shows "map_get (fold (Commit name) ts m) name =
    Some \<lparr>total_min_ns = Min (set ts), total_max_ns = Max (set ts), ms_values = take max_samples (rev ts)\<rparr>"
  using assms(2,3)
proof (induction ts rule: rev_induct)
  case (snoc t ts)
  show ?case
  proof (cases "ts = []")
    case True
    then show ?thesis using snoc.prems assms(1) by (simp add: Commit_first max_samples_def)
  next
    case False
    then have "map_get (fold (Commit name) ts m) name =
      Some \<lparr>total_min_ns = Min (set ts), total_max_ns = Max (set ts), ms_values = take max_samples (rev ts)\<rparr>"
      using snoc by simp
    then show ?thesis using False by (simp add: Commit_next max_samples_def min.commute max.commute)
  qed
qed simp

lemma Commit_all_other: "n \<noteq> name \<Longrightarrow> map_get (fold (Commit name) ts m) n = map_get m n"
  by (induction ts arbitrary: m) (simp_all add: Commit_other)

end
