(* ===== verification/Node.thy ===== *)
theory Node
  imports Endpoint Service_Registry Response_Consumer
begin

text \<open>
  A networked node as its parts work together: the endpoint hands received messages to the
  three consumers of the remote service registry, these answer requests, settle pending calls
  and enter the services of other nodes, and everything they send goes through the endpoint
  again (\<open>RemoteServiceExecutor\<close>, \<open>RemoteServiceRequestConsumer\<close>,
  \<open>RemoteServiceRegistrationConsumer\<close> and \<open>RemoteServiceRegistry\<close> over
  \<open>BoostWebSocketEndpoint\<close>). The jobs of one received message run one after the other. The
  theory follows one call from node to node and the offer of services to a new node.
\<close>

section \<open>State\<close>

record node =
  nd_endpoint :: endpoint
  nd_subsystems :: subsystems_state
  nd_registry :: callers
  nd_rpc :: rpc
  nd_effects :: "registry_effect list"

text \<open>
  What a node depends on: the JSON library, what the socket makes of a write, the functors of
  the local executors, the texts of exceptions and the random ids.
\<close>

record node_env =
  ne_parse :: "string \<Rightarrow> json option"
  ne_serialize :: "json \<Rightarrow> string"
  ne_write :: "conn \<Rightarrow> write_result"
  ne_answer :: "service_request \<Rightarrow> nat \<Rightarrow> executor \<Rightarrow> service_response result"
  ne_what :: "exn \<Rightarrow> string"
  ne_uuid :: string

definition node_connected :: "node \<Rightarrow> string \<Rightarrow> bool" where
  "node_connected nd i = HasConnectionTo i (nd_endpoint nd)"

definition node_Send :: "node_env \<Rightarrow> string \<Rightarrow> message \<Rightarrow> node \<Rightarrow> (unit result \<times> node) result" where
  "node_Send env target m nd =
     bind_result (endpoint_Send (ne_serialize env) (ne_write env) target m (nd_endpoint nd))
       (\<lambda>(f, ep). Inr (f, nd\<lparr>nd_endpoint := ep\<rparr>))"

section \<open>Calling\<close>

text \<open>
  The job of \<open>RemoteServiceExecutor::IssueCallAsJob\<close> as a whole: a \<open>Send\<close> that throws ends it
  with the pending entry in place, a sending that failed is followed up.
\<close>

definition sending_of :: "unit result \<Rightarrow> sending" where
  "sending_of f = (case f of Inr _ \<Rightarrow> SendSucceeded | Inl _ \<Rightarrow> SendFailed)"

definition call_remote_service :: "node_env \<Rightarrow> rref \<Rightarrow> string \<Rightarrow> pref \<Rightarrow> node \<Rightarrow> node result" where
  "call_remote_service env r target p nd =
     bind_result (remote_call_begin (node_connected nd target) r target p (nd_rpc nd)) (\<lambda>(s1, sends).
       let nd1 = nd\<lparr>nd_rpc := s1\<rparr>
       in if \<not> sends then Inr nd1
          else bind_result (FromServiceRequest (ne_uuid env) (rpc_requests s1 r)) (\<lambda>m.
                 let (sending, nd2) =
                   (case node_Send env target m nd1 of
                      Inl x \<Rightarrow> (SendThrew, nd1)
                    | Inr (f, nd2) \<Rightarrow> (sending_of f, nd2))
                 in bind_result (remote_call_sent sending r p (nd_rpc nd2)) (\<lambda>s2. Inr (nd2\<lparr>nd_rpc := s2\<rparr>))))"

section \<open>Receiving\<close>

text \<open>
  The request consumer: the answer goes back to the node the request came from; that its
  sending failed is only logged.
\<close>

definition consume_request :: "node_env \<Rightarrow> message \<Rightarrow> connection_info \<Rightarrow> node \<Rightarrow> node result" where
  "consume_request env m info nd =
     (if \<not> ss_alive (nd_subsystems nd) then Inr nd
      else if \<not> ss_job_manager (nd_subsystems nd) then Inl SubsystemNotFoundException
      else bind_result (process_request (node_connected nd) (ne_answer env) (ne_uuid env) (ne_what env) (nd_registry nd) m)
        (\<lambda>(maybe_response, reg).
          let nd1 = nd\<lparr>nd_registry := reg\<rparr>
          in case maybe_response of
               None \<Rightarrow> Inr nd1
             | Some response \<Rightarrow>
                 if ss_endpoint (nd_subsystems nd)
                 then bind_result (node_Send env (endpoint_id info) response nd1) (\<lambda>(f, nd2). Inr nd2)
                 else Inr nd1))"

definition consume_response :: "message \<Rightarrow> node \<Rightarrow> node result" where
  "consume_response m nd =
     bind_result (ProcessReceivedMessage m (nd_rpc nd)) (\<lambda>s. Inr (nd\<lparr>nd_rpc := s\<rparr>))"

text \<open>The registration consumer passes the stub it makes to \<open>RemoteServiceRegistry::Register\<close>.\<close>

definition register_service :: "executor \<Rightarrow> node \<Rightarrow> node result" where
  "register_service e nd =
     bind_result (remote_Register (nd_subsystems nd) (node_connected nd) e (nd_registry nd))
       (\<lambda>(reg, effects). Inr (nd\<lparr>nd_registry := reg, nd_effects := nd_effects nd @ effects\<rparr>))"

definition consume_registration :: "message \<Rightarrow> connection_info \<Rightarrow> node \<Rightarrow> node result" where
  "consume_registration m info nd =
     bind_result (process_registration (endpoint_id info) m) (\<lambda>e. register_service e nd)"

text \<open>
  The consumers are told apart by the message type they were constructed with; others belong
  to the application. A job that throws changes nothing else.
\<close>

definition consume :: "node_env \<Rightarrow> consumer \<times> message \<times> connection_info \<Rightarrow> node \<Rightarrow> node result" where
  "consume env job nd =
     (case job of (co, m, info) \<Rightarrow>
        if co_type co = ''service-request'' then consume_request env m info nd
        else if co_type co = ''service-response'' then consume_response m nd
        else if co_type co = ''register-remote-service'' then consume_registration m info nd
        else Inr nd)"

fun run_consumers :: "node_env \<Rightarrow> (consumer \<times> message \<times> connection_info) list \<Rightarrow> node \<Rightarrow> node result" where
  "run_consumers env [] nd = Inr nd"
| "run_consumers env (job # rest) nd =
     (case consume env job nd of
        Inr nd' \<Rightarrow> run_consumers env rest nd'
      | Inl x \<Rightarrow> (if x = UndefinedBehaviour then Inl x else run_consumers env rest nd))"

text \<open>A read of the connection \<open>c\<close> has ended with \<open>r\<close>.\<close>

definition node_receive :: "node_env \<Rightarrow> conn \<Rightarrow> read_result \<Rightarrow> node \<Rightarrow> node result" where
  "node_receive env c r nd =
     (let (received, ep) = OnMessageReceived c r (nd_endpoint nd);
          nd1 = nd\<lparr>nd_endpoint := ep\<rparr>
      in case received of
           None \<Rightarrow> Inr nd1
         | Some data \<Rightarrow>
             bind_result (endpoint_ProcessReceivedMessage (ne_parse env) data c ep) (\<lambda>(jobs, ep').
               run_consumers env jobs (nd1\<lparr>nd_endpoint := ep'\<rparr>)))"

section \<open>Events\<close>

text \<open>The jobs of \<open>SendServicePortfolioToEndpoint\<close>; one whose \<open>Send\<close> throws sends nothing.\<close>

fun send_portfolio :: "node_env \<Rightarrow> string \<Rightarrow> message list \<Rightarrow> node \<Rightarrow> node" where
  "send_portfolio env target [] nd = nd"
| "send_portfolio env target (m # ms) nd =
     send_portfolio env target ms (case node_Send env target m nd of Inr (f, nd') \<Rightarrow> nd' | Inl x \<Rightarrow> nd)"

definition handle_event :: "node_env \<Rightarrow> network_event \<Rightarrow> node \<Rightarrow> node result" where
  "handle_event env ev nd =
     (case ev of
        ConnectionEstablished i \<Rightarrow>
          Inr (send_portfolio env i
            (SendServicePortfolio (node_connected nd) (ne_uuid env) (nd_registry nd)) nd)
      | ConnectionClosed i \<Rightarrow>
          bind_result (connection_closed i (nd_rpc nd)) (\<lambda>s. Inr (nd\<lparr>nd_rpc := s\<rparr>)))"

section \<open>One message from node to node\<close>

text \<open>A message that the codec of one node carries to that of another.\<close>

definition carries :: "node_env \<Rightarrow> node_env \<Rightarrow> message \<Rightarrow> bool" where
  "carries from to m = multipart_carries (ne_parse to) (ne_serialize from) m"

text \<open>Two endpoints that differ in what was written and which reads are pending only.\<close>

definition same_links :: "endpoint \<Rightarrow> endpoint \<Rightarrow> bool" where
  "same_links ep ep' \<longleftrightarrow> connections ep' = connections ep \<and> conn_info ep' = conn_info ep \<and>
     stream_open ep' = stream_open ep \<and> running ep' = running ep \<and> subsystems_up ep' = subsystems_up ep \<and>
     (\<forall>ty. consumers_of ty ep' = consumers_of ty ep)"

lemma same_links_refl [simp]: "same_links ep ep"
  by (simp add: same_links_def)

lemma same_links_trans: "same_links a b \<Longrightarrow> same_links b c \<Longrightarrow> same_links a c"
  by (simp add: same_links_def)

lemma same_links_written [simp]: "same_links ep (ep'\<lparr>written := xs\<rparr>) \<longleftrightarrow> same_links ep ep'"
  by (simp add: same_links_def consumers_of_def)

lemma same_links_reading [simp]: "same_links ep (ep'\<lparr>reading := xs\<rparr>) \<longleftrightarrow> same_links ep ep'"
  by (simp add: same_links_def consumers_of_def)

lemma same_links_get: "same_links ep ep' \<Longrightarrow> GetConnection i ep' = GetConnection i ep"
  by (auto simp: same_links_def GetConnection_def IsUsable_def split: option.splits)

lemma CleanUp_consumers_of [simp]: "consumers_of ty' (CleanUpConsumersOfMessageType ty ep) = consumers_of ty' ep"
  by (auto simp: consumers_of_def CleanUpConsumersOfMessageType_def map_index_def split: option.splits)

lemma CleanUp_running [simp]:
  "running (CleanUpConsumersOfMessageType ty ep) = running ep"
  "subsystems_up (CleanUpConsumersOfMessageType ty ep) = subsystems_up ep"
  "written (CleanUpConsumersOfMessageType ty ep) = written ep"
  by (simp_all add: CleanUpConsumersOfMessageType_def split: option.splits)

lemma GetConsumers_links:
  "same_links ep (snd (GetConsumersOfMessageType ty ep))"
  "written (snd (GetConsumersOfMessageType ty ep)) = written ep"
  by (simp_all add: GetConsumersOfMessageType_def same_links_def Let_def)

lemma send_carried:
  assumes "GetConnection target (nd_endpoint nd) = Some c" and "ne_write env c = Written" and "carries env to m"
  shows "\<exists>data. node_Send env target m nd =
      Inr (Inr (), nd\<lparr>nd_endpoint := (nd_endpoint nd)\<lparr>written := written (nd_endpoint nd) @ [(c, data)]\<rparr>\<rparr>) \<and>
    FromMultipartFormData (ne_parse to) data = Inr (Some m)"
proof -
  obtain data where data: "ToMultipartFormData (ne_serialize env) m = Inr data"
      "FromMultipartFormData (ne_parse to) data = Inr (Some m)"
    using multipart.trip [OF assms(3) [unfolded carries_def]] by blast
  have "c \<in> stream_open (nd_endpoint nd)"
    using assms(1) by (auto simp: GetConnection_def IsUsable_def split: option.splits if_splits)
  then show ?thesis
    using assms(1,2) data
    by (intro exI [of _ data]) (simp add: node_Send_def endpoint_Send_def connection_Send_def OnMessageSent_def)
qed

lemma receive_carried:
  assumes "FromMultipartFormData (ne_parse env) data = Inr (Some m)"
    and "running (nd_endpoint nd)" and "subsystems_up (nd_endpoint nd)"
  shows "\<exists>ep. node_receive env c (ReadData data) nd =
      run_consumers env (map (\<lambda>co. (co, m, conn_info (nd_endpoint nd) c)) (consumers_of (m_type m) (nd_endpoint nd)))
        (nd\<lparr>nd_endpoint := ep\<rparr>) \<and>
    same_links (nd_endpoint nd) ep \<and> written ep = written (nd_endpoint nd)"
proof -
  let ?ep = "nd_endpoint nd"
  obtain ep1 where ep1: "OnMessageReceived c (ReadData data) ?ep = (Some data, ep1)"
      "same_links ?ep ep1" "written ep1 = written ?ep"
    by (auto simp: OnMessageReceived_def Let_def)
  obtain cs ep2 where g: "GetConsumersOfMessageType (m_type m) ep1 = (cs, ep2)"
    by (cases "GetConsumersOfMessageType (m_type m) ep1")
  have cs: "cs = consumers_of (m_type m) ?ep"
    using GetConsumersOfMessageType_fst [of "m_type m" ep1] g ep1(2) by (simp add: same_links_def)
  have ep2: "same_links ?ep ep2" "written ep2 = written ?ep"
    using GetConsumers_links [where ep = ep1 and ty = "m_type m"] g ep1(2,3) same_links_trans by auto
  have "running ep1" "subsystems_up ep1" "conn_info ep1 = conn_info ?ep"
    using ep1(2) assms(2,3) by (auto simp: same_links_def)
  then have "endpoint_ProcessReceivedMessage (ne_parse env) data c ep1 =
      Inr (map (\<lambda>co. (co, m, conn_info ?ep c)) cs, ep2)"
    using assms(1) g by (simp add: endpoint_ProcessReceivedMessage_def)
  then show ?thesis
    using ep1(1) ep2 by (intro exI [of _ ep2]) (simp add: node_receive_def cs)
qed

section \<open>One call\<close>

text \<open>What the other side makes of a request and of a response.\<close>

definition received_request :: "service_request \<Rightarrow> service_request" where
  "received_request r = \<lparr>rq_service = rq_service r, rq_transaction = rq_transaction r,
     rq_parameters = map_put ''service'' (rq_service r) (map_put ''transaction-id'' (rq_transaction r) (rq_parameters r)),
     rq_processed = False\<rparr>"

definition received_response :: "service_response \<Rightarrow> service_response" where
  "received_response r = \<lparr>rs_transaction = rs_transaction r, rs_status = rs_status r, rs_message = rs_message r,
     rs_results = map_put ''status-message'' (rs_message r)
       (map_put ''status'' (int_to_string (status_code (rs_status r)))
         (map_put ''transaction-id'' (rs_transaction r) (rs_results r))), rs_attempts = 1\<rparr>"

lemma request_message:
  assumes "map_ok (rq_parameters r)"
  shows "\<exists>m. FromServiceRequest uuid r = Inr m \<and> m_type m = ''service-request'' \<and>
    ToServiceRequest m = Inr (Some (received_request r))"
proof (intro exI conjI)
  show "FromServiceRequest uuid r = Inr \<lparr>m_type = ''service-request'', m_uuid = uuid,
      m_attributes = rq_parameters (received_request r)\<rparr>" (is "_ = Inr ?m")
    unfolding received_request_def using from_request [OF assms] by simp
  have "message_ok ?m" using assms by (simp add: message_ok_def received_request_def)
  from copy_all_parameters [OF this]
  show "ToServiceRequest ?m = Inr (Some (received_request r))"
    by (simp add: ToServiceRequest_def received_request_def)
qed simp

lemma response_message:
  assumes "map_ok (rs_results r)" and "status_ok (rs_status r)"
  shows "\<exists>m. FromServiceResponse uuid r = Inr m \<and> m_type m = ''service-response'' \<and>
    ToServiceResponse m = Inr (Some (received_response r))"
proof (intro exI conjI)
  show "FromServiceResponse uuid r = Inr \<lparr>m_type = ''service-response'', m_uuid = uuid,
      m_attributes = rs_results (received_response r)\<rparr>" (is "_ = Inr ?m")
    unfolding received_response_def using from_response [OF assms(1)] by simp
  have ok: "message_ok ?m" using assms(1) by (simp add: message_ok_def received_response_def)
  have "std_stoi (int_to_string (status_code (rs_status r))) = Inr (status_code (rs_status r))"
    using status_code_range [OF assms(2)] by (intro stoi_int_to_string) simp_all
  with copy_all_results [OF ok] status_of_code [OF assms(2)]
  show "ToServiceResponse ?m = Inr (Some (received_response r))"
    by (simp add: ToServiceResponse_def received_response_def)
qed simp

text \<open>A call through a caller with a local executor is answered by one of them.\<close>

lemma local_call_answered:
  assumes "\<exists>e\<in>set (c_executors c). IsLocal e"
    and "\<And>e. e \<in> set (c_executors c) \<Longrightarrow> IsLocal e \<Longrightarrow> answer request 1 e = Inr (reply e)"
  shows "\<exists>e reg'. e \<in> set (c_executors c) \<and> IsLocal e \<and>
    call_locally conn answer what request (Some c) reg = (SetResolutionAttempts 1 (reply e), reg')"
proof -
  have local: "ContainsLocallyCallable conn c" using assms(1) by (simp add: ContainsLocallyCallable_iff)
  obtain e c1 where sel: "SelectNextCallableExecutor conn True c = (Some e, c1)"
    using Select_local [OF local] by (metis prod.collapse)
  have "c_executors c \<noteq> []" using assms(1) by auto
  note spec = Select_spec(1) [OF this, of conn True]
  have "find (eligible conn True) (rotate (Suc (min (length (c_executors c) - 1) (c_last c))) (c_executors c)) = Some e"
    using spec sel by (simp del: rotate_Suc)
  from find_SomeD [OF this] have "e \<in> set (c_executors c)" "IsLocal e"
    by (simp_all add: eligible_def del: rotate_Suc)
  note e = this
  have "resolve_call RETRY_POLICY_NONE (\<lambda>_. conn) (answer request) True None 1 c =
      (Resolved (SetResolutionAttempts 1 (reply e)), [e], c1)"
    using resolve_call_step [of "\<lambda>_. conn" 1 True None c "Some e" c1 RETRY_POLICY_NONE "answer request"]
      sel assms(2) [OF e] by (simp add: pick_def RETRY_POLICY_NONE_def)
  with e show ?thesis by (auto simp: call_locally_def IssueCallAsJob_def Let_def)
qed

text \<open>A node that is up and has an open connection \<open>c\<close> to the node \<open>i\<close>.\<close>

definition linked :: "node_env \<Rightarrow> node \<Rightarrow> conn \<Rightarrow> string \<Rightarrow> bool" where
  "linked env nd c i \<longleftrightarrow> GetConnection i (nd_endpoint nd) = Some c \<and>
     endpoint_id (conn_info (nd_endpoint nd) c) = i \<and> running (nd_endpoint nd) \<and>
     subsystems_up (nd_endpoint nd) \<and> ne_write env c = Written"

lemma linked_same:
  assumes "linked env nd c i" and "same_links (nd_endpoint nd) (nd_endpoint nd')"
  shows "linked env nd' c i"
  using assms same_links_get [OF assms(2)] by (auto simp: linked_def) (auto simp: same_links_def)

lemma linked_connected: "linked env nd c i \<Longrightarrow> node_connected nd i"
  by (simp add: linked_def node_connected_def HasConnectionTo_iff)

lemma request_is_sent:
  assumes "linked env nd c target" and "consumer_alive (nd_rpc nd)"
    and "map_ok (rq_parameters (rpc_requests (nd_rpc nd) r))"
    and "\<And>m. FromServiceRequest (ne_uuid env) (rpc_requests (nd_rpc nd) r) = Inr m \<Longrightarrow> carries env to m"
  shows "\<exists>m data. call_remote_service env r target p nd =
      Inr (nd\<lparr>nd_endpoint := (nd_endpoint nd)\<lparr>written := written (nd_endpoint nd) @ [(c, data)]\<rparr>,
        nd_rpc := AddResponsePromise r target p (mark r True (nd_rpc nd))\<rparr>) \<and>
    FromMultipartFormData (ne_parse to) data = Inr (Some m) \<and> m_type m = ''service-request'' \<and>
    ToServiceRequest m = Inr (Some (received_request (rpc_requests (nd_rpc nd) r)))"
proof -
  let ?s = "AddResponsePromise r target p (mark r True (nd_rpc nd))"
  obtain m where m: "FromServiceRequest (ne_uuid env) (rpc_requests (nd_rpc nd) r) = Inr m"
      "m_type m = ''service-request''" "ToServiceRequest m = Inr (Some (received_request (rpc_requests (nd_rpc nd) r)))"
    using request_message [OF assms(3)] by blast
  have "FromServiceRequest (ne_uuid env) (rpc_requests ?s r) = Inr m"
    using m(1) by (simp add: FromServiceRequest_def GetParameterNames_def AddResponsePromise_def mark_def
        MarkAsCurrentlyProcessed_def)
  moreover obtain data where "node_Send env target m (nd\<lparr>nd_rpc := ?s\<rparr>) = Inr (Inr (), nd\<lparr>nd_rpc := ?s,
        nd_endpoint := (nd_endpoint nd)\<lparr>written := written (nd_endpoint nd) @ [(c, data)]\<rparr>\<rparr>)"
      "FromMultipartFormData (ne_parse to) data = Inr (Some m)"
    using send_carried [of target "nd\<lparr>nd_rpc := ?s\<rparr>" c env to m] assms(1,4) m(1) by (auto simp: linked_def)
  ultimately show ?thesis
    using m(2,3) assms(2) linked_connected [OF assms(1)]
    by (intro exI [of _ m] exI [of _ data])
      (simp add: call_remote_service_def remote_call_begin_def remote_call_sent_def sending_of_def Let_def)
qed

definition serving :: "node \<Rightarrow> bool" where
  "serving nd \<longleftrightarrow> ss_alive (nd_subsystems nd) \<and> ss_job_manager (nd_subsystems nd) \<and> ss_endpoint (nd_subsystems nd)"

lemma request_is_answered:
  assumes "linked env nd c' (endpoint_id info)" and "serving nd"
    and "ToServiceRequest m = Inr (Some request)"
    and "map_get (nd_registry nd) (rq_service request) = Some c" and "\<exists>e\<in>set (c_executors c). IsLocal e"
    and "\<And>e. e \<in> set (c_executors c) \<Longrightarrow> IsLocal e \<Longrightarrow> ne_answer env request 1 e = Inr (reply e) \<and>
      map_ok (rs_results (reply e)) \<and> status_ok (rs_status (reply e)) \<and>
      (\<forall>m. FromServiceResponse (ne_uuid env) (reply e) = Inr m \<longrightarrow> carries env to m)"
  shows "\<exists>e reg m' data. e \<in> set (c_executors c) \<and> IsLocal e \<and>
    consume_request env m info nd = Inr (nd\<lparr>nd_registry := reg,
      nd_endpoint := (nd_endpoint nd)\<lparr>written := written (nd_endpoint nd) @ [(c', data)]\<rparr>\<rparr>) \<and>
    FromMultipartFormData (ne_parse to) data = Inr (Some m') \<and> m_type m' = ''service-response'' \<and>
    ToServiceResponse m' = Inr (Some (received_response (reply e)))"
proof -
  have find: "remote_Find (node_connected nd) (rq_service request) True (nd_registry nd) = Inr (Some c)"
    using assms(4,5) caller_IsCallable_local by (auto simp: remote_Find_def ContainsLocallyCallable_iff)
  obtain e reg where e: "e \<in> set (c_executors c)" "IsLocal e"
    and call: "call_locally (node_connected nd) (ne_answer env) (ne_what env) request (Some c) (nd_registry nd) =
      (SetResolutionAttempts 1 (reply e), reg)"
    using local_call_answered [OF assms(5), of "ne_answer env" request reply] assms(6) by blast
  obtain m' where m': "FromServiceResponse (ne_uuid env) (reply e) = Inr m'" "m_type m' = ''service-response''"
      "ToServiceResponse m' = Inr (Some (received_response (reply e)))"
    using response_message [of "reply e" "ne_uuid env"] assms(6) [OF e] by blast
  have "FromServiceResponse (ne_uuid env) (SetResolutionAttempts 1 (reply e)) = Inr m'"
    using m'(1) by (simp add: FromServiceResponse_def SetResolutionAttempts_def GetResultNames_def)
  then have "process_request (node_connected nd) (ne_answer env) (ne_uuid env) (ne_what env) (nd_registry nd) m =
      Inr (Some m', reg)"
    using assms(3) find call by (simp add: process_request_def)
  moreover obtain data where "node_Send env (endpoint_id info) m' (nd\<lparr>nd_registry := reg\<rparr>) =
      Inr (Inr (), nd\<lparr>nd_registry := reg,
        nd_endpoint := (nd_endpoint nd)\<lparr>written := written (nd_endpoint nd) @ [(c', data)]\<rparr>\<rparr>)"
      "FromMultipartFormData (ne_parse to) data = Inr (Some m')"
    using send_carried [of "endpoint_id info" "nd\<lparr>nd_registry := reg\<rparr>" c' env to m'] assms(1,6) e m'(1)
    by (auto simp: linked_def)
  ultimately show ?thesis
    using e m'(2,3) assms(2)
    by (intro exI [of _ e] exI [of _ reg] exI [of _ m'] exI [of _ data])
      (simp add: consume_request_def serving_def)
qed

lemma response_is_delivered:
  assumes "ToServiceResponse m = Inr (Some response)"
    and "map_get (pending_requests (nd_rpc nd)) (rs_transaction response) = Some info"
    and "rpc_promises (nd_rpc nd) (pi_promise info) = None"
  shows "consume_response m nd = Inr (nd\<lparr>nd_rpc := (mark (pi_request info) False (nd_rpc nd))
    \<lparr>rpc_promises := (rpc_promises (nd_rpc nd))(pi_promise info \<mapsto> Answered response),
     pending_requests := map_erase (rs_transaction response) (pending_requests (nd_rpc nd))\<rparr>\<rparr>)"
  using assms by (simp add: consume_response_def ProcessReceivedMessage_def settle_def)

text \<open>The same from the bytes on: a node given a request, and a node given a response.\<close>

lemma node_serves_request:
  assumes "linked env nd c' i" and "serving nd"
    and "consumers_of ''service-request'' (nd_endpoint nd) = [\<lparr>co_object = n, co_type = ''service-request''\<rparr>]"
    and "FromMultipartFormData (ne_parse env) data = Inr (Some m)" and "m_type m = ''service-request''"
    and "ToServiceRequest m = Inr (Some request)"
    and "map_get (nd_registry nd) (rq_service request) = Some c" and "\<exists>e\<in>set (c_executors c). IsLocal e"
    and "\<And>e. e \<in> set (c_executors c) \<Longrightarrow> IsLocal e \<Longrightarrow> ne_answer env request 1 e = Inr (reply e) \<and>
      map_ok (rs_results (reply e)) \<and> status_ok (rs_status (reply e)) \<and>
      (\<forall>m. FromServiceResponse (ne_uuid env) (reply e) = Inr m \<longrightarrow> carries env to m)"
  shows "\<exists>nd' e m' data'. node_receive env c' (ReadData data) nd = Inr nd' \<and>
    written (nd_endpoint nd') = written (nd_endpoint nd) @ [(c', data')] \<and> e \<in> set (c_executors c) \<and> IsLocal e \<and>
    FromMultipartFormData (ne_parse to) data' = Inr (Some m') \<and> m_type m' = ''service-response'' \<and>
    ToServiceResponse m' = Inr (Some (received_response (reply e)))"
proof -
  let ?info = "conn_info (nd_endpoint nd) c'"
  obtain ep where r: "node_receive env c' (ReadData data) nd = run_consumers env
      [(\<lparr>co_object = n, co_type = ''service-request''\<rparr>, m, ?info)] (nd\<lparr>nd_endpoint := ep\<rparr>)"
    and ep: "same_links (nd_endpoint nd) ep" "written ep = written (nd_endpoint nd)"
    using receive_carried [OF assms(4), of nd c'] assms(1,3,5) by (auto simp: linked_def)
  let ?nd = "nd\<lparr>nd_endpoint := ep\<rparr>"
  have lk: "linked env ?nd c' (endpoint_id ?info)"
    using linked_same [OF assms(1), of ?nd] ep(1) assms(1) by (simp add: linked_def)
  have sv: "serving ?nd" and reg: "map_get (nd_registry ?nd) (rq_service request) = Some c"
    using assms(2,7) by (simp_all add: serving_def)
  obtain e reg m' data' where e: "e \<in> set (c_executors c)" "IsLocal e"
    and serve: "consume_request env m ?info ?nd =
      Inr (nd\<lparr>nd_registry := reg, nd_endpoint := ep\<lparr>written := written ep @ [(c', data')]\<rparr>\<rparr>)"
    and m': "FromMultipartFormData (ne_parse to) data' = Inr (Some m')" "m_type m' = ''service-response''"
      "ToServiceResponse m' = Inr (Some (received_response (reply e)))"
    using request_is_answered [OF lk sv assms(6) reg assms(8,9), simplified] by blast
  then have "node_receive env c' (ReadData data) nd =
      Inr (nd\<lparr>nd_registry := reg, nd_endpoint := ep\<lparr>written := written ep @ [(c', data')]\<rparr>\<rparr>)"
    using r by (simp add: consume_def)
  then show ?thesis using e m' ep(2) by (intro exI conjI) (assumption | simp)+
qed

lemma node_takes_response:
  assumes "linked env nd c i"
    and "consumers_of ''service-response'' (nd_endpoint nd) = [\<lparr>co_object = n, co_type = ''service-response''\<rparr>]"
    and "FromMultipartFormData (ne_parse env) data = Inr (Some m)" and "m_type m = ''service-response''"
    and "ToServiceResponse m = Inr (Some response)"
    and "map_get (pending_requests (nd_rpc nd)) (rs_transaction response) = Some info"
    and "rpc_promises (nd_rpc nd) (pi_promise info) = None"
  shows "\<exists>ep. node_receive env c (ReadData data) nd = Inr (nd\<lparr>nd_endpoint := ep,
      nd_rpc := (mark (pi_request info) False (nd_rpc nd))
        \<lparr>rpc_promises := (rpc_promises (nd_rpc nd))(pi_promise info \<mapsto> Answered response),
         pending_requests := map_erase (rs_transaction response) (pending_requests (nd_rpc nd))\<rparr>\<rparr>) \<and>
    written ep = written (nd_endpoint nd) \<and> same_links (nd_endpoint nd) ep"
proof -
  obtain ep where "node_receive env c (ReadData data) nd = run_consumers env
      [(\<lparr>co_object = n, co_type = ''service-response''\<rparr>, m, conn_info (nd_endpoint nd) c)] (nd\<lparr>nd_endpoint := ep\<rparr>)"
    and "written ep = written (nd_endpoint nd)" "same_links (nd_endpoint nd) ep"
    using receive_carried [OF assms(3), of nd c] assms(1,2,4) by (auto simp: linked_def)
  then show ?thesis
    using response_is_delivered [OF assms(5), of "nd\<lparr>nd_endpoint := ep\<rparr>"] assms(6,7) by (auto simp: consume_def)
qed

section \<open>The offer of services\<close>

text \<open>Reads of one connection, one after the other.\<close>

fun receive_all :: "node_env \<Rightarrow> conn \<Rightarrow> string list \<Rightarrow> node \<Rightarrow> node result" where
  "receive_all env c [] nd = Inr nd"
| "receive_all env c (d # ds) nd = bind_result (node_receive env c (ReadData d) nd) (receive_all env c ds)"

lemma portfolio_is_sent:
  assumes "linked env nd c target" and "\<forall>m\<in>set ms. carries env to m"
  shows "\<exists>ds. send_portfolio env target ms nd =
      nd\<lparr>nd_endpoint := (nd_endpoint nd)\<lparr>written := written (nd_endpoint nd) @ map (Pair c) ds\<rparr>\<rparr> \<and>
    list_all2 (\<lambda>m d. FromMultipartFormData (ne_parse to) d = Inr (Some m)) ms ds"
  using assms
proof (induction ms arbitrary: nd)
  case Nil
  have "nd\<lparr>nd_endpoint := nd_endpoint nd\<rparr> = nd" "(nd_endpoint nd)\<lparr>written := written (nd_endpoint nd)\<rparr> = nd_endpoint nd"
    by simp_all
  then show ?case by (intro exI [of _ "[]"]) simp
next
  case (Cons m ms)
  obtain d where d: "node_Send env target m nd =
      Inr (Inr (), nd\<lparr>nd_endpoint := (nd_endpoint nd)\<lparr>written := written (nd_endpoint nd) @ [(c, d)]\<rparr>\<rparr>)" (is "_ = Inr (_, ?nd)")
    "FromMultipartFormData (ne_parse to) d = Inr (Some m)"
    using send_carried [of target nd c env to m] Cons.prems by (auto simp: linked_def)
  have "linked env ?nd c target" by (rule linked_same [OF Cons.prems(1)]) simp
  moreover have "\<forall>x\<in>set ms. carries env to x" using Cons.prems(2) by simp
  ultimately obtain ds where "send_portfolio env target ms ?nd =
      ?nd\<lparr>nd_endpoint := (nd_endpoint ?nd)\<lparr>written := written (nd_endpoint ?nd) @ map (Pair c) ds\<rparr>\<rparr>"
    "list_all2 (\<lambda>m d. FromMultipartFormData (ne_parse to) d = Inr (Some m)) ms ds"
    using Cons.IH by meson
  with d show ?case by (intro exI [of _ "d # ds"]) simp
qed

lemma registration_is_entered:
  assumes "linked env nd c i" and "serving nd"
    and "consumers_of ''register-remote-service'' (nd_endpoint nd) = [\<lparr>co_object = n, co_type = ''register-remote-service''\<rparr>]"
    and "FromMultipartFormData (ne_parse env) d = Inr (Some m)" and "m_type m = ''register-remote-service''"
    and "process_registration i m = Inr e" and "e_where e = RemoteExecutor i"
  shows "\<exists>nd'. node_receive env c (ReadData d) nd = Inr nd' \<and> nd_registry nd' = enter_executor e (nd_registry nd) \<and>
    nd_subsystems nd' = nd_subsystems nd \<and> same_links (nd_endpoint nd) (nd_endpoint nd')"
proof -
  obtain ep where r: "node_receive env c (ReadData d) nd = run_consumers env
      [(\<lparr>co_object = n, co_type = ''register-remote-service''\<rparr>, m, conn_info (nd_endpoint nd) c)] (nd\<lparr>nd_endpoint := ep\<rparr>)"
    and ep: "same_links (nd_endpoint nd) ep"
    using receive_carried [OF assms(4), of nd c] assms(1,3,5) by (auto simp: linked_def)
  let ?nd = "nd\<lparr>nd_endpoint := ep\<rparr>"
  have "linked env ?nd c i" using linked_same [OF assms(1)] ep by simp
  then have "IsCallable (node_connected ?nd) e" using linked_connected assms(7) by (simp add: IsCallable_def)
  then obtain effects where "remote_Register (nd_subsystems ?nd) (node_connected ?nd) e (nd_registry ?nd) =
      Inr (enter_executor e (nd_registry nd), effects)"
    using assms(2) by (simp add: remote_Register_def serving_def)
  then have "consume env (\<lparr>co_object = n, co_type = ''register-remote-service''\<rparr>, m, conn_info (nd_endpoint nd) c) ?nd =
      Inr (?nd\<lparr>nd_registry := enter_executor e (nd_registry nd), nd_effects := nd_effects nd @ effects\<rparr>)"
    using assms(1,6) by (simp add: consume_def consume_registration_def register_service_def linked_def)
  then show ?thesis using r ep by simp
qed

lemma registrations_are_entered:
  assumes "list_all2 (\<lambda>m d. FromMultipartFormData (ne_parse env) d = Inr (Some m)) ms ds"
    and "map (process_registration i) ms = map Inr es"
    and "\<forall>m\<in>set ms. m_type m = ''register-remote-service''" and "\<forall>e\<in>set es. e_where e = RemoteExecutor i"
    and "linked env nd c i" and "serving nd"
    and "consumers_of ''register-remote-service'' (nd_endpoint nd) = [\<lparr>co_object = n, co_type = ''register-remote-service''\<rparr>]"
  shows "\<exists>nd'. receive_all env c ds nd = Inr nd' \<and> nd_registry nd' = fold enter_executor es (nd_registry nd) \<and>
    same_links (nd_endpoint nd) (nd_endpoint nd')"
  using assms
proof (induction arbitrary: es nd rule: list_all2_induct)
  case (Cons m ms d ds)
  then obtain e es' where es: "es = e # es'" "process_registration i m = Inr e" "map (process_registration i) ms = map Inr es'"
    by (cases es) auto
  obtain nd1 where nd1: "node_receive env c (ReadData d) nd = Inr nd1" "nd_registry nd1 = enter_executor e (nd_registry nd)"
      "nd_subsystems nd1 = nd_subsystems nd" and same: "same_links (nd_endpoint nd) (nd_endpoint nd1)"
    using registration_is_entered [OF Cons.prems(4-6) Cons.hyps(1) _ es(2)] Cons.prems(2,3) es(1) by auto
  have lk: "linked env nd1 c i" by (rule linked_same [OF Cons.prems(4) same])
  have sv: "serving nd1" using Cons.prems(5) nd1(3) by (simp add: serving_def)
  have co: "consumers_of ''register-remote-service'' (nd_endpoint nd1) = [\<lparr>co_object = n, co_type = ''register-remote-service''\<rparr>]"
    using Cons.prems(6) same by (simp add: same_links_def)
  have "\<forall>m\<in>set ms. m_type m = ''register-remote-service''" "\<forall>e\<in>set es'. e_where e = RemoteExecutor i"
    using Cons.prems(2,3) es(1) by auto
  from Cons.IH [OF es(3) this lk sv co] obtain nd' where "receive_all env c ds nd1 = Inr nd'"
      "nd_registry nd' = fold enter_executor es' (nd_registry nd1)" "same_links (nd_endpoint nd1) (nd_endpoint nd')"
    by blast
  with nd1 same show ?case by (auto simp: es(1) intro: same_links_trans)
qed simp

lemma registered_locals:
  assumes "registry_ok reg"
  shows "e \<in> set (concat (map (\<lambda>(n, c). filter IsLocal (c_executors c)) reg)) \<and> e_service e = s \<longleftrightarrow>
    e \<in> executors_of reg s \<and> IsLocal e"
proof
  assume l: "e \<in> set (concat (map (\<lambda>(n, c). filter IsLocal (c_executors c)) reg)) \<and> e_service e = s"
  then obtain n c where nc: "(n, c) \<in> set reg" "e \<in> set (c_executors c)" "IsLocal e" by auto
  then have "e_service e = n" using assms by (auto simp: registry_ok_def entry_ok_def)
  moreover have "map_get reg n = Some c" using assms nc(1) by (simp add: registry_ok_def map_entry_get)
  ultimately have "e_service e = n" "map_get reg n = Some c" .
  with nc l show "e \<in> executors_of reg s \<and> IsLocal e" by (simp add: executors_of_def)
next
  assume r: "e \<in> executors_of reg s \<and> IsLocal e"
  then obtain c where c: "map_get reg s = Some c" "e \<in> set (c_executors c)"
    by (auto simp: executors_of_def split: option.splits)
  then have "(s, c) \<in> set reg" using assms by (simp add: registry_ok_def map_entry_get)
  moreover from this have "e_service e = s" using assms c(2) by (auto simp: registry_ok_def entry_ok_def)
  ultimately show "e \<in> set (concat (map (\<lambda>(n, c). filter IsLocal (c_executors c)) reg)) \<and> e_service e = s"
    using c(2) r by auto
qed

section \<open>Properties\<close>

text \<open>
  C3: a remote call from end to end. Node \<open>a\<close> calls a service of node \<open>b\<close>, to which it is
  linked; \<open>b\<close> has a local executor for it. Then \<open>a\<close> writes one request to \<open>b\<close>; \<open>b\<close>, given
  these bytes, writes one response back; and \<open>a\<close>, given those, settles the promise of the
  call, and no other, with what a local executor of \<open>b\<close> answered to that request, takes the
  call out of its table and releases the request object. Parameters and results are those of
  the original, extended by the reserved names.
\<close>

theorem remote_call_returns_the_answer:
  assumes "linked ea a ca idb" and "linked eb b cb ida" and "serving b"
    and "consumers_of ''service-response'' (nd_endpoint a) = [\<lparr>co_object = na, co_type = ''service-response''\<rparr>]"
    and "consumers_of ''service-request'' (nd_endpoint b) = [\<lparr>co_object = nb, co_type = ''service-request''\<rparr>]"
    and "consumer_alive (nd_rpc a)" and "rpc_promises (nd_rpc a) p = None" and "request = rpc_requests (nd_rpc a) r"
    and "map_ok (rq_parameters request)"
    and "\<And>m. FromServiceRequest (ne_uuid ea) request = Inr m \<Longrightarrow> carries ea eb m"
    and "map_get (nd_registry b) (rq_service request) = Some c" and "\<exists>e\<in>set (c_executors c). IsLocal e"
    and "\<And>e. e \<in> set (c_executors c) \<Longrightarrow> IsLocal e \<Longrightarrow>
      ne_answer eb (received_request request) 1 e = Inr (reply e) \<and> rs_transaction (reply e) = rq_transaction request \<and>
      map_ok (rs_results (reply e)) \<and> status_ok (rs_status (reply e)) \<and>
      (\<forall>m. FromServiceResponse (ne_uuid eb) (reply e) = Inr m \<longrightarrow> carries eb ea m)"
  shows "\<exists>a1 b1 a2 data1 data2 e. call_remote_service ea r idb p a = Inr a1 \<and>
    written (nd_endpoint a1) = written (nd_endpoint a) @ [(ca, data1)] \<and>
    node_receive eb cb (ReadData data1) b = Inr b1 \<and>
    written (nd_endpoint b1) = written (nd_endpoint b) @ [(cb, data2)] \<and>
    node_receive ea ca (ReadData data2) a1 = Inr a2 \<and> written (nd_endpoint a2) = written (nd_endpoint a1) \<and>
    e \<in> set (c_executors c) \<and> IsLocal e \<and>
    rpc_promises (nd_rpc a2) = (rpc_promises (nd_rpc a))(p \<mapsto> Answered (received_response (reply e))) \<and>
    pending_requests (nd_rpc a2) = map_erase (rq_transaction request) (pending_requests (nd_rpc a1)) \<and>
    \<not> rq_processed (rpc_requests (nd_rpc a2) r)"
proof -
  obtain m data1 where call: "call_remote_service ea r idb p a =
      Inr (a\<lparr>nd_endpoint := (nd_endpoint a)\<lparr>written := written (nd_endpoint a) @ [(ca, data1)]\<rparr>,
        nd_rpc := AddResponsePromise r idb p (mark r True (nd_rpc a))\<rparr>)" (is "_ = Inr ?a1")
    and m: "FromMultipartFormData (ne_parse eb) data1 = Inr (Some m)" "m_type m = ''service-request''"
      "ToServiceRequest m = Inr (Some (received_request request))"
    using request_is_sent [OF assms(1,6), of r eb] assms(8-10) by blast
  have reg: "map_get (nd_registry b) (rq_service (received_request request)) = Some c"
    using assms(11) by (simp add: received_request_def)
  obtain b1 e m' data2 where serve: "node_receive eb cb (ReadData data1) b = Inr b1"
      "written (nd_endpoint b1) = written (nd_endpoint b) @ [(cb, data2)]" and e: "e \<in> set (c_executors c)" "IsLocal e"
    and m': "FromMultipartFormData (ne_parse ea) data2 = Inr (Some m')" "m_type m' = ''service-response''"
      "ToServiceResponse m' = Inr (Some (received_response (reply e)))"
    using node_serves_request [OF assms(2,3,5) m reg assms(12), of reply ea] assms(13) by blast
  have lk: "linked ea ?a1 ca idb" by (rule linked_same [OF assms(1)]) simp
  have co: "consumers_of ''service-response'' (nd_endpoint ?a1) = [\<lparr>co_object = na, co_type = ''service-response''\<rparr>]"
    using assms(4) by (simp add: consumers_of_def)
  have t: "rs_transaction (received_response (reply e)) = rq_transaction request"
    using assms(13) [OF e] by (simp add: received_response_def)
  obtain ep where "node_receive ea ca (ReadData data2) ?a1 = Inr (?a1\<lparr>nd_endpoint := ep,
      nd_rpc := (mark r False (nd_rpc ?a1))
        \<lparr>rpc_promises := (rpc_promises (nd_rpc ?a1))(p \<mapsto> Answered (received_response (reply e))),
         pending_requests := map_erase (rq_transaction request) (pending_requests (nd_rpc ?a1))\<rparr>\<rparr>)" (is "_ = Inr ?a2")
    and "written ep = written (nd_endpoint ?a1)"
    using node_takes_response [OF lk co m', of "\<lparr>pi_request = r, pi_promise = p, pi_endpoint = idb\<rparr>"] assms(7,8) t
    by (auto simp: AddResponsePromise_def)
  then show ?thesis
    using call serve e
    by (intro exI [of _ ?a1] exI [of _ b1] exI [of _ ?a2] exI [of _ data1] exI [of _ data2] exI [of _ e])
      (simp add: AddResponsePromise_def)
qed

definition example_meta :: "string \<Rightarrow> string \<Rightarrow> json" where
  "example_meta t i = meta_json (make_message t i)"

definition example_env :: node_env where
  "example_env =
     \<lparr>ne_parse = (\<lambda>s. Some (if s = ''{q}'' then example_meta ''service-request'' ''u''
         else if s = ''{a}'' then example_meta ''service-response'' ''u'' else example_meta ''register-remote-service'' ''u'')),
      ne_serialize = (\<lambda>j. if j = example_meta ''service-request'' ''u'' then ''{q}''
         else if j = example_meta ''service-response'' ''u'' then ''{a}'' else ''{r}''),
      ne_write = (\<lambda>_. Written), ne_answer = (\<lambda>r n e. Inr (make_response (rq_transaction r) OK ''done'')),
      ne_what = (\<lambda>_. ''error''), ne_uuid = ''u''\<rparr>"

definition example_endpoint :: "nat \<Rightarrow> string \<Rightarrow> string \<Rightarrow> endpoint" where
  "example_endpoint n ty other = AddMessageConsumer \<lparr>co_object = n, co_type = ty\<rparr>
     (AddConnection 1 \<lparr>hostname = ''h'', endpoint_id = other\<rparr> (make_endpoint True True True))"

definition example_node :: "nat \<Rightarrow> string \<Rightarrow> string \<Rightarrow> callers \<Rightarrow> node" where
  "example_node n ty other reg =
     \<lparr>nd_endpoint = example_endpoint n ty other,
      nd_subsystems = \<lparr>ss_alive = True, ss_job_manager = True, ss_endpoint = True, ss_broker = True\<rparr>,
      nd_registry = reg,
      nd_rpc = \<lparr>pending_requests = [], rpc_requests = (\<lambda>_. make_request ''add'' ''t''),
        rpc_promises = (\<lambda>_. None), consumer_alive = True\<rparr>, nd_effects = []\<rparr>"

lemma example_endpoint_facts:
  "GetConnection other (example_endpoint n ty other) = Some 1"
  "endpoint_id (conn_info (example_endpoint n ty other) 1) = other"
  "running (example_endpoint n ty other)" "subsystems_up (example_endpoint n ty other)"
  "consumers_of ty (example_endpoint n ty other) = [\<lparr>co_object = n, co_type = ty\<rparr>]"
  "stream_open (example_endpoint n ty other) = {1}" "connections (example_endpoint n ty other) = [(other, 1)]"
  by (simp_all add: example_endpoint_def AddMessageConsumer_def AddConnection_def StartReceivingMessages_def
      Let_def fire_event_def make_endpoint_def GetConnection_def IsUsable_def consumers_of_def map_index_def del: One_nat_def)

lemma example_linked: "linked example_env (example_node n ty other reg) 1 other"
  by (simp add: linked_def example_node_def example_endpoint_facts example_env_def del: One_nat_def)

lemma example_carries:
  assumes "sendable m" and "m_uuid m = ''u''"
    and "m_type m \<in> {''service-request'', ''service-response'', ''register-remote-service''}"
  shows "carries example_env example_env m"
proof -
  have "meta_json m = example_meta (m_type m) ''u''"
    using assms(2) by (simp add: meta_json_def example_meta_def make_message_def)
  with assms(1,3) show ?thesis
    by (auto simp: carries_def multipart_carries_def example_env_def example_meta_def meta_json_def make_message_def)
qed

lemma example_request_carries:
  assumes "FromServiceRequest ''u'' (make_request ''add'' ''t'') = Inr m"
  shows "carries example_env example_env m"
proof -
  have eq: "FromServiceRequest ''u'' (make_request ''add'' ''t'') = Inr \<lparr>m_type = ''service-request'', m_uuid = ''u'',
    m_attributes = [(''service'', ''add''), (''transaction-id'', ''t'')]\<rparr>" (is "_ = Inr ?m") by code_simp
  have "sendable ?m" by code_simp
  then have "carries example_env example_env ?m" by (rule example_carries) simp_all
  then show ?thesis using eq assms by simp
qed

lemma example_response_carries:
  assumes "FromServiceResponse ''u'' (make_response ''t'' OK ''done'') = Inr m"
  shows "carries example_env example_env m"
proof -
  have eq: "FromServiceResponse ''u'' (make_response ''t'' OK ''done'') = Inr \<lparr>m_type = ''service-response'', m_uuid = ''u'',
    m_attributes = [(''status'', ''0''), (''status-message'', ''done''), (''transaction-id'', ''t'')]\<rparr>" (is "_ = Inr ?m") by code_simp
  have "sendable ?m" by code_simp
  then have "carries example_env example_env ?m" by (rule example_carries) simp_all
  then show ?thesis using eq assms by simp
qed

theorem remote_call_returns_the_answer_witness:
  "\<exists>a1 b1 a2 data1 data2. call_remote_service example_env 0 ''b'' 7 (example_node 2 ''service-response'' ''b'' []) = Inr a1 \<and>
     node_receive example_env 1 (ReadData data1) (example_node 3 ''service-request'' ''a'' (enter_executor example_local [])) = Inr b1 \<and>
     node_receive example_env 1 (ReadData data2) a1 = Inr a2 \<and>
     (\<exists>response. rpc_promises (nd_rpc a2) 7 = Some (Answered response) \<and> rs_message response = ''done'')"
proof -
  let ?a = "example_node 2 ''service-response'' ''b'' []" and ?r = "make_request ''add'' ''t''"
  let ?b = "example_node 3 ''service-request'' ''a'' (enter_executor example_local [])"
  let ?reply = "\<lambda>e :: executor. make_response ''t'' OK ''done''"
  let ?c = "\<lparr>c_name = ''add'', c_executors = [example_local], c_last = 0\<rparr>"
  have reg: "map_get (nd_registry ?b) (rq_service ?r) = Some ?c"
    by (simp add: example_node_def enter_executor_def example_local_def make_caller_def AddExecutor_def make_request_def Let_def)
  note call = remote_call_returns_the_answer [OF example_linked [of 2 "''service-response''" "''b''" "[]"]
      example_linked [of 3 "''service-request''" "''a''" "enter_executor example_local []"], of 2 3 7 ?r 0 ?c ?reply]
  have "\<exists>a1 b1 a2 data1 data2 e. call_remote_service example_env 0 ''b'' 7 ?a = Inr a1 \<and>
    written (nd_endpoint a1) = written (nd_endpoint ?a) @ [(1, data1)] \<and>
    node_receive example_env 1 (ReadData data1) ?b = Inr b1 \<and>
    written (nd_endpoint b1) = written (nd_endpoint ?b) @ [(1, data2)] \<and>
    node_receive example_env 1 (ReadData data2) a1 = Inr a2 \<and> written (nd_endpoint a2) = written (nd_endpoint a1) \<and>
    e \<in> set (c_executors ?c) \<and> IsLocal e \<and>
    rpc_promises (nd_rpc a2) = (rpc_promises (nd_rpc ?a))(7 \<mapsto> Answered (received_response (?reply e))) \<and>
    pending_requests (nd_rpc a2) = map_erase (rq_transaction ?r) (pending_requests (nd_rpc a1)) \<and>
    \<not> rq_processed (rpc_requests (nd_rpc a2) 0)"
  proof (rule call [OF _ _ _ _ _ _ _ _ reg])
    show "FromServiceRequest (ne_uuid example_env) ?r = Inr m \<Longrightarrow> carries example_env example_env m" for m
      using example_request_carries by (simp add: example_env_def)
    show "ne_answer example_env (received_request ?r) 1 e = Inr (?reply e) \<and> rs_transaction (?reply e) = rq_transaction ?r \<and>
      map_ok (rs_results (?reply e)) \<and> status_ok (rs_status (?reply e)) \<and>
      (\<forall>m. FromServiceResponse (ne_uuid example_env) (?reply e) = Inr m \<longrightarrow> carries example_env example_env m)" for e
      using example_response_carries by (simp add: example_env_def received_request_def make_request_def make_response_def status_ok_def)
  qed (simp_all add: example_node_def example_endpoint_facts serving_def make_request_def example_local_def IsLocal_def)
  moreover have "rs_message (received_response (?reply e)) = ''done''" for e
    by (simp add: received_response_def make_response_def)
  ultimately show ?thesis by (metis (no_types, lifting) fun_upd_same)
qed

text \<open>
  C9: when node \<open>a\<close> learns that a connection to node \<open>b\<close> is established, it writes one
  registration per local executor to it; \<open>b\<close>, given these, knows every local executor of \<open>a\<close>
  by its id under its service name, to be called over the connection to \<open>a\<close>, it keeps all it
  knew before, and it enters nothing else.
\<close>

theorem new_node_learns_the_services:
  assumes "linked ea a ca idb" and "linked eb b cb ida" and "serving b"
    and "consumers_of ''register-remote-service'' (nd_endpoint b) = [\<lparr>co_object = n, co_type = ''register-remote-service''\<rparr>]"
    and "registry_ok (nd_registry a)" and "registry_ok (nd_registry b)"
    and "\<forall>m\<in>set (SendServicePortfolio (node_connected a) (ne_uuid ea) (nd_registry a)). carries ea eb m"
  shows "\<exists>a1 b1 ds. handle_event ea (ConnectionEstablished idb) a = Inr a1 \<and>
    written (nd_endpoint a1) = written (nd_endpoint a) @ map (Pair ca) ds \<and>
    receive_all eb cb ds b = Inr b1 \<and> node_connected b1 ida \<and>
    (\<forall>s. executors_of (nd_registry b) s \<subseteq> executors_of (nd_registry b1) s) \<and>
    (\<forall>s. \<forall>e\<in>executors_of (nd_registry a) s. IsLocal e \<longrightarrow> e_id e \<in> e_id ` executors_of (nd_registry b1) s) \<and>
    (\<forall>s. \<forall>x\<in>executors_of (nd_registry b1) s - executors_of (nd_registry b) s.
       \<exists>e\<in>executors_of (nd_registry a) s. IsLocal e \<and> x = e\<lparr>e_where := RemoteExecutor ida\<rparr>)"
proof -
  let ?ms = "SendServicePortfolio (node_connected a) (ne_uuid ea) (nd_registry a)"
  let ?local = "concat (map (\<lambda>(n, c). filter IsLocal (c_executors c)) (nd_registry a))"
  let ?es = "map (\<lambda>e. e\<lparr>e_where := RemoteExecutor ida\<rparr>) ?local"
  obtain ds where sent: "send_portfolio ea idb ?ms a =
      a\<lparr>nd_endpoint := (nd_endpoint a)\<lparr>written := written (nd_endpoint a) @ map (Pair ca) ds\<rparr>\<rparr>" (is "_ = ?a1")
    and ds: "list_all2 (\<lambda>m d. FromMultipartFormData (ne_parse eb) d = Inr (Some m)) ?ms ds"
    using portfolio_is_sent [OF assms(1,7)] by blast
  have "map (process_registration ida) ?ms = map Inr ?es"
    unfolding portfolio_received [OF assms(5)] by simp
  moreover have "\<forall>m\<in>set ?ms. m_type m = ''register-remote-service''"
    by (auto simp: SendServicePortfolio_def registration_message_def SetCapacity_def SetId_def SetServiceName_def
        make_registration_def make_message_def)
  ultimately obtain b1 where b1: "receive_all eb cb ds b = Inr b1"
      "nd_registry b1 = fold enter_executor ?es (nd_registry b)" "same_links (nd_endpoint b) (nd_endpoint b1)"
    using registrations_are_entered [OF ds _ _ _ assms(2-4), of ?es] by auto
  have local: "e \<in> set ?local \<and> e_service e = s \<longleftrightarrow> e \<in> executors_of (nd_registry a) s \<and> IsLocal e" for e s
    by (rule registered_locals [OF assms(5)])
  have ids: "e_id e \<in> e_id ` executors_of (nd_registry b1) s" if "e \<in> executors_of (nd_registry a) s" "IsLocal e" for e s
  proof -
    have "e \<in> set ?local" "e_service e = s" using local that by blast+
    then have "e\<lparr>e_where := RemoteExecutor ida\<rparr> \<in> set ?es" by simp
    from remote_registry.register_all_ids [OF assms(6) this] show ?thesis using \<open>e_service e = s\<close> by (simp add: b1(2))
  qed
  have new: "\<exists>e\<in>executors_of (nd_registry a) s. IsLocal e \<and> x = e\<lparr>e_where := RemoteExecutor ida\<rparr>"
    if "x \<in> executors_of (nd_registry b1) s" "x \<notin> executors_of (nd_registry b) s" for x s
  proof -
    have "x \<in> {e \<in> set ?es. e_service e = s}"
      using remote_registry.register_all_only [OF assms(6), of ?es s] that by (auto simp only: b1(2))
    then obtain e where "e \<in> set ?local" "x = e\<lparr>e_where := RemoteExecutor ida\<rparr>" "e_service x = s"
      unfolding set_map by blast
    then have "e \<in> set ?local" "e_service e = s" "x = e\<lparr>e_where := RemoteExecutor ida\<rparr>" by simp_all
    then show ?thesis using local by blast
  qed
  have "handle_event ea (ConnectionEstablished idb) a = Inr ?a1" by (simp add: handle_event_def sent)
  moreover have "node_connected b1 ida" by (rule linked_connected [OF linked_same [OF assms(2) b1(3)]])
  ultimately show ?thesis
    using b1(1) ids new remote_registry.register_all_keeps [OF assms(6), of _ ?es]
    by (intro exI [of _ ?a1] exI [of _ b1] exI [of _ ds]) (auto simp: b1(2))
qed

theorem new_node_learns_the_services_witness:
  "\<exists>b1 ds. receive_all example_env 1 ds (example_node 3 ''register-remote-service'' ''a'' []) = Inr b1 \<and>
     ''a'' \<in> e_id ` executors_of (nd_registry b1) ''add''"
proof -
  let ?e = "example_local\<lparr>e_capacity := 2\<rparr>"
  let ?a = "example_node 2 ''service-response'' ''b'' (enter_executor ?e [])"
  let ?b = "example_node 3 ''register-remote-service'' ''a'' []"
  have entered: "enter_executor ?e [] = [(''add'', \<lparr>c_name = ''add'', c_executors = [?e], c_last = 0\<rparr>)]"
    by (simp add: enter_executor_def example_local_def make_caller_def AddExecutor_def Let_def)
  have local: "IsLocal ?e" "IsCallable conn ?e" for conn
    by (simp_all add: IsLocal_def IsCallable_def example_local_def)
  have "SendServicePortfolio (node_connected ?a) ''u'' (nd_registry ?a) = [registration_message ''u'' ''add'' ''a'' 2]"
    using local by (simp add: SendServicePortfolio_def example_node_def entered GetCallableServiceExecutors_def)
      (simp add: example_local_def)
  moreover have "sendable (registration_message ''u'' ''add'' ''a'' 2)"
    by (simp add: registration_message_def sendable_def SetCapacity_def SetId_def SetServiceName_def make_registration_def
        SetAttribute_def make_message_def message_ok_def) code_simp
  then have "carries example_env example_env (registration_message ''u'' ''add'' ''a'' 2)"
    by (rule example_carries) (simp_all add: registration_message_def SetCapacity_def SetId_def SetServiceName_def
        make_registration_def make_message_def)
  moreover have empty: "registry_ok []" by (simp add: registry_ok_def)
  moreover have "registry_ok (nd_registry ?a)" "registry_ok (nd_registry ?b)"
    by (simp_all add: example_node_def empty enter_executor_ok)
  moreover have "serving ?b"
    "consumers_of ''register-remote-service'' (nd_endpoint ?b) = [\<lparr>co_object = 3, co_type = ''register-remote-service''\<rparr>]"
    by (simp_all add: example_node_def serving_def example_endpoint_facts)
  ultimately have "\<exists>a1 b1 ds. handle_event example_env (ConnectionEstablished ''b'') ?a = Inr a1 \<and>
    receive_all example_env 1 ds ?b = Inr b1 \<and>
    (\<forall>s. \<forall>e\<in>executors_of (nd_registry ?a) s. IsLocal e \<longrightarrow> e_id e \<in> e_id ` executors_of (nd_registry b1) s)"
    using new_node_learns_the_services [OF example_linked [of 2 "''service-response''" "''b''" "enter_executor ?e []"]
        example_linked [of 3 "''register-remote-service''" "''a''" "[]"], of 3]
    by (simp add: example_env_def) blast
  moreover have "?e \<in> executors_of (nd_registry ?a) ''add''" "e_id ?e = ''a''"
    by (simp_all add: example_node_def entered executors_of_def) (simp add: example_local_def)
  ultimately show ?thesis using local(1) by metis
qed

end
