(* ===== verification/Pending_Calls.thy ===== *)
theory Pending_Calls
  imports Node
begin

text \<open>
  Remote calls of a node while its connections come and go. The job of a call has three parts
  with gaps between them in which anything may happen: it checks the connection, it enters the
  promise into the table of the response consumer and registers the listener for lost
  connections, and it sends the request. Events are delivered by jobs of their own, in any
  order. The theory shows which calls may be waiting for an answer that will never come.
\<close>

section \<open>What closing reports\<close>

text \<open>
  A node leaves the table of connections only together with an event for it.
\<close>

definition reports :: "endpoint \<Rightarrow> endpoint \<Rightarrow> bool" where
  "reports s s' \<longleftrightarrow> subsystems_up s' \<and> broker_up s' \<and> (\<exists>new. events s' = events s @ new \<and>
     (\<forall>i. map_get (connections s) i \<noteq> None \<and> map_get (connections s') i = None \<longrightarrow> ConnectionClosed i \<in> set new))"

lemma reports_refl: "subsystems_up s \<Longrightarrow> broker_up s \<Longrightarrow> reports s s"
  by (auto simp: reports_def)

lemma reports_trans:
  assumes "reports a b" and "reports b c"
  shows "reports a c"
proof -
  obtain x y where "events b = events a @ x" "events c = events b @ y"
    and x: "\<And>i. map_get (connections a) i \<noteq> None \<Longrightarrow> map_get (connections b) i = None \<Longrightarrow> ConnectionClosed i \<in> set x"
    and y: "\<And>i. map_get (connections b) i \<noteq> None \<Longrightarrow> map_get (connections c) i = None \<Longrightarrow> ConnectionClosed i \<in> set y"
    using assms unfolding reports_def by blast
  then show ?thesis
    using assms(2) unfolding reports_def by (intro conjI exI [of _ "x @ y"]) auto
qed

lemma reports_same_table:
  "subsystems_up s' \<Longrightarrow> broker_up s' \<Longrightarrow> connections s' = connections s \<Longrightarrow> events s' = events s @ new \<Longrightarrow> reports s s'"
  by (auto simp: reports_def)

lemma reports_Close: "subsystems_up s \<Longrightarrow> broker_up s \<Longrightarrow> reports s (Close c s)"
  by (rule reports_same_table) (auto simp: events_Close)

lemma fire_event_up:
  "subsystems_up s \<Longrightarrow> broker_up s \<Longrightarrow> fire_event ev s = s\<lparr>events := events s @ [ev]\<rparr>"
  by (simp add: fire_event_def)

lemma reports_CloseConnectionTo:
  assumes "endpoint_ok s" and "subsystems_up s" and "broker_up s"
  shows "reports s (CloseConnectionTo node s)"
proof (cases "map_get (connections s) node")
  case (Some c)
  then have "endpoint_id (conn_info s c) = node" using endpoint_okD(4) [OF assms(1)] by blast
  with Some assms show ?thesis
    by (auto simp: reports_def CloseConnectionTo_def Let_def events_Close endpoint_okD(1) split: if_splits)
qed (simp add: CloseConnectionTo_def reports_refl assms)

lemma reports_connection_Send:
  assumes "connection_Send serialize w c m s = Inr (f, s')" and "subsystems_up s" and "broker_up s"
  shows "reports s s'"
  using assms reports_Close [of s c] reports_refl [of s]
  by (auto simp: connection_Send_def bind_result_Inr_iff OnMessageSent_def reports_def split: if_splits write_result.splits)

lemma reports_send_to_all:
  "send_to_all serialize w m cs s = Inr (fs, s') \<Longrightarrow> subsystems_up s \<Longrightarrow> broker_up s \<Longrightarrow> reports s s'"
proof (induction serialize w m cs s arbitrary: fs s' rule: send_to_all.induct)
  case (2 serialize w m i c rest s)
  show ?case
  proof (cases "IsUsable c s")
    case True
    then obtain f s1 fs' where s1: "connection_Send serialize w c m s = Inr (f, s1)"
      and rest: "send_to_all serialize w m rest s1 = Inr (fs', s')"
      using "2.prems"(1) by (auto simp: bind_result_Inr_iff)
    have "reports s s1" by (rule reports_connection_Send [OF s1 "2.prems"(2,3)])
    with "2.IH"(1) [OF True rest] show ?thesis using reports_trans by (auto simp: reports_def)
  qed (use 2 in simp)
qed (simp add: reports_refl)

lemma CleanUp_events [simp]:
  "events (CleanUpConsumersOfMessageType ty s) = events s"
  "broker_up (CleanUpConsumersOfMessageType ty s) = broker_up s"
  by (simp_all add: CleanUpConsumersOfMessageType_def split: option.splits)

lemma clean_up_types_events [simp]:
  "events (clean_up_types tys s) = events s"
  "broker_up (clean_up_types tys s) = broker_up s"
  "subsystems_up (clean_up_types tys s) = subsystems_up s"
  by (induction tys s rule: clean_up_types.induct) auto

lemma reports_clean_up_connections:
  "map_ok (connections s) \<Longrightarrow> subsystems_up s \<Longrightarrow> broker_up s \<Longrightarrow> reports s (clean_up_connections cs s)"
proof (induction cs s rule: clean_up_connections.induct)
  case (2 i c rest s)
  show ?case
  proof (cases "IsUsable c s")
    case False
    let ?s1 = "OnConnectionClose i s"
    let ?s2 = "?s1\<lparr>connections := map_erase i (connections ?s1)\<rparr>"
    have "reports s ?s2"
      using "2.prems" by (auto simp: reports_def OnConnectionClose_def fire_event_up split: if_splits)
    moreover have "reports ?s2 (clean_up_connections rest ?s2)"
      using "2.IH"(1) [OF False refl] "2.prems" by (simp add: OnConnectionClose_def fire_event_up)
    ultimately show ?thesis using False reports_trans by (simp add: Let_def)
  qed (use 2 in simp)
qed (simp add: reports_refl)

lemma reports_clean_up_job:
  assumes "endpoint_ok s" and "subsystems_up s" and "broker_up s"
  shows "reports s (clean_up_job s)"
proof -
  let ?s1 = "clean_up_types (map_keys (consumers s)) s"
  have "reports s ?s1" by (rule reports_same_table [where new = "[]"]) (use assms in simp_all)
  moreover have "reports ?s1 (clean_up_job s)"
    unfolding clean_up_job_def Let_def by (rule reports_clean_up_connections) (use assms endpoint_okD(1) in simp_all)
  ultimately show ?thesis by (rule reports_trans)
qed

lemma reports_AddConnection:
  assumes "endpoint_ok s" and "subsystems_up s" and "broker_up s"
  shows "reports s (AddConnection c info s)"
  using assms
  by (auto simp: reports_def AddConnection_def StartReceivingMessages_def Let_def fire_event_up events_Close
      split: option.splits if_splits)

lemma reports_step:
  assumes "ep_step s s'" and "endpoint_ok s" and "subsystems_up s" and "broker_up s"
  shows "reports s s'"
  using assms
proof (induction rule: ep_step.induct)
  case (send serialize w node m s f s')
  then show ?case using reports_connection_Send by (auto simp: endpoint_Send_def split: option.splits)
next
  case (broadcast serialize w m s n s')
  then obtain fs where "send_to_all serialize w m (connections s) s = Inr (fs, s')"
    by (auto simp: IssueBroadcastAsJob_def bind_result_Inr_iff)
  with broadcast.prems show ?case using reports_send_to_all by blast
next
  case (received c s r d s')
  then show ?case
    using reports_Close [of "s\<lparr>reading := reading s - {c}\<rparr>" c]
    by (auto simp: OnMessageReceived_def Let_def reports_def split: read_result.splits if_splits)
next
  case (process parse data c s js s')
  then show ?case
    by (auto simp: endpoint_ProcessReceivedMessage_def GetConsumersOfMessageType_def Let_def reports_def
        split: if_splits sum.splits option.splits exn.splits)
next
  case (destroy c s)
  then show ?case using reports_Close [of s c] by (auto simp: destroy_connection_def reports_def)
next
  case (add_consumer s co)
  then show ?case by (auto simp: AddMessageConsumer_def reports_def)
next
  case (breaks s c)
  then show ?case by (auto simp: reports_def)
next
  case (consumer_gone s n)
  then show ?case by (auto simp: reports_def)
qed (simp_all add: reports_AddConnection reports_CloseConnectionTo reports_clean_up_job)

lemma reports_run:
  assumes "ep_run s s'" and "endpoint_ok s" and "subsystems_up s" and "broker_up s"
  shows "endpoint_ok s' \<and> reports s s'"
  using assms(1) unfolding ep_run_def
proof (induction rule: rtranclp_induct)
  case base
  then show ?case using assms(2-4) by (simp add: reports_refl)
next
  case (step a b)
  then have "endpoint_ok b" "reports a b"
    using endpoint_ok_step reports_step by (auto simp: reports_def)
  with step.IH show ?case using reports_trans by blast
qed

section \<open>What the handlers of a node do to pending calls\<close>

text \<open>Calls are only settled: an entry goes exactly when its promise is set, and no promise is set twice.\<close>

definition rpc_settles :: "rpc \<Rightarrow> rpc \<Rightarrow> bool" where
  "rpc_settles s s' \<longleftrightarrow> rpc_ok s' \<and> consumer_alive s' = consumer_alive s \<and>
     (\<forall>r. rq_transaction (rpc_requests s' r) = rq_transaction (rpc_requests s r)) \<and>
     (\<forall>t info. map_get (pending_requests s') t = Some info \<longrightarrow> map_get (pending_requests s) t = Some info) \<and>
     (\<forall>p. rpc_promises s p \<noteq> None \<longrightarrow> rpc_promises s' p = rpc_promises s p) \<and>
     (\<forall>t info. map_get (pending_requests s) t = Some info \<longrightarrow> rpc_promises s' (pi_promise info) = None \<longrightarrow>
        map_get (pending_requests s') t = Some info) \<and>
     (\<forall>p. rpc_promises s p = None \<longrightarrow> rpc_promises s' p \<noteq> None \<longrightarrow>
        (\<exists>t info. map_get (pending_requests s) t = Some info \<and> pi_promise info = p))"

lemma rpc_settles_refl: "rpc_ok s \<Longrightarrow> rpc_settles s s"
  by (auto simp: rpc_settles_def)

lemma rpc_settlesD:
  assumes "rpc_settles s s'"
  shows "rpc_ok s'" and "consumer_alive s' = consumer_alive s"
    and "rq_transaction (rpc_requests s' r) = rq_transaction (rpc_requests s r)"
    and "map_get (pending_requests s') t = Some info \<Longrightarrow> map_get (pending_requests s) t = Some info"
    and "rpc_promises s p = Some x \<Longrightarrow> rpc_promises s' p = Some x"
    and "map_get (pending_requests s) t = Some info \<Longrightarrow> rpc_promises s' (pi_promise info) = None \<Longrightarrow>
      map_get (pending_requests s') t = Some info"
    and "rpc_promises s p = None \<Longrightarrow> rpc_promises s' p = Some x \<Longrightarrow>
      \<exists>t info. map_get (pending_requests s) t = Some info \<and> pi_promise info = p"
proof -
  note r = assms [unfolded rpc_settles_def]
  show "rpc_ok s'" "consumer_alive s' = consumer_alive s"
    "rq_transaction (rpc_requests s' r) = rq_transaction (rpc_requests s r)"
    using r by blast+
  show "map_get (pending_requests s') t = Some info \<Longrightarrow> map_get (pending_requests s) t = Some info"
    using r by blast
  show "rpc_promises s p = Some x \<Longrightarrow> rpc_promises s' p = Some x"
    using r by (metis option.distinct(1))
  show "map_get (pending_requests s) t = Some info \<Longrightarrow> rpc_promises s' (pi_promise info) = None \<Longrightarrow>
      map_get (pending_requests s') t = Some info"
    using r by blast
  show "rpc_promises s p = None \<Longrightarrow> rpc_promises s' p = Some x \<Longrightarrow>
      \<exists>t info. map_get (pending_requests s) t = Some info \<and> pi_promise info = p"
    using r by (metis option.distinct(1))
qed

lemma rpc_settles_trans:
  assumes A: "rpc_settles a b" and B: "rpc_settles b c"
  shows "rpc_settles a c"
  unfolding rpc_settles_def
proof (intro conjI allI impI)
  show "rpc_ok c" by (rule rpc_settlesD(1) [OF B])
  show "consumer_alive c = consumer_alive a" using rpc_settlesD(2) [OF A] rpc_settlesD(2) [OF B] by simp
  show "rq_transaction (rpc_requests c r) = rq_transaction (rpc_requests a r)" for r
    using rpc_settlesD(3) [OF A, of r] rpc_settlesD(3) [OF B, of r] by simp
  show "map_get (pending_requests a) t = Some info" if "map_get (pending_requests c) t = Some info" for t info
    by (rule rpc_settlesD(4) [OF A rpc_settlesD(4) [OF B that]])
  show "rpc_promises c p = rpc_promises a p" if "rpc_promises a p \<noteq> None" for p
  proof -
    from that obtain x where "rpc_promises a p = Some x" by blast
    with rpc_settlesD(5) [OF B rpc_settlesD(5) [OF A this]] show ?thesis by simp
  qed
  show "map_get (pending_requests c) t = Some info"
    if "map_get (pending_requests a) t = Some info" "rpc_promises c (pi_promise info) = None" for t info
  proof -
    have "rpc_promises b (pi_promise info) = None"
      using rpc_settlesD(5) [OF B] that(2) by (cases "rpc_promises b (pi_promise info)") fastforce+
    from rpc_settlesD(6) [OF B rpc_settlesD(6) [OF A that(1) this] that(2)] show ?thesis .
  qed
  show "\<exists>t info. map_get (pending_requests a) t = Some info \<and> pi_promise info = p"
    if "rpc_promises a p = None" "rpc_promises c p \<noteq> None" for p
  proof (cases "rpc_promises b p")
    case None
    with that(2) obtain t info where "map_get (pending_requests b) t = Some info" "pi_promise info = p"
      using rpc_settlesD(7) [OF B] by blast
    then show ?thesis using rpc_settlesD(4) [OF A] by blast
  next
    case (Some x)
    from rpc_settlesD(7) [OF A that(1) this] show ?thesis .
  qed
qed

lemma rpc_settles_entry:
  assumes "rpc_ok s" and "map_get (pending_requests s) t = Some info"
    and "pending_requests s' = map_erase t (pending_requests s)"
    and "rpc_promises s' = (rpc_promises s)(pi_promise info \<mapsto> x)"
    and "\<And>r. rq_transaction (rpc_requests s' r) = rq_transaction (rpc_requests s r)"
    and "consumer_alive s' = consumer_alive s"
  shows "rpc_settles s s'"
proof -
  have "rpc_ok s'" by (rule rpc_ok_resolve [OF assms(1-5)])
  moreover have "map_ok (pending_requests s)" using assms(1) by (simp add: rpc_ok_def)
  ultimately show ?thesis
    using assms(2-6) rpc_ok_entry(2) [OF assms(1,2)]
    by (auto simp: rpc_settles_def split: if_splits)
qed

lemma ProcessReceived_settles:
  assumes "rpc_ok s" and "ProcessReceivedMessage m s = Inr s'"
  shows "rpc_settles s s'"
proof (cases "ToServiceResponse m")
  case (Inr maybe)
  show ?thesis
  proof (cases maybe)
    case (Some response)
    show ?thesis
    proof (cases "map_get (pending_requests s) (rs_transaction response)")
      case (Some info)
      with assms(2) Inr \<open>maybe = Some response\<close> obtain s1 where
        s1: "settle (pi_promise info) (Answered response) (mark (pi_request info) False s) = Inr s1"
          "s' = s1\<lparr>pending_requests := map_erase (rs_transaction response) (pending_requests s1)\<rparr>"
        by (auto simp: ProcessReceivedMessage_def bind_result_Inr_iff)
      show ?thesis
        by (rule rpc_settles_entry [OF assms(1) Some, where x = "Answered response"])
          (use s1 in \<open>auto simp: settle_def split: if_splits\<close>)
    qed (use assms Inr Some in \<open>simp add: ProcessReceivedMessage_def rpc_settles_refl\<close>)
  qed (use assms Inr in \<open>simp add: ProcessReceivedMessage_def rpc_settles_refl\<close>)
qed (use assms(2) in \<open>simp add: ProcessReceivedMessage_def\<close>)

definition node_moves :: "node \<Rightarrow> node \<Rightarrow> bool" where
  "node_moves nd nd' \<longleftrightarrow> ep_run (nd_endpoint nd) (nd_endpoint nd') \<and> rpc_settles (nd_rpc nd) (nd_rpc nd')"

lemma node_moves_trans: "node_moves a b \<Longrightarrow> node_moves b c \<Longrightarrow> node_moves a c"
  unfolding node_moves_def ep_run_def using rpc_settles_trans by auto

lemma ep_run_refl [simp]: "ep_run s s"
  by (simp add: ep_run_def)

lemma ep_run_step: "ep_step s s' \<Longrightarrow> ep_run s s'"
  by (simp add: ep_run_def)

lemma node_moves_refl: "rpc_ok (nd_rpc nd) \<Longrightarrow> node_moves nd nd"
  by (simp add: node_moves_def rpc_settles_refl)

lemma node_Send_moves:
  assumes "node_Send env target m nd = Inr (f, nd')" and "rpc_ok (nd_rpc nd)"
  shows "node_moves nd nd'"
proof -
  obtain ep where ep: "endpoint_Send (ne_serialize env) (ne_write env) target m (nd_endpoint nd) = Inr (f, ep)"
      "nd' = nd\<lparr>nd_endpoint := ep\<rparr>"
    using assms(1) by (auto simp: node_Send_def bind_result_Inr_iff)
  from ep_step.send [OF ep(1)] show ?thesis
    using assms(2) ep(2) by (simp add: node_moves_def ep_run_step rpc_settles_refl)
qed

lemma consume_moves:
  assumes "consume env job nd = Inr nd'" and "rpc_ok (nd_rpc nd)"
  shows "node_moves nd nd'"
proof -
  obtain co m info where job: "job = (co, m, info)" by (metis prod_cases3)
  have request: "node_moves nd nd'" if "consume_request env m info nd = Inr nd'"
  proof -
    from that consider "nd' = nd" | reg where "nd' = nd\<lparr>nd_registry := reg\<rparr>"
      | reg response f where "node_Send env (endpoint_id info) response (nd\<lparr>nd_registry := reg\<rparr>) = Inr (f, nd')"
      by (auto simp: consume_request_def bind_result_Inr_iff Let_def split: if_splits option.splits)
    then show ?thesis
    proof cases
      case 3
      from node_Send_moves [OF this] assms(2) show ?thesis by (simp add: node_moves_def)
    qed (use assms(2) in \<open>simp_all add: node_moves_def rpc_settles_refl\<close>)
  qed
  have response: "node_moves nd nd'" if "consume_response m nd = Inr nd'"
    using that ProcessReceived_settles [OF assms(2)]
    by (auto simp: consume_response_def bind_result_Inr_iff node_moves_def)
  have registration: "node_moves nd nd'" if "consume_registration m info nd = Inr nd'"
    using that assms(2)
    by (auto simp: consume_registration_def register_service_def bind_result_Inr_iff node_moves_def rpc_settles_refl)
  show ?thesis
    using assms job request response registration
    by (auto simp: consume_def node_moves_refl split: if_splits)
qed

lemma run_consumers_moves:
  "run_consumers env jobs nd = Inr nd' \<Longrightarrow> rpc_ok (nd_rpc nd) \<Longrightarrow> node_moves nd nd'"
proof (induction env jobs nd rule: run_consumers.induct)
  case (2 env job rest nd)
  show ?case
  proof (cases "consume env job nd")
    case (Inl x)
    with 2 show ?thesis by (auto split: if_splits)
  next
    case (Inr nd1)
    then have "node_moves nd nd1" using consume_moves 2 by blast
    moreover have "rpc_ok (nd_rpc nd1)" using calculation by (simp add: node_moves_def rpc_settles_def)
    ultimately show ?thesis using 2 Inr node_moves_trans by fastforce
  qed
qed (simp add: node_moves_refl)

lemma node_receive_moves:
  assumes "node_receive env c r nd = Inr nd'" and "c \<in> reading (nd_endpoint nd)" and "rpc_ok (nd_rpc nd)"
  shows "node_moves nd nd'"
proof -
  obtain received ep where ep: "OnMessageReceived c r (nd_endpoint nd) = (received, ep)" by fastforce
  have m1: "node_moves nd (nd\<lparr>nd_endpoint := ep\<rparr>)"
    using ep_step.received [OF assms(2) ep] assms(3) by (simp add: node_moves_def ep_run_step rpc_settles_refl)
  show ?thesis
  proof (cases received)
    case None
    with assms(1) ep m1 show ?thesis by (simp add: node_receive_def)
  next
    case (Some data)
    then obtain jobs ep' where p: "endpoint_ProcessReceivedMessage (ne_parse env) data c ep = Inr (jobs, ep')"
        "run_consumers env jobs (nd\<lparr>nd_endpoint := ep'\<rparr>) = Inr nd'"
      using assms(1) ep by (auto simp: node_receive_def bind_result_Inr_iff Let_def)
    have "node_moves (nd\<lparr>nd_endpoint := ep\<rparr>) (nd\<lparr>nd_endpoint := ep'\<rparr>)"
      using ep_step.process [OF p(1)] assms(3) by (simp add: node_moves_def ep_run_step rpc_settles_refl)
    with m1 run_consumers_moves [OF p(2)] assms(3) show ?thesis using node_moves_trans by fastforce
  qed
qed

lemma send_portfolio_moves:
  "rpc_ok (nd_rpc nd) \<Longrightarrow> node_moves nd (send_portfolio env target ms nd)"
proof (induction env target ms nd rule: send_portfolio.induct)
  case (2 env target m ms nd)
  show ?case
  proof (cases "node_Send env target m nd")
    case (Inr x)
    then obtain f nd1 where x: "node_Send env target m nd = Inr (f, nd1)" by (cases x) simp
    have "node_moves nd nd1" by (rule node_Send_moves [OF x "2.prems"])
    moreover have "rpc_ok (nd_rpc nd1)" using calculation by (simp add: node_moves_def rpc_settles_def)
    ultimately show ?thesis using 2 x node_moves_trans by fastforce
  qed (use 2 in simp)
qed (simp add: node_moves_refl)

section \<open>The node over time\<close>

text \<open>
  A call is between its check and its entry, or between its entry and its sending. Promises are
  used once. A call is abandoned when its job ends with an exception before the outcome of a
  sending is known: nothing follows up on it.
\<close>

datatype call_stage = Checked rref string | Added rref string

fun request_of :: "call_stage \<Rightarrow> rref" where
  "request_of (Checked r target) = r"
| "request_of (Added r target) = r"

datatype event_job = CancelJob string string pending_info | OfferJob string

record live_node =
  ln_node :: node
  ln_jobs :: "event_job list"
  ln_calls :: "pref \<rightharpoonup> call_stage"
  ln_used :: "pref set"
  ln_abandoned :: "pref set"

text \<open>
  An event kicks one job per listener of the moment: the listeners of the pending calls for a
  lost connection, that of the registry for a new one.
\<close>

fun kicked :: "(string \<times> pending_info) list \<Rightarrow> network_event \<Rightarrow> event_job list" where
  "kicked pending (ConnectionClosed i) = map (\<lambda>(t, info). CancelJob i t info) pending"
| "kicked pending (ConnectionEstablished i) = [OfferJob i]"

definition after :: "node \<Rightarrow> live_node \<Rightarrow> live_node" where
  "after nd s = s\<lparr>ln_node := nd, ln_jobs := ln_jobs s @ concat (map (kicked (pending_requests (nd_rpc nd)))
     (drop (length (events (nd_endpoint (ln_node s)))) (events (nd_endpoint nd))))\<rparr>"

text \<open>The listener of a call whose entry has gone does not exist any more.\<close>

definition cancel_call :: "string \<Rightarrow> string \<Rightarrow> pending_info \<Rightarrow> rpc \<Rightarrow> rpc" where
  "cancel_call i t info s =
     (if map_get (pending_requests s) t = Some info
      then (case connection_closed_handler (pi_endpoint info) t i s of Inr s' \<Rightarrow> s' | Inl x \<Rightarrow> s)
      else s)"

text \<open>
  The end of the job of a call, from the conversion of the request on: whether an exception
  left it before the outcome of the sending, and the node afterwards. A promise that is set
  already makes the follow-up of a failed sending throw, after the entry was removed.
\<close>

definition finish_call :: "node_env \<Rightarrow> rref \<Rightarrow> string \<Rightarrow> pref \<Rightarrow> node \<Rightarrow> (bool \<times> node) result" where
  "finish_call env r target p nd =
     (case FromServiceRequest (ne_uuid env) (rpc_requests (nd_rpc nd) r) of
        Inl x \<Rightarrow> Inr (True, nd)
      | Inr m \<Rightarrow>
          (case node_Send env target m nd of
             Inl x \<Rightarrow> Inr (True, nd)
           | Inr (f, nd1) \<Rightarrow>
               (case remote_call_sent (sending_of f) r p (nd_rpc nd1) of
                  Inr s \<Rightarrow> Inr (False, nd1\<lparr>nd_rpc := s\<rparr>)
                | Inl x \<Rightarrow>
                    if x = UndefinedBehaviour then Inl x
                    else Inr (False, nd1\<lparr>nd_rpc := mark r False
                      (snd (RemoveResponsePromise (rq_transaction (rpc_requests (nd_rpc nd1) r)) (nd_rpc nd1)))\<rparr>))))"

text \<open>The parts make up the job of a call that nothing interrupts.\<close>

lemma call_is_its_parts:
  assumes "call_remote_service env r target p nd = Inr nd'" and "node_connected nd target"
  shows "\<exists>s threw. remote_call_begin True r target p (nd_rpc nd) = Inr (s, True) \<and>
    finish_call env r target p (nd\<lparr>nd_rpc := s\<rparr>) = Inr (threw, nd')"
proof -
  obtain s sends where b: "remote_call_begin True r target p (nd_rpc nd) = Inr (s, sends)"
    using assms by (auto simp: call_remote_service_def bind_result_Inr_iff)
  then have sends: "sends" by (auto simp: remote_call_begin_def bind_result_Inr_iff split: if_splits)
  from assms b sends obtain m where m: "FromServiceRequest (ne_uuid env) (rpc_requests s r) = Inr m"
    by (auto simp: call_remote_service_def bind_result_Inr_iff Let_def)
  have "\<exists>threw. finish_call env r target p (nd\<lparr>nd_rpc := s\<rparr>) = Inr (threw, nd')"
  proof (cases "node_Send env target m (nd\<lparr>nd_rpc := s\<rparr>)")
    case (Inl x)
    with assms b sends m have "nd' = nd\<lparr>nd_rpc := s\<rparr>" by (simp add: call_remote_service_def remote_call_sent_def)
    with Inl m show ?thesis by (auto simp: finish_call_def)
  next
    case (Inr y)
    then obtain f nd1 where "node_Send env target m (nd\<lparr>nd_rpc := s\<rparr>) = Inr (f, nd1)" by (cases y) simp
    with assms b sends m show ?thesis by (auto simp: call_remote_service_def finish_call_def bind_result_Inr_iff)
  qed
  moreover have "remote_call_begin True r target p (nd_rpc nd) = Inr (s, True)" using b sends by simp
  ultimately show ?thesis by blast
qed

definition transaction_of :: "live_node \<Rightarrow> rref \<Rightarrow> string" where
  "transaction_of s r = rq_transaction (rpc_requests (nd_rpc (ln_node s)) r)"

text \<open>A request that no other call uses, as the program demands of its callers.\<close>

definition free_request :: "live_node \<Rightarrow> rref \<Rightarrow> bool" where
  "free_request s r \<longleftrightarrow> map_get (pending_requests (nd_rpc (ln_node s))) (transaction_of s r) = None \<and>
     (\<forall>p stage. ln_calls s p = Some stage \<longrightarrow> transaction_of s (request_of stage) \<noteq> transaction_of s r)"

inductive ln_step :: "live_node \<Rightarrow> live_node \<Rightarrow> bool" where
  check: "node_connected (ln_node s) target \<Longrightarrow> p \<notin> ln_used s \<Longrightarrow> free_request s r \<Longrightarrow>
     ln_step s (s\<lparr>ln_calls := (ln_calls s)(p \<mapsto> Checked r target), ln_used := insert p (ln_used s)\<rparr>)"
| refuse: "\<not> node_connected (ln_node s) target \<Longrightarrow> p \<notin> ln_used s \<Longrightarrow>
     remote_call_begin False r target p (nd_rpc (ln_node s)) = Inr (rpc, sends) \<Longrightarrow>
     ln_step s (after ((ln_node s)\<lparr>nd_rpc := rpc\<rparr>) (s\<lparr>ln_used := insert p (ln_used s)\<rparr>))"
| add: "ln_calls s p = Some (Checked r target) \<Longrightarrow>
     remote_call_begin True r target p (nd_rpc (ln_node s)) = Inr (rpc, True) \<Longrightarrow>
     ln_step s (after ((ln_node s)\<lparr>nd_rpc := rpc\<rparr>) (s\<lparr>ln_calls := (ln_calls s)(p \<mapsto> Added r target)\<rparr>))"
| send: "ln_calls s p = Some (Added r target) \<Longrightarrow> finish_call env r target p (ln_node s) = Inr (threw, nd) \<Longrightarrow>
     ln_step s ((after nd s)\<lparr>ln_calls := (ln_calls s)(p := None),
       ln_abandoned := (if threw then insert p (ln_abandoned s) else ln_abandoned s)\<rparr>)"
| receive: "c \<in> reading (nd_endpoint (ln_node s)) \<Longrightarrow> node_receive env c r (ln_node s) = Inr nd \<Longrightarrow> ln_step s (after nd s)"
| endpoint: "ep_step (nd_endpoint (ln_node s)) ep \<Longrightarrow> ln_step s (after ((ln_node s)\<lparr>nd_endpoint := ep\<rparr>) s)"
| cancel: "ln_jobs s = xs @ CancelJob i t info # ys \<Longrightarrow>
     ln_step s (after ((ln_node s)\<lparr>nd_rpc := cancel_call i t info (nd_rpc (ln_node s))\<rparr>) (s\<lparr>ln_jobs := xs @ ys\<rparr>))"
| offer: "ln_jobs s = xs @ OfferJob i # ys \<Longrightarrow>
     ln_step s (after (send_portfolio env i (SendServicePortfolio (node_connected (ln_node s)) (ne_uuid env)
       (nd_registry (ln_node s))) (ln_node s)) (s\<lparr>ln_jobs := xs @ ys\<rparr>))"

definition ln_run :: "live_node \<Rightarrow> live_node \<Rightarrow> bool" where
  "ln_run = ln_step\<^sup>*\<^sup>*"

text \<open>A node before its first call.\<close>

definition ln_start :: "live_node \<Rightarrow> bool" where
  "ln_start s \<longleftrightarrow> endpoint_ok (nd_endpoint (ln_node s)) \<and> subsystems_up (nd_endpoint (ln_node s)) \<and>
     broker_up (nd_endpoint (ln_node s)) \<and> consumer_alive (nd_rpc (ln_node s)) \<and>
     pending_requests (nd_rpc (ln_node s)) = [] \<and> rpc_promises (nd_rpc (ln_node s)) = (\<lambda>_. None) \<and>
     ln_calls s = Map.empty \<and> ln_used s = {} \<and> ln_abandoned s = {}"

section \<open>The invariant\<close>

abbreviation pending_at :: "live_node \<Rightarrow> string \<Rightarrow> pending_info option" where
  "pending_at s \<equiv> map_get (pending_requests (nd_rpc (ln_node s)))"

abbreviation promised :: "live_node \<Rightarrow> pref \<Rightarrow> settled option" where
  "promised s \<equiv> rpc_promises (nd_rpc (ln_node s))"

text \<open>Somebody will still see to the entry.\<close>

definition looked_after :: "live_node \<Rightarrow> string \<Rightarrow> pending_info \<Rightarrow> bool" where
  "looked_after s t info \<longleftrightarrow> map_get (connections (nd_endpoint (ln_node s))) (pi_endpoint info) \<noteq> None \<or>
     CancelJob (pi_endpoint info) t info \<in> set (ln_jobs s) \<or>
     ln_calls s (pi_promise info) \<noteq> None \<or> pi_promise info \<in> ln_abandoned s"

definition parts_ok :: "live_node \<Rightarrow> bool" where
  "parts_ok s \<longleftrightarrow> rpc_ok (nd_rpc (ln_node s)) \<and> consumer_alive (nd_rpc (ln_node s)) \<and>
     endpoint_ok (nd_endpoint (ln_node s)) \<and> subsystems_up (nd_endpoint (ln_node s)) \<and> broker_up (nd_endpoint (ln_node s))"

definition calls_ok :: "live_node \<Rightarrow> bool" where
  "calls_ok s \<longleftrightarrow>
     (\<forall>p stage. ln_calls s p = Some stage \<longrightarrow> p \<in> ln_used s) \<and>
     (\<forall>p r target. ln_calls s p = Some (Checked r target) \<longrightarrow> promised s p = None \<and>
        pending_at s (transaction_of s r) = None \<and> (\<forall>t info. pending_at s t = Some info \<longrightarrow> pi_promise info \<noteq> p)) \<and>
     (\<forall>p r target info. ln_calls s p = Some (Added r target) \<longrightarrow> pending_at s (transaction_of s r) = Some info \<longrightarrow>
        pi_promise info = p) \<and>
     (\<forall>r target t info. ln_calls s (pi_promise info) = Some (Added r target) \<longrightarrow> pending_at s t = Some info \<longrightarrow>
        t = transaction_of s r \<and> pi_endpoint info = target) \<and>
     (\<forall>p q stage stage'. ln_calls s p = Some stage \<longrightarrow> ln_calls s q = Some stage' \<longrightarrow> p \<noteq> q \<longrightarrow>
        transaction_of s (request_of stage) \<noteq> transaction_of s (request_of stage'))"

definition promises_ok :: "live_node \<Rightarrow> bool" where
  "promises_ok s \<longleftrightarrow>
     (\<forall>p. p \<notin> ln_used s \<longrightarrow> promised s p = None) \<and>
     (\<forall>t info. pending_at s t = Some info \<longrightarrow> pi_promise info \<in> ln_used s \<and> looked_after s t info) \<and>
     (\<forall>p\<in>ln_used s. promised s p = None \<longrightarrow>
        (\<exists>t info. pending_at s t = Some info \<and> pi_promise info = p) \<or> (\<exists>r target. ln_calls s p = Some (Checked r target)))"

definition ln_ok :: "live_node \<Rightarrow> bool" where
  "ln_ok s \<longleftrightarrow> parts_ok s \<and> calls_ok s \<and> promises_ok s"

lemma ln_ok_start: "ln_start s \<Longrightarrow> ln_ok s"
  by (auto simp: ln_start_def ln_ok_def parts_ok_def calls_ok_def promises_ok_def rpc_ok_def)

lemma ln_okD:
  assumes "ln_ok s"
  shows "rpc_ok (nd_rpc (ln_node s))" and "consumer_alive (nd_rpc (ln_node s))"
    and "endpoint_ok (nd_endpoint (ln_node s))" and "subsystems_up (nd_endpoint (ln_node s))"
    and "broker_up (nd_endpoint (ln_node s))"
    and "ln_calls s p = Some stage \<Longrightarrow> p \<in> ln_used s"
    and "p \<notin> ln_used s \<Longrightarrow> promised s p = None"
    and "pending_at s t = Some info \<Longrightarrow> pi_promise info \<in> ln_used s"
    and "pending_at s t = Some info \<Longrightarrow> looked_after s t info"
    and "p \<in> ln_used s \<Longrightarrow> promised s p = None \<Longrightarrow>
      (\<exists>t info. pending_at s t = Some info \<and> pi_promise info = p) \<or> (\<exists>r target. ln_calls s p = Some (Checked r target))"
proof -
  note parts = assms [unfolded ln_ok_def parts_ok_def, THEN conjunct1]
  note calls = assms [unfolded ln_ok_def calls_ok_def, THEN conjunct2, THEN conjunct1]
  note promises = assms [unfolded ln_ok_def promises_ok_def, THEN conjunct2, THEN conjunct2]
  show "rpc_ok (nd_rpc (ln_node s))" "consumer_alive (nd_rpc (ln_node s))" "endpoint_ok (nd_endpoint (ln_node s))"
    "subsystems_up (nd_endpoint (ln_node s))" "broker_up (nd_endpoint (ln_node s))"
    using parts by simp_all
  show "ln_calls s p = Some stage \<Longrightarrow> p \<in> ln_used s" using calls [THEN conjunct1] by blast
  show "p \<notin> ln_used s \<Longrightarrow> promised s p = None" using promises [THEN conjunct1] by blast
  note entries = promises [THEN conjunct2, THEN conjunct1]
  show "pending_at s t = Some info \<Longrightarrow> pi_promise info \<in> ln_used s"
    "pending_at s t = Some info \<Longrightarrow> looked_after s t info"
    using entries by simp_all
  show "p \<in> ln_used s \<Longrightarrow> promised s p = None \<Longrightarrow>
      (\<exists>t info. pending_at s t = Some info \<and> pi_promise info = p) \<or> (\<exists>r target. ln_calls s p = Some (Checked r target))"
    using promises [THEN conjunct2, THEN conjunct2] by blast
qed

lemma ln_callsD:
  assumes "ln_ok s"
  shows "ln_calls s p = Some (Checked r target) \<Longrightarrow> promised s p = None"
    and "ln_calls s p = Some (Checked r target) \<Longrightarrow> pending_at s (transaction_of s r) = None"
    and "ln_calls s p = Some (Checked r target) \<Longrightarrow> pending_at s t = Some info \<Longrightarrow> pi_promise info \<noteq> p"
    and "ln_calls s p = Some (Added r target) \<Longrightarrow> pending_at s (transaction_of s r) = Some info \<Longrightarrow> pi_promise info = p"
    and "ln_calls s (pi_promise info) = Some (Added r target) \<Longrightarrow> pending_at s t = Some info \<Longrightarrow>
      t = transaction_of s r \<and> pi_endpoint info = target"
    and "ln_calls s p = Some stage \<Longrightarrow> ln_calls s q = Some stage' \<Longrightarrow> p \<noteq> q \<Longrightarrow>
      transaction_of s (request_of stage) \<noteq> transaction_of s (request_of stage')"
proof -
  note calls = assms [unfolded ln_ok_def calls_ok_def, THEN conjunct2, THEN conjunct1, THEN conjunct2]
  note checked = calls [THEN conjunct1]
  show "ln_calls s p = Some (Checked r target) \<Longrightarrow> promised s p = None"
    "ln_calls s p = Some (Checked r target) \<Longrightarrow> pending_at s (transaction_of s r) = None"
    "ln_calls s p = Some (Checked r target) \<Longrightarrow> pending_at s t = Some info \<Longrightarrow> pi_promise info \<noteq> p"
    using checked by blast+
  note added = calls [THEN conjunct2]
  show "ln_calls s p = Some (Added r target) \<Longrightarrow> pending_at s (transaction_of s r) = Some info \<Longrightarrow> pi_promise info = p"
    using added [THEN conjunct1] by blast
  show "ln_calls s (pi_promise info) = Some (Added r target) \<Longrightarrow> pending_at s t = Some info \<Longrightarrow>
      t = transaction_of s r \<and> pi_endpoint info = target"
    using added [THEN conjunct2, THEN conjunct1] by blast
  show "ln_calls s p = Some stage \<Longrightarrow> ln_calls s q = Some stage' \<Longrightarrow> p \<noteq> q \<Longrightarrow>
      transaction_of s (request_of stage) \<noteq> transaction_of s (request_of stage')"
    using added [THEN conjunct2, THEN conjunct2] by blast
qed

lemma calls_okI:
  assumes "\<And>p stage. ln_calls s p = Some stage \<Longrightarrow> p \<in> ln_used s"
    and "\<And>p r target. ln_calls s p = Some (Checked r target) \<Longrightarrow> promised s p = None"
    and "\<And>p r target. ln_calls s p = Some (Checked r target) \<Longrightarrow> pending_at s (transaction_of s r) = None"
    and "\<And>p r target t info. ln_calls s p = Some (Checked r target) \<Longrightarrow> pending_at s t = Some info \<Longrightarrow> pi_promise info \<noteq> p"
    and "\<And>p r target info. ln_calls s p = Some (Added r target) \<Longrightarrow> pending_at s (transaction_of s r) = Some info \<Longrightarrow>
      pi_promise info = p"
    and "\<And>r target t info. ln_calls s (pi_promise info) = Some (Added r target) \<Longrightarrow> pending_at s t = Some info \<Longrightarrow>
      t = transaction_of s r"
    and "\<And>r target t info. ln_calls s (pi_promise info) = Some (Added r target) \<Longrightarrow> pending_at s t = Some info \<Longrightarrow>
      pi_endpoint info = target"
    and "\<And>p q stage stage'. ln_calls s p = Some stage \<Longrightarrow> ln_calls s q = Some stage' \<Longrightarrow> p \<noteq> q \<Longrightarrow>
      transaction_of s (request_of stage) \<noteq> transaction_of s (request_of stage')"
  shows "calls_ok s"
  unfolding calls_ok_def by (intro conjI allI impI) (rule assms; assumption)+

lemma promises_okI:
  assumes "\<And>p. p \<notin> ln_used s \<Longrightarrow> promised s p = None"
    and "\<And>t info. pending_at s t = Some info \<Longrightarrow> pi_promise info \<in> ln_used s"
    and "\<And>t info. pending_at s t = Some info \<Longrightarrow> looked_after s t info"
    and "\<And>p. p \<in> ln_used s \<Longrightarrow> promised s p = None \<Longrightarrow>
      (\<exists>t info. pending_at s t = Some info \<and> pi_promise info = p) \<or> (\<exists>r target. ln_calls s p = Some (Checked r target))"
  shows "promises_ok s"
  unfolding promises_ok_def using assms by simp

text \<open>What only takes calls or entries away, and settles no promise of a call before its entry, keeps the calls in order.\<close>

lemma calls_ok_shrinks:
  assumes ok: "ln_ok s" and sub: "\<And>p stage. ln_calls s' p = Some stage \<Longrightarrow> ln_calls s p = Some stage"
    and used: "ln_used s \<subseteq> ln_used s'" and tr: "\<And>x. transaction_of s' x = transaction_of s x"
    and shrink: "\<And>t info. pending_at s' t = Some info \<Longrightarrow> pending_at s t = Some info"
    and still: "\<And>p r target. ln_calls s' p = Some (Checked r target) \<Longrightarrow> promised s' p = None"
  shows "calls_ok s'"
proof (rule calls_okI)
  fix p stage assume "ln_calls s' p = Some stage"
  from ln_okD(6) [OF ok sub [OF this]] used show "p \<in> ln_used s'" by blast
next
  fix p r target assume c: "ln_calls s' p = Some (Checked r target)"
  show "promised s' p = None" by (rule still [OF c])
  show "pending_at s' (transaction_of s' r) = None"
    using ln_callsD(2) [OF ok sub [OF c]] shrink unfolding tr by (metis not_None_eq)
  show "pi_promise info \<noteq> p" if "pending_at s' t = Some info" for t info
    by (rule ln_callsD(3) [OF ok sub [OF c] shrink [OF that]])
next
  fix p r target info assume c: "ln_calls s' p = Some (Added r target)" and "pending_at s' (transaction_of s' r) = Some info"
  then have "pending_at s (transaction_of s r) = Some info" unfolding tr by (blast intro: shrink)
  then show "pi_promise info = p" by (rule ln_callsD(4) [OF ok sub [OF c]])
next
  fix r target t info assume "ln_calls s' (pi_promise info) = Some (Added r target)" "pending_at s' t = Some info"
  from ln_callsD(5) [OF ok sub [OF this(1)] shrink [OF this(2)]]
  show "t = transaction_of s' r" "pi_endpoint info = target" unfolding tr by blast+
next
  fix p q stage stage' assume "ln_calls s' p = Some stage" "ln_calls s' q = Some stage'" "p \<noteq> q"
  from ln_callsD(6) [OF ok sub [OF this(1)] sub [OF this(2)] this(3)]
  show "transaction_of s' (request_of stage) \<noteq> transaction_of s' (request_of stage')" unfolding tr .
qed

lemma after_fields [simp]:
  "ln_node (after nd s) = nd" "ln_calls (after nd s) = ln_calls s" "ln_used (after nd s) = ln_used s"
  "ln_abandoned (after nd s) = ln_abandoned s" "set (ln_jobs s) \<subseteq> set (ln_jobs (after nd s))"
  by (auto simp: after_def)

lemma after_same_endpoint: "nd_endpoint nd = nd_endpoint (ln_node s) \<Longrightarrow> after nd s = s\<lparr>ln_node := nd\<rparr>"
  by (simp add: after_def)

text \<open>A node that is lost while a call to it is pending kicks the listener of that call.\<close>

lemma lost_kicks_cancel:
  assumes "reports (nd_endpoint (ln_node s)) (nd_endpoint nd)" and "map_ok (pending_requests (nd_rpc nd))"
    and "map_get (pending_requests (nd_rpc nd)) t = Some info"
    and "map_get (connections (nd_endpoint (ln_node s))) i \<noteq> None" and "map_get (connections (nd_endpoint nd)) i = None"
  shows "CancelJob i t info \<in> set (ln_jobs (after nd s))"
proof -
  obtain new where new: "events (nd_endpoint nd) = events (nd_endpoint (ln_node s)) @ new" "ConnectionClosed i \<in> set new"
    using assms(1,4,5) unfolding reports_def by blast
  have "(t, info) \<in> set (pending_requests (nd_rpc nd))" using assms(2,3) by (simp add: map_entry_get)
  then have "CancelJob i t info \<in> set (kicked (pending_requests (nd_rpc nd)) (ConnectionClosed i))" by force
  with new show ?thesis unfolding after_def by (simp del: kicked.simps) blast
qed

lemma ln_ok_moves:
  assumes ok: "ln_ok s" and m: "node_moves (ln_node s) nd"
  shows "ln_ok (after nd s)"
proof -
  have st: "rpc_settles (nd_rpc (ln_node s)) (nd_rpc nd)" using m by (simp add: node_moves_def)
  have ep: "endpoint_ok (nd_endpoint nd)" and rep: "reports (nd_endpoint (ln_node s)) (nd_endpoint nd)"
    using m reports_run ln_okD(3-5) [OF ok] by (auto simp: node_moves_def)
  have tr: "transaction_of (after nd s) r = transaction_of s r" for r
    using rpc_settlesD(3) [OF st] by (simp add: transaction_of_def)
  note shrink = rpc_settlesD(4) [OF st]
  have open': "promised s p = None" if "promised (after nd s) p = None" for p
    using rpc_settlesD(5) [OF st, of p] that by (cases "promised s p") auto
  have fresh: "promised (after nd s) p = None"
    if "promised s p = None" "\<And>t info. pending_at s t = Some info \<Longrightarrow> pi_promise info \<noteq> p" for p
    using rpc_settlesD(7) [OF st that(1)] that(2) by (cases "promised (after nd s) p") auto
  have "parts_ok (after nd s)"
    using ep rep rpc_settlesD(1,2) [OF st] ln_okD(2) [OF ok] by (simp add: parts_ok_def reports_def)
  moreover have "calls_ok (after nd s)"
    by (rule calls_ok_shrinks [OF ok]) (use shrink fresh ln_callsD(1,3) [OF ok] in \<open>simp_all add: tr\<close>)
  moreover have "promises_ok (after nd s)"
    unfolding promises_ok_def
  proof (intro conjI allI impI ballI)
    fix p assume "p \<notin> ln_used (after nd s)"
    then show "promised (after nd s) p = None" using ln_okD(7,8) [OF ok] by (intro fresh) auto
  next
    fix t info assume e: "pending_at (after nd s) t = Some info"
    then have e0: "pending_at s t = Some info" using shrink by simp
    then show "pi_promise info \<in> ln_used (after nd s)" using ln_okD(8) [OF ok] by simp
    have "map_ok (pending_requests (nd_rpc nd))" using rpc_settlesD(1) [OF st] by (simp add: rpc_ok_def)
    then show "looked_after (after nd s) t info"
      using ln_okD(9) [OF ok e0] lost_kicks_cancel [OF rep] e subsetD [OF after_fields(5) [of s nd]]
      unfolding looked_after_def by auto
  next
    fix p assume p: "p \<in> ln_used (after nd s)" "promised (after nd s) p = None"
    then have "p \<in> ln_used s" "promised s p = None" using open' by simp_all
    from ln_okD(10) [OF ok this]
    show "(\<exists>t info. pending_at (after nd s) t = Some info \<and> pi_promise info = p) \<or>
        (\<exists>r target. ln_calls (after nd s) p = Some (Checked r target))"
      using rpc_settlesD(6) [OF st] p(2) by fastforce
  qed
  ultimately show ?thesis by (simp add: ln_ok_def)
qed

text \<open>A job for an entry that is gone, or that offers services, is no one's last hope.\<close>

lemma ln_ok_job_done:
  assumes ok: "ln_ok s" and "ln_jobs s = xs @ j # ys"
    and "\<And>t info. pending_at s t = Some info \<Longrightarrow> j \<noteq> CancelJob (pi_endpoint info) t info"
  shows "ln_ok (s\<lparr>ln_jobs := xs @ ys\<rparr>)"
proof -
  have "looked_after (s\<lparr>ln_jobs := xs @ ys\<rparr>) t info" if "pending_at s t = Some info" for t info
    using ln_okD(9) [OF ok that] assms(2) assms(3) [OF that] by (auto simp: looked_after_def)
  with ok show ?thesis
    by (simp add: ln_ok_def parts_ok_def calls_ok_def promises_ok_def transaction_of_def)
qed

lemma ln_ok_cancel:
  assumes ok: "ln_ok s" and j: "ln_jobs s = xs @ CancelJob i t info # ys"
  shows "ln_ok (after ((ln_node s)\<lparr>nd_rpc := cancel_call i t info (nd_rpc (ln_node s))\<rparr>) (s\<lparr>ln_jobs := xs @ ys\<rparr>))"
proof -
  let ?rpc = "cancel_call i t info (nd_rpc (ln_node s))"
  let ?nd = "(ln_node s)\<lparr>nd_rpc := ?rpc\<rparr>"
  have rpc: "rpc_settles (nd_rpc (ln_node s)) ?rpc \<and> (pi_endpoint info = i \<longrightarrow> map_get (pending_requests ?rpc) t \<noteq> Some info)"
  proof (cases "pending_at s t = Some info \<and> pi_endpoint info = i")
    case True
    then have e: "pending_at s t = Some info" and i: "pi_endpoint info = i" by simp_all
    from handler_effect [OF ln_okD(1) [OF ok] e i] obtain s' where
      h: "connection_closed_handler (pi_endpoint info) t i (nd_rpc (ln_node s)) = Inr s'"
      and s': "rpc_requests s' = rpc_requests (nd_rpc (ln_node s))" "consumer_alive s' = consumer_alive (nd_rpc (ln_node s))"
        "pending_requests s' = map_erase t (pending_requests (nd_rpc (ln_node s)))"
        "rpc_promises s' = (rpc_promises (nd_rpc (ln_node s)))(pi_promise info \<mapsto> Broken ServiceEndpointDisconnectedException)"
      by blast
    have rpc: "?rpc = s'" using e h by (simp add: cancel_call_def)
    have "rpc_settles (nd_rpc (ln_node s)) s'"
      by (rule rpc_settles_entry [OF ln_okD(1) [OF ok] e s'(3,4)]) (simp_all add: s')
    moreover have "map_get (pending_requests s') t = None"
      using ln_okD(1) [OF ok] by (simp add: s'(3) rpc_ok_def)
    ultimately show ?thesis unfolding rpc by simp
  next
    case False
    then have "?rpc = nd_rpc (ln_node s)" by (auto simp: cancel_call_def connection_closed_handler_def)
    with False show ?thesis using rpc_settles_refl [OF ln_okD(1) [OF ok]] by auto
  qed
  have "ln_ok (after ?nd s)" by (rule ln_ok_moves [OF ok]) (use rpc in \<open>simp add: node_moves_def\<close>)
  then have "ln_ok (s\<lparr>ln_node := ?nd\<rparr>)" by (simp add: after_same_endpoint)
  then have "ln_ok (s\<lparr>ln_node := ?nd, ln_jobs := xs @ ys\<rparr>)"
    using ln_ok_job_done [of "s\<lparr>ln_node := ?nd\<rparr>" xs "CancelJob i t info" ys] rpc j by fastforce
  moreover have "after ?nd (s\<lparr>ln_jobs := xs @ ys\<rparr>) = s\<lparr>ln_node := ?nd, ln_jobs := xs @ ys\<rparr>"
    by (simp add: after_same_endpoint)
  ultimately show ?thesis by simp
qed

lemma ln_ok_offer:
  assumes ok: "ln_ok s" and j: "ln_jobs s = xs @ OfferJob i # ys"
  shows "ln_ok (after (send_portfolio env i ms (ln_node s)) (s\<lparr>ln_jobs := xs @ ys\<rparr>))"
proof -
  have "ln_ok (s\<lparr>ln_jobs := xs @ ys\<rparr>)" by (rule ln_ok_job_done [OF ok j]) simp
  then show ?thesis by (rule ln_ok_moves) (simp add: send_portfolio_moves ln_okD(1) [OF ok])
qed

lemma calls_ok_check:
  assumes ok: "ln_ok s" and p: "p \<notin> ln_used s" and free: "free_request s r"
  shows "calls_ok (s\<lparr>ln_calls := (ln_calls s)(p \<mapsto> Checked r target), ln_used := insert p (ln_used s)\<rparr>)"
    (is "calls_ok ?s")
proof (rule calls_okI)
  have fresh: "promised s p = None" "\<And>t info. pending_at s t = Some info \<Longrightarrow> pi_promise info \<noteq> p"
    using ln_okD(7,8) [OF ok] p by auto
  have tr: "transaction_of ?s x = transaction_of s x" for x by (simp add: transaction_of_def)
  {
  fix q stage assume "ln_calls ?s q = Some stage"
  then show "q \<in> ln_used ?s" using ln_okD(6) [OF ok] by (auto split: if_splits)
next
  fix q r' target' assume "ln_calls ?s q = Some (Checked r' target')"
  then have c: "q = p \<and> r' = r \<or> ln_calls s q = Some (Checked r' target')" by (auto split: if_splits)
  then show "promised ?s q = None" using ln_callsD(1) [OF ok] fresh(1) by auto
  show "pending_at ?s (transaction_of ?s r') = None"
    using c ln_callsD(2) [OF ok] free by (auto simp: tr free_request_def)
  show "pi_promise info \<noteq> q" if "pending_at ?s t = Some info" for t info
  proof -
    have e: "pending_at s t = Some info" using that by simp
    from c show ?thesis using fresh(2) [OF e] ln_callsD(3) [OF ok _ e, of q r' target'] by auto
  qed
next
  fix q r' target' info assume "ln_calls ?s q = Some (Added r' target')" "pending_at ?s (transaction_of ?s r') = Some info"
  then show "pi_promise info = q" using ln_callsD(4) [OF ok] by (auto simp: tr split: if_splits)
next
  fix r' target' t info assume "ln_calls ?s (pi_promise info) = Some (Added r' target')" "pending_at ?s t = Some info"
  then have "ln_calls s (pi_promise info) = Some (Added r' target')" "pending_at s t = Some info" by (auto split: if_splits)
  from ln_callsD(5) [OF ok this] show "t = transaction_of ?s r'" "pi_endpoint info = target'" by (simp_all add: tr)
next
  fix q q' stage stage' assume c: "ln_calls ?s q = Some stage" "ln_calls ?s q' = Some stage'" "q \<noteq> q'"
  have other: "transaction_of s (request_of st) \<noteq> transaction_of s r" if "ln_calls s x = Some st" for x st
    using free that by (auto simp: free_request_def)
  show "transaction_of ?s (request_of stage) \<noteq> transaction_of ?s (request_of stage')"
    using c ln_callsD(6) [OF ok, of q stage q' stage'] other [of q' stage'] other [of q stage]
    by (auto simp: tr split: if_splits)
  }
qed

lemma ln_ok_check:
  assumes ok: "ln_ok s" and p: "p \<notin> ln_used s" and free: "free_request s r"
  shows "ln_ok (s\<lparr>ln_calls := (ln_calls s)(p \<mapsto> Checked r target), ln_used := insert p (ln_used s)\<rparr>)"
    (is "ln_ok ?s")
proof -
  have fresh: "promised s p = None" "\<And>t info. pending_at s t = Some info \<Longrightarrow> pi_promise info \<noteq> p"
    using ln_okD(7,8) [OF ok] p by auto
  have "parts_ok ?s" using ok by (simp add: ln_ok_def parts_ok_def)
  moreover have "calls_ok ?s" by (rule calls_ok_check [OF ok p free])
  moreover have "promises_ok ?s"
  proof (rule promises_okI)
    fix q assume "q \<notin> ln_used ?s"
    then show "promised ?s q = None" using ln_okD(7) [OF ok] by simp
  next
    fix t info assume e: "pending_at ?s t = Some info"
    then have e0: "pending_at s t = Some info" by simp
    show "pi_promise info \<in> ln_used ?s" using ln_okD(8) [OF ok e0] by simp
    show "looked_after ?s t info" using ln_okD(9) [OF ok e0] by (auto simp: looked_after_def)
  next
    fix q assume "q \<in> ln_used ?s" "promised ?s q = None"
    then consider "q = p" | "q \<noteq> p" "q \<in> ln_used s" "promised s q = None" by auto
    then show "(\<exists>t info. pending_at ?s t = Some info \<and> pi_promise info = q) \<or>
        (\<exists>r target. ln_calls ?s q = Some (Checked r target))"
      using ln_okD(10) [OF ok] by cases auto
  qed
  ultimately show ?thesis by (simp add: ln_ok_def)
qed

lemma ln_ok_refuse:
  assumes ok: "ln_ok s" and p: "p \<notin> ln_used s"
    and b: "remote_call_begin False r target p (nd_rpc (ln_node s)) = Inr (rpc, sends)"
  shows "ln_ok (after ((ln_node s)\<lparr>nd_rpc := rpc\<rparr>) (s\<lparr>ln_used := insert p (ln_used s)\<rparr>))" (is "ln_ok ?s")
proof -
  have fresh: "promised s p = None" "\<And>t info. pending_at s t = Some info \<Longrightarrow> pi_promise info \<noteq> p"
    using ln_okD(7,8) [OF ok] p by auto
  have rpc: "rpc = (mark r False (nd_rpc (ln_node s)))\<lparr>rpc_promises := (rpc_promises (nd_rpc (ln_node s)))(p \<mapsto> Broken CallFailedException)\<rparr>"
    using b by (auto simp: remote_call_begin_def settle_def split: if_splits)
  have s: "?s = s\<lparr>ln_node := (ln_node s)\<lparr>nd_rpc := rpc\<rparr>, ln_used := insert p (ln_used s)\<rparr>"
    by (simp add: after_same_endpoint)
  have c: "ln_calls s p = None" using ln_okD(6) [OF ok] p by (cases "ln_calls s p") auto
  have tr: "transaction_of ?s x = transaction_of s x" for x by (simp add: transaction_of_def rpc)
  have pending: "pending_at ?s t = pending_at s t" for t by (simp add: rpc)
  have calls: "ln_calls ?s = ln_calls s" by simp
  have "parts_ok ?s" unfolding s using ln_okD(1-5) [OF ok] fresh by (simp add: parts_ok_def rpc rpc_ok_def)
  moreover have "calls_ok ?s"
  proof (rule calls_ok_shrinks [OF ok])
    fix q r' target' assume "ln_calls ?s q = Some (Checked r' target')"
    with c have "ln_calls s q = Some (Checked r' target')" "q \<noteq> p" by auto
    with ln_callsD(1) [OF ok] show "promised ?s q = None" by (simp add: rpc)
  qed (simp_all only: tr pending calls, simp add: subset_insertI)
  moreover have "promises_ok ?s"
  proof (rule promises_okI)
    fix q assume "q \<notin> ln_used ?s"
    then show "promised ?s q = None" using ln_okD(7) [OF ok] by (simp add: rpc)
  next
    fix t info assume "pending_at ?s t = Some info"
    then have e0: "pending_at s t = Some info" by (simp only: pending)
    show "pi_promise info \<in> ln_used ?s" using ln_okD(8) [OF ok e0] by simp
    show "looked_after ?s t info" using ln_okD(9) [OF ok e0] by (simp add: s looked_after_def)
  next
    fix q assume "q \<in> ln_used ?s" "promised ?s q = None"
    then have "q \<in> ln_used s" "promised s q = None" by (auto simp: rpc split: if_splits)
    from ln_okD(10) [OF ok this] show "(\<exists>t info. pending_at ?s t = Some info \<and> pi_promise info = q) \<or>
        (\<exists>r target. ln_calls ?s q = Some (Checked r target))"
      by (simp only: pending calls)
  qed
  ultimately show ?thesis by (simp add: ln_ok_def)
qed

text \<open>Entering a promise: the state afterwards, by what it holds.\<close>

definition enters :: "rref \<Rightarrow> string \<Rightarrow> pref \<Rightarrow> live_node \<Rightarrow> live_node \<Rightarrow> bool" where
  "enters r target p s s' \<longleftrightarrow>
     (\<forall>x. transaction_of s' x = transaction_of s x) \<and> (\<forall>q. promised s' q = promised s q) \<and>
     (\<forall>t. pending_at s' t = (if t = transaction_of s r
        then Some \<lparr>pi_request = r, pi_promise = p, pi_endpoint = target\<rparr> else pending_at s t)) \<and>
     ln_calls s' = (ln_calls s)(p \<mapsto> Added r target) \<and> ln_used s' = ln_used s \<and> ln_jobs s' = ln_jobs s \<and>
     ln_abandoned s' = ln_abandoned s \<and> nd_endpoint (ln_node s') = nd_endpoint (ln_node s)"

lemma entersD:
  assumes "enters r target p s s'"
  shows "transaction_of s' x = transaction_of s x" and "promised s' q = promised s q"
    and "pending_at s' t = (if t = transaction_of s r
      then Some \<lparr>pi_request = r, pi_promise = p, pi_endpoint = target\<rparr> else pending_at s t)"
    and "ln_calls s' q = (if q = p then Some (Added r target) else ln_calls s q)" and "ln_used s' = ln_used s"
    and "ln_jobs s' = ln_jobs s" and "ln_abandoned s' = ln_abandoned s"
    and "nd_endpoint (ln_node s') = nd_endpoint (ln_node s)"
  using assms unfolding enters_def by simp_all

lemma calls_ok_enters:
  assumes ok: "ln_ok s" and c: "ln_calls s p = Some (Checked r target)" and e: "enters r target p s s'"
  shows "calls_ok s'"
proof (rule calls_okI)
  note tr = entersD(1) [OF e] and promised = entersD(2) [OF e] and pending = entersD(3) [OF e]
    and calls = entersD(4) [OF e]
  have others: "transaction_of s (request_of st) \<noteq> transaction_of s r" if "ln_calls s q = Some st" "q \<noteq> p" for q st
    using ln_callsD(6) [OF ok that(1) c that(2)] by simp
  {
    fix q stage assume "ln_calls s' q = Some stage"
    then show "q \<in> ln_used s'" using ln_okD(6) [OF ok] c by (auto simp: calls entersD(5) [OF e] split: if_splits)
  next
    fix q r' target' assume "ln_calls s' q = Some (Checked r' target')"
    then have q: "ln_calls s q = Some (Checked r' target')" "q \<noteq> p" by (auto simp: calls split: if_splits)
    show "promised s' q = None" using ln_callsD(1) [OF ok q(1)] by (simp only: promised)
    show "pending_at s' (transaction_of s' r') = None"
      unfolding tr pending using ln_callsD(2) [OF ok q(1)] others [OF q] by simp
    show "pi_promise info \<noteq> q" if "pending_at s' t = Some info" for t info
      using that q(2) ln_callsD(3) [OF ok q(1), of t info] unfolding pending by (auto split: if_splits)
  next
    fix q r' target' info assume q: "ln_calls s' q = Some (Added r' target')"
      and i: "pending_at s' (transaction_of s' r') = Some info"
    show "pi_promise info = q"
    proof (cases "q = p")
      case True
      with q i show ?thesis unfolding tr pending calls by auto
    next
      case False
      with q have q0: "ln_calls s q = Some (Added r' target')" by (simp add: calls)
      from i others [OF this False] have "pending_at s (transaction_of s r') = Some info" unfolding tr pending by simp
      from ln_callsD(4) [OF ok q0 this] show ?thesis .
    qed
  next
    fix r' target' t info assume q: "ln_calls s' (pi_promise info) = Some (Added r' target')" and i: "pending_at s' t = Some info"
    have "t = transaction_of s r' \<and> pi_endpoint info = target'"
    proof (cases "t = transaction_of s r")
      case True
      with i have "info = \<lparr>pi_request = r, pi_promise = p, pi_endpoint = target\<rparr>" unfolding pending by simp
      with q True show ?thesis unfolding calls by simp
    next
      case False
      with i have i0: "pending_at s t = Some info" unfolding pending by simp
      with ln_callsD(3) [OF ok c, of t info] q have "ln_calls s (pi_promise info) = Some (Added r' target')"
        unfolding calls by (simp split: if_splits)
      from ln_callsD(5) [OF ok this i0] show ?thesis .
    qed
    then show "t = transaction_of s' r'" "pi_endpoint info = target'" by (simp_all only: tr)
  next
    fix q q' stage stage' assume q: "ln_calls s' q = Some stage" "ln_calls s' q' = Some stage'" "q \<noteq> q'"
    show "transaction_of s' (request_of stage) \<noteq> transaction_of s' (request_of stage')"
      unfolding tr using q others [of q stage] others [of q' stage'] ln_callsD(6) [OF ok, of q stage q' stage']
      by (auto simp: calls split: if_splits)
  }
qed

lemma promises_ok_enters:
  assumes ok: "ln_ok s" and c: "ln_calls s p = Some (Checked r target)" and e: "enters r target p s s'"
  shows "promises_ok s'"
proof (rule promises_okI)
  note promised = entersD(2) [OF e] and pending = entersD(3) [OF e] and calls = entersD(4) [OF e] and used = entersD(5) [OF e]
  show "promised s' q = None" if "q \<notin> ln_used s'" for q
    using that ln_okD(7) [OF ok] unfolding promised used by simp
  show "pi_promise info \<in> ln_used s'" if "pending_at s' t = Some info" for t info
    using that ln_okD(8) [OF ok, of t info] ln_okD(6) [OF ok c] unfolding pending used by (auto split: if_splits)
  show "looked_after s' t info" if "pending_at s' t = Some info" for t info
    using that ln_okD(9) [OF ok, of t info] entersD(6-8) [OF e]
    unfolding looked_after_def calls pending by (auto split: if_splits)
  fix q assume "q \<in> ln_used s'" "promised s' q = None"
  then have q: "q \<in> ln_used s" "promised s q = None" unfolding promised used by simp_all
  show "(\<exists>t info. pending_at s' t = Some info \<and> pi_promise info = q) \<or> (\<exists>r target. ln_calls s' q = Some (Checked r target))"
  proof (cases "q = p")
    case True
    then have "pending_at s' (transaction_of s r) = Some \<lparr>pi_request = r, pi_promise = q, pi_endpoint = target\<rparr>"
      unfolding pending by simp
    then show ?thesis by force
  next
    case False
    from ln_okD(10) [OF ok q] show ?thesis
    proof
      assume "\<exists>t info. pending_at s t = Some info \<and> pi_promise info = q"
      then obtain t info where i: "pending_at s t = Some info" "pi_promise info = q" by blast
      with ln_callsD(2) [OF ok c] have "pending_at s' t = Some info" unfolding pending by auto
      with i(2) show ?thesis by blast
    qed (use False in \<open>simp add: calls\<close>)
  qed
qed

lemma ln_ok_add:
  assumes ok: "ln_ok s" and c: "ln_calls s p = Some (Checked r target)"
    and b: "remote_call_begin True r target p (nd_rpc (ln_node s)) = Inr (rpc, True)"
  shows "ln_ok (after ((ln_node s)\<lparr>nd_rpc := rpc\<rparr>) (s\<lparr>ln_calls := (ln_calls s)(p \<mapsto> Added r target)\<rparr>))" (is "ln_ok ?s")
proof -
  have rpc: "rpc = AddResponsePromise r target p (mark r True (nd_rpc (ln_node s)))"
    using b ln_okD(2) [OF ok] by (simp add: remote_call_begin_def)
  have map: "map_ok (pending_requests (nd_rpc (ln_node s)))" using ln_okD(1) [OF ok] by (simp add: rpc_ok_def)
  have e: "enters r target p s ?s"
    using map by (simp add: enters_def after_same_endpoint rpc AddResponsePromise_def transaction_of_def)
  have "rpc_ok rpc"
    unfolding rpc by (rule rpc_ok_Add) (use ln_okD(1) [OF ok] ln_callsD(1,3) [OF ok c] in \<open>auto simp: rpc_ok_mark\<close>)
  then have "parts_ok ?s" using ln_okD(2-5) [OF ok] by (simp add: parts_ok_def rpc AddResponsePromise_def)
  with calls_ok_enters [OF ok c e] promises_ok_enters [OF ok c e] show ?thesis by (simp add: ln_ok_def)
qed

text \<open>The last part of a call settles its promise, abandons it, or leaves it to a connected node.\<close>

lemma rpc_settles_mark: "rpc_ok s \<Longrightarrow> rpc_settles s (mark r b s)"
  by (simp add: rpc_settles_def rpc_ok_mark)

lemma remote_call_sent_settles:
  assumes ok: "rpc_ok s" and alive: "consumer_alive s"
    and entry: "\<And>info. map_get (pending_requests s) (rq_transaction (rpc_requests s r)) = Some info \<Longrightarrow> pi_promise info = p"
    and has: "rpc_promises s p = None \<Longrightarrow> map_get (pending_requests s) (rq_transaction (rpc_requests s r)) \<noteq> None"
  obtains s' where "remote_call_sent SendFailed r p s = Inr s'" "rpc_settles s s'" "rpc_promises s' p \<noteq> None"
  | "remote_call_sent SendFailed r p s = Inl FutureError" "rpc_promises s p \<noteq> None"
    "snd (RemoveResponsePromise (rq_transaction (rpc_requests s r)) s) = s"
proof (cases "map_get (pending_requests s) (rq_transaction (rpc_requests s r))")
  case None
  with has have "rpc_promises s p \<noteq> None" by blast
  with None that(2) alive show ?thesis by (simp add: remote_call_sent_def RemoveResponsePromise_def settle_def)
next
  case (Some info)
  let ?s = "(mark r False (s\<lparr>pending_requests := map_erase (rq_transaction (rpc_requests s r)) (pending_requests s)\<rparr>))
      \<lparr>rpc_promises := (rpc_promises s)(p \<mapsto> Broken CallFailedException)\<rparr>"
  have p: "pi_promise info = p" by (rule entry [OF Some])
  have "remote_call_sent SendFailed r p s = Inr ?s"
    using alive Some rpc_ok_entry(2) [OF ok Some] p by (simp add: remote_call_sent_def RemoveResponsePromise_def settle_def)
  moreover have "rpc_settles s ?s"
    by (rule rpc_settles_entry [OF ok Some, where x = "Broken CallFailedException"])
      (simp_all add: p mark_def MarkAsCurrentlyProcessed_def)
  ultimately show ?thesis by (rule that(1)) simp
qed

lemma endpoint_Send_connected:
  assumes "endpoint_Send serialize w node m s = Inr (f, s')"
  shows "map_get (connections s') node \<noteq> None"
  using assms
  by (auto simp: endpoint_Send_def GetConnection_def connection_Send_def bind_result_Inr_iff OnMessageSent_def
      split: option.splits if_splits write_result.splits)

lemma finish_call_moves:
  assumes f: "finish_call env r target p nd = Inr (threw, nd')" and ok: "rpc_ok (nd_rpc nd)" "consumer_alive (nd_rpc nd)"
    and entry: "\<And>info. map_get (pending_requests (nd_rpc nd)) (rq_transaction (rpc_requests (nd_rpc nd) r)) = Some info \<Longrightarrow>
      pi_promise info = p"
    and has: "rpc_promises (nd_rpc nd) p = None \<Longrightarrow>
      map_get (pending_requests (nd_rpc nd)) (rq_transaction (rpc_requests (nd_rpc nd) r)) \<noteq> None"
  shows "node_moves nd nd'"
    and "threw \<or> rpc_promises (nd_rpc nd') p \<noteq> None \<or> map_get (connections (nd_endpoint nd')) target \<noteq> None"
proof -
  have "node_moves nd nd' \<and>
    (threw \<or> rpc_promises (nd_rpc nd') p \<noteq> None \<or> map_get (connections (nd_endpoint nd')) target \<noteq> None)"
  proof (cases "threw")
    case True
    then have "nd' = nd" using f by (auto simp: finish_call_def split: sum.splits prod.splits if_splits)
    with True show ?thesis using node_moves_refl [OF ok(1)] by simp
  next
    case False
    then obtain m g nd1 where send: "node_Send env target m nd = Inr (g, nd1)"
      and rest: "(case remote_call_sent (sending_of g) r p (nd_rpc nd1) of
                  Inr s \<Rightarrow> Inr (False, nd1\<lparr>nd_rpc := s\<rparr>)
                | Inl x \<Rightarrow>
                    if x = UndefinedBehaviour then Inl x
                    else Inr (False, nd1\<lparr>nd_rpc := mark r False
                      (snd (RemoveResponsePromise (rq_transaction (rpc_requests (nd_rpc nd1) r)) (nd_rpc nd1)))\<rparr>)) =
         Inr (threw, nd')"
      using f unfolding finish_call_def by (auto split: sum.splits prod.splits)
    have m1: "node_moves nd nd1" by (rule node_Send_moves [OF send ok(1)])
    have same: "nd_rpc nd1 = nd_rpc nd" and conn: "map_get (connections (nd_endpoint nd1)) target \<noteq> None"
      using send endpoint_Send_connected by (auto simp: node_Send_def bind_result_Inr_iff)
    have step: "node_moves nd (nd1\<lparr>nd_rpc := s\<rparr>)" if "rpc_settles (nd_rpc nd) s" for s
      using m1 that by (simp add: node_moves_def)
    show ?thesis
    proof (cases g)
      case (Inr u)
      with rest have "nd' = nd1\<lparr>nd_rpc := nd_rpc nd\<rparr>" by (simp add: sending_of_def remote_call_sent_def same)
      then show ?thesis using step rpc_settles_refl [OF ok(1)] conn by simp
    next
      case (Inl x)
      then have g: "sending_of g = SendFailed" by (simp add: sending_of_def)
      show ?thesis
      proof (rule remote_call_sent_settles [OF ok, of r p])
        fix s assume s: "remote_call_sent SendFailed r p (nd_rpc nd) = Inr s" "rpc_settles (nd_rpc nd) s" "rpc_promises s p \<noteq> None"
        with rest have "nd' = nd1\<lparr>nd_rpc := s\<rparr>" by (simp add: g same)
        with s step show ?thesis by simp
      next
        assume 2: "remote_call_sent SendFailed r p (nd_rpc nd) = Inl FutureError" "rpc_promises (nd_rpc nd) p \<noteq> None"
          "snd (RemoveResponsePromise (rq_transaction (rpc_requests (nd_rpc nd) r)) (nd_rpc nd)) = nd_rpc nd"
        with rest have "nd' = nd1\<lparr>nd_rpc := mark r False (nd_rpc nd)\<rparr>" by (simp add: g same)
        with 2 step [OF rpc_settles_mark [OF ok(1)]] show ?thesis by simp
      qed (use entry has in auto)
    qed
  qed
  then show "node_moves nd nd'"
    and "threw \<or> rpc_promises (nd_rpc nd') p \<noteq> None \<or> map_get (connections (nd_endpoint nd')) target \<noteq> None"
    by blast+
qed

lemma added_entry:
  assumes ok: "ln_ok s" and c: "ln_calls s p = Some (Added r target)"
  shows "pending_at s (transaction_of s r) = Some info \<Longrightarrow> pi_promise info = p"
    and "promised s p = None \<Longrightarrow> pending_at s (transaction_of s r) \<noteq> None"
proof -
  show "pending_at s (transaction_of s r) = Some info \<Longrightarrow> pi_promise info = p" by (rule ln_callsD(4) [OF ok c])
  assume "promised s p = None"
  from ln_okD(10) [OF ok ln_okD(6) [OF ok c] this] c obtain t info where
    e: "pending_at s t = Some info" "pi_promise info = p" by auto
  with c ln_callsD(5) [OF ok, of info r target t] show "pending_at s (transaction_of s r) \<noteq> None" by auto
qed

lemma ln_ok_call_done:
  assumes ok: "ln_ok s" and c: "ln_calls s p = Some (Added r target)" and A: "ln_abandoned s \<subseteq> A"
    and kept: "p \<in> A \<or> promised s p \<noteq> None \<or> map_get (connections (nd_endpoint (ln_node s))) target \<noteq> None"
  shows "ln_ok (s\<lparr>ln_calls := (ln_calls s)(p := None), ln_abandoned := A\<rparr>)" (is "ln_ok ?s")
proof -
  have tr: "transaction_of ?s x = transaction_of s x" for x by (simp add: transaction_of_def)
  have sub: "ln_calls s q = Some stage \<and> q \<noteq> p" if "ln_calls ?s q = Some stage" for q stage
    using that by (auto split: if_splits)
  have "parts_ok ?s" using ok by (simp add: ln_ok_def parts_ok_def)
  moreover have "calls_ok ?s"
  proof (rule calls_ok_shrinks [OF ok])
    fix q r' target' assume "ln_calls ?s q = Some (Checked r' target')"
    from ln_callsD(1) [OF ok sub [OF this, THEN conjunct1]] show "promised ?s q = None" by simp
  qed (use sub in \<open>blast | simp add: tr\<close>)+
  moreover have "promises_ok ?s"
  proof (rule promises_okI)
    fix t info assume "pending_at ?s t = Some info"
    then have e: "pending_at s t = Some info" by simp
    show "pi_promise info \<in> ln_used ?s" using ln_okD(8) [OF ok e] by simp
    show "looked_after ?s t info"
    proof (cases "pi_promise info = p")
      case False
      with ln_okD(9) [OF ok e] A show ?thesis by (auto simp: looked_after_def)
    next
      case True
      with c e have "pi_endpoint info = target" using ln_callsD(5) [OF ok, of info r target t] by simp
      with kept True rpc_ok_entry(2) [OF ln_okD(1) [OF ok] e] show ?thesis by (auto simp: looked_after_def)
    qed
  next
    fix q assume "q \<in> ln_used ?s" "promised ?s q = None"
    then have "q \<in> ln_used s" "promised s q = None" by simp_all
    from ln_okD(10) [OF ok this] show "(\<exists>t info. pending_at ?s t = Some info \<and> pi_promise info = q) \<or>
        (\<exists>r target. ln_calls ?s q = Some (Checked r target))"
    proof
      assume "\<exists>r target. ln_calls s q = Some (Checked r target)"
      then obtain r' target' where "ln_calls s q = Some (Checked r' target')" by blast
      with c have "ln_calls ?s q = Some (Checked r' target')" by auto
      then show ?thesis by blast
    qed simp
  qed (use ln_okD(7) [OF ok] in simp)
  ultimately show ?thesis by (simp add: ln_ok_def)
qed

lemma ln_ok_send:
  assumes ok: "ln_ok s" and c: "ln_calls s p = Some (Added r target)"
    and f: "finish_call env r target p (ln_node s) = Inr (threw, nd)"
  shows "ln_ok ((after nd s)\<lparr>ln_calls := (ln_calls s)(p := None),
    ln_abandoned := (if threw then insert p (ln_abandoned s) else ln_abandoned s)\<rparr>)"
    (is "ln_ok (_\<lparr>ln_calls := _, ln_abandoned := ?A\<rparr>)")
proof -
  have moves: "node_moves (ln_node s) nd"
    and kept: "threw \<or> promised (after nd s) p \<noteq> None \<or> map_get (connections (nd_endpoint nd)) target \<noteq> None"
    using finish_call_moves [OF f ln_okD(1,2) [OF ok]] added_entry [OF ok c] by (simp_all add: transaction_of_def)
  have "ln_ok (after nd s)" by (rule ln_ok_moves [OF ok moves])
  moreover have "p \<in> ?A \<or> promised (after nd s) p \<noteq> None \<or> map_get (connections (nd_endpoint (ln_node (after nd s)))) target \<noteq> None"
    using kept by (cases threw) simp_all
  ultimately show ?thesis using ln_ok_call_done [of "after nd s" p r target ?A] c by (cases threw) auto
qed

lemma ln_ok_step: "ln_step s s' \<Longrightarrow> ln_ok s \<Longrightarrow> ln_ok s'"
proof (induction rule: ln_step.induct)
  case (receive c s env r nd)
  then show ?case using node_receive_moves ln_okD(1) by (intro ln_ok_moves) blast+
next
  case (endpoint s ep)
  then show ?case
    by (intro ln_ok_moves) (simp_all add: node_moves_def ep_run_step rpc_settles_refl ln_okD(1))
qed (simp_all add: ln_ok_check ln_ok_refuse ln_ok_add ln_ok_send ln_ok_cancel ln_ok_offer)

interpretation live_nodes: invariant_system ln_start ln_step ln_ok
  by unfold_locales (erule ln_ok_start, erule (1) ln_ok_step)

lemma ln_run_start: "ln_start s0 \<Longrightarrow> ln_run s0 s \<Longrightarrow> ln_ok s"
  unfolding ln_run_def by (rule live_nodes.inv_run)

lemma ln_run_append: "ln_run a b \<Longrightarrow> ln_step b c \<Longrightarrow> ln_run a c"
  unfolding ln_run_def by (rule rtranclp.rtrancl_into_rtrancl)

lemma ln_run_refl: "ln_run s s"
  by (simp add: ln_run_def)

section \<open>An example\<close>

definition example_live :: live_node where
  "example_live = \<lparr>ln_node = example_node 2 ''service-response'' ''b'' [], ln_jobs = [], ln_calls = Map.empty,
     ln_used = {}, ln_abandoned = {}\<rparr>"

definition example_closed :: endpoint where
  "example_closed = CloseConnectionTo ''b'' (nd_endpoint (ln_node example_live))"

lemma example_live_facts:
  "ln_start example_live" "node_connected (ln_node example_live) ''b''" "free_request example_live 0"
  "connections example_closed = []"
  "events example_closed = events (nd_endpoint (ln_node example_live)) @ [ConnectionClosed ''b'']"
  by (simp_all add: example_live_def example_node_def example_closed_def ln_start_def free_request_def
      node_connected_def HasConnectionTo_def CloseConnectionTo_def example_endpoint_facts example_endpoint_def
      AddMessageConsumer_def AddConnection_def StartReceivingMessages_def endpoint_ok_def consumers_of_def IsUsable_def
      Let_def fire_event_def make_endpoint_def map_index_def Close_def OnConnectionClose_def map_erase_def del: One_nat_def)

lemma finish_call_no_connection:
  "map_get (connections (nd_endpoint nd)) target = None \<Longrightarrow> finish_call env r target p nd = Inr (True, nd)"
  by (simp add: finish_call_def node_Send_def endpoint_Send_def GetConnection_def split: sum.splits)

lemma begin_connected:
  "consumer_alive s \<Longrightarrow> remote_call_begin True r target p s = Inr (AddResponsePromise r target p (mark r True s), True)"
  by (simp add: remote_call_begin_def)

text \<open>The example checks a call, and then loses its connection before or after entering the promise.\<close>

definition example_checked :: live_node where
  "example_checked = example_live\<lparr>ln_calls := [7 \<mapsto> Checked 0 ''b''], ln_used := {7}\<rparr>"

definition example_lost :: live_node where
  "example_lost = after ((ln_node example_live)\<lparr>nd_endpoint := example_closed\<rparr>) example_checked"

definition example_rpc_added :: rpc where
  "example_rpc_added = AddResponsePromise 0 ''b'' 7 (mark 0 True (nd_rpc (ln_node example_live)))"

definition example_added :: live_node where
  "example_added = after ((ln_node example_live)\<lparr>nd_rpc := example_rpc_added\<rparr>)
     (example_checked\<lparr>ln_calls := [7 \<mapsto> Added 0 ''b'']\<rparr>)"

definition example_added_lost :: live_node where
  "example_added_lost = after ((ln_node example_added)\<lparr>nd_endpoint := example_closed\<rparr>) example_added"

abbreviation example_info :: pending_info where
  "example_info \<equiv> \<lparr>pi_request = 0, pi_promise = 7, pi_endpoint = ''b''\<rparr>"

definition example_cancelled :: live_node where
  "example_cancelled = after ((ln_node example_added_lost)\<lparr>nd_rpc :=
     cancel_call ''b'' ''t'' example_info (nd_rpc (ln_node example_added_lost))\<rparr>) (example_added_lost\<lparr>ln_jobs := []\<rparr>)"

definition example_done :: live_node where
  "example_done = (after (ln_node example_cancelled) example_cancelled)
     \<lparr>ln_calls := Map.empty, ln_abandoned := {7}\<rparr>"

lemma example_checked_run: "ln_run example_live example_checked"
proof -
  have "ln_step example_live (example_live\<lparr>ln_calls := (ln_calls example_live)(7 \<mapsto> Checked 0 ''b''),
      ln_used := insert 7 (ln_used example_live)\<rparr>)"
    by (rule ln_step.check) (simp_all add: example_live_facts, simp add: example_live_def)
  then show ?thesis using ln_run_append ln_run_refl by (fastforce simp: example_checked_def example_live_def)
qed

lemma example_lost_run:
  "ln_run example_live example_lost" "ln_calls example_lost 7 = Some (Checked 0 ''b'')"
  "connections (nd_endpoint (ln_node example_lost)) = []"
proof -
  have "ep_step (nd_endpoint (ln_node example_checked)) example_closed"
    using ep_step.close_to [of "nd_endpoint (ln_node example_live)" "''b''"] by (simp add: example_checked_def example_closed_def)
  from ln_step.endpoint [OF this] have "ln_step example_checked example_lost"
    by (simp add: example_lost_def example_checked_def)
  then show "ln_run example_live example_lost" using ln_run_append example_checked_run by blast
qed (simp_all add: example_lost_def example_checked_def example_live_facts)

lemma example_added_facts:
  "nd_endpoint (ln_node example_added) = nd_endpoint (ln_node example_live)"
  "nd_rpc (ln_node example_added) = example_rpc_added" "ln_jobs example_added = []"
  "ln_calls example_added = [7 \<mapsto> Added 0 ''b'']" "ln_used example_added = {7}" "ln_abandoned example_added = {}"
  "pending_requests example_rpc_added = [(''t'', example_info)]"
  by (simp_all add: example_added_def example_checked_def example_live_def after_same_endpoint example_rpc_added_def
      AddResponsePromise_def example_node_def make_request_def)

lemma example_added_lost_facts:
  "ln_jobs example_added_lost = [CancelJob ''b'' ''t'' example_info]" "ln_calls example_added_lost = [7 \<mapsto> Added 0 ''b'']"
  "ln_used example_added_lost = {7}" "ln_abandoned example_added_lost = {}"
  "nd_endpoint (ln_node example_added_lost) = example_closed"
  using example_live_facts(5) example_added_facts by (simp_all add: example_added_lost_def after_def)

lemma example_done_run:
  "ln_run example_live example_done" "ln_jobs example_done = []" "ln_used example_done = {7}"
  "ln_calls example_done 7 = None" "connections (nd_endpoint (ln_node example_done)) = []"
proof -
  have "consumer_alive (nd_rpc (ln_node example_checked))"
    by (simp add: example_checked_def example_live_def example_node_def)
  from ln_step.add [OF _ begin_connected [OF this], of 7 0 "''b''"] have "ln_step example_checked example_added"
    by (simp add: example_checked_def example_added_def example_rpc_added_def)
  moreover have "ep_step (nd_endpoint (ln_node example_added)) example_closed"
    using ep_step.close_to by (simp add: example_added_facts example_closed_def)
  from ln_step.endpoint [OF this] have "ln_step example_added example_added_lost"
    by (simp add: example_added_lost_def example_added_def)
  moreover have "ln_step example_added_lost example_cancelled"
    using ln_step.cancel [of example_added_lost "[]" "''b''" "''t''" example_info "[]"]
    by (simp add: example_cancelled_def example_added_lost_facts)
  moreover have "connections (nd_endpoint (ln_node example_cancelled)) = []"
    by (simp add: example_cancelled_def example_added_lost_facts example_live_facts)
  then have "finish_call example_env 0 ''b'' 7 (ln_node example_cancelled) = Inr (True, ln_node example_cancelled)"
    by (simp add: finish_call_no_connection)
  from ln_step.send [OF _ this] have "ln_step example_cancelled example_done"
    by (simp add: example_done_def example_cancelled_def example_added_lost_facts)
  ultimately show "ln_run example_live example_done"
    using example_checked_run ln_run_append by blast
qed (simp_all add: example_done_def example_cancelled_def example_added_lost_facts example_live_facts after_same_endpoint)

section \<open>A call that no one looks after\<close>

text \<open>
  A connection that closes between the check of a call and its entry is not noticed: the
  event is over before the entry has a listener, the sending throws, nothing catches it, and the
  entry stays for a node that is not connected, with its promise open and no job left for it.
\<close>

lemma call_entered_after_the_loss_stays_open:
  assumes "ln_start s0" and "ln_run s0 s" and "ln_calls s p = Some (Checked r target)"
    and "map_get (connections (nd_endpoint (ln_node s))) target = None"
  shows "\<exists>s'. ln_run s s' \<and> ln_calls s' p = None \<and> ln_jobs s' = ln_jobs s \<and>
    nd_endpoint (ln_node s') = nd_endpoint (ln_node s) \<and> promised s' p = None \<and>
    pending_at s' (transaction_of s r) = Some \<lparr>pi_request = r, pi_promise = p, pi_endpoint = target\<rparr>"
proof (intro exI conjI)
  have ok: "ln_ok s" by (rule ln_run_start [OF assms(1,2)])
  let ?rpc = "AddResponsePromise r target p (mark r True (nd_rpc (ln_node s)))"
  let ?nd = "(ln_node s)\<lparr>nd_rpc := ?rpc\<rparr>"
  let ?s1 = "after ?nd (s\<lparr>ln_calls := (ln_calls s)(p \<mapsto> Added r target)\<rparr>)"
  let ?s2 = "(after ?nd ?s1)\<lparr>ln_calls := (ln_calls ?s1)(p := None),
    ln_abandoned := (if True then insert p (ln_abandoned ?s1) else ln_abandoned ?s1)\<rparr>"
  have f: "finish_call example_env r target p ?nd = Inr (True, ?nd)"
    by (rule finish_call_no_connection) (simp add: assms(4))
  have "ln_step s ?s1" by (rule ln_step.add [OF assms(3) begin_connected]) (rule ln_okD(2) [OF ok])
  moreover have "ln_step ?s1 ?s2"
    by (rule ln_step.send [where env = example_env and r = r and target = target]) (simp_all add: f)
  ultimately show "ln_run s ?s2" using ln_run_append ln_run_refl by blast
  show "promised ?s2 p = None" using ln_callsD(1) [OF ok assms(3)] by (simp add: AddResponsePromise_def)
  show "pending_at ?s2 (transaction_of s r) = Some \<lparr>pi_request = r, pi_promise = p, pi_endpoint = target\<rparr>"
    using ln_okD(1) [OF ok] by (simp add: AddResponsePromise_def transaction_of_def rpc_ok_def)
qed (simp_all add: after_same_endpoint)

lemma call_entered_after_the_loss_example:
  "\<exists>s'. ln_run example_lost s' \<and> ln_calls s' 7 = None \<and> ln_jobs s' = ln_jobs example_lost \<and>
    nd_endpoint (ln_node s') = nd_endpoint (ln_node example_lost) \<and> promised s' 7 = None \<and>
    pending_at s' (transaction_of example_lost 0) = Some example_info"
  by (rule call_entered_after_the_loss_stays_open [OF example_live_facts(1) example_lost_run(1,2)])
    (simp add: example_lost_run)

section \<open>Properties\<close>

text \<open>
  C5: no call waits for a node that is lost. However checks, entries, sendings, answers, lost
  and new connections and the jobs of their events mix: once the jobs of the events have run and
  the clean-up job has left usable connections only, the promise of every call whose own job has
  ended is set, or its entry waits for a node to which there is a usable connection, or its job
  was ended by an exception of the conversion or of the sending.
\<close>

theorem no_call_waits_for_a_lost_node:
  assumes "ln_start s0" and "ln_run s0 s" and "ln_jobs s = []"
    and "\<forall>(i, c)\<in>set (connections (nd_endpoint (ln_node s))). IsUsable c (nd_endpoint (ln_node s))"
    and "p \<in> ln_used s" and "ln_calls s p = None"
  shows "(\<exists>x. promised s p = Some x) \<or> p \<in> ln_abandoned s \<or>
    (\<exists>t info. pending_at s t = Some info \<and> pi_promise info = p \<and> node_connected (ln_node s) (pi_endpoint info))"
proof (cases "promised s p")
  case None
  have ok: "ln_ok s" by (rule ln_run_start [OF assms(1,2)])
  obtain t info where e: "pending_at s t = Some info" "pi_promise info = p"
    using ln_okD(10) [OF ok assms(5) None] assms(6) by auto
  from ln_okD(9) [OF ok e(1)] assms(3,6) e(2) consider "p \<in> ln_abandoned s"
    | c where "map_get (connections (nd_endpoint (ln_node s))) (pi_endpoint info) = Some c"
    by (auto simp: looked_after_def)
  then show ?thesis
  proof cases
    case (2 c)
    then have "(pi_endpoint info, c) \<in> set (connections (nd_endpoint (ln_node s)))"
      using endpoint_okD(1) [OF ln_okD(3) [OF ok]] by (simp add: map_entry_get)
    with assms(4) 2 have "node_connected (ln_node s) (pi_endpoint info)" by (auto simp: node_connected_def HasConnectionTo_def)
    with e show ?thesis by blast
  qed simp
qed simp

theorem no_call_waits_for_a_lost_node_witness:
  "(\<exists>x. promised example_done 7 = Some x) \<or> 7 \<in> ln_abandoned example_done \<or>
    (\<exists>t info. pending_at example_done t = Some info \<and> pi_promise info = 7 \<and>
      node_connected (ln_node example_done) (pi_endpoint info))"
  by (rule no_call_waits_for_a_lost_node [OF example_live_facts(1) example_done_run(1,2)])
    (simp_all add: example_done_run)

end
