(* ===== verification/Tiled_Plugin.thy ===== *)
theory Tiled_Plugin
  imports Tiling Subsystems Service_Registry
begin

text \<open>
  The plugin that puts the composite renderer in place of the renderer of the kernel
  (\<open>plugins/tiled-composite-renderer-plugin/src/TiledCompositeRendererPlugin.cpp\<close>) and sets
  the number of tiles whenever a rendering service registers, in a job of the event that tells of
  it, and what uninstalling it leaves, together with the constructor and the forwarding operations
  of the composite renderer. The jobs interleave with each other and with registrations. Composite renderers are objects
  with an identity, since the listener of the plugin refers to its own one; a renderer that
  is no composite is any value, whose size is a parameter.
\<close>

section \<open>Renderers\<close>

datatype 'o any_renderer = PlainRenderer 'o | CompositeRenderer nat "'o any_renderer"

text \<open>\<open>TiledCompositeRenderer::GetCurrentSize\<close> and \<open>Resize\<close> go to the output renderer.\<close>

fun GetCurrentSize :: "('o \<Rightarrow> extend) \<Rightarrow> 'o any_renderer \<Rightarrow> extend" where
  "GetCurrentSize size_of (PlainRenderer r) = size_of r"
| "GetCurrentSize size_of (CompositeRenderer k output) = GetCurrentSize size_of output"

fun Resize :: "(int \<Rightarrow> int \<Rightarrow> 'o \<Rightarrow> 'o) \<Rightarrow> int \<Rightarrow> int \<Rightarrow> 'o any_renderer \<Rightarrow> 'o any_renderer" where
  "Resize resize width height (PlainRenderer r) = PlainRenderer (resize width height r)"
| "Resize resize width height (CompositeRenderer k output) =
     CompositeRenderer k (Resize resize width height output)"

text \<open>So does \<open>GetResult\<close>; scenes can be neither set nor read through a composite renderer.\<close>

fun composite_GetResult :: "('o \<Rightarrow> 'r option) \<Rightarrow> 'o any_renderer \<Rightarrow> 'r option" where
  "composite_GetResult result_of (PlainRenderer r) = result_of r"
| "composite_GetResult result_of (CompositeRenderer k output) = composite_GetResult result_of output"

fun SetScene :: "('s \<Rightarrow> 'o \<Rightarrow> 'o) \<Rightarrow> 's \<Rightarrow> 'o any_renderer \<Rightarrow> 'o any_renderer" where
  "SetScene set_scene scene (PlainRenderer r) = PlainRenderer (set_scene scene r)"
| "SetScene set_scene scene (CompositeRenderer k output) = CompositeRenderer k output"

fun GetScene :: "('o \<Rightarrow> 's option) \<Rightarrow> 'o any_renderer \<Rightarrow> 's option" where
  "GetScene scene_of (PlainRenderer r) = scene_of r"
| "GetScene scene_of (CompositeRenderer k output) = None"

datatype 'o plugin_object =
    PRenderer "'o any_renderer"
  | PRemoteRegistry callers
  | PLocalRegistry callers
  | PEventBroker
  | PEndpoint
  | PJobManager "string list"

text \<open>
  The kernel as the plugin sees it; \<open>tp_tilings\<close> has the tiling of every composite renderer
  that exists, \<open>tp_listeners\<close> the composite renderers whose listeners the broker holds for
  \<open>service-registered-notification\<close> and that have not expired, and \<open>tp_jobs\<close> the jobs of
  fired events that have not ended. Such a job runs its listener: it is \<open>ToRead\<close> before it
  has looked at the registry and \<open>ToSet\<close> when it holds the count it is going to set.
\<close>

datatype listener_job = ToRead nat string | ToSet nat nat

record 'o tiled_kernel =
  tp_subsystems :: "'o plugin_object subsystem_manager"
  tp_tilings :: "nat \<rightharpoonup> tiling"
  tp_listeners :: "nat list"
  tp_jobs :: "listener_job list"

section \<open>The composite renderer\<close>

text \<open>The constructor kicks two jobs; it starts without a service.\<close>

definition make_composite ::
  "nat \<Rightarrow> 'o any_renderer \<Rightarrow> 'o tiled_kernel \<Rightarrow> ('o any_renderer \<times> 'o tiled_kernel) result" where
  "make_composite k output_renderer s =
     bind_result (RequireSubsystem ''JobManager'' (tp_subsystems s)) (\<lambda>job_system.
       case job_system of
         PJobManager names \<Rightarrow>
           Inr (CompositeRenderer k output_renderer,
             s\<lparr>tp_subsystems := AddOrReplaceSubsystem ''JobManager''
                  (PJobManager (names @ [''render-debug-fps'', ''eval-camera-mover''])) (tp_subsystems s),
               tp_tilings := (tp_tilings s)(k \<mapsto> \<lparr>service_count = 0, image_buffers = [], tile_infos = []\<rparr>)\<rparr>)
       | _ \<Rightarrow> Inl BadAnyCast)"

definition SetServiceCount :: "extend \<Rightarrow> nat \<Rightarrow> nat \<Rightarrow> 'o tiled_kernel \<Rightarrow> 'o tiled_kernel result" where
  "SetServiceCount sz k services s =
     bind_result (UpdateTilingInfo (ex_width sz) (ex_height sz) services) (\<lambda>t.
       Inr (s\<lparr>tp_tilings := (tp_tilings s)(k \<mapsto> t)\<rparr>))"

section \<open>The plugin\<close>

definition find_render :: "(string \<Rightarrow> bool) \<Rightarrow> 'o plugin_object \<Rightarrow> caller option result" where
  "find_render conn registry =
     (case registry of
        PRemoteRegistry reg \<Rightarrow> remote_Find conn ''render'' False reg
      | PLocalRegistry reg \<Rightarrow> Inr (local_Find conn ''render'' False reg)
      | _ \<Rightarrow> Inl BadAnyCast)"

text \<open>\<open>Init\<close> once the renderer is exchanged. What was done before an exception stays done.\<close>

definition finish_setup ::
  "extend \<Rightarrow> (string \<Rightarrow> bool) \<Rightarrow> nat \<Rightarrow> 'o tiled_kernel \<Rightarrow> unit result \<times> 'o tiled_kernel" where
  "finish_setup sz conn k s =
     (case RequireSubsystem ''IServiceRegistry'' (tp_subsystems s) of
        Inl x \<Rightarrow> (Inl x, s)
      | Inr registry \<Rightarrow>
          (let s1 = (if ProvidesSubsystem ''IEventBroker'' (tp_subsystems s)
                     then s\<lparr>tp_listeners := tp_listeners s @ [k]\<rparr> else s)
           in case bind_result (RequireSubsystem ''JobManager'' (tp_subsystems s1)) (\<lambda>_.
                     bind_result (find_render conn registry) (\<lambda>render_caller.
                       SetServiceCount sz k
                         (case render_caller of Some c \<Rightarrow> GetCallableCount conn c | None \<Rightarrow> 0) s1)) of
                Inl x \<Rightarrow> (Inl x, s1)
              | Inr s2 \<Rightarrow> (Inr (), s2)))"

definition Init_tiled ::
  "('o \<Rightarrow> extend) \<Rightarrow> (string \<Rightarrow> bool) \<Rightarrow> nat \<Rightarrow> 'o tiled_kernel option \<Rightarrow> unit result \<times> 'o tiled_kernel option" where
  "Init_tiled size_of conn k subsystems =
     (case subsystems of
        None \<Rightarrow> (Inl PluginSetupFailedException, None)
      | Some s \<Rightarrow>
          (case RemoveSubsystem ''IRenderer'' (tp_subsystems s) of
             Inr (PRenderer old_renderer, m1) \<Rightarrow>
               (let s1 = s\<lparr>tp_subsystems := m1\<rparr>
                in case make_composite k old_renderer s1 of
                     Inl x \<Rightarrow> (Inl x, Some s1)
                   | Inr (tiled_renderer, s2) \<Rightarrow>
                       (let s3 = s2\<lparr>tp_subsystems := AddOrReplaceSubsystem ''IRenderer''
                              (PRenderer tiled_renderer) (tp_subsystems s2)\<rparr>;
                            (r, s4) = finish_setup (GetCurrentSize size_of old_renderer) conn k s3
                        in (r, Some s4)))
           | Inr _ \<Rightarrow> (Inl BadAnyCast, Some s)
           | Inl x \<Rightarrow> (Inl x, Some s)))"

text \<open>
  The listener of the composite renderer \<open>k\<close> up to the count it sets, if it sets one. It
  holds the registry; the setting is a step of its own, since other jobs run meanwhile.
\<close>

definition on_service_registered ::
  "(string \<Rightarrow> bool) \<Rightarrow> string \<Rightarrow> nat \<Rightarrow> 'o tiled_kernel \<Rightarrow> nat option result" where
  "on_service_registered conn service_name k s =
     (if tp_tilings s k = None then Inr None
      else if service_name = ''render'' then
        bind_result (RequireSubsystem ''IServiceRegistry'' (tp_subsystems s)) (\<lambda>registry.
        bind_result (find_render conn registry) (\<lambda>maybe_caller.
          case maybe_caller of
            Some c \<Rightarrow> Inr (Some (GetCallableCount conn c))
          | None \<Rightarrow> Inr None))
      else Inr None)"

text \<open>
  The next step of the \<open>i\<close>-th of the jobs of fired events. A job whose listener has expired
  does nothing; a listener that throws ends its own job only. The composite renderer has
  the given size.
\<close>

definition end_job :: "nat \<Rightarrow> 'o tiled_kernel \<Rightarrow> 'o tiled_kernel" where
  "end_job i s = s\<lparr>tp_jobs := take i (tp_jobs s) @ drop (Suc i) (tp_jobs s)\<rparr>"

definition listener_step :: "extend \<Rightarrow> (string \<Rightarrow> bool) \<Rightarrow> nat \<Rightarrow> 'o tiled_kernel \<Rightarrow> 'o tiled_kernel" where
  "listener_step sz conn i s =
     (if i < length (tp_jobs s) then
        (case tp_jobs s ! i of
           ToRead k name \<Rightarrow>
             (case (if k \<in> set (tp_listeners s) then on_service_registered conn name k s else Inr None) of
                Inr (Some n) \<Rightarrow> s\<lparr>tp_jobs := (tp_jobs s)[i := ToSet k n]\<rparr>
              | _ \<Rightarrow> end_job i s)
         | ToSet k n \<Rightarrow>
             (case SetServiceCount sz k n (end_job i s) of
                Inr s' \<Rightarrow> s'
              | Inl _ \<Rightarrow> end_job i s))
      else s)"

text \<open>
  \<open>ShutDown\<close> has an empty body; then the plugin manager lets go of the plugin, and the broker's
  reference to its listener expires.
\<close>

definition ShutDown_tiled :: "'o tiled_kernel \<Rightarrow> 'o tiled_kernel" where
  "ShutDown_tiled s = s"

definition uninstall_tiled :: "nat \<Rightarrow> 'o tiled_kernel \<Rightarrow> 'o tiled_kernel" where
  "uninstall_tiled k s =
     (let s1 = ShutDown_tiled s in s1\<lparr>tp_listeners := filter (\<lambda>l. l \<noteq> k) (tp_listeners s1)\<rparr>)"

section \<open>Services that come\<close>

text \<open>
  The remote registry of the kernel registers an executor, and the broker kicks a job for
  every listener it has (\<open>JobBasedEventBroker::FireEvent\<close>).
\<close>

definition kernel_subsystems :: "'o tiled_kernel \<Rightarrow> subsystems_state" where
  "kernel_subsystems s =
     \<lparr>ss_alive = True, ss_job_manager = ProvidesSubsystem ''JobManager'' (tp_subsystems s),
      ss_endpoint = ProvidesSubsystem ''IMessageEndpoint'' (tp_subsystems s),
      ss_broker = ProvidesSubsystem ''IEventBroker'' (tp_subsystems s)\<rparr>"

fun fire :: "registry_effect list \<Rightarrow> 'o tiled_kernel \<Rightarrow> 'o tiled_kernel" where
  "fire [] s = s"
| "fire (FireRegistered name # effects) s =
     fire effects (s\<lparr>tp_jobs := tp_jobs s @ map (\<lambda>k. ToRead k name) (tp_listeners s)\<rparr>)"
| "fire (_ # effects) s = fire effects s"

definition Register_in_kernel ::
  "(string \<Rightarrow> bool) \<Rightarrow> executor \<Rightarrow> 'o tiled_kernel \<Rightarrow> 'o tiled_kernel result" where
  "Register_in_kernel conn e s =
     bind_result (RequireSubsystem ''IServiceRegistry'' (tp_subsystems s)) (\<lambda>registry.
       case registry of
         PRemoteRegistry reg \<Rightarrow>
           bind_result (remote_Register (kernel_subsystems s) conn e reg) (\<lambda>(reg', effects).
             Inr (fire effects
               (s\<lparr>tp_subsystems := AddOrReplaceSubsystem ''IServiceRegistry'' (PRemoteRegistry reg') (tp_subsystems s)\<rparr>)))
       | _ \<Rightarrow> Inl BadAnyCast)"

text \<open>What happens one after the other: a registration, or a step of some pending job.\<close>

datatype kernel_event = Registers executor | Runs nat

fun tiled_run ::
  "extend \<Rightarrow> (string \<Rightarrow> bool) \<Rightarrow> kernel_event list \<Rightarrow> 'o tiled_kernel \<Rightarrow> 'o tiled_kernel result" where
  "tiled_run sz conn [] s = Inr s"
| "tiled_run sz conn (Registers e # evs) s = bind_result (Register_in_kernel conn e s) (tiled_run sz conn evs)"
| "tiled_run sz conn (Runs i # evs) s = tiled_run sz conn evs (listener_step sz conn i s)"

text \<open>
  How many jobs hold a count they have not set yet, and the runs in which this is never more
  than one: no listener reads while another one is between reading and setting.
\<close>

fun is_ToSet :: "listener_job \<Rightarrow> bool" where
  "is_ToSet (ToSet k n) = True"
| "is_ToSet (ToRead k name) = False"

definition setters :: "'o tiled_kernel \<Rightarrow> nat" where
  "setters s = length (filter is_ToSet (tp_jobs s))"

fun apart ::
  "extend \<Rightarrow> (string \<Rightarrow> bool) \<Rightarrow> kernel_event list \<Rightarrow> 'o tiled_kernel \<Rightarrow> bool" where
  "apart sz conn [] s \<longleftrightarrow> True"
| "apart sz conn (Registers e # evs) s \<longleftrightarrow>
     (case Register_in_kernel conn e s of Inr s' \<Rightarrow> apart sz conn evs s' | Inl _ \<Rightarrow> True)"
| "apart sz conn (Runs i # evs) s \<longleftrightarrow>
     setters (listener_step sz conn i s) \<le> 1 \<and> apart sz conn evs (listener_step sz conn i s)"

fun registrations :: "kernel_event list \<Rightarrow> executor list" where
  "registrations [] = []"
| "registrations (Registers e # evs) = e # registrations evs"
| "registrations (Runs i # evs) = registrations evs"

section \<open>Lemmas\<close>

text \<open>How many executors of the rendering service can be called.\<close>

definition render_count :: "(string \<Rightarrow> bool) \<Rightarrow> callers \<Rightarrow> nat" where
  "render_count conn reg = (case map_get reg ''render'' of Some c \<Rightarrow> GetCallableCount conn c | None \<Rightarrow> 0)"

lemma UpdateTilingInfo_total:
  assumes "n < 2 ^ 31"
  shows "\<exists>t. UpdateTilingInfo width height n = Inr t \<and> service_count t = n \<and>
    length (tile_infos t) = n \<and> length (image_buffers t) = n"
proof (cases "n = 0")
  case True
  then show ?thesis by (simp add: UpdateTilingInfo_def)
next
  case False
  then show ?thesis using assms by (simp add: UpdateTilingInfo_def Let_def sint_count)
qed

lemma Require_Add [simp]:
  "RequireSubsystem ty (AddOrReplaceSubsystem ty' x m) = (if ty = ty' then Inr x else RequireSubsystem ty m)"
  by (simp add: RequireSubsystem_def GetSubsystem_def AddOrReplaceSubsystem_def)

lemma Provides_Add [simp]: "ProvidesSubsystem ty (AddOrReplaceSubsystem ty' x m) \<longleftrightarrow> ty = ty' \<or> ProvidesSubsystem ty m"
  by (auto simp: ProvidesSubsystem_def AddOrReplaceSubsystem_def)

lemma Require_remove [simp]: "ty' \<noteq> ty \<Longrightarrow> RequireSubsystem ty (m(ty' := None)) = RequireSubsystem ty m"
  by (simp add: RequireSubsystem_def GetSubsystem_def)

lemma Provides_remove [simp]: "ProvidesSubsystem ty (m(ty' := None)) \<longleftrightarrow> ty \<noteq> ty' \<and> ProvidesSubsystem ty m"
  by (auto simp: ProvidesSubsystem_def)

lemma Require_Provides: "RequireSubsystem ty m = Inr x \<Longrightarrow> ProvidesSubsystem ty m"
  by (auto simp: RequireSubsystem_def GetSubsystem_def ProvidesSubsystem_def split: option.splits)

lemma Remove_required:
  assumes "RequireSubsystem ty m = Inr x"
  shows "RemoveSubsystem ty m = Inr (x, m(ty := None))"
  using assms by (cases "m ty") (auto simp: RequireSubsystem_def GetSubsystem_def RemoveSubsystem_def bind_result_Inr_iff)

lemma remote_Find_render:
  "\<exists>r. remote_Find conn ''render'' False reg = Inr r \<and>
    (case r of Some c \<Rightarrow> GetCallableCount conn c = render_count conn reg | None \<Rightarrow> render_count conn reg = 0)"
proof (cases "map_get reg ''render''")
  case (Some c)
  have "\<not> caller_IsCallable conn c \<Longrightarrow> GetCallableCount conn c = 0"
    by (simp add: caller_IsCallable_def GetCallableCount_def count_callable_length filter_empty_conv)
  with Some show ?thesis by (cases "caller_IsCallable conn c") (simp_all add: remote_Find_def render_count_def)
qed (simp add: remote_Find_def render_count_def)

text \<open>What a registration does to the registry.\<close>

definition registered :: "(string \<Rightarrow> bool) \<Rightarrow> executor \<Rightarrow> callers \<Rightarrow> callers" where
  "registered conn e reg = (if IsCallable conn e then enter_executor e reg else reg)"

lemma render_count_enter:
  "render_count conn (enter_executor e reg) \<le> Suc (render_count conn reg)"
  "e_service e \<noteq> ''render'' \<Longrightarrow> render_count conn (enter_executor e reg) = render_count conn reg"
  "render_count conn reg \<le> render_count conn (enter_executor e reg)"
  unfolding enter_executor_eq render_count_def
  by (auto simp: GetCallableCount_def count_callable_length AddExecutor_def make_caller_def split: option.splits)

lemma render_count_registered:
  "render_count conn (registered conn e reg) \<le> Suc (render_count conn reg)"
  "render_count conn reg \<le> render_count conn (registered conn e reg)"
  by (simp_all add: registered_def render_count_enter(1,3) le_SucI)

lemma render_count_fold: "render_count conn (fold (registered conn) es reg) \<le> render_count conn reg + length es"
proof (induction es arbitrary: reg)
  case (Cons e es)
  show ?case
    using Cons.IH [of "registered conn e reg"] render_count_registered(1) [of conn e reg]
    unfolding fold_simps list.size by linarith
qed simp

text \<open>
  The kernel after the exchange, at any time: the tiles of \<open>k\<close> are those for some number of
  services, which like the counts on their way is at most the number there is now.
\<close>

definition with_subsystems :: "callers \<Rightarrow> 'o tiled_kernel \<Rightarrow> bool" where
  "with_subsystems reg s \<longleftrightarrow>
     RequireSubsystem ''IServiceRegistry'' (tp_subsystems s) = Inr (PRemoteRegistry reg) \<and>
     ProvidesSubsystem ''JobManager'' (tp_subsystems s) \<and> ProvidesSubsystem ''IMessageEndpoint'' (tp_subsystems s) \<and>
     ProvidesSubsystem ''IEventBroker'' (tp_subsystems s)"

definition job_in_bounds :: "nat \<Rightarrow> nat \<Rightarrow> listener_job \<Rightarrow> bool" where
  "job_in_bounds k most j = (case j of ToRead k' name \<Rightarrow> k' = k | ToSet k' n \<Rightarrow> k' = k \<and> n \<le> most)"

definition tiled :: "extend \<Rightarrow> nat \<Rightarrow> nat \<Rightarrow> 'o tiled_kernel \<Rightarrow> bool" where
  "tiled sz k n s \<longleftrightarrow>
     (\<exists>t. tp_tilings s k = Some t \<and> UpdateTilingInfo (ex_width sz) (ex_height sz) n = Inr t \<and>
        service_count t = n \<and> length (tile_infos t) = n)"

definition in_bounds :: "extend \<Rightarrow> (string \<Rightarrow> bool) \<Rightarrow> nat \<Rightarrow> callers \<Rightarrow> 'o tiled_kernel \<Rightarrow> bool" where
  "in_bounds sz conn k reg s \<longleftrightarrow>
     with_subsystems reg s \<and> tp_listeners s = [k] \<and> (\<exists>n\<le>render_count conn reg. tiled sz k n s) \<and>
     (\<forall>j\<in>set (tp_jobs s). job_in_bounds k (render_count conn reg) j)"

text \<open>Whatever is behind will be caught up with.\<close>

definition in_step :: "extend \<Rightarrow> (string \<Rightarrow> bool) \<Rightarrow> nat \<Rightarrow> callers \<Rightarrow> 'o tiled_kernel \<Rightarrow> bool" where
  "in_step sz conn k reg s \<longleftrightarrow> setters s \<le> 1 \<and>
     (ToRead k ''render'' \<in> set (tp_jobs s) \<or> ToSet k (render_count conn reg) \<in> set (tp_jobs s) \<or>
      setters s = 0 \<and> tiled sz k (render_count conn reg) s)"

lemma SetServiceCount_tiled:
  assumes "n < 2 ^ 31"
  shows "\<exists>t. SetServiceCount sz k n s = Inr (s\<lparr>tp_tilings := (tp_tilings s)(k \<mapsto> t)\<rparr>) \<and>
    tiled sz k n (s\<lparr>tp_tilings := (tp_tilings s)(k \<mapsto> t)\<rparr>)"
  using UpdateTilingInfo_total [OF assms, of "ex_width sz" "ex_height sz"]
  by (auto simp: SetServiceCount_def tiled_def)

lemma tiled_cong: "tp_tilings s' = tp_tilings s \<Longrightarrow> tiled sz k n s' = tiled sz k n s"
  by (simp add: tiled_def)

lemma tiled_unique: "tiled sz k n s \<Longrightarrow> tiled sz k n' s \<Longrightarrow> n = n'"
  by (auto simp: tiled_def)

text \<open>What the listener reads.\<close>

lemma listener_reads:
  assumes "with_subsystems reg s" and "tp_tilings s k \<noteq> None"
  shows "on_service_registered conn name k s = Inr None \<and> (name = ''render'' \<longrightarrow> render_count conn reg = 0) \<or>
    on_service_registered conn name k s = Inr (Some (render_count conn reg))"
proof -
  obtain r where "remote_Find conn ''render'' False reg = Inr r"
    "case r of Some c \<Rightarrow> GetCallableCount conn c = render_count conn reg | None \<Rightarrow> render_count conn reg = 0"
    using remote_Find_render by blast
  with assms show ?thesis
    by (cases r) (auto simp: on_service_registered_def find_render_def with_subsystems_def)
qed

text \<open>The three things a step can do.\<close>

lemma listener_step_cases:
  assumes "in_bounds sz conn k reg s" and "render_count conn reg < 2 ^ 31" and "i < length (tp_jobs s)"
  obtains (idle) name where "tp_jobs s ! i = ToRead k name" "name = ''render'' \<longrightarrow> render_count conn reg = 0"
      "listener_step sz conn i s = end_job i s"
    | (read) name where "tp_jobs s ! i = ToRead k name"
      "listener_step sz conn i s = s\<lparr>tp_jobs := (tp_jobs s)[i := ToSet k (render_count conn reg)]\<rparr>"
    | (set) n t where "tp_jobs s ! i = ToSet k n" "n \<le> render_count conn reg"
      "listener_step sz conn i s = (end_job i s)\<lparr>tp_tilings := (tp_tilings s)(k \<mapsto> t)\<rparr>"
      "tiled sz k n (listener_step sz conn i s)"
proof -
  have mem: "job_in_bounds k (render_count conn reg) (tp_jobs s ! i)"
    using assms(1,3) by (simp add: in_bounds_def)
  show thesis
  proof (cases "tp_jobs s ! i")
    case (ToRead k' name)
    then have k: "k' = k" using mem by (simp add: job_in_bounds_def)
    have sub: "with_subsystems reg s" "tp_tilings s k \<noteq> None" "k \<in> set (tp_listeners s)"
      using assms(1) by (auto simp: in_bounds_def tiled_def)
    from listener_reads [OF sub(1,2), of conn name] show thesis
    proof (elim disjE conjE)
      assume none: "on_service_registered conn name k s = Inr None" "name = ''render'' \<longrightarrow> render_count conn reg = 0"
      then have "listener_step sz conn i s = end_job i s"
        using ToRead assms(3) k sub(3) by (simp add: listener_step_def)
      moreover have "tp_jobs s ! i = ToRead k name" using ToRead k by simp
      ultimately show thesis using none(2) idle [of name] by blast
    next
      assume "on_service_registered conn name k s = Inr (Some (render_count conn reg))"
      then show thesis using ToRead assms(3) k sub(3)
        by (intro read) (simp_all add: listener_step_def)
    qed
  next
    case (ToSet k' n)
    then have k: "k' = k" and n: "n \<le> render_count conn reg" using mem by (simp_all add: job_in_bounds_def)
    with assms(2) have "n < 2 ^ 31" by simp
    from SetServiceCount_tiled [OF this, of sz k "end_job i s"] ToSet assms(3) k n show thesis
      by (auto simp: listener_step_def end_job_def intro: set)
  qed
qed

lemma set_end_job: "j \<in> set (tp_jobs (end_job i s)) \<Longrightarrow> j \<in> set (tp_jobs s)"
  by (auto simp: end_job_def dest: in_set_takeD in_set_dropD)

lemma split_job: "i < length (tp_jobs s) \<Longrightarrow>
    tp_jobs s = take i (tp_jobs s) @ tp_jobs s ! i # drop (Suc i) (tp_jobs s)"
  by (rule id_take_nth_drop)

lemma set_split_job: "i < length (tp_jobs s) \<Longrightarrow>
    set (tp_jobs s) = insert (tp_jobs s ! i) (set (tp_jobs (end_job i s)))"
  by (subst split_job) (auto simp: end_job_def)

lemma setters_end_job: "i < length (tp_jobs s) \<Longrightarrow>
    setters s = setters (end_job i s) + (if is_ToSet (tp_jobs s ! i) then 1 else 0)"
  using arg_cong [OF split_job, of i s "\<lambda>js. length (filter is_ToSet js)"] by (simp add: setters_def end_job_def)

lemma setters_update: "i < length (tp_jobs s) \<Longrightarrow>
    setters (s\<lparr>tp_jobs := (tp_jobs s)[i := ToSet k n]\<rparr>) = Suc (setters (end_job i s))"
  by (simp add: setters_def end_job_def upd_conv_take_nth_drop)

lemma setters_0: "setters s = 0 \<longleftrightarrow> (\<forall>j\<in>set (tp_jobs s). \<not> is_ToSet j)"
  by (simp add: setters_def filter_empty_conv)

lemma end_job_simps [simp]: "tp_subsystems (end_job i s) = tp_subsystems s" "tp_tilings (end_job i s) = tp_tilings s"
    "tp_listeners (end_job i s) = tp_listeners s"
  by (simp_all add: end_job_def)

lemma step_in_bounds:
  assumes "in_bounds sz conn k reg s" and "render_count conn reg < 2 ^ 31"
  shows "in_bounds sz conn k reg (listener_step sz conn i s)"
proof (cases "i < length (tp_jobs s)")
  case True
  from assms True show ?thesis
  proof (cases rule: listener_step_cases)
    case (idle name)
    then show ?thesis using assms(1) set_end_job
      by (fastforce simp: in_bounds_def with_subsystems_def tiled_cong [of "end_job i s" s])
  next
    case (read name)
    have "job_in_bounds k (render_count conn reg) j"
      if "j \<in> set ((tp_jobs s)[i := ToSet k (render_count conn reg)])" for j
      using that assms(1) set_update_subset_insert [of "tp_jobs s" i]
      by (fastforce simp: in_bounds_def job_in_bounds_def)
    then show ?thesis using assms(1) read(2) by (simp add: in_bounds_def with_subsystems_def tiled_def)
  next
    case (set n t)
    then have "\<exists>n\<le>render_count conn reg. tiled sz k n (listener_step sz conn i s)" by blast
    then show ?thesis using assms(1) set(3) set_end_job
      by (fastforce simp: in_bounds_def with_subsystems_def)
  qed
qed (use assms(1) in \<open>simp add: listener_step_def\<close>)

lemma step_in_step:
  assumes "in_bounds sz conn k reg s" and "render_count conn reg < 2 ^ 31" and "in_step sz conn k reg s"
    and "setters (listener_step sz conn i s) \<le> 1"
  shows "in_step sz conn k reg (listener_step sz conn i s)"
proof (cases "i < length (tp_jobs s)")
  case True
  let ?n = "render_count conn reg"
  have le: "setters s \<le> 1" using assms(3) by (simp add: in_step_def)
  note jobs = set_split_job [OF True] and count = setters_end_job [OF True]
  from assms(1,2) True show ?thesis
  proof (cases rule: listener_step_cases)
    case (idle name)
    have same: "setters (end_job i s) = setters s" using count idle(1) by simp
    consider "name \<noteq> ''render''" | "?n = 0" "setters s = 0" | "?n = 0" "setters s \<noteq> 0" using idle(2) by blast
    then show ?thesis
    proof cases
      case 1
      then show ?thesis
        using assms(3) idle(1,3) jobs same by (auto simp: in_step_def tiled_cong [of "end_job i s" s])
    next
      case 2
      then have "tiled sz k ?n s" using assms(1) by (auto simp: in_bounds_def)
      with 2 same idle(3) show ?thesis by (simp add: in_step_def tiled_cong [of "end_job i s" s])
    next
      case 3
      then obtain j where j: "j \<in> set (tp_jobs s)" "is_ToSet j" by (auto simp: setters_0)
      then have "job_in_bounds k 0 j" using assms(1) 3(1) by (simp add: in_bounds_def)
      then have "j = ToSet k 0" using j(2) by (cases j) (simp_all add: job_in_bounds_def)
      with j jobs idle(1) have "ToSet k ?n \<in> set (tp_jobs (end_job i s))" using 3(1) by auto
      with same le idle(3) show ?thesis by (simp add: in_step_def)
    qed
  next
    case (read name)
    have "ToSet k ?n \<in> set (tp_jobs (listener_step sz conn i s))"
      using True read(2) set_update_memI [OF True] by simp
    with assms(4) show ?thesis by (simp add: in_step_def)
  next
    case (set n t)
    have js: "tp_jobs (listener_step sz conn i s) = tp_jobs (end_job i s)" by (simp add: set(3))
    have none: "setters (end_job i s) = 0" using count le set(1) by simp
    have "ToRead k ''render'' \<in> set (tp_jobs (end_job i s)) \<or> n = ?n"
      using assms(3) jobs none set(1) count by (auto simp: in_step_def setters_0)
    moreover have "setters (listener_step sz conn i s) = 0" using none js by (simp add: setters_def)
    ultimately show ?thesis using set(4) by (auto simp: in_step_def js)
  qed
qed (use assms(3) in \<open>simp add: listener_step_def\<close>)

lemma Register_does:
  assumes "with_subsystems reg s" and "tp_listeners s = [k]"
  shows "\<exists>s'. Register_in_kernel conn e s = Inr s' \<and> with_subsystems (registered conn e reg) s' \<and>
    tp_listeners s' = [k] \<and> tp_tilings s' = tp_tilings s \<and>
    tp_jobs s' = tp_jobs s @ (if IsCallable conn e then [ToRead k (e_service e)] else [])"
  using assms
  by (auto simp: Register_in_kernel_def with_subsystems_def remote_Register_def kernel_subsystems_def registered_def)

lemma fire_setters: "setters (fire effects s) = setters s"
  by (induction effects s rule: fire.induct) (simp_all add: setters_def filter_empty_conv)

lemma Register_setters:
  assumes "Register_in_kernel conn e s = Inr s'"
  shows "setters s' = setters s"
proof -
  obtain x where "RequireSubsystem ''IServiceRegistry'' (tp_subsystems s) = Inr x"
    using assms by (auto simp: Register_in_kernel_def bind_result_Inr_iff)
  moreover have "setters (s\<lparr>tp_subsystems := m\<rparr>) = setters s" for m by (simp add: setters_def)
  ultimately show ?thesis
    using assms by (cases x) (auto simp: Register_in_kernel_def bind_result_Inr_iff fire_setters)
qed

lemma Register_keeps:
  assumes "in_bounds sz conn k reg s" and "Register_in_kernel conn e s = Inr s'"
  shows "in_bounds sz conn k (registered conn e reg) s'"
    and "in_step sz conn k reg s \<Longrightarrow> in_step sz conn k (registered conn e reg) s'"
proof -
  let ?reg = "registered conn e reg"
  have sub: "with_subsystems reg s" "tp_listeners s = [k]" using assms(1) by (simp_all add: in_bounds_def)
  note does = Register_does [OF sub, of conn e, unfolded assms(2)]
  have le: "render_count conn reg \<le> render_count conn ?reg" by (rule render_count_registered(2))
  obtain n where n: "n \<le> render_count conn reg" "tiled sz k n s" using assms(1) by (auto simp: in_bounds_def)
  have "job_in_bounds k (render_count conn ?reg) j" if "job_in_bounds k (render_count conn reg) j" for j
    using that le by (auto simp: job_in_bounds_def split: listener_job.splits)
  then show "in_bounds sz conn k ?reg s'"
    using assms(1) does le n by (auto simp: in_bounds_def tiled_def job_in_bounds_def)
  have same: "setters s' = setters s" using does by (simp add: setters_def)
  assume in_step: "in_step sz conn k reg s"
  show "in_step sz conn k ?reg s'"
  proof (cases "IsCallable conn e \<and> e_service e = ''render''")
    case True
    then show ?thesis using in_step does same by (simp add: in_step_def)
  next
    case False
    then have "render_count conn ?reg = render_count conn reg"
      using render_count_enter(2) by (auto simp: registered_def)
    then show ?thesis using in_step does same by (auto simp: in_step_def tiled_def)
  qed
qed

lemma run_in_bounds:
  assumes "in_bounds sz conn k reg s" and "render_count conn reg + length (registrations evs) < 2 ^ 31"
  shows "\<exists>s'. tiled_run sz conn evs s = Inr s' \<and>
    in_bounds sz conn k (fold (registered conn) (registrations evs) reg) s' \<and>
    (in_step sz conn k reg s \<longrightarrow> apart sz conn evs s \<longrightarrow>
       in_step sz conn k (fold (registered conn) (registrations evs) reg) s')"
  using assms
proof (induction evs arbitrary: reg s)
  case (Cons ev evs)
  show ?case
  proof (cases ev)
    case (Registers e)
    have sub: "with_subsystems reg s" "tp_listeners s = [k]" using Cons.prems(1) by (simp_all add: in_bounds_def)
    obtain s1 where s1: "Register_in_kernel conn e s = Inr s1" using Register_does [OF sub, of conn e] by blast
    note keeps = Register_keeps [OF Cons.prems(1) s1]
    have "render_count conn (registered conn e reg) + length (registrations evs) < 2 ^ 31"
      using Cons.prems(2) render_count_registered(1) [of conn e reg] by (simp add: Registers)
    from Cons.IH [OF keeps(1) this] keeps(2) s1 show ?thesis by (auto simp: Registers)
  next
    case (Runs i)
    have small: "render_count conn reg < 2 ^ 31" using Cons.prems(2) by (simp add: Runs)
    have "render_count conn reg + length (registrations evs) < 2 ^ 31" using Cons.prems(2) by (simp add: Runs)
    from Cons.IH [OF step_in_bounds [OF Cons.prems(1) small] this] step_in_step [OF Cons.prems(1) small]
    show ?thesis by (auto simp: Runs)
  qed
qed simp

text \<open>Run one after the other, the pending jobs end.\<close>

fun steps_of :: "listener_job \<Rightarrow> nat" where
  "steps_of (ToRead k name) = 2"
| "steps_of (ToSet k n) = 1"

definition steps_left :: "'o tiled_kernel \<Rightarrow> nat" where
  "steps_left s = sum_list (map steps_of (tp_jobs s))"

lemma first_job_runs:
  assumes "in_bounds sz conn k reg s" and "render_count conn reg < 2 ^ 31"
    and "\<forall>j\<in>set (tl (tp_jobs s)). \<not> is_ToSet j"
  shows "setters (listener_step sz conn 0 s) \<le> 1" "\<forall>j\<in>set (tl (tp_jobs (listener_step sz conn 0 s))). \<not> is_ToSet j"
    "steps_left (listener_step sz conn 0 s) \<le> steps_left s - 1"
proof -
  let ?s = "listener_step sz conn 0 s"
  have "setters ?s \<le> 1 \<and> (\<forall>j\<in>set (tl (tp_jobs ?s)). \<not> is_ToSet j) \<and> steps_left ?s \<le> steps_left s - 1"
  proof (cases "tp_jobs s")
    case Nil
    then show ?thesis by (simp add: listener_step_def setters_def steps_left_def)
  next
    case (Cons j js)
    have len: "0 < length (tp_jobs s)" by (simp add: Cons)
    have js: "\<forall>j\<in>set js. \<not> is_ToSet j" "\<forall>j\<in>set (tl js). \<not> is_ToSet j"
      using assms(3) by (cases js; auto simp: Cons)+
    then have none: "filter is_ToSet js = []" by (simp add: filter_empty_conv)
    from assms(1,2) len show ?thesis
    proof (cases rule: listener_step_cases)
      case (idle name)
      then show ?thesis using js none by (simp add: Cons end_job_def setters_def steps_left_def)
    next
      case (read name)
      then show ?thesis using js none by (simp add: Cons setters_def steps_left_def)
    next
      case (set n t)
      then show ?thesis using js none by (simp add: Cons end_job_def setters_def steps_left_def)
    qed
  qed
  then show "setters ?s \<le> 1" "\<forall>j\<in>set (tl (tp_jobs ?s)). \<not> is_ToSet j" "steps_left ?s \<le> steps_left s - 1"
    by blast+
qed

lemma jobs_run_out:
  assumes "in_bounds sz conn k reg s" and "render_count conn reg < 2 ^ 31"
    and "\<forall>j\<in>set (tl (tp_jobs s)). \<not> is_ToSet j" and "steps_left s \<le> m"
  shows "apart sz conn (replicate m (Runs 0)) s \<and>
    (\<exists>s'. tiled_run sz conn (replicate m (Runs 0)) s = Inr s' \<and> tp_jobs s' = [])"
  using assms
proof (induction m arbitrary: s)
  case 0
  have "steps_of j \<noteq> 0" for j by (cases j) simp_all
  with 0 show ?case by (cases "tp_jobs s") (auto simp: steps_left_def)
next
  case (Suc m)
  note first = first_job_runs [OF Suc.prems(1-3)]
  have "steps_left (listener_step sz conn 0 s) \<le> m" using first(3) Suc.prems(4) by linarith
  from Suc.IH [OF step_in_bounds [OF Suc.prems(1,2)] Suc.prems(2) first(2) this] first(1)
  show ?case by simp
qed

lemma registrations_append [simp]: "registrations (evs @ evs') = registrations evs @ registrations evs'"
  by (induction evs rule: registrations.induct) simp_all

lemma registrations_runs [simp]: "registrations (replicate m (Runs i)) = []"
  by (induction m) simp_all

lemma steps_left_le: "steps_left s \<le> 2 * length (tp_jobs s)"
proof -
  have "steps_of j \<le> 2" for j by (cases j) simp_all
  then have "sum_list (map steps_of js) \<le> length js * 2" for js
    using sum_list_mono [of js steps_of "\<lambda>_. 2"] by (simp add: sum_list_triv)
  then show ?thesis by (simp add: steps_left_def mult.commute)
qed

text \<open>
  Two jobs that overlap: the one that read first sets last, all jobs have ended, and the
  tiles stay as many as there were services when it read.
\<close>

lemma read_then_set:
  assumes "with_subsystems reg s" and "tp_listeners s = [k]" and "tp_tilings s k \<noteq> None"
    and "i < length (tp_jobs s)" and "tp_jobs s ! i = ToRead k name" and "name = ''render''" and "0 < render_count conn reg"
  shows "listener_step sz conn i s = s\<lparr>tp_jobs := (tp_jobs s)[i := ToSet k (render_count conn reg)]\<rparr>"
  using listener_reads [OF assms(1,3), of conn name] assms(2-7) by (auto simp: listener_step_def)

lemma overlapping_listeners_leave_a_stale_count:
  assumes "in_bounds sz conn k reg s" and "tp_jobs s = []"
    and "IsCallable conn a" "e_service a = ''render''" and "IsCallable conn b" "e_service b = ''render''"
    and "0 < render_count conn (registered conn a reg)"
    and "render_count conn (registered conn b (registered conn a reg)) < 2 ^ 31"
  shows "\<exists>s'. tiled_run sz conn [Registers a, Runs 0, Registers b, Runs 1, Runs 1, Runs 0] s = Inr s' \<and>
    tp_jobs s' = [] \<and> with_subsystems (registered conn b (registered conn a reg)) s' \<and>
    tiled sz k (render_count conn (registered conn a reg)) s'"
proof -
  let ?a = "registered conn a reg"
  let ?b = "registered conn b ?a"
  have le: "render_count conn ?a \<le> render_count conn ?b" by (rule render_count_registered(2))
  have s: "with_subsystems reg s" "tp_listeners s = [k]" "tp_tilings s k \<noteq> None"
    using assms(1) by (auto simp: in_bounds_def tiled_def)
  from Register_does [OF s(1,2), of conn a] obtain s1 where s1: "Register_in_kernel conn a s = Inr s1"
      "with_subsystems ?a s1" "tp_listeners s1 = [k]" "tp_tilings s1 = tp_tilings s" "tp_jobs s1 = [ToRead k ''render'']"
    using assms(2-4) by auto
  let ?s2 = "s1\<lparr>tp_jobs := [ToSet k (render_count conn ?a)]\<rparr>"
  have step1: "listener_step sz conn 0 s1 = ?s2"
    using read_then_set [OF s1(2,3), of 0 "''render''" conn sz] s1 s(3) assms(7) by simp
  have "with_subsystems ?a ?s2" "tp_listeners ?s2 = [k]" using s1 by (simp_all add: with_subsystems_def)
  from Register_does [OF this, of conn b] obtain s3 where s3: "Register_in_kernel conn b ?s2 = Inr s3"
      "with_subsystems ?b s3" "tp_listeners s3 = [k]" "tp_tilings s3 = tp_tilings s"
      "tp_jobs s3 = [ToSet k (render_count conn ?a), ToRead k ''render'']"
    using assms(5,6) s1(4) by auto
  let ?s4 = "s3\<lparr>tp_jobs := [ToSet k (render_count conn ?a), ToSet k (render_count conn ?b)]\<rparr>"
  have step2: "listener_step sz conn 1 s3 = ?s4"
    using read_then_set [OF s3(2,3), of 1 "''render''" conn sz] s3 s(3) assms(7) le by simp
  obtain t where "SetServiceCount sz k (render_count conn ?b) (end_job 1 ?s4) =
      Inr ((end_job 1 ?s4)\<lparr>tp_tilings := (tp_tilings (end_job 1 ?s4))(k \<mapsto> t)\<rparr>)"
    using SetServiceCount_tiled [OF assms(8)] by blast
  then obtain s5 where s5: "listener_step sz conn 1 ?s4 = s5" "tp_jobs s5 = [ToSet k (render_count conn ?a)]"
      "tp_subsystems s5 = tp_subsystems s3"
    by (simp add: listener_step_def end_job_def)
  have "render_count conn ?a < 2 ^ 31" using le assms(8) by simp
  from SetServiceCount_tiled [OF this, of sz k "end_job 0 s5"] obtain s6 where
    "listener_step sz conn 0 s5 = s6" "tp_jobs s6 = []" "tp_subsystems s6 = tp_subsystems s3"
      "tiled sz k (render_count conn ?a) s6"
    using s5 by (auto simp: listener_step_def end_job_def)
  then show ?thesis using s1(1) step1 s3(1,2) step2 s5(1) by (auto simp: with_subsystems_def)
qed

text \<open>
  An uninstalled plugin leaves its renderer behind: the kernel still has the composite one, over
  the renderer it took, and its tiling does not follow the services any more.
\<close>

lemma fire_without_listeners: "tp_listeners s = [] \<Longrightarrow> fire effects s = s"
  by (induction effects s rule: fire.induct) simp_all

definition left_behind :: "(nat \<rightharpoonup> tiling) \<Rightarrow> 'o plugin_object result \<Rightarrow> 'o tiled_kernel \<Rightarrow> bool" where
  "left_behind tilings renderer s \<longleftrightarrow> tp_listeners s = [] \<and> setters s = 0 \<and> tp_tilings s = tilings \<and>
     RequireSubsystem ''IRenderer'' (tp_subsystems s) = renderer"

lemma Register_left_behind:
  assumes "Register_in_kernel conn e s = Inr s'" and "left_behind tilings renderer s"
  shows "left_behind tilings renderer s'"
proof -
  obtain x where x: "RequireSubsystem ''IServiceRegistry'' (tp_subsystems s) = Inr x"
    using assms(1) by (auto simp: Register_in_kernel_def bind_result_Inr_iff)
  then show ?thesis
    using assms by (cases x)
      (auto simp: Register_in_kernel_def bind_result_Inr_iff fire_without_listeners left_behind_def setters_def)
qed

lemma step_left_behind:
  assumes "left_behind tilings renderer s"
  shows "left_behind tilings renderer (listener_step sz conn i s)"
proof (cases "i < length (tp_jobs s)")
  case True
  have none: "\<not> is_ToSet (tp_jobs s ! i)" using assms True by (simp add: left_behind_def setters_0)
  then have "listener_step sz conn i s = end_job i s"
    using assms True by (cases "tp_jobs s ! i") (simp_all add: listener_step_def left_behind_def)
  then show ?thesis using assms setters_end_job [OF True] by (simp add: left_behind_def)
qed (use assms in \<open>simp add: listener_step_def\<close>)

lemma run_left_behind:
  "tiled_run sz conn evs s = Inr s' \<Longrightarrow> left_behind tilings renderer s \<Longrightarrow> left_behind tilings renderer s'"
  by (induction sz conn evs s rule: tiled_run.induct)
    (auto simp: bind_result_Inr_iff dest: Register_left_behind intro: step_left_behind)

lemma uninstalled_plugin_leaves_its_renderer:
  assumes "in_bounds sz conn k reg s" and "setters s = 0"
    and "RequireSubsystem ''IRenderer'' (tp_subsystems s) = Inr (PRenderer (CompositeRenderer k old))"
    and "tiled_run sz conn evs (uninstall_tiled k s) = Inr s'"
  shows "RequireSubsystem ''IRenderer'' (tp_subsystems s') = Inr (PRenderer (CompositeRenderer k old))"
    and "tp_tilings s' = tp_tilings s"
proof -
  have "left_behind (tp_tilings s) (Inr (PRenderer (CompositeRenderer k old))) (uninstall_tiled k s)"
    using assms(1-3) by (simp add: uninstall_tiled_def ShutDown_tiled_def in_bounds_def left_behind_def setters_def)
  from run_left_behind [OF assms(4) this]
  show "RequireSubsystem ''IRenderer'' (tp_subsystems s') = Inr (PRenderer (CompositeRenderer k old))"
    and "tp_tilings s' = tp_tilings s" by (simp_all add: left_behind_def)
qed

section \<open>Properties\<close>

text \<open>
  C16: after \<open>Init\<close> the renderer of the kernel is the composite one over the renderer that was
  there before, with one tile per rendering service that can be called. From then on services
  register, on this node or on others, and the jobs of the fired events run, in any order and
  interleaved in any way: the number of tiles is never more than the number of rendering
  services that can be called, and the tiles are those of the partition for it. It is equal
  again as soon as no job is pending, provided that no listener read the registry while
  another one had read and not yet set (\<open>apart\<close>); and the pending jobs do end when they run
  one after the other. Without that proviso the number can stay too small
  (\<open>overlapping_listeners_leave_a_stale_count\<close>). \<open>Init\<close> is one step here.
\<close>

theorem tiles_follow_the_rendering_services:
  fixes evs :: "kernel_event list" and conn :: "string \<Rightarrow> bool" and size_of :: "'o \<Rightarrow> extend"
  assumes "RequireSubsystem ''IRenderer'' (tp_subsystems s) = Inr (PRenderer old)"
    and "RequireSubsystem ''JobManager'' (tp_subsystems s) = Inr (PJobManager names)"
    and "RequireSubsystem ''IServiceRegistry'' (tp_subsystems s) = Inr (PRemoteRegistry reg)"
    and "ProvidesSubsystem ''IMessageEndpoint'' (tp_subsystems s)" and "ProvidesSubsystem ''IEventBroker'' (tp_subsystems s)"
    and "tp_listeners s = []" and "tp_jobs s = []"
    and "render_count conn reg + length (registrations evs) < 2 ^ 31"
  defines "sz \<equiv> GetCurrentSize size_of old" and "reg' \<equiv> fold (registered conn) (registrations evs) reg"
  shows "\<exists>s1 s2. Init_tiled size_of conn k (Some s) = (Inr (), Some s1) \<and>
    RequireSubsystem ''IRenderer'' (tp_subsystems s1) = Inr (PRenderer (CompositeRenderer k old)) \<and>
    tiled sz k (render_count conn reg) s1 \<and> tp_jobs s1 = [] \<and>
    tiled_run sz conn evs s1 = Inr s2 \<and>
    RequireSubsystem ''IServiceRegistry'' (tp_subsystems s2) = Inr (PRemoteRegistry reg') \<and>
    (\<exists>n\<le>render_count conn reg'. tiled sz k n s2) \<and>
    (apart sz conn evs s1 \<longrightarrow> tp_jobs s2 = [] \<longrightarrow> tiled sz k (render_count conn reg') s2) \<and>
    (apart sz conn evs s1 \<longrightarrow> setters s2 = 0 \<longrightarrow>
      (\<exists>s3. tiled_run sz conn (replicate (2 * length (tp_jobs s2)) (Runs 0)) s2 = Inr s3 \<and>
        tp_jobs s3 = [] \<and> tiled sz k (render_count conn reg') s3))"
proof -
  let ?m = "AddOrReplaceSubsystem ''IRenderer'' (PRenderer (CompositeRenderer k old))
    (AddOrReplaceSubsystem ''JobManager'' (PJobManager (names @ [''render-debug-fps'', ''eval-camera-mover'']))
      ((tp_subsystems s)(''IRenderer'' := None)))"
  let ?s = "s\<lparr>tp_tilings := (tp_tilings s)(k \<mapsto> \<lparr>service_count = 0, image_buffers = [], tile_infos = []\<rparr>),
    tp_subsystems := ?m, tp_listeners := [k]\<rparr>"
  have found: "\<exists>r. remote_Find conn ''render'' False reg = Inr r \<and>
      (case r of Some c \<Rightarrow> GetCallableCount conn c | None \<Rightarrow> 0) = render_count conn reg"
    using remote_Find_render [of conn reg] by (auto split: option.splits)
  have small: "render_count conn reg < 2 ^ 31" using assms(8) by simp
  obtain s1 where s1: "SetServiceCount sz k (render_count conn reg) ?s = Inr s1" "tiled sz k (render_count conn reg) s1"
      "tp_subsystems s1 = ?m" "tp_listeners s1 = [k]" "tp_jobs s1 = []"
    using SetServiceCount_tiled [OF small, of sz k ?s] assms(7) by auto
  have init: "Init_tiled size_of conn k (Some s) = (Inr (), Some s1)"
    using assms(2-6) found s1(1)
    by (auto simp: Init_tiled_def Remove_required [OF assms(1)] make_composite_def finish_setup_def find_render_def
        sz_def Let_def)
  have bounds: "in_bounds sz conn k reg s1" and step: "in_step sz conn k reg s1"
    using assms(2-5) s1 by (auto simp: in_bounds_def with_subsystems_def in_step_def setters_def)
  obtain s2 where s2: "tiled_run sz conn evs s1 = Inr s2" "in_bounds sz conn k reg' s2"
      "apart sz conn evs s1 \<longrightarrow> in_step sz conn k reg' s2"
    using run_in_bounds [OF bounds assms(8)] step unfolding reg'_def by blast
  have small': "render_count conn reg' < 2 ^ 31"
    using assms(8) render_count_fold [of conn "registrations evs" reg] unfolding reg'_def by linarith
  have last: "tiled sz k (render_count conn reg') s3" if "in_step sz conn k reg' s3" "tp_jobs s3 = []" for s3
    using that by (simp add: in_step_def)
  have out: "\<exists>s3. tiled_run sz conn (replicate (2 * length (tp_jobs s2)) (Runs 0)) s2 = Inr s3 \<and>
        tp_jobs s3 = [] \<and> tiled sz k (render_count conn reg') s3"
    if "apart sz conn evs s1" "setters s2 = 0"
  proof -
    let ?evs = "replicate (2 * length (tp_jobs s2)) (Runs 0)"
    have "\<forall>j\<in>set (tl (tp_jobs s2)). \<not> is_ToSet j"
      using that(2) by (cases "tp_jobs s2") (auto simp: setters_0)
    from jobs_run_out [OF s2(2) small' this steps_left_le] obtain s3 where
      s3: "apart sz conn ?evs s2" "tiled_run sz conn ?evs s2 = Inr s3" "tp_jobs s3 = []" by blast
    have "in_step sz conn k reg' s3"
      using run_in_bounds [OF s2(2), of ?evs] small' s2(3) that(1) s3 by auto
    with last s3 show ?thesis by blast
  qed
  show ?thesis
    using init s1 s2 last out assms(1) by (intro exI [of _ s1] exI [of _ s2]) (auto simp: in_bounds_def with_subsystems_def)
qed

definition example_kernel :: "unit tiled_kernel" where
  "example_kernel = \<lparr>tp_subsystems = (\<lambda>ty. if ty = ''IRenderer'' then Some (AnyOwner ty (PRenderer (PlainRenderer ())))
       else if ty = ''JobManager'' then Some (AnyOwner ty (PJobManager []))
       else if ty = ''IServiceRegistry'' then Some (AnyOwner ty (PRemoteRegistry []))
       else if ty = ''IMessageEndpoint'' then Some (AnyOwner ty PEndpoint)
       else if ty = ''IEventBroker'' then Some (AnyOwner ty PEventBroker) else None),
     tp_tilings = Map.empty, tp_listeners = [], tp_jobs = []\<rparr>"

definition render_executor :: "string \<Rightarrow> executor" where
  "render_executor i = \<lparr>e_id = i, e_service = ''render'', e_where = LocalExecutor, e_capacity = 1\<rparr>"

theorem tiles_follow_the_rendering_services_witness:
  "\<exists>s1 s2 m s3. Init_tiled (\<lambda>_. \<lparr>ex_width = 10, ex_height = 4\<rparr>) (\<lambda>_. True) 5 (Some example_kernel) = (Inr (), Some s1) \<and>
     tiled \<lparr>ex_width = 10, ex_height = 4\<rparr> 5 0 s1 \<and>
     tiled_run \<lparr>ex_width = 10, ex_height = 4\<rparr> (\<lambda>_. True)
       [Registers (render_executor ''a''), Registers (render_executor ''b'')] s1 = Inr s2 \<and>
     tiled_run \<lparr>ex_width = 10, ex_height = 4\<rparr> (\<lambda>_. True) (replicate m (Runs 0)) s2 = Inr s3 \<and>
     tp_jobs s3 = [] \<and> tiled \<lparr>ex_width = 10, ex_height = 4\<rparr> 5 2 s3"
proof -
  let ?sz = "\<lparr>ex_width = 10, ex_height = 4\<rparr>"
  let ?es = "[render_executor ''a'', render_executor ''b'']"
  let ?evs = "[Registers (render_executor ''a''), Registers (render_executor ''b'')]"
  have "RequireSubsystem ''IRenderer'' (tp_subsystems example_kernel) = Inr (PRenderer (PlainRenderer ()))"
    "RequireSubsystem ''JobManager'' (tp_subsystems example_kernel) = Inr (PJobManager [])"
    "RequireSubsystem ''IServiceRegistry'' (tp_subsystems example_kernel) = Inr (PRemoteRegistry [])"
    "ProvidesSubsystem ''IMessageEndpoint'' (tp_subsystems example_kernel)"
    "ProvidesSubsystem ''IEventBroker'' (tp_subsystems example_kernel)" "tp_listeners example_kernel = []"
    "tp_jobs example_kernel = []"
    "render_count (\<lambda>_. True) [] + length (registrations ?evs) < 2 ^ 31"
    by (simp_all add: example_kernel_def RequireSubsystem_def GetSubsystem_def ProvidesSubsystem_def dom_def render_count_def)
  note follow = tiles_follow_the_rendering_services [OF this, of "\<lambda>_. ?sz" 5]
  have n: "render_count (\<lambda>_. True) (fold (registered (\<lambda>_. True)) ?es []) = 2" "render_count (\<lambda>_. True) [] = 0"
    by (simp_all add: registered_def render_executor_def IsCallable_def enter_executor_def make_caller_def AddExecutor_def
        Let_def render_count_def GetCallableCount_def)
  from follow obtain s1 s2 where s1: "Init_tiled (\<lambda>_. ?sz) (\<lambda>_. True) 5 (Some example_kernel) = (Inr (), Some s1)"
      "tiled ?sz 5 0 s1" "tp_jobs s1 = []" and s2: "tiled_run ?sz (\<lambda>_. True) ?evs s1 = Inr s2"
      and drained: "apart ?sz (\<lambda>_. True) ?evs s1 \<Longrightarrow> setters s2 = 0 \<Longrightarrow>
        \<exists>s3. tiled_run ?sz (\<lambda>_. True) (replicate (2 * length (tp_jobs s2)) (Runs 0)) s2 = Inr s3 \<and>
          tp_jobs s3 = [] \<and> tiled ?sz 5 2 s3"
    unfolding registrations.simps GetCurrentSize.simps n by (elim exE conjE) (rule that, assumption+, blast)
  have "apart ?sz (\<lambda>_. True) ?evs s1" by (simp split: sum.splits)
  moreover have "setters s2 = 0"
    using s2 s1(3) by (auto simp: bind_result_Inr_iff setters_def [of s1] dest!: Register_setters)
  ultimately show ?thesis using drained s1 s2 by blast
qed

end
