(* ===== verification/Tiled_Camera.thy ===== *)
theory Tiled_Camera
  imports Tiling Job
begin

text \<open>
  The camera of the composite renderer (\<open>TiledCompositeRenderer.cpp\<close>): its projection and view are
  pointers to the base classes of VulkanSceneGraph, which the renderer casts down to the classes
  it started with, without looking whether the cast succeeded. Its timer jobs, and what of the
  camera a tile and its request get. Trigonometry and products of matrices are parameters.
\<close>

section \<open>The camera\<close>

datatype 'f projection_matrix = is_Perspective: Perspective_matrix "'f perspective" | Orthographic_matrix "'f list"

datatype 'f view_matrix = is_LookAt: LookAt_matrix "'f \<times> 'f \<times> 'f" | SimpleViewMatrix "'f list"

record 'f composite_camera =
  projectionMatrix :: "'f projection_matrix"
  viewMatrix :: "'f view_matrix"

text \<open>The constructor takes the perspective and the eye it starts with from constants.\<close>

definition initial_camera :: "'f perspective \<Rightarrow> 'f \<times> 'f \<times> 'f \<Rightarrow> 'f composite_camera" where
  "initial_camera p eye = \<lparr>projectionMatrix = Perspective_matrix p, viewMatrix = LookAt_matrix eye\<rparr>"

definition composite_SetCameraProjectionMatrix :: "'f projection_matrix \<Rightarrow> 'f composite_camera \<Rightarrow> 'f composite_camera" where
  "composite_SetCameraProjectionMatrix matrix c = c\<lparr>projectionMatrix := matrix\<rparr>"

definition composite_SetCameraViewMatrix :: "'f view_matrix \<Rightarrow> 'f composite_camera \<Rightarrow> 'f composite_camera" where
  "composite_SetCameraViewMatrix matrix c = c\<lparr>viewMatrix := matrix\<rparr>"

section \<open>Timer jobs\<close>

text \<open>
  The job \<open>render-debug-fps\<close>; the counter is \<open>None\<close> once the renderer is gone. \<open>Render\<close> counts
  its frames in a debug build.
\<close>

definition count_frame :: "bool \<Rightarrow> int option \<Rightarrow> int option" where
  "count_frame ndebug fps = (if ndebug then fps else map_option (\<lambda>n. n + 1) fps)"

definition debug_fps_job :: "int option \<Rightarrow> continuation \<times> int option" where
  "debug_fps_job fps = (case fps of None \<Rightarrow> (DISPOSE, None) | Some n \<Rightarrow> (REQUEUE, Some 0))"

text \<open>The job \<open>eval-camera-mover\<close>; \<open>circle\<close> gives the eye for the time it reads.\<close>

definition camera_mover_job ::
  "('t \<Rightarrow> 'f \<times> 'f \<times> 'f) \<Rightarrow> 't \<Rightarrow> 'f composite_camera option \<Rightarrow> (continuation \<times> 'f composite_camera option) result" where
  "camera_mover_job circle now camera =
     (case camera of
        None \<Rightarrow> Inr (DISPOSE, None)
      | Some c \<Rightarrow>
          (case viewMatrix c of
             LookAt_matrix _ \<Rightarrow> Inr (REQUEUE, Some (c\<lparr>viewMatrix := LookAt_matrix (circle now)\<rparr>))
           | SimpleViewMatrix _ \<Rightarrow> Inl UndefinedBehaviour))"

section \<open>Tiles\<close>

text \<open>
  \<open>subdividePerspectiveFrustum\<close>: the projection of a tile is that of the camera, its view turned
  towards the centre of the tile by \<open>turn\<close>, which gets the position, the width, the width of the
  image and the angle. The request multiplies this with the view of the camera.
\<close>

definition subdividePerspectiveFrustum ::
  "(int \<Rightarrow> int \<Rightarrow> int \<Rightarrow> 'f \<Rightarrow> 'f list) \<Rightarrow> int \<Rightarrow> 'f projection_matrix \<Rightarrow> tile \<Rightarrow> ('f perspective \<times> 'f list) result" where
  "subdividePerspectiveFrustum turn width projection t =
     (case projection of
        Perspective_matrix p \<Rightarrow> Inr (p, turn (ti_x t) (ti_width t) width (fov p))
      | Orthographic_matrix _ \<Rightarrow> Inl UndefinedBehaviour)"

definition tile_view :: "('f list \<Rightarrow> 'f list \<Rightarrow> 'f list) \<Rightarrow> ('f view_matrix \<Rightarrow> 'f list) \<Rightarrow> 'f list \<Rightarrow> 'f composite_camera \<Rightarrow> 'f list" where
  "tile_view product transform relative_view c = product relative_view (transform (viewMatrix c))"

fun subdivide_all ::
  "(int \<Rightarrow> int \<Rightarrow> int \<Rightarrow> 'f \<Rightarrow> 'f list) \<Rightarrow> int \<Rightarrow> 'f projection_matrix \<Rightarrow> tile list \<Rightarrow> ('f perspective \<times> 'f list) list result" where
  "subdivide_all turn width projection [] = Inr []"
| "subdivide_all turn width projection (t # ts) =
     bind_result (subdividePerspectiveFrustum turn width projection t) (\<lambda>x.
     bind_result (subdivide_all turn width projection ts) (\<lambda>xs. Inr (x # xs)))"

section \<open>What the casts need\<close>

definition casts_succeed :: "'f composite_camera \<Rightarrow> bool" where
  "casts_succeed c \<longleftrightarrow> is_Perspective (projectionMatrix c) \<and> is_LookAt (viewMatrix c)"

datatype ('f, 't) camera_use = Project "'f projection_matrix" | LookFrom "'f view_matrix" | MoverRuns 't | Retile int "tile list"

fun camera_run ::
  "('t \<Rightarrow> 'f \<times> 'f \<times> 'f) \<Rightarrow> (int \<Rightarrow> int \<Rightarrow> int \<Rightarrow> 'f \<Rightarrow> 'f list) \<Rightarrow> ('f, 't) camera_use list \<Rightarrow> 'f composite_camera \<Rightarrow>
     'f composite_camera result" where
  "camera_run circle turn [] c = Inr c"
| "camera_run circle turn (Project m # us) c = camera_run circle turn us (composite_SetCameraProjectionMatrix m c)"
| "camera_run circle turn (LookFrom m # us) c = camera_run circle turn us (composite_SetCameraViewMatrix m c)"
| "camera_run circle turn (MoverRuns now # us) c =
     bind_result (camera_mover_job circle now (Some c)) (\<lambda>(_, c'). bind_result (of_opt UndefinedBehaviour c') (camera_run circle turn us))"
| "camera_run circle turn (Retile width ts # us) c =
     bind_result (subdivide_all turn width (projectionMatrix c) ts) (\<lambda>_. camera_run circle turn us c)"

fun fitting :: "('f, 't) camera_use \<Rightarrow> bool" where
  "fitting (Project m) \<longleftrightarrow> is_Perspective m"
| "fitting (LookFrom m) \<longleftrightarrow> is_LookAt m"
| "fitting _ \<longleftrightarrow> True"

lemma subdivide_all_Perspective:
  "subdivide_all turn width (Perspective_matrix p) ts = Inr (map (\<lambda>t. (p, turn (ti_x t) (ti_width t) width (fov p))) ts)"
  by (induction ts) (simp_all add: subdividePerspectiveFrustum_def)

text \<open>
  With matrices of these two classes only, every use of the camera is defined and every tile has
  the projection of the whole image; the first view of another class, as the rendering service
  sets it (\<open>RenderService.cpp\<close>), is dereferenced as null when the timer fires.
\<close>

lemma fitting_matrices_are_safe:
  assumes "casts_succeed c" and "\<forall>u\<in>set us. fitting u"
  shows "\<exists>c'. camera_run circle turn us c = Inr c' \<and> casts_succeed c'"
  using assms
proof (induction us arbitrary: c)
  case (Cons u us)
  have "\<exists>c'. camera_run circle turn us c1 = Inr c' \<and> casts_succeed c'" if "casts_succeed c1" for c1
    using Cons.IH [OF that] Cons.prems(2) by simp
  moreover obtain p eye where "projectionMatrix c = Perspective_matrix p" "viewMatrix c = LookAt_matrix eye"
    using Cons.prems(1) by (auto simp: casts_succeed_def is_Perspective_def is_LookAt_def)
  ultimately show ?case
    using Cons.prems
    by (cases u) (auto simp: composite_SetCameraProjectionMatrix_def composite_SetCameraViewMatrix_def camera_mover_job_def
        subdivide_all_Perspective casts_succeed_def)
qed simp

lemma plain_view_faults_the_mover:
  "camera_run circle turn [LookFrom (SimpleViewMatrix m), MoverRuns now] c = Inl UndefinedBehaviour"
  by (simp add: composite_SetCameraViewMatrix_def camera_mover_job_def)

lemma other_projection_faults_the_tiling:
  "camera_run circle turn [Project (Orthographic_matrix m), Retile width (t # ts)] c = Inl UndefinedBehaviour"
  by (simp add: composite_SetCameraProjectionMatrix_def subdividePerspectiveFrustum_def)

end
