(* ===== verification/Onscreen.thy ===== *)
theory Onscreen
  imports Tiling
begin

text \<open>
  The on-screen renderer (\<open>subsystems/graphics/src/OnscreenRenderer.cpp\<close>), as it is built for
  systems other than Windows: its window, viewer and camera, which are all missing when no window
  could be made. The window is its current extent, which its user may change at any time; what is
  drawn in it is the business of VulkanSceneGraph, so of the viewer it keeps the scene it draws.
\<close>

section \<open>The renderer\<close>

record ('m, 'v) camera =
  cm_projection :: 'm
  cm_view :: 'v
  cm_viewport :: extend

record ('m, 'v, 's) onscreen =
  on_scene :: 's
  on_window :: "extend option"
  on_viewer :: "'s option option"
  on_camera :: "('m, 'v) camera option"

text \<open>
  What the camera starts with: the view, the projection of a scene with an ellipsoid model, if the
  scene has one, and the plain one, both for the ratio of a window.
\<close>

record ('m, 'v, 's) screen_defaults =
  sd_look_at :: 'v
  sd_ellipsoid :: "'s \<Rightarrow> (extend \<Rightarrow> 'm) option"
  sd_perspective :: "extend \<Rightarrow> 'm"

definition SetupWindow ::
  "(int \<Rightarrow> int \<Rightarrow> extend option) \<Rightarrow> int \<Rightarrow> int \<Rightarrow> ('m, 'v, 's) onscreen \<Rightarrow> ('m, 'v, 's) onscreen" where
  "SetupWindow create width height s =
     (case create width height of
        None \<Rightarrow> s\<lparr>on_window := None\<rparr>
      | Some e \<Rightarrow> s\<lparr>on_window := Some e, on_viewer := Some None\<rparr>)"

definition Onscreen_SetupCamera ::
  "('m, 'v, 's) screen_defaults \<Rightarrow> ('m, 'v, 's) onscreen \<Rightarrow> ('m, 'v, 's) onscreen result" where
  "Onscreen_SetupCamera d s =
     (case (on_window s, on_viewer s) of
        (Some e, Some _) \<Rightarrow>
          Inr (s\<lparr>on_camera := Some \<lparr>cm_projection = (case sd_ellipsoid d (on_scene s) of
                   Some p \<Rightarrow> p e | None \<Rightarrow> sd_perspective d e), cm_view = sd_look_at d, cm_viewport = e\<rparr>\<rparr>)
      | _ \<Rightarrow> Inl UndefinedBehaviour)"

definition Onscreen_SetupCommandGraph :: "('m, 'v, 's) onscreen \<Rightarrow> ('m, 'v, 's) onscreen result" where
  "Onscreen_SetupCommandGraph s =
     (case (on_window s, on_camera s, on_viewer s) of
        (Some _, Some _, Some _) \<Rightarrow> Inr (s\<lparr>on_viewer := Some (Some (on_scene s))\<rparr>)
      | _ \<Rightarrow> Inl UndefinedBehaviour)"

definition make_OnscreenRenderer ::
  "('m, 'v, 's) screen_defaults \<Rightarrow> (int \<Rightarrow> int \<Rightarrow> extend option) \<Rightarrow> 's \<Rightarrow> int \<Rightarrow> int \<Rightarrow> ('m, 'v, 's) onscreen result" where
  "make_OnscreenRenderer d create scene width height =
     (let s = SetupWindow create width height
            \<lparr>on_scene = scene, on_window = None, on_viewer = None, on_camera = None\<rparr>
      in if on_window s = None then Inr s
         else bind_result (Onscreen_SetupCamera d s) Onscreen_SetupCommandGraph)"

text \<open>A frame: \<open>advance\<close> says whether the viewer goes on, \<open>False\<close> once its window was closed.\<close>

definition OnscreenRenderer_Render :: "bool \<Rightarrow> ('m, 'v, 's) onscreen \<Rightarrow> bool result" where
  "OnscreenRenderer_Render advance s =
     (case on_viewer s of None \<Rightarrow> Inl UndefinedBehaviour | Some _ \<Rightarrow> Inr advance)"

definition OnscreenRenderer_GetResult :: "('m, 'v, 's) onscreen \<Rightarrow> (string \<times> string) option" where
  "OnscreenRenderer_GetResult s = None"

definition OnscreenRenderer_SetScene :: "'s \<Rightarrow> ('m, 'v, 's) onscreen \<Rightarrow> ('m, 'v, 's) onscreen result" where
  "OnscreenRenderer_SetScene scene s = Onscreen_SetupCommandGraph (s\<lparr>on_scene := scene\<rparr>)"

definition OnscreenRenderer_Resize :: "int \<Rightarrow> int \<Rightarrow> ('m, 'v, 's) onscreen \<Rightarrow> ('m, 'v, 's) onscreen" where
  "OnscreenRenderer_Resize width height s = s"

definition OnscreenRenderer_GetCurrentSize :: "('m, 'v, 's) onscreen \<Rightarrow> extend result" where
  "OnscreenRenderer_GetCurrentSize s = of_opt UndefinedBehaviour (on_window s)"

definition OnscreenRenderer_SetCameraProjectionMatrix ::
  "'m \<Rightarrow> ('m, 'v, 's) onscreen \<Rightarrow> ('m, 'v, 's) onscreen result" where
  "OnscreenRenderer_SetCameraProjectionMatrix m s =
     (case on_camera s of None \<Rightarrow> Inl UndefinedBehaviour
      | Some c \<Rightarrow> Inr (s\<lparr>on_camera := Some (c\<lparr>cm_projection := m\<rparr>)\<rparr>))"

definition OnscreenRenderer_SetCameraViewMatrix ::
  "'v \<Rightarrow> ('m, 'v, 's) onscreen \<Rightarrow> ('m, 'v, 's) onscreen result" where
  "OnscreenRenderer_SetCameraViewMatrix v s =
     (case on_camera s of None \<Rightarrow> Inl UndefinedBehaviour
      | Some c \<Rightarrow> Inr (s\<lparr>on_camera := Some (c\<lparr>cm_view := v\<rparr>)\<rparr>))"

section \<open>Properties\<close>

text \<open>
  With a window every operation is defined and the viewer draws the scene set last; without
  one, the constructor returns all the same and the first frame dereferences a null pointer.
\<close>

definition on_screen :: "('m, 'v, 's) onscreen \<Rightarrow> bool" where
  "on_screen s \<longleftrightarrow> on_window s \<noteq> None \<and> on_camera s \<noteq> None \<and> on_viewer s = Some (Some (on_scene s))"

lemma make_OnscreenRenderer_on_screen:
  assumes "create width height = Some e"
  shows "\<exists>s. make_OnscreenRenderer d create scene width height = Inr s \<and> on_screen s \<and> on_scene s = scene"
  using assms
  by (simp add: make_OnscreenRenderer_def SetupWindow_def Onscreen_SetupCamera_def Onscreen_SetupCommandGraph_def
      on_screen_def)

lemma on_screen_operations:
  assumes "on_screen s"
  shows "OnscreenRenderer_Render advance s = Inr advance"
    and "\<exists>s'. OnscreenRenderer_SetScene scene s = Inr s' \<and> on_screen s' \<and> on_scene s' = scene"
    and "\<exists>s'. OnscreenRenderer_SetCameraProjectionMatrix m s = Inr s' \<and> on_screen s' \<and> on_scene s' = on_scene s"
    and "\<exists>s'. OnscreenRenderer_SetCameraViewMatrix v s = Inr s' \<and> on_screen s' \<and> on_scene s' = on_scene s"
    and "\<exists>e. OnscreenRenderer_GetCurrentSize s = Inr e"
  using assms
  by (auto simp: on_screen_def OnscreenRenderer_Render_def OnscreenRenderer_SetScene_def Onscreen_SetupCommandGraph_def
      OnscreenRenderer_SetCameraProjectionMatrix_def OnscreenRenderer_SetCameraViewMatrix_def
      OnscreenRenderer_GetCurrentSize_def)

lemma missing_window_is_dereferenced:
  assumes "create width height = None"
  shows "\<exists>s. make_OnscreenRenderer d create scene width height = Inr s \<and>
    OnscreenRenderer_Render advance s = Inl UndefinedBehaviour"
  using assms by (simp add: make_OnscreenRenderer_def SetupWindow_def OnscreenRenderer_Render_def)

text \<open>
  A rendering service over a renderer without results answers every request it can read with an
  internal error or a parameter error, whatever the encoder is.
\<close>

lemma service_needs_results:
  assumes "GetExtend r = Inr (Some e)" and "GetViewMatrix stof r = Inr view" and "\<And>s. drawing s = None"
  shows "\<exists>response. fst (RenderService_Render stof drawing what encoder r (Some s)) = Inr response \<and>
    rs_status response \<in> {INTERNAL_ERROR, PARAMETER_ERROR}"
  using assms by (auto simp: RenderService_Render_def make_response_def Let_def split: sum.split)

lemma onscreen_renderer_serves_nothing:
  assumes "GetExtend r = Inr (Some e)" and "GetViewMatrix stof r = Inr view"
  shows "\<exists>response. fst (RenderService_Render stof (\<lambda>_. OnscreenRenderer_GetResult screen) what encoder r (Some s)) = Inr response \<and>
    rs_status response \<in> {INTERNAL_ERROR, PARAMETER_ERROR}"
  by (rule service_needs_results [OF assms]) (simp add: OnscreenRenderer_GetResult_def)

end
