(* ===== verification/Captures.thy ===== *)
theory Captures
  imports Render_Request
begin

text \<open>
  What the off-screen renderer asks of the graphics device
  (\<open>subsystems/graphics/src/OffscreenRenderer.cpp\<close>, the functions before its class): the images it
  creates and the commands that copy a drawn image to where the program can read it, with the
  part of a Vulkan device that these commands change: the layout and the texels of images and
  the bytes of buffers. Commands run in the order of their submission, so the access and stage
  masks of barriers are kept but have no effect. What depends on the hardware is a parameter.
\<close>

section \<open>The device\<close>

datatype vk_layout = LAYOUT_UNDEFINED | PRESENT_SRC_KHR | TRANSFER_SRC_OPTIMAL | TRANSFER_DST_OPTIMAL
  | GENERAL | DEPTH_STENCIL_ATTACHMENT_OPTIMAL

datatype vk_format = R8G8B8A8_UNORM | B8G8R8A8_UNORM | D16_UNORM | D32_SFLOAT | D32_SFLOAT_S8_UINT

datatype vk_usage = USAGE_COLOR_ATTACHMENT | USAGE_DEPTH_STENCIL_ATTACHMENT | USAGE_TRANSFER_SRC | USAGE_TRANSFER_DST

datatype vk_access = MEMORY_READ | TRANSFER_READ | TRANSFER_WRITE
  | DEPTH_STENCIL_ATTACHMENT_READ | DEPTH_STENCIL_ATTACHMENT_WRITE

datatype vk_stage = STAGE_TRANSFER | STAGE_LATE_FRAGMENT_TESTS | STAGE_COLOR_ATTACHMENT_OUTPUT

datatype vk_aspect = ASPECT_COLOR | ASPECT_DEPTH | ASPECT_STENCIL

type_synonym image = nat
type_synonym buffer = nat
type_synonym texel = string

record image_info =
  im_format :: vk_format
  im_extent :: extend
  im_samples :: nat
  im_linear :: bool
  im_usage :: "vk_usage list"

text \<open>A texel or a byte that is \<open>None\<close> has no defined value.\<close>

record device =
  dv_images :: "image_info list"
  dv_layout :: "image \<Rightarrow> vk_layout"
  dv_texels :: "image \<Rightarrow> nat \<times> nat \<Rightarrow> texel option"
  dv_buffers :: "nat list"
  dv_bytes :: "buffer \<Rightarrow> nat \<Rightarrow> char option"

record image_barrier =
  ib_src_access :: "vk_access list"
  ib_dst_access :: "vk_access list"
  ib_old_layout :: vk_layout
  ib_new_layout :: vk_layout
  ib_image :: image
  ib_aspect :: "vk_aspect list"

record buffer_barrier =
  bb_src_access :: "vk_access list"
  bb_dst_access :: "vk_access list"
  bb_buffer :: buffer
  bb_offset :: nat
  bb_size :: nat

datatype barrier = ImageBarrier image_barrier | BufferBarrier buffer_barrier

text \<open>
  A blit has the image, layout and region of its source and of its destination; all regions
  of the program begin at the origin. A copy to a buffer has the length of its rows.
\<close>

datatype vk_command =
    PipelineBarrier "vk_stage list" "vk_stage list" "barrier list"
  | BlitImage image vk_layout extend image vk_layout extend
  | CopyImage image vk_layout image vk_layout extend
  | CopyImageToBuffer image vk_layout buffer nat vk_aspect extend

text \<open>
  The hardware: which formats can be blitted from an image and to a linear one, the conversion
  a blit performs, the size of the memory of an image, the offset and row pitch of a linear
  image and the bytes that a copied texel takes; and the aspects that VulkanSceneGraph computes for
  a format.
\<close>

record vulkan =
  vk_blit_src :: "vk_format \<Rightarrow> bool"
  vk_blit_dst :: "vk_format \<Rightarrow> bool"
  vk_convert :: "vk_format \<Rightarrow> vk_format \<Rightarrow> texel \<Rightarrow> texel"
  vk_size :: "image_info \<Rightarrow> nat"
  vk_pitch :: "image_info \<Rightarrow> nat \<times> nat"
  vk_texel_size :: "vk_format \<Rightarrow> nat"
  vsg_aspects :: "vk_format \<Rightarrow> vk_aspect list"

abbreviation columns :: "extend \<Rightarrow> nat" where
  "columns e \<equiv> nat (ex_width e)"

abbreviation rows :: "extend \<Rightarrow> nat" where
  "rows e \<equiv> nat (ex_height e)"

definition inside :: "extend \<Rightarrow> nat \<times> nat \<Rightarrow> bool" where
  "inside e p \<longleftrightarrow> fst p < columns e \<and> snd p < rows e"

definition fits :: "extend \<Rightarrow> extend \<Rightarrow> bool" where
  "fits e e' \<longleftrightarrow> columns e \<le> columns e' \<and> rows e \<le> rows e'"

lemma fits_refl [simp]: "fits e e"
  by (simp add: fits_def)

section \<open>Running commands\<close>

definition byte :: "texel option \<Rightarrow> nat \<Rightarrow> char option" where
  "byte t k = (case t of Some s \<Rightarrow> if k < length s then Some (s ! k) else None | None \<Rightarrow> None)"

text \<open>
  A transition from an undefined layout discards the texels; from any other it must be the
  layout the image has.
\<close>

fun run_barrier :: "barrier \<Rightarrow> device \<Rightarrow> device result" where
  "run_barrier (ImageBarrier b) d =
     (if ib_old_layout b = LAYOUT_UNDEFINED then
        Inr (d\<lparr>dv_layout := (dv_layout d)(ib_image b := ib_new_layout b),
               dv_texels := (dv_texels d)(ib_image b := (\<lambda>_. None))\<rparr>)
      else if ib_old_layout b = dv_layout d (ib_image b) then
        Inr (d\<lparr>dv_layout := (dv_layout d)(ib_image b := ib_new_layout b)\<rparr>)
      else Inl UndefinedBehaviour)"
| "run_barrier (BufferBarrier b) d = Inr d"

fun run_barriers :: "barrier list \<Rightarrow> device \<Rightarrow> device result" where
  "run_barriers [] d = Inr d"
| "run_barriers (b # bs) d = bind_result (run_barrier b d) (run_barriers bs)"

definition transferable :: "device \<Rightarrow> image \<Rightarrow> vk_layout \<Rightarrow> vk_layout \<Rightarrow> extend \<Rightarrow> bool" where
  "transferable d i l optimal e \<longleftrightarrow> dv_layout d i = l \<and> (l = optimal \<or> l = GENERAL) \<and>
     fits e (im_extent (dv_images d ! i))"

text \<open>The texel of the source that is nearest to a texel of the destination.\<close>

definition nearest :: "nat \<Rightarrow> nat \<Rightarrow> nat \<Rightarrow> nat" where
  "nearest from to x = (2 * x + 1) * from div (2 * to)"

lemma nearest_same [simp]: "x < n \<Longrightarrow> nearest n n x = x"
  unfolding nearest_def
  by (rule div_nat_eqI) (simp_all add: algebra_simps)

fun run_command :: "vulkan \<Rightarrow> vk_command \<Rightarrow> device \<Rightarrow> device result" where
  "run_command vk (PipelineBarrier src_stage dst_stage bs) d = run_barriers bs d"
| "run_command vk (BlitImage src sl se dst dl de) d =
     (if transferable d src sl TRANSFER_SRC_OPTIMAL se \<and> transferable d dst dl TRANSFER_DST_OPTIMAL de then
        Inr (d\<lparr>dv_texels := (dv_texels d)(dst := (\<lambda>(x, y). if inside de (x, y)
               then map_option (vk_convert vk (im_format (dv_images d ! src)) (im_format (dv_images d ! dst)))
                      (dv_texels d src (nearest (columns se) (columns de) x, nearest (rows se) (rows de) y))
               else dv_texels d dst (x, y)))\<rparr>)
      else Inl UndefinedBehaviour)"
| "run_command vk (CopyImage src sl dst dl e) d =
     (if transferable d src sl TRANSFER_SRC_OPTIMAL e \<and> transferable d dst dl TRANSFER_DST_OPTIMAL e then
        Inr (d\<lparr>dv_texels := (dv_texels d)(dst := (\<lambda>p. if inside e p then dv_texels d src p else dv_texels d dst p))\<rparr>)
      else Inl UndefinedBehaviour)"
| "run_command vk (CopyImageToBuffer src sl dst row_length aspect e) d =
     (let n = vk_texel_size vk (im_format (dv_images d ! src))
      in if transferable d src sl TRANSFER_SRC_OPTIMAL e \<and> columns e \<le> row_length \<and>
          n * row_length * rows e \<le> dv_buffers d ! dst then
        Inr (d\<lparr>dv_bytes := (dv_bytes d)(dst := (\<lambda>p.
               let q = (p div n mod row_length, p div n div row_length)
               in if inside e q then byte (dv_texels d src q) (p mod n) else dv_bytes d dst p))\<rparr>)
      else Inl UndefinedBehaviour)"

fun run_commands :: "vulkan \<Rightarrow> vk_command list \<Rightarrow> device \<Rightarrow> device result" where
  "run_commands vk [] d = Inr d"
| "run_commands vk (c # cs) d = bind_result (run_command vk c d) (run_commands vk cs)"

section \<open>Images and captures\<close>

definition create_image :: "image_info \<Rightarrow> device \<Rightarrow> image \<times> device" where
  "create_image info d =
     (length (dv_images d),
      d\<lparr>dv_images := dv_images d @ [info],
        dv_layout := (dv_layout d)(length (dv_images d) := LAYOUT_UNDEFINED),
        dv_texels := (dv_texels d)(length (dv_images d) := (\<lambda>_. None))\<rparr>)"

definition create_buffer :: "nat \<Rightarrow> device \<Rightarrow> buffer \<times> device" where
  "create_buffer bytes d =
     (length (dv_buffers d),
      d\<lparr>dv_buffers := dv_buffers d @ [bytes],
        dv_bytes := (dv_bytes d)(length (dv_buffers d) := (\<lambda>_. None))\<rparr>)"

text \<open>A view is named by its image.\<close>

definition createColorImageView :: "extend \<Rightarrow> vk_format \<Rightarrow> nat \<Rightarrow> device \<Rightarrow> image \<times> device" where
  "createColorImageView extent format samples = create_image
     \<lparr>im_format = format, im_extent = extent, im_samples = samples, im_linear = False,
      im_usage = [USAGE_COLOR_ATTACHMENT, USAGE_TRANSFER_SRC]\<rparr>"

definition createDepthImageView :: "extend \<Rightarrow> vk_format \<Rightarrow> nat \<Rightarrow> device \<Rightarrow> image \<times> device" where
  "createDepthImageView extent format samples = create_image
     \<lparr>im_format = format, im_extent = extent, im_samples = samples, im_linear = False,
      im_usage = [USAGE_DEPTH_STENCIL_ATTACHMENT, USAGE_TRANSFER_SRC]\<rparr>"

definition supportsBlit :: "vulkan \<Rightarrow> vk_format \<Rightarrow> bool" where
  "supportsBlit vk source_format \<longleftrightarrow> vk_blit_src vk source_format \<and> vk_blit_dst vk R8G8B8A8_UNORM"

definition target_format :: "vulkan \<Rightarrow> vk_format \<Rightarrow> vk_format" where
  "target_format vk source_format = (if supportsBlit vk source_format then R8G8B8A8_UNORM else source_format)"

definition color_capture_commands :: "bool \<Rightarrow> extend \<Rightarrow> image \<Rightarrow> image \<Rightarrow> vk_command list" where
  "color_capture_commands blit extent src dst =
     [PipelineBarrier [STAGE_TRANSFER] [STAGE_TRANSFER]
        [ImageBarrier \<lparr>ib_src_access = [], ib_dst_access = [TRANSFER_WRITE], ib_old_layout = LAYOUT_UNDEFINED,
           ib_new_layout = TRANSFER_DST_OPTIMAL, ib_image = dst, ib_aspect = [ASPECT_COLOR]\<rparr>,
         ImageBarrier \<lparr>ib_src_access = [MEMORY_READ], ib_dst_access = [TRANSFER_READ], ib_old_layout = PRESENT_SRC_KHR,
           ib_new_layout = TRANSFER_SRC_OPTIMAL, ib_image = src, ib_aspect = [ASPECT_COLOR]\<rparr>],
      if blit then BlitImage src TRANSFER_SRC_OPTIMAL extent dst TRANSFER_DST_OPTIMAL extent
      else CopyImage src TRANSFER_SRC_OPTIMAL dst TRANSFER_DST_OPTIMAL extent,
      PipelineBarrier [STAGE_TRANSFER] [STAGE_TRANSFER]
        [ImageBarrier \<lparr>ib_src_access = [TRANSFER_WRITE], ib_dst_access = [MEMORY_READ], ib_old_layout = TRANSFER_DST_OPTIMAL,
           ib_new_layout = GENERAL, ib_image = dst, ib_aspect = [ASPECT_COLOR]\<rparr>,
         ImageBarrier \<lparr>ib_src_access = [TRANSFER_READ], ib_dst_access = [MEMORY_READ], ib_old_layout = TRANSFER_SRC_OPTIMAL,
           ib_new_layout = PRESENT_SRC_KHR, ib_image = src, ib_aspect = [ASPECT_COLOR]\<rparr>]]"

definition createColorCapture ::
  "vulkan \<Rightarrow> extend \<Rightarrow> image \<Rightarrow> vk_format \<Rightarrow> device \<Rightarrow> (vk_command list \<times> image) \<times> device" where
  "createColorCapture vk extent src source_format d =
     (let (dst, d1) = create_image \<lparr>im_format = target_format vk source_format, im_extent = extent,
            im_samples = 1, im_linear = True, im_usage = [USAGE_TRANSFER_DST]\<rparr> d
      in ((color_capture_commands (supportsBlit vk source_format) extent src dst, dst), d1))"

definition depth_capture_commands :: "vk_aspect list \<Rightarrow> nat \<Rightarrow> extend \<Rightarrow> image \<Rightarrow> buffer \<Rightarrow> vk_command list" where
  "depth_capture_commands aspect bytes extent src dst =
     (let attachment_access = [DEPTH_STENCIL_ATTACHMENT_READ, DEPTH_STENCIL_ATTACHMENT_WRITE];
          attachment_stages = [STAGE_LATE_FRAGMENT_TESTS, STAGE_COLOR_ATTACHMENT_OUTPUT]
      in [PipelineBarrier attachment_stages [STAGE_TRANSFER]
            [ImageBarrier \<lparr>ib_src_access = attachment_access, ib_dst_access = [TRANSFER_READ],
               ib_old_layout = DEPTH_STENCIL_ATTACHMENT_OPTIMAL, ib_new_layout = TRANSFER_SRC_OPTIMAL,
               ib_image = src, ib_aspect = aspect\<rparr>,
             BufferBarrier \<lparr>bb_src_access = [MEMORY_READ], bb_dst_access = [TRANSFER_WRITE],
               bb_buffer = dst, bb_offset = 0, bb_size = bytes\<rparr>],
          CopyImageToBuffer src TRANSFER_SRC_OPTIMAL dst (columns extent) ASPECT_DEPTH extent,
          PipelineBarrier [STAGE_TRANSFER] attachment_stages
            [ImageBarrier \<lparr>ib_src_access = [TRANSFER_READ], ib_dst_access = attachment_access,
               ib_old_layout = TRANSFER_SRC_OPTIMAL, ib_new_layout = DEPTH_STENCIL_ATTACHMENT_OPTIMAL,
               ib_image = src, ib_aspect = aspect\<rparr>,
             BufferBarrier \<lparr>bb_src_access = [TRANSFER_WRITE], bb_dst_access = [MEMORY_READ],
               bb_buffer = dst, bb_offset = 0, bb_size = bytes\<rparr>]])"

definition createDepthCapture ::
  "vulkan \<Rightarrow> extend \<Rightarrow> image \<Rightarrow> vk_format \<Rightarrow> device \<Rightarrow> (vk_command list \<times> buffer) \<times> device" where
  "createDepthCapture vk extent src source_format d =
     (let bytes = vk_size vk (dv_images d ! src);
          (dst, d1) = create_buffer bytes d
      in ((depth_capture_commands (vsg_aspects vk source_format) bytes extent src dst, dst), d1))"

section \<open>What a capture does\<close>

text \<open>
  After a frame both captures find the images in the layouts they expect, leave them in these
  layouts and with their texels, and fill their destination.
\<close>

definition captured :: "vulkan \<Rightarrow> vk_format \<Rightarrow> texel option \<Rightarrow> texel option" where
  "captured vk source_format = (if supportsBlit vk source_format
     then map_option (vk_convert vk source_format R8G8B8A8_UNORM) else (\<lambda>t. t))"

lemma color_capture_runs:
  assumes "dv_layout d src = PRESENT_SRC_KHR" and "src \<noteq> dst"
    and "im_extent (dv_images d ! src) = e" and "im_extent (dv_images d ! dst) = e"
    and "im_format (dv_images d ! src) = f" and "im_format (dv_images d ! dst) = target_format vk f"
  shows "run_commands vk (color_capture_commands (supportsBlit vk f) e src dst) d =
    Inr (d\<lparr>dv_layout := (dv_layout d)(dst := GENERAL, src := PRESENT_SRC_KHR),
           dv_texels := (dv_texels d)(dst := (\<lambda>p. if inside e p then captured vk f (dv_texels d src p) else None))\<rparr>)"
  using assms
  by (cases d) (auto simp: color_capture_commands_def transferable_def target_format_def captured_def
      inside_def fun_eq_iff)

lemma depth_capture_runs:
  assumes "dv_layout d src = DEPTH_STENCIL_ATTACHMENT_OPTIMAL"
    and "im_extent (dv_images d ! src) = e" and "im_format (dv_images d ! src) = f"
    and "vk_texel_size vk f * columns e * rows e \<le> dv_buffers d ! dst"
  shows "run_commands vk (depth_capture_commands aspect n e src dst) d =
    Inr (d\<lparr>dv_layout := (dv_layout d)(src := DEPTH_STENCIL_ATTACHMENT_OPTIMAL),
           dv_bytes := (dv_bytes d)(dst := (\<lambda>p.
             let k = vk_texel_size vk f; q = (p div k mod columns e, p div k div columns e)
             in if inside e q then byte (dv_texels d src q) (p mod k) else dv_bytes d dst p))\<rparr>)"
  using assms by (cases d) (auto simp: depth_capture_commands_def transferable_def Let_def cong: if_cong)

end
