(* ===== verification/Offscreen.thy ===== *)
theory Offscreen
  imports Captures Tiling "HOL-Library.Word"
begin

text \<open>
  The off-screen renderer (\<open>subsystems/graphics/src/OffscreenRenderer.cpp\<close>): its images, the
  graph of commands it records for every frame, resizing, and reading a frame back. Objects of
  VulkanSceneGraph are what the program sets in them; the pictures it draws, the attachments a
  render pass leaves its result in, the change of the render area after a change of size and
  which scenes have to be compiled for the device before they are drawn are parameters. The pointer \<open>m_current_projection_matrix\<close> and that of the camera always name the
  same object, as do those of the view, so each pair is one field.
\<close>

section \<open>State\<close>

datatype render_pass =
    ColorPass vk_format
  | ColorDepthPass vk_format vk_format
  | MultisampledColorPass vk_format nat
  | MultisampledColorDepthPass vk_format vk_format nat

record framebuffer =
  fb_pass :: render_pass
  fb_views :: "image list"
  fb_extent :: extend

text \<open>The area drawn to, and the extent of the framebuffer when the graph was last recorded.\<close>

record render_graph =
  rg_framebuffer :: framebuffer
  rg_area :: extend
  rg_recorded :: "extend option"

text \<open>
  The children of the command graph are pointers: the commands of a capture have an identity.
  \<open>os_compiled\<close> is what \<open>Viewer::compile\<close> has found below the root when it was called.
\<close>

datatype graph_node = RenderGraphNode | CommandsNode nat

record ('m, 'v, 's) offscreen =
  os_setup :: "nat \<times> nat"
  os_queue_family :: int
  os_size :: extend
  os_color_format :: vk_format
  os_depth_format :: vk_format
  os_samples :: nat
  os_use_depth :: bool
  os_scene :: 's
  os_root :: "'s list"
  os_compiled :: "'s list"
  os_projection :: "'m option"
  os_view :: "'v option"
  os_viewport :: "extend option"
  os_color_view :: "image option"
  os_depth_view :: "image option"
  os_color_capture :: "graph_node option"
  os_depth_capture :: "graph_node option"
  os_copied_color :: "image option"
  os_copied_depth :: "buffer option"
  os_commands :: "vk_command list list"
  os_render_graph :: "render_graph option"
  os_children :: "graph_node option list"
  os_device :: device

text \<open>
  Instances, physical devices and devices are named by numbers. \<open>gx_color\<close> and \<open>gx_depth\<close> are
  the texels that drawing a scene with a projection and a view gives for a viewport;
  \<open>gx_needs_compile\<close> says of which scenes some object does not exist on the device until a
  viewer that has it in its graph is compiled: recording one of them before that is undefined.
\<close>

record ('m, 'v, 's) graphics =
  gx_vulkan :: vulkan
  gx_instance :: nat
  gx_queue :: "nat \<Rightarrow> nat option \<times> int"
  gx_create_device :: "nat \<Rightarrow> int \<Rightarrow> nat"
  gx_look_at :: 'v
  gx_perspective :: "extend \<Rightarrow> 'm"
  gx_change_extent :: "extend \<Rightarrow> extend \<Rightarrow> 'm \<Rightarrow> 'm"
  gx_color :: "'s list \<Rightarrow> 'm \<Rightarrow> 'v \<Rightarrow> extend \<Rightarrow> nat \<times> nat \<Rightarrow> texel"
  gx_depth :: "'s list \<Rightarrow> 'm \<Rightarrow> 'v \<Rightarrow> extend \<Rightarrow> nat \<times> nat \<Rightarrow> texel"
  gx_stores :: "render_pass \<Rightarrow> nat \<times> nat option"
  gx_area :: "extend option \<Rightarrow> extend \<Rightarrow> extend \<Rightarrow> extend"
  gx_needs_compile :: "'s \<Rightarrow> bool"

section \<open>Setting up\<close>

definition create_own_device :: "('m, 'v, 's) graphics \<Rightarrow> ((nat \<times> nat) \<times> int) result" where
  "create_own_device g =
     (case gx_queue g (gx_instance g) of
        (Some physical, queue) \<Rightarrow>
          (if queue < 0 then Inl RendererSetupException
           else Inr ((gx_create_device g physical queue, gx_instance g), queue))
      | (None, queue) \<Rightarrow> Inl RendererSetupException)"

definition SetupInstanceAndDevice ::
  "('m, 'v, 's) graphics \<Rightarrow> (nat option \<times> nat option) option \<Rightarrow> ((nat \<times> nat) \<times> int) result" where
  "SetupInstanceAndDevice g existing =
     (case existing of
        Some (Some device, Some instance_) \<Rightarrow>
          (case gx_queue g instance_ of
             (Some physical, queue) \<Rightarrow>
               (if 0 \<le> queue then Inr ((device, instance_), queue) else create_own_device g)
           | (None, queue) \<Rightarrow> create_own_device g)
      | _ \<Rightarrow> create_own_device g)"

definition SetupCamera ::
  "('m, 'v, 's) graphics \<Rightarrow> ('m, 'v, 's) offscreen \<Rightarrow> ('m, 'v, 's) offscreen" where
  "SetupCamera g s =
     s\<lparr>os_view := Some (case os_view s of Some v \<Rightarrow> v | None \<Rightarrow> gx_look_at g),
       os_projection := Some (case os_projection s of Some m \<Rightarrow> m | None \<Rightarrow> gx_perspective g (os_size s)),
       os_viewport := Some (os_size s)\<rparr>"

definition create_framebuffer :: "('m, 'v, 's) offscreen \<Rightarrow> framebuffer \<times> ('m, 'v, 's) offscreen" where
  "create_framebuffer s =
     (let size = os_size s; format = os_color_format s; n = os_samples s;
          (color, d1) = createColorImageView size format 1 (os_device s)
      in if os_use_depth s then
           (let dformat = os_depth_format s;
                (depth, d2) = createDepthImageView size dformat 1 d1;
                s2 = s\<lparr>os_color_view := Some color, os_depth_view := Some depth, os_device := d2\<rparr>
            in if n = 1 then
                 (\<lparr>fb_pass = ColorDepthPass format dformat, fb_views = [color, depth], fb_extent = size\<rparr>, s2)
               else
                 (let (msaa_color, d3) = createColorImageView size format n d2;
                      (msaa_depth, d4) = createDepthImageView size dformat n d3
                  in (\<lparr>fb_pass = MultisampledColorDepthPass format dformat n,
                       fb_views = [msaa_color, color, msaa_depth, depth], fb_extent = size\<rparr>, s2\<lparr>os_device := d4\<rparr>)))
         else
           (let s1 = s\<lparr>os_color_view := Some color, os_device := d1\<rparr>
            in if n = 1 then (\<lparr>fb_pass = ColorPass format, fb_views = [color], fb_extent = size\<rparr>, s1)
               else
                 (let (msaa_color, d2) = createColorImageView size format n d1
                  in (\<lparr>fb_pass = MultisampledColorPass format n, fb_views = [msaa_color, color], fb_extent = size\<rparr>,
                      s1\<lparr>os_device := d2\<rparr>))))"

definition create_captures ::
  "('m, 'v, 's) graphics \<Rightarrow> ('m, 'v, 's) offscreen \<Rightarrow> ('m, 'v, 's) offscreen" where
  "create_captures g s =
     (let ((color_commands, copied), d1) =
            createColorCapture (gx_vulkan g) (os_size s) (the (os_color_view s)) (os_color_format s) (os_device s);
          s1 = s\<lparr>os_color_capture := Some (CommandsNode (length (os_commands s))), os_copied_color := Some copied,
                 os_commands := os_commands s @ [color_commands], os_device := d1\<rparr>
      in if os_use_depth s then
           (let ((depth_commands, copied_depth), d2) =
                  createDepthCapture (gx_vulkan g) (os_size s) (the (os_depth_view s)) (os_depth_format s) d1
            in s1\<lparr>os_depth_capture := Some (CommandsNode (length (os_commands s1))), os_copied_depth := Some copied_depth,
                  os_commands := os_commands s1 @ [depth_commands], os_device := d2\<rparr>)
         else s1)"

definition SetupRenderGraph ::
  "('m, 'v, 's) graphics \<Rightarrow> ('m, 'v, 's) offscreen \<Rightarrow> ('m, 'v, 's) offscreen" where
  "SetupRenderGraph g s =
     (let (framebuffer, s1) = create_framebuffer s
      in (create_captures g s1)
           \<lparr>os_render_graph := Some \<lparr>rg_framebuffer = framebuffer, rg_area = os_size s, rg_recorded = None\<rparr>\<rparr>)"

definition compile :: "('m, 'v, 's) offscreen \<Rightarrow> ('m, 'v, 's) offscreen" where
  "compile s = s\<lparr>os_compiled := os_root s @ os_compiled s\<rparr>"

definition SetupCommandGraph :: "('m, 'v, 's) offscreen \<Rightarrow> ('m, 'v, 's) offscreen" where
  "SetupCommandGraph s =
     compile (s\<lparr>os_children := Some RenderGraphNode #
         (if os_color_capture s \<noteq> None then [os_color_capture s] else []) @
         (if os_depth_capture s \<noteq> None then [os_depth_capture s] else [])\<rparr>)"

section \<open>Drawing a frame\<close>

definition write_attachment ::
  "image \<Rightarrow> vk_layout \<Rightarrow> (nat \<times> nat \<Rightarrow> texel option) \<Rightarrow> device \<Rightarrow> device" where
  "write_attachment i layout texels d =
     d\<lparr>dv_layout := (dv_layout d)(i := layout), dv_texels := (dv_texels d)(i := texels)\<rparr>"

definition drawable :: "('m, 'v, 's) graphics \<Rightarrow> 's list \<Rightarrow> 's \<Rightarrow> bool" where
  "drawable g compiled scene \<longleftrightarrow> scene \<in> set compiled \<or> \<not> gx_needs_compile g scene"

text \<open>
  Recording the render graph: what it draws is in the attachments after the frame. A scene that
  needs compiling and has not been compiled is drawn with objects that do not exist.
\<close>

definition draw ::
  "('m, 'v, 's) graphics \<Rightarrow> ('m, 'v, 's) offscreen \<Rightarrow> ('m, 'v, 's) offscreen result" where
  "draw g s =
     (case (os_render_graph s, os_projection s, os_view s, os_viewport s) of
        (Some rg, Some m, Some v, Some viewport) \<Rightarrow>
          (let fb = rg_framebuffer rg;
               area = gx_area g (rg_recorded rg) (fb_extent fb) (rg_area rg);
               (color, depth) = gx_stores g (fb_pass fb);
               shade = (\<lambda>f p. if inside area p then Some (f (os_root s) m v viewport p) else None);
               d1 = write_attachment (fb_views fb ! color) PRESENT_SRC_KHR (shade (gx_color g)) (os_device s);
               d2 = (case depth of None \<Rightarrow> d1
                     | Some k \<Rightarrow> write_attachment (fb_views fb ! k) DEPTH_STENCIL_ATTACHMENT_OPTIMAL (shade (gx_depth g)) d1)
           in if fits area (fb_extent fb) \<and> list_all (drawable g (os_compiled s)) (os_root s) then
                Inr (s\<lparr>os_device := d2,
                  os_render_graph := Some (rg\<lparr>rg_area := area, rg_recorded := Some (fb_extent fb)\<rparr>)\<rparr>)
              else Inl UndefinedBehaviour)
      | _ \<Rightarrow> Inl UndefinedBehaviour)"

fun record_node ::
  "('m, 'v, 's) graphics \<Rightarrow> graph_node option \<Rightarrow> ('m, 'v, 's) offscreen \<Rightarrow> ('m, 'v, 's) offscreen result" where
  "record_node g None s = Inl UndefinedBehaviour"
| "record_node g (Some RenderGraphNode) s = draw g s"
| "record_node g (Some (CommandsNode k)) s =
     bind_result (run_commands (gx_vulkan g) (os_commands s ! k) (os_device s)) (\<lambda>d. Inr (s\<lparr>os_device := d\<rparr>))"

fun recordAndSubmit ::
  "('m, 'v, 's) graphics \<Rightarrow> graph_node option list \<Rightarrow> ('m, 'v, 's) offscreen \<Rightarrow> ('m, 'v, 's) offscreen result" where
  "recordAndSubmit g [] s = Inr s"
| "recordAndSubmit g (n # ns) s = bind_result (record_node g n s) (recordAndSubmit g ns)"

text \<open>
  \<open>Render\<close>: \<open>advance\<close> says whether the viewer goes on to a next frame. The result of the last
  frame that it resets is never set.
\<close>

definition OffscreenRenderer_Render ::
  "('m, 'v, 's) graphics \<Rightarrow> bool \<Rightarrow> ('m, 'v, 's) offscreen \<Rightarrow> (bool \<times> ('m, 'v, 's) offscreen) result" where
  "OffscreenRenderer_Render g advance s =
     (if advance then bind_result (recordAndSubmit g (os_children s) s) (\<lambda>s1. Inr (True, s1))
      else Inr (False, s))"

definition make_OffscreenRenderer ::
  "('m, 'v, 's) graphics \<Rightarrow> (nat option \<times> nat option) option \<Rightarrow> 's \<Rightarrow> bool \<Rightarrow> bool \<Rightarrow> vk_format \<Rightarrow>
     vk_format \<Rightarrow> nat \<Rightarrow> extend \<Rightarrow> device \<Rightarrow> bool \<Rightarrow> ('m, 'v, 's) offscreen result" where
  "make_OffscreenRenderer g existing scene use_depth_buffer msaa imageFormat depthFormat sample_count extent d advance =
     bind_result (SetupInstanceAndDevice g existing) (\<lambda>(setup, queue).
       let s = \<lparr>os_setup = setup, os_queue_family = queue, os_size = extent, os_color_format = imageFormat,
             os_depth_format = depthFormat, os_samples = (if msaa then 8 else sample_count),
             os_use_depth = use_depth_buffer, os_scene = scene, os_root = [scene], os_compiled = [], os_projection = None,
             os_view = None, os_viewport = None, os_color_view = None, os_depth_view = None,
             os_color_capture = None, os_depth_capture = None, os_copied_color = None, os_copied_depth = None,
             os_commands = [], os_render_graph = None, os_children = [], os_device = d\<rparr>
       in bind_result (OffscreenRenderer_Render g advance (SetupCommandGraph (SetupRenderGraph g (SetupCamera g s))))
            (\<lambda>(rendered, s1). Inr s1))"

section \<open>Changing what is drawn\<close>

fun replaceChild :: "graph_node option \<Rightarrow> graph_node option \<Rightarrow> graph_node option list \<Rightarrow> graph_node option list" where
  "replaceChild previous replacement [] = []"
| "replaceChild previous replacement (child # children) =
     (if child = previous then replacement else child) # replaceChild previous replacement children"

definition ReplaceFramebufferAndCaptures ::
  "('m, 'v, 's) graphics \<Rightarrow> ('m, 'v, 's) offscreen \<Rightarrow> ('m, 'v, 's) offscreen" where
  "ReplaceFramebufferAndCaptures g s =
     (let (framebuffer, s1) = create_framebuffer s;
          s2 = create_captures g
            (s1\<lparr>os_render_graph := map_option (\<lambda>rg. rg\<lparr>rg_framebuffer := framebuffer\<rparr>) (os_render_graph s1)\<rparr>)
      in s2\<lparr>os_children := replaceChild (os_depth_capture s) (os_depth_capture s2)
             (replaceChild (os_color_capture s) (os_color_capture s2) (os_children s2))\<rparr>)"

definition OffscreenRenderer_Resize ::
  "('m, 'v, 's) graphics \<Rightarrow> int \<Rightarrow> int \<Rightarrow> ('m, 'v, 's) offscreen \<Rightarrow> ('m, 'v, 's) offscreen" where
  "OffscreenRenderer_Resize g width height s =
     (let size = \<lparr>ex_width = max width 1, ex_height = max height 1\<rparr>
      in ReplaceFramebufferAndCaptures g
           (s\<lparr>os_size := size, os_projection := map_option (gx_change_extent g (os_size s) size) (os_projection s),
              os_viewport := Some size\<rparr>))"

text \<open>The new scene is put below the root; nothing compiles it.\<close>

definition OffscreenRenderer_SetScene :: "'s \<Rightarrow> ('m, 'v, 's) offscreen \<Rightarrow> ('m, 'v, 's) offscreen" where
  "OffscreenRenderer_SetScene scene s = s\<lparr>os_root := [scene], os_scene := scene\<rparr>"

definition SetCameraProjectionMatrix :: "'m \<Rightarrow> ('m, 'v, 's) offscreen \<Rightarrow> ('m, 'v, 's) offscreen" where
  "SetCameraProjectionMatrix m s = s\<lparr>os_projection := Some m\<rparr>"

definition SetCameraViewMatrix :: "'v \<Rightarrow> ('m, 'v, 's) offscreen \<Rightarrow> ('m, 'v, 's) offscreen" where
  "SetCameraViewMatrix v s = s\<lparr>os_view := Some v\<rparr>"

section \<open>Reading a frame back\<close>

record render_result =
  rr_extent :: "extend option"
  rr_color :: "char option list"
  rr_depth :: "char option list"
  rr_color_format :: "vk_format option"
  rr_depth_format :: "vk_format option"

definition RenderResult :: render_result where
  "RenderResult = \<lparr>rr_extent = None, rr_color = [], rr_depth = [], rr_color_format = None, rr_depth_format = None\<rparr>"

definition SetColorData :: "char option list \<Rightarrow> vk_format \<Rightarrow> render_result \<Rightarrow> render_result" where
  "SetColorData bytes format r = r\<lparr>rr_color := bytes, rr_color_format := Some format\<rparr>"

definition SetDepthData :: "char option list \<Rightarrow> vk_format \<Rightarrow> render_result \<Rightarrow> render_result" where
  "SetDepthData bytes format r = r\<lparr>rr_depth := bytes, rr_depth_format := Some format\<rparr>"

text \<open>The memory of a linear image: its rows begin at multiples of the pitch after the offset.\<close>

definition memory_byte :: "vulkan \<Rightarrow> device \<Rightarrow> image \<Rightarrow> nat \<Rightarrow> char option" where
  "memory_byte vk d i a =
     (let info = dv_images d ! i; (offset, pitch) = vk_pitch vk info; n = vk_texel_size vk (im_format info);
          q = ((a - offset) mod pitch div n, (a - offset) div pitch)
      in if offset \<le> a \<and> inside (im_extent info) q then byte (dv_texels d i q) ((a - offset) mod pitch mod n)
         else None)"

definition memcpy_at :: "nat \<Rightarrow> 'b list \<Rightarrow> 'b list \<Rightarrow> 'b list result" where
  "memcpy_at pos bytes to =
     (if pos + length bytes \<le> length to then Inr (take pos to @ bytes @ drop (pos + length bytes) to)
      else Inl UndefinedBehaviour)"

text \<open>The loop over the rows; the index of the first element of a row is a \<open>uint32_t\<close>.\<close>

fun copy_rows :: "(nat \<Rightarrow> 'b) \<Rightarrow> nat \<Rightarrow> nat \<Rightarrow> nat \<Rightarrow> 'b list \<Rightarrow> 'b list result" where
  "copy_rows mapped pitch width 0 to = Inr to"
| "copy_rows mapped pitch width (Suc row) to =
     bind_result (copy_rows mapped pitch width row to)
       (memcpy_at (4 * unat (word_of_nat row * word_of_nat width :: 32 word))
          (map (\<lambda>j. mapped (row * pitch + j)) [0..<width * 4]))"

definition color_buffer_of :: "vulkan \<Rightarrow> extend \<Rightarrow> device \<Rightarrow> image \<Rightarrow> char option list result" where
  "color_buffer_of vk extent d i =
     (let (offset, rowPitch) = vk_pitch vk (dv_images d ! i); destRowWidth = columns extent * 4;
          mapped = (\<lambda>p. memory_byte vk d i (offset + p))
      in if destRowWidth = rowPitch then Inr (map mapped [0..<destRowWidth * rows extent])
         else copy_rows mapped rowPitch (columns extent) (rows extent) (replicate (destRowWidth * rows extent) None))"

text \<open>Arrays of \<open>float\<close> and of \<open>uint\<close> both have four bytes per element.\<close>

definition depth_buffer_of :: "extend \<Rightarrow> device \<Rightarrow> buffer \<Rightarrow> char option list result" where
  "depth_buffer_of extent d b =
     (let n = columns extent * rows extent * 4
      in if dv_buffers d ! b < n then Inl UndefinedBehaviour else Inr (map (dv_bytes d b) [0..<n]))"

text \<open>
  \<open>GetResult\<close>, always with a result: \<open>finished\<close> says whether the device was done within the
  time of the wait, whose outcome is not looked at; otherwise the bytes read are not defined.
\<close>

definition OffscreenRenderer_GetResult ::
  "('m, 'v, 's) graphics \<Rightarrow> bool \<Rightarrow> ('m, 'v, 's) offscreen \<Rightarrow> render_result result" where
  "OffscreenRenderer_GetResult g finished s =
     (let read = map (\<lambda>b. if finished then b else None)
      in if os_copied_color s = None \<and> os_copied_depth s = None then Inr RenderResult
         else
           bind_result (case os_copied_color s of None \<Rightarrow> Inr (None, [])
             | Some i \<Rightarrow> bind_result (color_buffer_of (gx_vulkan g) (os_size s) (os_device s) i)
                          (\<lambda>bytes. Inr (Some (os_size s), read bytes))) (\<lambda>(extent, color_buffer).
           bind_result (case os_copied_depth s of None \<Rightarrow> Inr []
             | Some b \<Rightarrow> bind_result (depth_buffer_of (os_size s) (os_device s) b) (\<lambda>bytes. Inr (read bytes)))
             (\<lambda>depth_buffer.
               Inr (SetColorData color_buffer (os_color_format s)
                 (SetDepthData depth_buffer (os_depth_format s) (RenderResult\<lparr>rr_extent := extent\<rparr>))))))"

end
