(* ===== verification/Offscreen_Frames.thy ===== *)
theory Offscreen_Frames
  imports Offscreen
begin

text \<open>
  What the off-screen renderer delivers: the invariant that ties its captures to its images, the
  frame that is read back after any sequence of operations, and the rendering service over it.
\<close>

section \<open>Reading bytes\<close>

text \<open>The bytes of an image of four-byte texels, row by row without gaps.\<close>

definition frame_bytes :: "extend \<Rightarrow> (nat \<times> nat \<Rightarrow> texel) \<Rightarrow> string" where
  "frame_bytes e f = map (\<lambda>p. f (p mod (columns e * 4) div 4, p div (columns e * 4)) ! (p mod (columns e * 4) mod 4))
     [0..<columns e * 4 * rows e]"

lemma length_frame_bytes [simp]: "length (frame_bytes e f) = columns e * 4 * rows e"
  by (simp add: frame_bytes_def)

lemma row_position:
  assumes "(j::nat) < n"
  shows "(r * n + j) mod n = j" and "(r * n + j) div n = r"
  using assms by simp_all

lemma row_index:
  assumes "row < height" and "width * height \<le> 2 ^ 32"
  shows "unat (word_of_nat row * word_of_nat width :: 32 word) = row * width"
proof (cases "width = 0")
  case False
  have "row * width < height * width" using assms(1) False by simp
  also have "\<dots> \<le> 2 ^ 32" using assms(2) by (simp add: mult.commute)
  finally have "row * width < 2 ^ 32" .
  then have "unat (word_of_nat (row * width) :: 32 word) = row * width" by (simp add: unsigned_of_nat take_bit_nat_eq_self del: of_nat_mult)
  then show ?thesis by simp
qed simp

lemma copy_rows_fills:
  assumes "n \<le> height" and "width * height \<le> 2 ^ 32"
  shows "copy_rows mapped pitch width n (replicate (width * 4 * height) x) =
    Inr (map (\<lambda>p. if p < n * (width * 4) then mapped (p div (width * 4) * pitch + p mod (width * 4)) else x)
          [0..<width * 4 * height])"
  using assms(1)
proof (induction n)
  case 0
  then show ?case by (simp add: map_replicate_const)
next
  case (Suc n)
  let ?w = "width * 4"
  let ?f = "\<lambda>n p. if p < n * ?w then mapped (p div ?w * pitch + p mod ?w) else x"
  let ?row = "map (\<lambda>j. mapped (n * pitch + j)) [0..<?w]"
  have pos: "4 * unat (word_of_nat n * word_of_nat width :: 32 word) = n * ?w"
    using row_index [of n height width] Suc.prems assms(2) by simp
  have le: "n * ?w + ?w \<le> ?w * height"
    using mult_le_mono2 [OF Suc.prems, of ?w] by (simp add: algebra_simps)
  have "take (n * ?w) (map (?f n) [0..<?w * height]) @ ?row @ drop (n * ?w + ?w) (map (?f n) [0..<?w * height]) =
      map (?f (Suc n)) [0..<?w * height]" (is "?l = ?r")
  proof (rule nth_equalityI)
    show "length ?l = length ?r" using le by simp
    fix p assume p: "p < length ?l"
    consider "p < n * ?w" | "n * ?w \<le> p" "p < n * ?w + ?w" | "n * ?w + ?w \<le> p" by linarith
    then show "?l ! p = ?r ! p"
    proof cases
      case 2
      then obtain j where j: "p = n * ?w + j" "j < ?w" by (metis le_Suc_ex nat_add_left_cancel_less)
      moreover have "min (?w * height) (n * ?w) = n * ?w" using le by simp
      ultimately show ?thesis using row_position [OF j(2), of n] p le by (simp add: nth_append)
    qed (use p le in \<open>auto simp: nth_append\<close>)
  qed
  then show ?case
    using Suc le by (simp add: memcpy_at_def pos)
qed

lemma byte_of_four: "length t = 4 \<Longrightarrow> byte (Some t) (k mod 4) = Some (t ! (k mod 4))"
  by (simp add: byte_def)

text \<open>Reading a linear image gives its texels whatever its pitch is.\<close>

lemma color_buffer_reads:
  assumes "im_extent (dv_images d ! i) = e" and "vk_texel_size vk (im_format (dv_images d ! i)) = 4"
    and "columns e * 4 \<le> snd (vk_pitch vk (dv_images d ! i))" and "columns e * rows e \<le> 2 ^ 32"
    and "\<And>p. inside e p \<Longrightarrow> dv_texels d i p = Some (f p) \<and> length (f p) = 4"
  shows "color_buffer_of vk e d i = Inr (map Some (frame_bytes e f))"
proof -
  obtain offset pitch where pitch: "vk_pitch vk (dv_images d ! i) = (offset, pitch)" by fastforce
  let ?w = "columns e * 4"
  have mapped: "memory_byte vk d i (offset + (y * pitch + j)) = Some (f (j div 4, y) ! (j mod 4))"
    if "j < ?w" "y < rows e" for j y
  proof -
    have "j < pitch" using that(1) assms(3) pitch by simp
    moreover have "inside e (j div 4, y)" using that by (auto simp: inside_def)
    ultimately show ?thesis
      using assms(1,2) pitch assms(5) [of "(j div 4, y)"] row_position [of j pitch y]
      by (simp add: memory_byte_def byte_of_four)
  qed
  have plain: "map (\<lambda>p. memory_byte vk d i (offset + (p div ?w * pitch + p mod ?w))) [0..<?w * rows e] =
      map Some (frame_bytes e f)"
    unfolding frame_bytes_def list.map_comp comp_def
  proof (rule map_cong [OF refl])
    fix p assume "p \<in> set [0..<?w * rows e]"
    then have p: "p < ?w * rows e" by simp
    then have "0 < ?w" by (metis mult_0 neq0_conv not_less_zero)
    moreover have "p div ?w < rows e" using p by (simp add: less_mult_imp_div_less mult.commute)
    ultimately show "memory_byte vk d i (offset + (p div ?w * pitch + p mod ?w)) =
        Some (f (p mod ?w div 4, p div ?w) ! (p mod ?w mod 4))"
      by (intro mapped) simp_all
  qed
  have "map (\<lambda>p. if p < rows e * ?w then memory_byte vk d i (offset + (p div ?w * pitch + p mod ?w)) else None)
      [0..<?w * rows e] = map (\<lambda>p. memory_byte vk d i (offset + (p div ?w * pitch + p mod ?w))) [0..<?w * rows e]"
    by (rule map_cong) (auto simp: mult.commute)
  then have bytes: "map (\<lambda>p. if p < rows e * ?w then memory_byte vk d i (offset + (p div ?w * pitch + p mod ?w)) else None)
      [0..<?w * rows e] = map Some (frame_bytes e f)"
    by (simp only: plain)
  show ?thesis
  proof (cases "?w = pitch")
    case True
    then have "map (\<lambda>p. memory_byte vk d i (offset + p)) [0..<?w * rows e] = map Some (frame_bytes e f)"
      using plain by simp
    with True show ?thesis by (simp add: color_buffer_of_def pitch Let_def)
  next
    case False
    then show ?thesis
      using copy_rows_fills [OF order_refl assms(4), of "\<lambda>p. memory_byte vk d i (offset + p)" pitch None] bytes
      by (simp add: color_buffer_of_def pitch Let_def)
  qed
qed

lemma depth_buffer_reads:
  assumes "columns e * 4 * rows e \<le> dv_buffers d ! b"
    and "\<And>p. p < columns e * 4 * rows e \<Longrightarrow> dv_bytes d b p =
      byte (Some (f (p div 4 mod columns e, p div 4 div columns e))) (p mod 4)"
    and "\<And>p. length (f p) = 4"
  shows "depth_buffer_of e d b = Inr (map Some (frame_bytes e f))"
proof -
  have "p mod (columns e * 4) div 4 = p div 4 mod columns e" for p
    using mod_mult2_eq [of p 4 "columns e"] by (simp add: mult.commute [of _ 4])
  moreover have "p mod (columns e * 4) mod 4 = p mod 4" for p
    by (rule mod_mod_cancel) simp
  moreover have "p div (columns e * 4) = p div 4 div columns e" for p
    by (simp add: div_mult2_eq mult.commute [of _ 4])
  ultimately have "map (dv_bytes d b) [0..<columns e * 4 * rows e] = map Some (frame_bytes e f)"
    unfolding frame_bytes_def list.map_comp comp_def
    by (intro map_cong [OF refl]) (simp add: assms(2,3) byte_of_four)
  then show ?thesis using assms(1) by (simp add: depth_buffer_of_def Let_def ac_simps)
qed

section \<open>The invariant\<close>

text \<open>
  Documented behaviour of the libraries: which attachment of a render pass keeps the colour and
  the depth; that the render area follows a change of the framebuffer once the graph was
  recorded; rows and memory sizes that hold the texels; texels of four bytes.
\<close>

definition vsg_ok :: "('m, 'v, 's) graphics \<Rightarrow> bool" where
  "vsg_ok g \<longleftrightarrow>
     (\<forall>f. gx_stores g (ColorPass f) = (0, None)) \<and>
     (\<forall>f f'. gx_stores g (ColorDepthPass f f') = (0, Some 1)) \<and>
     (\<forall>f n. gx_stores g (MultisampledColorPass f n) = (1, None)) \<and>
     (\<forall>f f' n. gx_stores g (MultisampledColorDepthPass f f' n) = (1, Some 3)) \<and>
     (\<forall>e. gx_area g None e e = e) \<and> (\<forall>e e'. gx_area g (Some e) e' e = e')"

definition formats_ok :: "('m, 'v, 's) graphics \<Rightarrow> vk_format \<Rightarrow> vk_format \<Rightarrow> bool" where
  "formats_ok g color depth \<longleftrightarrow>
     (\<forall>f\<in>{color, depth, R8G8B8A8_UNORM}. vk_texel_size (gx_vulkan g) f = 4) \<and>
     (\<forall>info. columns (im_extent info) * vk_texel_size (gx_vulkan g) (im_format info) \<le> snd (vk_pitch (gx_vulkan g) info)) \<and>
     (\<forall>info. columns (im_extent info) * vk_texel_size (gx_vulkan g) (im_format info) * rows (im_extent info)
        \<le> vk_size (gx_vulkan g) info) \<and>
     (\<forall>root m v e p. length (gx_color g root m v e p) = 4 \<and> length (gx_depth g root m v e p) = 4) \<and>
     (\<forall>f t. length t = 4 \<longrightarrow> length (vk_convert (gx_vulkan g) f R8G8B8A8_UNORM t) = 4)"

lemma formats_okD:
  assumes "formats_ok g cf df"
  shows "length (gx_color g root m v e p) = 4" and "length (gx_depth g root m v e p) = 4"
    and "length t = 4 \<Longrightarrow> length (vk_convert (gx_vulkan g) f R8G8B8A8_UNORM t) = 4"
    and "vk_texel_size (gx_vulkan g) cf = 4" and "vk_texel_size (gx_vulkan g) df = 4"
    and "vk_texel_size (gx_vulkan g) R8G8B8A8_UNORM = 4"
  using assms unfolding formats_ok_def by blast+

definition color_ready :: "vulkan \<Rightarrow> ('m, 'v, 's) offscreen \<Rightarrow> image \<Rightarrow> image \<Rightarrow> nat \<Rightarrow> bool" where
  "color_ready vk s c i k \<longleftrightarrow>
     os_color_view s = Some c \<and> os_copied_color s = Some i \<and> os_color_capture s = Some (CommandsNode k) \<and>
     k < length (os_commands s) \<and>
     os_commands s ! k = color_capture_commands (supportsBlit vk (os_color_format s)) (os_size s) c i \<and>
     c \<noteq> i \<and> c < length (dv_images (os_device s)) \<and> i < length (dv_images (os_device s)) \<and>
     im_extent (dv_images (os_device s) ! c) = os_size s \<and>
     im_format (dv_images (os_device s) ! c) = os_color_format s \<and>
     im_extent (dv_images (os_device s) ! i) = os_size s \<and>
     im_format (dv_images (os_device s) ! i) = target_format vk (os_color_format s)"

definition depth_ready ::
  "vulkan \<Rightarrow> ('m, 'v, 's) offscreen \<Rightarrow> image \<Rightarrow> image \<Rightarrow> nat \<Rightarrow> image \<Rightarrow> buffer \<Rightarrow> nat \<Rightarrow> bool" where
  "depth_ready vk s c i k z b j \<longleftrightarrow>
     os_depth_view s = Some z \<and> os_copied_depth s = Some b \<and> os_depth_capture s = Some (CommandsNode j) \<and>
     j < length (os_commands s) \<and> j \<noteq> k \<and>
     (\<exists>aspect n. os_commands s ! j = depth_capture_commands aspect n (os_size s) z b) \<and>
     z \<noteq> c \<and> z \<noteq> i \<and> z < length (dv_images (os_device s)) \<and> b < length (dv_buffers (os_device s)) \<and>
     im_extent (dv_images (os_device s) ! z) = os_size s \<and>
     im_format (dv_images (os_device s) ! z) = os_depth_format s \<and>
     dv_buffers (os_device s) ! b = vk_size vk (dv_images (os_device s) ! z)"

definition framebuffer_ready :: "('m, 'v, 's) graphics \<Rightarrow> extend \<Rightarrow> framebuffer \<Rightarrow> image \<Rightarrow> image option \<Rightarrow> bool" where
  "framebuffer_ready g e fb c depth \<longleftrightarrow> fb_extent fb = e \<and> fb_views fb ! fst (gx_stores g (fb_pass fb)) = c \<and>
     map_option (nth (fb_views fb)) (snd (gx_stores g (fb_pass fb))) = depth"

definition surfaces_ready :: "('m, 'v, 's) graphics \<Rightarrow> ('m, 'v, 's) offscreen \<Rightarrow> framebuffer \<Rightarrow> nat \<Rightarrow> nat option \<Rightarrow> bool" where
  "surfaces_ready g s fb k depth \<longleftrightarrow> (\<exists>c i. color_ready (gx_vulkan g) s c i k \<and>
     (if os_use_depth s
      then (\<exists>z b j. depth = Some j \<and> depth_ready (gx_vulkan g) s c i k z b j \<and> framebuffer_ready g (os_size s) fb c (Some z))
      else depth = None \<and> os_depth_capture s = None \<and> os_copied_depth s = None \<and>
           framebuffer_ready g (os_size s) fb c None))"

text \<open>What creating surfaces leaves alone.\<close>

definition same_settings :: "('m, 'v, 's) offscreen \<Rightarrow> ('m, 'v, 's) offscreen \<Rightarrow> bool" where
  "same_settings s s' \<longleftrightarrow> os_size s' = os_size s \<and> os_color_format s' = os_color_format s \<and>
     os_depth_format s' = os_depth_format s \<and> os_use_depth s' = os_use_depth s \<and> os_root s' = os_root s \<and>
     os_compiled s' = os_compiled s \<and>
     os_scene s' = os_scene s \<and> os_projection s' = os_projection s \<and> os_view s' = os_view s \<and>
     os_viewport s' = os_viewport s"

definition same_graph :: "('m, 'v, 's) offscreen \<Rightarrow> ('m, 'v, 's) offscreen \<Rightarrow> bool" where
  "same_graph s s' \<longleftrightarrow> os_commands s' = os_commands s \<and> os_children s' = os_children s \<and>
     os_render_graph s' = os_render_graph s \<and> os_color_capture s' = os_color_capture s \<and>
     os_depth_capture s' = os_depth_capture s \<and> os_copied_depth s' = os_copied_depth s"

definition has_image :: "('m, 'v, 's) offscreen \<Rightarrow> image \<Rightarrow> vk_format \<Rightarrow> bool" where
  "has_image s c f \<longleftrightarrow> c < length (dv_images (os_device s)) \<and>
     im_extent (dv_images (os_device s) ! c) = os_size s \<and> im_format (dv_images (os_device s) ! c) = f"

lemmas view_defs = createColorImageView_def createDepthImageView_def create_image_def

lemma framebuffer_created:
  assumes "vsg_ok g" and "create_framebuffer s = (fb, s1)"
  shows "same_settings s s1 \<and> same_graph s s1 \<and> (\<exists>c. os_color_view s1 = Some c \<and> has_image s1 c (os_color_format s) \<and>
    (if os_use_depth s
     then (\<exists>z. os_depth_view s1 = Some z \<and> z \<noteq> c \<and> has_image s1 z (os_depth_format s) \<and>
       framebuffer_ready g (os_size s) fb c (Some z))
     else framebuffer_ready g (os_size s) fb c None))"
proof (cases "os_use_depth s")
  case True
  then show ?thesis
    using assms
    by (cases "os_samples s = 1")
      (simp_all add: create_framebuffer_def view_defs Let_def has_image_def same_settings_def same_graph_def
        vsg_ok_def framebuffer_ready_def nth_append, safe, simp_all add: nth_append)
next
  case False
  then show ?thesis
    using assms
    by (cases "os_samples s = 1")
      (simp_all add: create_framebuffer_def view_defs Let_def has_image_def same_settings_def same_graph_def
        vsg_ok_def framebuffer_ready_def nth_append, safe, simp_all add: nth_append)
qed

lemma captures_created:
  assumes "os_color_view s = Some c" and "has_image s c (os_color_format s)"
    and "if os_use_depth s
      then \<exists>z. os_depth_view s = Some z \<and> z \<noteq> c \<and> has_image s z (os_depth_format s) \<and>
        framebuffer_ready g (os_size s) fb c (Some z)
      else framebuffer_ready g (os_size s) fb c None \<and> os_depth_capture s = None \<and> os_copied_depth s = None"
  shows "\<exists>k depth. surfaces_ready g (create_captures g s) fb k depth \<and>
    length (os_commands s) \<le> k \<and> (\<forall>j. depth = Some j \<longrightarrow> length (os_commands s) \<le> j)"
    and "same_settings s (create_captures g s)" and "os_children (create_captures g s) = os_children s"
    and "os_render_graph (create_captures g s) = os_render_graph s"
proof -
  let ?s = "create_captures g s" and ?k = "length (os_commands s)" and ?i = "length (dv_images (os_device s))"
  have c: "c < ?i" using assms(2) by (simp add: has_image_def)
  have ready: "color_ready (gx_vulkan g) ?s c ?i ?k"
    using assms(1,2) c
    by (simp add: create_captures_def createColorCapture_def createDepthCapture_def create_image_def create_buffer_def
        Let_def color_ready_def has_image_def nth_append)
  show "\<exists>k depth. surfaces_ready g ?s fb k depth \<and> ?k \<le> k \<and> (\<forall>j. depth = Some j \<longrightarrow> ?k \<le> j)"
  proof (cases "os_use_depth s")
    case True
    then obtain z where z: "os_depth_view s = Some z" "z \<noteq> c" "has_image s z (os_depth_format s)"
        "framebuffer_ready g (os_size s) fb c (Some z)"
      using assms(3) by auto
    have "depth_ready (gx_vulkan g) ?s c ?i ?k z (length (dv_buffers (os_device s))) (Suc ?k)"
      using True assms(1) z
      by (auto simp: create_captures_def createColorCapture_def createDepthCapture_def create_image_def create_buffer_def
          Let_def depth_ready_def has_image_def nth_append)
    moreover have "os_use_depth ?s" "os_size ?s = os_size s"
      using True by (simp_all add: create_captures_def createColorCapture_def createDepthCapture_def create_image_def
          create_buffer_def Let_def)
    ultimately have "surfaces_ready g ?s fb ?k (Some (Suc ?k))"
      using ready z(4) unfolding surfaces_ready_def by auto
    then show ?thesis by (intro exI [of _ ?k] exI [of _ "Some (Suc ?k)"]) simp
  next
    case False
    then have "surfaces_ready g ?s fb ?k None"
      using ready assms(3) unfolding surfaces_ready_def
      by (auto simp: create_captures_def createColorCapture_def create_image_def Let_def)
    then show ?thesis by (intro exI [of _ ?k] exI [of _ None]) simp
  qed
qed (simp_all add: same_settings_def create_captures_def createColorCapture_def createDepthCapture_def create_image_def
    create_buffer_def Let_def)

text \<open>
  The invariant: the command graph is the render graph and the current captures, of images of
  the current size, the render graph has been recorded with an area of the size it had then, and
  what is below the root can be drawn.
\<close>

definition renderer_ok :: "('m, 'v, 's) graphics \<Rightarrow> ('m, 'v, 's) offscreen \<Rightarrow> bool" where
  "renderer_ok g s \<longleftrightarrow>
     0 < ex_width (os_size s) \<and> 0 < ex_height (os_size s) \<and>
     os_projection s \<noteq> None \<and> os_view s \<noteq> None \<and> os_viewport s = Some (os_size s) \<and>
     list_all (drawable g (os_compiled s)) (os_root s) \<and>
     (\<exists>rg k depth. os_render_graph s = Some rg \<and> surfaces_ready g s (rg_framebuffer rg) k depth \<and>
        os_children s = [Some RenderGraphNode, Some (CommandsNode k)] @ (case depth of None \<Rightarrow> [] | Some j \<Rightarrow> [Some (CommandsNode j)]) \<and>
        gx_area g (rg_recorded rg) (os_size s) (rg_area rg) = os_size s \<and>
        (\<forall>e. rg_recorded rg \<noteq> None \<longrightarrow> gx_area g (rg_recorded rg) e (rg_area rg) = e))"

lemma renderer_okI:
  assumes "0 < ex_width (os_size s)" and "0 < ex_height (os_size s)"
    and "os_projection s \<noteq> None" and "os_view s \<noteq> None" and "os_viewport s = Some (os_size s)"
    and "list_all (drawable g (os_compiled s)) (os_root s)"
    and "os_render_graph s = Some rg" and "surfaces_ready g s (rg_framebuffer rg) k depth"
    and "os_children s = [Some RenderGraphNode, Some (CommandsNode k)] @ (case depth of None \<Rightarrow> [] | Some j \<Rightarrow> [Some (CommandsNode j)])"
    and "gx_area g (rg_recorded rg) (os_size s) (rg_area rg) = os_size s"
    and "\<And>e. rg_recorded rg \<noteq> None \<Longrightarrow> gx_area g (rg_recorded rg) e (rg_area rg) = e"
  shows "renderer_ok g s"
  using assms unfolding renderer_ok_def by blast

definition recorded :: "('m, 'v, 's) offscreen \<Rightarrow> bool" where
  "recorded s \<longleftrightarrow> (\<exists>rg. os_render_graph s = Some rg \<and> rg_recorded rg \<noteq> None)"

lemma surfaces_readyD:
  assumes "surfaces_ready g s fb k depth"
  shows "os_color_capture s = Some (CommandsNode k)"
    and "os_depth_capture s = map_option CommandsNode depth"
    and "k < length (os_commands s)" and "depth = Some j \<Longrightarrow> j < length (os_commands s) \<and> j \<noteq> k"
  using assms
  by (auto simp: surfaces_ready_def color_ready_def depth_ready_def split: if_splits)

lemma surfaces_ready_update [simp]:
  "surfaces_ready g (s\<lparr>os_children := x\<rparr>) fb k depth = surfaces_ready g s fb k depth"
  "surfaces_ready g (s\<lparr>os_render_graph := y\<rparr>) fb k depth = surfaces_ready g s fb k depth"
  "surfaces_ready g (s\<lparr>os_root := r\<rparr>) fb k depth = surfaces_ready g s fb k depth"
  "surfaces_ready g (s\<lparr>os_compiled := cs\<rparr>) fb k depth = surfaces_ready g s fb k depth"
  "surfaces_ready g (s\<lparr>os_scene := q\<rparr>) fb k depth = surfaces_ready g s fb k depth"
  "surfaces_ready g (s\<lparr>os_projection := m\<rparr>) fb k depth = surfaces_ready g s fb k depth"
  "surfaces_ready g (s\<lparr>os_view := v\<rparr>) fb k depth = surfaces_ready g s fb k depth"
  by (simp_all add: surfaces_ready_def color_ready_def depth_ready_def)

text \<open>Replacing keeps the graph of commands in step with the captures.\<close>

lemma children_replaced:
  assumes "children = [Some RenderGraphNode, Some (CommandsNode k)] @ (case depth of None \<Rightarrow> [] | Some j \<Rightarrow> [Some (CommandsNode j)])"
    and "\<forall>j. depth = Some j \<longrightarrow> j \<noteq> k" and "depth = None \<longleftrightarrow> depth' = None" and "\<forall>j. depth = Some j \<longrightarrow> k' \<noteq> j"
  shows "replaceChild (map_option CommandsNode depth) (map_option CommandsNode depth')
      (replaceChild (Some (CommandsNode k)) (Some (CommandsNode k')) children) =
    [Some RenderGraphNode, Some (CommandsNode k')] @ (case depth' of None \<Rightarrow> [] | Some j \<Rightarrow> [Some (CommandsNode j)])"
  using assms by (cases depth; cases depth') auto

lemma surfaces_set_up:
  assumes "vsg_ok g" and "create_framebuffer s = (fb, s1)"
    and "os_use_depth s \<or> os_depth_capture s = None \<and> os_copied_depth s = None"
  shows "\<exists>k depth. surfaces_ready g (create_captures g (s1\<lparr>os_render_graph := rg\<rparr>)) fb k depth \<and>
      length (os_commands s) \<le> k \<and> (\<forall>j. depth = Some j \<longrightarrow> length (os_commands s) \<le> j) \<and> (depth \<noteq> None \<longleftrightarrow> os_use_depth s)"
    and "same_settings s (create_captures g (s1\<lparr>os_render_graph := rg\<rparr>))"
    and "os_children (create_captures g (s1\<lparr>os_render_graph := rg\<rparr>)) = os_children s"
    and "os_render_graph (create_captures g (s1\<lparr>os_render_graph := rg\<rparr>)) = rg"
proof -
  let ?s = "s1\<lparr>os_render_graph := rg\<rparr>"
  obtain c where made: "same_settings s s1" "same_graph s s1" "os_color_view s1 = Some c" "has_image s1 c (os_color_format s)"
    and fb: "if os_use_depth s
      then \<exists>z. os_depth_view s1 = Some z \<and> z \<noteq> c \<and> has_image s1 z (os_depth_format s) \<and>
        framebuffer_ready g (os_size s) fb c (Some z)
      else framebuffer_ready g (os_size s) fb c None"
    using framebuffer_created [OF assms(1,2)] by blast
  have pre: "os_color_view ?s = Some c" "has_image ?s c (os_color_format ?s)"
    "if os_use_depth ?s
     then \<exists>z. os_depth_view ?s = Some z \<and> z \<noteq> c \<and> has_image ?s z (os_depth_format ?s) \<and>
       framebuffer_ready g (os_size ?s) fb c (Some z)
     else framebuffer_ready g (os_size ?s) fb c None \<and> os_depth_capture ?s = None \<and> os_copied_depth ?s = None"
    using made fb assms(3) by (auto simp: same_settings_def same_graph_def has_image_def split: if_splits)
  note created = captures_created [OF pre]
  show same: "same_settings s (create_captures g ?s)"
    using created(2) made(1) by (simp add: same_settings_def)
  show "os_children (create_captures g ?s) = os_children s" "os_render_graph (create_captures g ?s) = rg"
    using created(3,4) made(2) by (simp_all add: same_graph_def)
  obtain k depth where k: "surfaces_ready g (create_captures g ?s) fb k depth"
      "length (os_commands s) \<le> k" "\<forall>j. depth = Some j \<longrightarrow> length (os_commands s) \<le> j"
    using created(1) made(2) by (auto simp: same_graph_def)
  moreover have "depth \<noteq> None \<longleftrightarrow> os_use_depth s"
    using k(1) same by (auto simp: surfaces_ready_def same_settings_def split: if_splits)
  ultimately show "\<exists>k depth. surfaces_ready g (create_captures g ?s) fb k depth \<and>
      length (os_commands s) \<le> k \<and> (\<forall>j. depth = Some j \<longrightarrow> length (os_commands s) \<le> j) \<and> (depth \<noteq> None \<longleftrightarrow> os_use_depth s)"
    by blast
qed

lemma resize_keeps:
  assumes "vsg_ok g" and "renderer_ok g s" and "recorded s"
  shows "renderer_ok g (OffscreenRenderer_Resize g width height s) \<and> recorded (OffscreenRenderer_Resize g width height s)"
    and "os_size (OffscreenRenderer_Resize g width height s) = \<lparr>ex_width = max width 1, ex_height = max height 1\<rparr>"
    and "os_root (OffscreenRenderer_Resize g width height s) = os_root s"
    and "os_compiled (OffscreenRenderer_Resize g width height s) = os_compiled s"
    and "os_color_format (OffscreenRenderer_Resize g width height s) = os_color_format s"
    and "os_depth_format (OffscreenRenderer_Resize g width height s) = os_depth_format s"
    and "os_use_depth (OffscreenRenderer_Resize g width height s) = os_use_depth s"
    and "os_view (OffscreenRenderer_Resize g width height s) = os_view s"
    and resize_projection: "os_projection (OffscreenRenderer_Resize g width height s) =
      map_option (gx_change_extent g (os_size s) \<lparr>ex_width = max width 1, ex_height = max height 1\<rparr>) (os_projection s)"
proof -
  let ?size = "\<lparr>ex_width = max width 1, ex_height = max height 1\<rparr>"
  let ?s = "s\<lparr>os_size := ?size, os_projection := map_option (gx_change_extent g (os_size s) ?size) (os_projection s),
    os_viewport := Some ?size\<rparr>"
  obtain fb s1 where fb: "create_framebuffer ?s = (fb, s1)" by fastforce
  obtain rg k depth where rg: "os_render_graph s = Some rg" "surfaces_ready g s (rg_framebuffer rg) k depth"
      "os_children s = [Some RenderGraphNode, Some (CommandsNode k)] @ (case depth of None \<Rightarrow> [] | Some j \<Rightarrow> [Some (CommandsNode j)])"
      "\<forall>e. rg_recorded rg \<noteq> None \<longrightarrow> gx_area g (rg_recorded rg) e (rg_area rg) = e"
    using assms(2) by (auto simp: renderer_ok_def)
  have rec: "rg_recorded rg \<noteq> None" using assms(3) rg(1) by (simp add: recorded_def)
  have nodepth: "os_use_depth ?s \<or> os_depth_capture ?s = None \<and> os_copied_depth ?s = None"
    using rg(2) by (auto simp: surfaces_ready_def)
  let ?rg = "Some (rg\<lparr>rg_framebuffer := fb\<rparr>)"
  let ?s2 = "create_captures g (s1\<lparr>os_render_graph := ?rg\<rparr>)"
  note made = surfaces_set_up [OF assms(1) fb nodepth, of ?rg]
  obtain k' depth' where new: "surfaces_ready g ?s2 fb k' depth'" "length (os_commands s) \<le> k'"
      "depth' \<noteq> None \<longleftrightarrow> os_use_depth s"
    using made(1) by auto
  have "same_graph ?s s1" using framebuffer_created [OF assms(1) fb] by simp
  then have graph1: "os_render_graph s1 = Some rg" using rg(1) by (simp add: same_graph_def)
  have "depth \<noteq> None \<longleftrightarrow> os_use_depth s"
    using rg(2) by (auto simp: surfaces_ready_def split: if_splits)
  then have children: "replaceChild (os_depth_capture s) (os_depth_capture ?s2)
      (replaceChild (os_color_capture s) (os_color_capture ?s2) (os_children s)) =
    [Some RenderGraphNode, Some (CommandsNode k')] @ (case depth' of None \<Rightarrow> [] | Some j \<Rightarrow> [Some (CommandsNode j)])"
    unfolding surfaces_readyD(1,2) [OF rg(2)] surfaces_readyD(1,2) [OF new(1)]
    using new(2,3) surfaces_readyD(3,4) [OF rg(2)]
    by (intro children_replaced [OF rg(3)]) fastforce+
  have resized: "OffscreenRenderer_Resize g width height s =
      ?s2\<lparr>os_children := [Some RenderGraphNode, Some (CommandsNode k')] @ (case depth' of None \<Rightarrow> [] | Some j \<Rightarrow> [Some (CommandsNode j)])\<rparr>"
    using fb graph1 children made(3)
    by (simp add: OffscreenRenderer_Resize_def ReplaceFramebufferAndCaptures_def Let_def)
  note same = made(2) [unfolded same_settings_def]
  show "renderer_ok g (OffscreenRenderer_Resize g width height s) \<and> recorded (OffscreenRenderer_Resize g width height s)"
    unfolding resized recorded_def
  proof (intro conjI renderer_okI)
    show "surfaces_ready g (?s2\<lparr>os_children := [Some RenderGraphNode, Some (CommandsNode k')] @
        (case depth' of None \<Rightarrow> [] | Some j \<Rightarrow> [Some (CommandsNode j)])\<rparr>) (rg_framebuffer (rg\<lparr>rg_framebuffer := fb\<rparr>)) k' depth'"
      using new(1) by simp
  qed (use assms(2) same rg(4) rec made(4) in \<open>simp_all add: renderer_ok_def\<close>)
  show "os_size (OffscreenRenderer_Resize g width height s) = ?size"
    "os_root (OffscreenRenderer_Resize g width height s) = os_root s"
    "os_compiled (OffscreenRenderer_Resize g width height s) = os_compiled s"
    "os_color_format (OffscreenRenderer_Resize g width height s) = os_color_format s"
    "os_depth_format (OffscreenRenderer_Resize g width height s) = os_depth_format s"
    "os_use_depth (OffscreenRenderer_Resize g width height s) = os_use_depth s"
    "os_view (OffscreenRenderer_Resize g width height s) = os_view s"
    "os_projection (OffscreenRenderer_Resize g width height s) =
      map_option (gx_change_extent g (os_size s) ?size) (os_projection s)"
    using same by (simp_all add: resized)
qed

section \<open>A frame\<close>

text \<open>The texels a frame of the current settings has, as they are read back.\<close>

definition color_texel :: "('m, 'v, 's) graphics \<Rightarrow> ('m, 'v, 's) offscreen \<Rightarrow> nat \<times> nat \<Rightarrow> texel" where
  "color_texel g s p =
     (let t = gx_color g (os_root s) (the (os_projection s)) (the (os_view s)) (os_size s) p
      in if supportsBlit (gx_vulkan g) (os_color_format s)
         then vk_convert (gx_vulkan g) (os_color_format s) R8G8B8A8_UNORM t else t)"

definition depth_texel :: "('m, 'v, 's) graphics \<Rightarrow> ('m, 'v, 's) offscreen \<Rightarrow> nat \<times> nat \<Rightarrow> texel" where
  "depth_texel g s p = gx_depth g (os_root s) (the (os_projection s)) (the (os_view s)) (os_size s) p"

lemma draws:
  assumes "renderer_ok g s" and "os_render_graph s = Some rg" and "framebuffer_ready g (os_size s) (rg_framebuffer rg) c depth"
  shows "\<exists>d. draw g s = Inr (s\<lparr>os_device := d,
      os_render_graph := Some (rg\<lparr>rg_area := os_size s, rg_recorded := Some (os_size s)\<rparr>)\<rparr>) \<and>
    dv_images d = dv_images (os_device s) \<and> dv_buffers d = dv_buffers (os_device s) \<and>
    (depth \<noteq> Some c \<longrightarrow> dv_layout d c = PRESENT_SRC_KHR \<and>
      (\<forall>p. inside (os_size s) p \<longrightarrow> dv_texels d c p =
         Some (gx_color g (os_root s) (the (os_projection s)) (the (os_view s)) (os_size s) p))) \<and>
    (\<forall>z. depth = Some z \<longrightarrow> dv_layout d z = DEPTH_STENCIL_ATTACHMENT_OPTIMAL \<and>
      (\<forall>p. inside (os_size s) p \<longrightarrow> dv_texels d z p = Some (depth_texel g s p)))"
proof -
  obtain m v where mv: "os_projection s = Some m" "os_view s = Some v" "os_viewport s = Some (os_size s)"
      "list_all (drawable g (os_compiled s)) (os_root s)"
    using assms(1) by (auto simp: renderer_ok_def)
  have area: "gx_area g (rg_recorded rg) (os_size s) (rg_area rg) = os_size s"
    using assms(1,2) by (auto simp: renderer_ok_def)
  obtain ci di where stores: "gx_stores g (fb_pass (rg_framebuffer rg)) = (ci, di)" by fastforce
  show ?thesis
    using assms(2,3) mv area stores
    by (cases di) (auto simp: draw_def framebuffer_ready_def write_attachment_def depth_texel_def Let_def)
qed

lemma captured_texel:
  "captured (gx_vulkan g) (os_color_format s)
     (Some (gx_color g (os_root s) (the (os_projection s)) (the (os_view s)) (os_size s) p)) = Some (color_texel g s p)"
  by (simp add: captured_def color_texel_def Let_def)

lemma color_texel_length:
  "formats_ok g (os_color_format s) df \<Longrightarrow> length (color_texel g s p) = 4"
  by (simp add: color_texel_def formats_okD Let_def)

lemma color_reads_back:
  assumes "formats_ok g (os_color_format s) df" and "columns (os_size s) * rows (os_size s) \<le> 2 ^ 32"
    and "color_ready (gx_vulkan g) s c i k" and "dv_images d = dv_images (os_device s)"
    and "\<And>p. inside (os_size s) p \<Longrightarrow> dv_texels d i p = Some (color_texel g s p)"
  shows "color_buffer_of (gx_vulkan g) (os_size s) d i = Inr (map Some (frame_bytes (os_size s) (color_texel g s)))"
proof (rule color_buffer_reads)
  show "im_extent (dv_images d ! i) = os_size s"
    using assms(3,4) by (simp add: color_ready_def)
  show size: "vk_texel_size (gx_vulkan g) (im_format (dv_images d ! i)) = 4"
    using assms(1,3,4) by (auto simp: color_ready_def formats_ok_def target_format_def)
  show "columns (os_size s) * 4 \<le> snd (vk_pitch (gx_vulkan g) (dv_images d ! i))"
    using assms(1,3,4) size unfolding formats_ok_def color_ready_def by metis
qed (use assms(2,5) color_texel_length [OF assms(1)] in simp_all)

lemma captures_run:
  assumes "color_ready (gx_vulkan g) s c i k" and "dv_images d = dv_images (os_device s)"
    and "dv_layout d c = PRESENT_SRC_KHR"
    and "\<And>p. inside (os_size s) p \<Longrightarrow> dv_texels d c p =
      Some (gx_color g (os_root s) (the (os_projection s)) (the (os_view s)) (os_size s) p)"
  shows "\<exists>d'. run_commands (gx_vulkan g) (os_commands s ! k) d = Inr d' \<and> dv_images d' = dv_images d \<and>
    dv_buffers d' = dv_buffers d \<and> (\<forall>p. inside (os_size s) p \<longrightarrow> dv_texels d' i p = Some (color_texel g s p)) \<and>
    (\<forall>z. z \<noteq> c \<and> z \<noteq> i \<longrightarrow> dv_layout d' z = dv_layout d z \<and> dv_texels d' z = dv_texels d z)"
proof -
  note ready = assms(1) [unfolded color_ready_def]
  have "run_commands (gx_vulkan g) (color_capture_commands (supportsBlit (gx_vulkan g) (os_color_format s)) (os_size s) c i) d =
    Inr (d\<lparr>dv_layout := (dv_layout d)(i := GENERAL, c := PRESENT_SRC_KHR),
           dv_texels := (dv_texels d)(i := (\<lambda>p. if inside (os_size s) p
             then captured (gx_vulkan g) (os_color_format s) (dv_texels d c p) else None))\<rparr>)"
    by (rule color_capture_runs) (use ready assms(2,3) in simp_all)
  with ready assms(4) show ?thesis by (simp add: captured_texel)
qed

lemma depth_capture_reads_back:
  assumes "formats_ok g cf (os_depth_format s)" and "depth_ready (gx_vulkan g) s c i k z b j"
    and "dv_images d = dv_images (os_device s)" and "dv_buffers d = dv_buffers (os_device s)"
    and "dv_layout d z = DEPTH_STENCIL_ATTACHMENT_OPTIMAL"
    and "\<And>p. inside (os_size s) p \<Longrightarrow> dv_texels d z p = Some (depth_texel g s p)"
  shows "\<exists>d'. run_commands (gx_vulkan g) (os_commands s ! j) d = Inr d' \<and> dv_images d' = dv_images d \<and>
    dv_buffers d' = dv_buffers d \<and> dv_texels d' = dv_texels d \<and>
    depth_buffer_of (os_size s) d' b = Inr (map Some (frame_bytes (os_size s) (depth_texel g s)))"
proof -
  note ready = assms(2) [unfolded depth_ready_def]
  have four: "vk_texel_size (gx_vulkan g) (os_depth_format s) = 4" and len: "length (depth_texel g s p) = 4" for p
    using formats_okD [OF assms(1)] by (simp_all add: depth_texel_def)
  have "columns (os_size s) * 4 * rows (os_size s) \<le> vk_size (gx_vulkan g) (dv_images (os_device s) ! z)"
    using assms(1) ready four unfolding formats_ok_def by metis
  then have space: "columns (os_size s) * 4 * rows (os_size s) \<le> dv_buffers d ! b" using ready assms(4) by simp
  obtain aspect n where cmds: "os_commands s ! j = depth_capture_commands aspect n (os_size s) z b" using ready by blast
  let ?d = "d\<lparr>dv_layout := (dv_layout d)(z := DEPTH_STENCIL_ATTACHMENT_OPTIMAL),
    dv_bytes := (dv_bytes d)(b := (\<lambda>p.
      let k = vk_texel_size (gx_vulkan g) (os_depth_format s);
          q = (p div k mod columns (os_size s), p div k div columns (os_size s))
      in if inside (os_size s) q then byte (dv_texels d z q) (p mod k) else dv_bytes d b p))\<rparr>"
  have "run_commands (gx_vulkan g) (os_commands s ! j) d = Inr ?d"
    unfolding cmds
    by (rule depth_capture_runs) (use ready assms(3,5) space four in \<open>simp_all add: mult.commute [of 4]\<close>)
  moreover have "depth_buffer_of (os_size s) ?d b = Inr (map Some (frame_bytes (os_size s) (depth_texel g s)))"
  proof (rule depth_buffer_reads)
    fix p assume p: "p < columns (os_size s) * 4 * rows (os_size s)"
    then have "p div 4 < columns (os_size s) * rows (os_size s)" by simp
    then have "inside (os_size s) (p div 4 mod columns (os_size s), p div 4 div columns (os_size s))"
      by (auto simp: inside_def less_mult_imp_div_less mult.commute intro!: mod_less_divisor gr0I)
    then show "dv_bytes ?d b p =
        byte (Some (depth_texel g s (p div 4 mod columns (os_size s), p div 4 div columns (os_size s)))) (p mod 4)"
      using assms(6) four by (simp add: Let_def)
  qed (use space len in simp_all)
  ultimately show ?thesis by (intro exI [of _ ?d]) simp
qed

text \<open>The part of a frame up to the colour capture, with or without a depth image.\<close>

lemma color_frame:
  assumes "renderer_ok g s" and "os_render_graph s = Some rg" and "color_ready (gx_vulkan g) s c i k"
    and "framebuffer_ready g (os_size s) (rg_framebuffer rg) c depth" and "depth \<noteq> Some c" and "depth \<noteq> Some i"
  shows "\<exists>d d'. draw g s = Inr (s\<lparr>os_device := d,
      os_render_graph := Some (rg\<lparr>rg_area := os_size s, rg_recorded := Some (os_size s)\<rparr>)\<rparr>) \<and>
    run_commands (gx_vulkan g) (os_commands s ! k) d = Inr d' \<and>
    dv_images d' = dv_images (os_device s) \<and> dv_buffers d' = dv_buffers (os_device s) \<and>
    (\<forall>p. inside (os_size s) p \<longrightarrow> dv_texels d' i p = Some (color_texel g s p)) \<and>
    (\<forall>z. depth = Some z \<longrightarrow> dv_layout d' z = DEPTH_STENCIL_ATTACHMENT_OPTIMAL \<and>
      (\<forall>p. inside (os_size s) p \<longrightarrow> dv_texels d' z p = Some (depth_texel g s p)))"
proof -
  obtain d where d: "draw g s = Inr (s\<lparr>os_device := d,
      os_render_graph := Some (rg\<lparr>rg_area := os_size s, rg_recorded := Some (os_size s)\<rparr>)\<rparr>)"
      "dv_images d = dv_images (os_device s)" "dv_buffers d = dv_buffers (os_device s)" "dv_layout d c = PRESENT_SRC_KHR"
      "\<forall>p. inside (os_size s) p \<longrightarrow> dv_texels d c p =
         Some (gx_color g (os_root s) (the (os_projection s)) (the (os_view s)) (os_size s) p)"
      "\<forall>z. depth = Some z \<longrightarrow> dv_layout d z = DEPTH_STENCIL_ATTACHMENT_OPTIMAL \<and>
        (\<forall>p. inside (os_size s) p \<longrightarrow> dv_texels d z p = Some (depth_texel g s p))"
    using draws [OF assms(1,2,4)] assms(5) by auto
  obtain d' where "run_commands (gx_vulkan g) (os_commands s ! k) d = Inr d'" "dv_images d' = dv_images d"
      "dv_buffers d' = dv_buffers d" "\<forall>p. inside (os_size s) p \<longrightarrow> dv_texels d' i p = Some (color_texel g s p)"
      "\<forall>z. z \<noteq> c \<and> z \<noteq> i \<longrightarrow> dv_layout d' z = dv_layout d z \<and> dv_texels d' z = dv_texels d z"
    using captures_run [OF assms(3) d(2,4)] d(5) by blast
  with d assms(5,6) show ?thesis by (intro exI [of _ d] exI [of _ d']) auto
qed

lemma surfaces_same_images:
  assumes "dv_images d = dv_images (os_device s)" and "dv_buffers d = dv_buffers (os_device s)"
  shows "surfaces_ready g (s\<lparr>os_device := d\<rparr>) fb k depth = surfaces_ready g s fb k depth"
  using assms by (simp add: surfaces_ready_def color_ready_def depth_ready_def)

lemma rendered_ok:
  assumes "vsg_ok g" and "renderer_ok g s" and "os_render_graph s = Some rg"
    and "dv_images d = dv_images (os_device s)" and "dv_buffers d = dv_buffers (os_device s)"
    and s': "s' = s\<lparr>os_device := d, os_render_graph := Some (rg\<lparr>rg_area := os_size s, rg_recorded := Some (os_size s)\<rparr>)\<rparr>"
  shows "renderer_ok g s' \<and> recorded s' \<and> same_settings s s'"
proof (intro conjI)
  obtain k depth where k: "surfaces_ready g s (rg_framebuffer rg) k depth"
      "os_children s = [Some RenderGraphNode, Some (CommandsNode k)] @ (case depth of None \<Rightarrow> [] | Some j \<Rightarrow> [Some (CommandsNode j)])"
    using assms(2,3) by (auto simp: renderer_ok_def)
  let ?rg = "rg\<lparr>rg_area := os_size s, rg_recorded := Some (os_size s)\<rparr>"
  show "renderer_ok g s'"
  proof (rule renderer_okI)
    show "surfaces_ready g s' (rg_framebuffer ?rg) k depth"
      using k(1) surfaces_same_images [OF assms(4,5)] by (simp add: s')
  qed (use assms(1,2) k(2) in \<open>simp_all add: s' renderer_ok_def vsg_ok_def\<close>)
qed (simp_all add: s' recorded_def same_settings_def)

lemma renders:
  assumes "formats_ok g (os_color_format s) (os_depth_format s)" and "vsg_ok g" and "renderer_ok g s"
  shows "\<exists>s' i. OffscreenRenderer_Render g True s = Inr (True, s') \<and> (renderer_ok g s' \<and> recorded s' \<and>
    same_settings s s') \<and> os_copied_color s' = Some i \<and>
    (columns (os_size s) * rows (os_size s) \<le> 2 ^ 32 \<longrightarrow> color_buffer_of (gx_vulkan g) (os_size s) (os_device s') i =
      Inr (map Some (frame_bytes (os_size s) (color_texel g s)))) \<and>
    (if os_use_depth s then \<exists>b. os_copied_depth s' = Some b \<and> depth_buffer_of (os_size s) (os_device s') b =
       Inr (map Some (frame_bytes (os_size s) (depth_texel g s)))
     else os_copied_depth s' = None)"
proof -
  let ?vk = "gx_vulkan g"
  obtain rg k depth where rg: "os_render_graph s = Some rg" "surfaces_ready g s (rg_framebuffer rg) k depth"
      "os_children s = [Some RenderGraphNode, Some (CommandsNode k)] @ (case depth of None \<Rightarrow> [] | Some j \<Rightarrow> [Some (CommandsNode j)])"
    using assms(3) by (auto simp: renderer_ok_def)
  then obtain c i where ci: "color_ready ?vk s c i k"
    and dep: "if os_use_depth s
      then \<exists>z b j. depth = Some j \<and> depth_ready ?vk s c i k z b j \<and> framebuffer_ready g (os_size s) (rg_framebuffer rg) c (Some z)
      else depth = None \<and> os_depth_capture s = None \<and> os_copied_depth s = None \<and>
           framebuffer_ready g (os_size s) (rg_framebuffer rg) c None"
    unfolding surfaces_ready_def by blast
  let ?s = "\<lambda>d. s\<lparr>os_device := d, os_render_graph := Some (rg\<lparr>rg_area := os_size s, rg_recorded := Some (os_size s)\<rparr>)\<rparr>"
  note colors = color_reads_back [OF assms(1) _ ci] and kept = rendered_ok [OF assms(2,3) rg(1) _ _ refl]
  show ?thesis
  proof (cases "os_use_depth s")
    case False
    with dep obtain d d' where d: "draw g s = Inr (?s d)" "run_commands ?vk (os_commands s ! k) d = Inr d'"
        "dv_images d' = dv_images (os_device s)" "dv_buffers d' = dv_buffers (os_device s)"
        "\<forall>p. inside (os_size s) p \<longrightarrow> dv_texels d' i p = Some (color_texel g s p)"
      using color_frame [OF assms(3) rg(1) ci, of None] by auto
    have "OffscreenRenderer_Render g True s = Inr (True, ?s d')"
      using d(1,2) rg(3) False dep by (simp add: OffscreenRenderer_Render_def)
    with False dep ci kept [OF d(3,4)] colors [OF _ d(3)] d(5) show ?thesis
      by (intro exI [of _ "?s d'"] exI [of _ i]) (simp add: color_ready_def)
  next
    case True
    with dep obtain z b j where zbj: "depth = Some j" "depth_ready ?vk s c i k z b j"
        "framebuffer_ready g (os_size s) (rg_framebuffer rg) c (Some z)" by auto
    then obtain d d' where d: "draw g s = Inr (?s d)" "run_commands ?vk (os_commands s ! k) d = Inr d'"
        "dv_images d' = dv_images (os_device s)" "dv_buffers d' = dv_buffers (os_device s)"
        "\<forall>p. inside (os_size s) p \<longrightarrow> dv_texels d' i p = Some (color_texel g s p)"
        "dv_layout d' z = DEPTH_STENCIL_ATTACHMENT_OPTIMAL"
        "\<forall>p. inside (os_size s) p \<longrightarrow> dv_texels d' z p = Some (depth_texel g s p)"
      using color_frame [OF assms(3) rg(1) ci zbj(3)] by (auto simp: depth_ready_def)
    obtain d2 where d2: "run_commands ?vk (os_commands s ! j) d' = Inr d2" "dv_images d2 = dv_images d'"
        "dv_buffers d2 = dv_buffers d'" "dv_texels d2 = dv_texels d'"
        "depth_buffer_of (os_size s) d2 b = Inr (map Some (frame_bytes (os_size s) (depth_texel g s)))"
      using depth_capture_reads_back [OF assms(1) zbj(2) d(3,4,6)] d(7) by blast
    have same: "dv_images d2 = dv_images (os_device s)" "dv_buffers d2 = dv_buffers (os_device s)"
      using d(3,4) d2(2,3) by simp_all
    have "OffscreenRenderer_Render g True s = Inr (True, ?s d2)"
      using d(1,2) d2(1) rg(3) zbj(1) by (simp add: OffscreenRenderer_Render_def)
    with True zbj(2) d2(4,5) ci kept [OF same] colors [OF _ same(1)] d(5) show ?thesis
      by (intro exI [of _ "?s d2"] exI [of _ i]) (simp add: color_ready_def depth_ready_def)
  qed
qed

section \<open>Every run of the renderer\<close>

lemma constructs:
  assumes "vsg_ok g" and "formats_ok g cf df" and "SetupInstanceAndDevice g existing = Inr (setup, queue)"
    and "0 < ex_width extent" and "0 < ex_height extent"
  shows "\<exists>s. make_OffscreenRenderer g existing scene use_depth msaa cf df n extent d True = Inr s \<and>
    renderer_ok g s \<and> recorded s \<and> os_size s = extent \<and> os_root s = [scene] \<and> os_compiled s = [scene] \<and> os_use_depth s = use_depth \<and>
    os_color_format s = cf \<and> os_depth_format s = df \<and> os_projection s = Some (gx_perspective g extent) \<and>
    os_view s = Some (gx_look_at g)"
proof -
  define s0 where "s0 = SetupCamera g \<lparr>os_setup = setup, os_queue_family = queue, os_size = extent, os_color_format = cf,
    os_depth_format = df, os_samples = (if msaa then 8 else n), os_use_depth = use_depth, os_scene = scene,
    os_root = [scene], os_compiled = [], os_projection = None, os_view = None, os_viewport = None, os_color_view = None,
    os_depth_view = None, os_color_capture = None, os_depth_capture = None, os_copied_color = None,
    os_copied_depth = None, os_commands = [], os_render_graph = None, os_children = [], os_device = d\<rparr>"
  have s0: "os_depth_capture s0 = None \<and> os_copied_depth s0 = None" "os_size s0 = extent" "os_root s0 = [scene]" "os_compiled s0 = []"
    "os_use_depth s0 = use_depth" "os_color_format s0 = cf" "os_depth_format s0 = df"
    "os_projection s0 = Some (gx_perspective g extent)" "os_view s0 = Some (gx_look_at g)" "os_viewport s0 = Some extent"
    by (simp_all add: s0_def SetupCamera_def)
  obtain fb s1 where fb: "create_framebuffer s0 = (fb, s1)" by fastforce
  note made = surfaces_set_up [OF assms(1) fb, of "os_render_graph s1", simplified]
  obtain k depth where k: "surfaces_ready g (create_captures g s1) fb k depth"
    using made(1) s0(1) by blast
  let ?rg = "\<lparr>rg_framebuffer = fb, rg_area = extent, rg_recorded = None\<rparr>"
  define s2 where "s2 = SetupCommandGraph (SetupRenderGraph g s0)"
  have children: "os_children s2 = [Some RenderGraphNode, Some (CommandsNode k)] @ (case depth of None \<Rightarrow> [] | Some j \<Rightarrow> [Some (CommandsNode j)])"
    using surfaces_readyD(1,2) [OF k]
    by (cases depth) (simp_all add: s2_def SetupCommandGraph_def compile_def SetupRenderGraph_def fb)
  have kept: "same_settings s0 (create_captures g s1)" using made(2) s0(1) by simp
  have eq: "s2 = (create_captures g s1)\<lparr>os_render_graph := Some ?rg, os_children := os_children s2, os_compiled := [scene]\<rparr>"
    using s0(2-4) kept
    by (simp add: s2_def SetupCommandGraph_def compile_def SetupRenderGraph_def fb same_settings_def)
  have same: "same_settings (s0\<lparr>os_compiled := [scene]\<rparr>) s2"
    by (subst eq) (use kept in \<open>simp add: same_settings_def\<close>)
  have "surfaces_ready g s2 (rg_framebuffer ?rg) k depth"
    by (subst eq) (use k in simp)
  moreover have "os_render_graph s2 = Some ?rg" by (subst eq) simp
  ultimately have ok: "renderer_ok g s2"
    using children assms(1,4,5) s0 same
    by (intro renderer_okI [where rg = ?rg]) (simp_all add: same_settings_def vsg_ok_def drawable_def)
  have "formats_ok g (os_color_format s2) (os_depth_format s2)"
    using assms(2) s0 same by (simp add: same_settings_def)
  then obtain s3 where s3: "OffscreenRenderer_Render g True s2 = Inr (True, s3)"
      "renderer_ok g s3 \<and> recorded s3 \<and> same_settings s2 s3"
    using renders [OF _ assms(1) ok] by blast
  have "make_OffscreenRenderer g existing scene use_depth msaa cf df n extent d True = Inr s3"
    using s3(1) assms(3) by (simp add: make_OffscreenRenderer_def s2_def s0_def Let_def)
  with s3(2) s0 same show ?thesis by (auto simp: same_settings_def)
qed

text \<open>
  What a caller asks for, and what it is to see; nothing of images and commands is left. The scenes
  the renderer has compiled are those of its construction.
\<close>

datatype ('m, 'v, 's) renderer_op = ResizeTo int int | ProjectWith 'm | LookWith 'v | ShowScene 's | RenderFrame bool

fun renderer_step ::
  "('m, 'v, 's) graphics \<Rightarrow> ('m, 'v, 's) renderer_op \<Rightarrow> ('m, 'v, 's) offscreen \<Rightarrow> ('m, 'v, 's) offscreen result" where
  "renderer_step g (ResizeTo width height) s = Inr (OffscreenRenderer_Resize g width height s)"
| "renderer_step g (ProjectWith m) s = Inr (SetCameraProjectionMatrix m s)"
| "renderer_step g (LookWith v) s = Inr (SetCameraViewMatrix v s)"
| "renderer_step g (ShowScene scene) s = Inr (OffscreenRenderer_SetScene scene s)"
| "renderer_step g (RenderFrame advance) s = bind_result (OffscreenRenderer_Render g advance s) (\<lambda>(_, s'). Inr s')"

fun renderer_run ::
  "('m, 'v, 's) graphics \<Rightarrow> ('m, 'v, 's) renderer_op list \<Rightarrow> ('m, 'v, 's) offscreen \<Rightarrow> ('m, 'v, 's) offscreen result" where
  "renderer_run g [] s = Inr s"
| "renderer_run g (a # as) s = bind_result (renderer_step g a s) (renderer_run g as)"

record ('m, 'v, 's) settings =
  se_size :: extend
  se_projection :: 'm
  se_view :: 'v
  se_scene :: 's
  se_compiled :: "'s list"

fun settings_step ::
  "('m, 'v, 's) graphics \<Rightarrow> ('m, 'v, 's) settings \<Rightarrow> ('m, 'v, 's) renderer_op \<Rightarrow> ('m, 'v, 's) settings" where
  "settings_step g t (ResizeTo width height) =
     (let e = \<lparr>ex_width = max width 1, ex_height = max height 1\<rparr>
      in t\<lparr>se_size := e, se_projection := gx_change_extent g (se_size t) e (se_projection t)\<rparr>)"
| "settings_step g t (ProjectWith m) = t\<lparr>se_projection := m\<rparr>"
| "settings_step g t (LookWith v) = t\<lparr>se_view := v\<rparr>"
| "settings_step g t (ShowScene scene) = t\<lparr>se_scene := scene\<rparr>"
| "settings_step g t (RenderFrame advance) = t"

fun shows_drawable :: "('m, 'v, 's) graphics \<Rightarrow> 's list \<Rightarrow> ('m, 'v, 's) renderer_op \<Rightarrow> bool" where
  "shows_drawable g compiled (ShowScene scene) = drawable g compiled scene"
| "shows_drawable g compiled a = True"

lemma compiled_settings [simp]: "se_compiled (settings_step g t a) = se_compiled t"
  by (cases a) (simp_all add: Let_def)

definition color_frame_of :: "('m, 'v, 's) graphics \<Rightarrow> vk_format \<Rightarrow> ('m, 'v, 's) settings \<Rightarrow> string" where
  "color_frame_of g format t = frame_bytes (se_size t) (\<lambda>p.
     let c = gx_color g [se_scene t] (se_projection t) (se_view t) (se_size t) p
     in if supportsBlit (gx_vulkan g) format then vk_convert (gx_vulkan g) format R8G8B8A8_UNORM c else c)"

definition depth_frame_of :: "('m, 'v, 's) graphics \<Rightarrow> ('m, 'v, 's) settings \<Rightarrow> string" where
  "depth_frame_of g t =
     frame_bytes (se_size t) (gx_depth g [se_scene t] (se_projection t) (se_view t) (se_size t))"

definition showing ::
  "('m, 'v, 's) graphics \<Rightarrow> vk_format \<Rightarrow> vk_format \<Rightarrow> bool \<Rightarrow> ('m, 'v, 's) offscreen \<Rightarrow> ('m, 'v, 's) settings \<Rightarrow> bool" where
  "showing g cf df use_depth s t \<longleftrightarrow> renderer_ok g s \<and> recorded s \<and> os_color_format s = cf \<and> os_depth_format s = df \<and>
     os_use_depth s = use_depth \<and> os_size s = se_size t \<and> os_projection s = Some (se_projection t) \<and>
     os_view s = Some (se_view t) \<and> os_root s = [se_scene t] \<and> os_compiled s = se_compiled t"

lemma renderer_ok_settings:
  assumes "renderer_ok g s"
  shows "list_all (drawable g (os_compiled s)) r \<Longrightarrow> renderer_ok g (s\<lparr>os_root := r, os_scene := q\<rparr>)"
    and "renderer_ok g (s\<lparr>os_projection := Some m\<rparr>)"
    and "renderer_ok g (s\<lparr>os_view := Some v\<rparr>)"
  using assms by (auto simp: renderer_ok_def)

lemma showing_step:
  assumes "vsg_ok g" and "formats_ok g cf df" and "showing g cf df use_depth s t"
    and "shows_drawable g (se_compiled t) a"
  shows "\<exists>s'. renderer_step g a s = Inr s' \<and> showing g cf df use_depth s' (settings_step g t a)"
proof (cases a)
  case (ResizeTo width height)
  have "os_projection (OffscreenRenderer_Resize g width height s) = map_option
      (gx_change_extent g (os_size s) \<lparr>ex_width = max width 1, ex_height = max height 1\<rparr>) (os_projection s)"
    by (rule resize_projection [OF assms(1)]) (use assms(3) in \<open>simp_all add: showing_def\<close>)
  then show ?thesis
    using ResizeTo assms resize_keeps [OF assms(1), of s width height] by (simp add: showing_def Let_def)
next
  case (RenderFrame advance)
  show ?thesis
  proof (cases advance)
    case True
    then obtain s' where "OffscreenRenderer_Render g True s = Inr (True, s')" "renderer_ok g s' \<and> recorded s' \<and> same_settings s s'"
      using renders [of g s] assms by (auto simp: showing_def)
    with True assms(3) RenderFrame show ?thesis by (auto simp: showing_def same_settings_def)
  qed (use RenderFrame assms(3) in \<open>simp add: OffscreenRenderer_Render_def\<close>)
qed (use assms(3,4) in \<open>auto simp: showing_def recorded_def SetCameraProjectionMatrix_def SetCameraViewMatrix_def
    OffscreenRenderer_SetScene_def renderer_ok_settings\<close>)

lemma showing_run:
  assumes "vsg_ok g" and "formats_ok g cf df" and "showing g cf df use_depth s t"
    and "list_all (shows_drawable g (se_compiled t)) as"
  shows "\<exists>s'. renderer_run g as s = Inr s' \<and> showing g cf df use_depth s' (foldl (settings_step g) t as)"
  using assms(3,4)
proof (induction as arbitrary: s t)
  case (Cons a as)
  obtain s' where "renderer_step g a s = Inr s'" "showing g cf df use_depth s' (settings_step g t a)"
    using showing_step [OF assms(1,2) Cons.prems(1)] Cons.prems(2) by auto
  with Cons.IH Cons.prems(2) show ?case by simp
qed simp

lemma showing_frame:
  assumes "vsg_ok g" and "formats_ok g cf df" and "showing g cf df use_depth s t"
    and "columns (se_size t) * rows (se_size t) \<le> 2 ^ 32"
  shows "\<exists>s'. OffscreenRenderer_Render g True s = Inr (True, s') \<and> showing g cf df use_depth s' t \<and>
    OffscreenRenderer_GetResult g True s' = Inr \<lparr>rr_extent = Some (se_size t),
      rr_color = map Some (color_frame_of g cf t), rr_depth = (if use_depth then map Some (depth_frame_of g t) else []),
      rr_color_format = Some cf, rr_depth_format = Some df\<rparr>"
proof -
  have s: "os_size s = se_size t" "os_color_format s = cf" "os_depth_format s = df" "os_use_depth s = use_depth"
    using assms(3) by (simp_all add: showing_def)
  have "color_texel g s = (\<lambda>p. let c = gx_color g [se_scene t] (se_projection t) (se_view t) (se_size t) p
      in if supportsBlit (gx_vulkan g) cf then vk_convert (gx_vulkan g) cf R8G8B8A8_UNORM c else c)"
    "depth_texel g s = gx_depth g [se_scene t] (se_projection t) (se_view t) (se_size t)"
    using assms(3) by (simp_all add: fun_eq_iff showing_def color_texel_def depth_texel_def Let_def)
  then have frames: "frame_bytes (se_size t) (color_texel g s) = color_frame_of g cf t"
    "frame_bytes (se_size t) (depth_texel g s) = depth_frame_of g t"
    by (simp_all add: color_frame_of_def depth_frame_of_def)
  obtain s' i where r: "OffscreenRenderer_Render g True s = Inr (True, s')"
      "renderer_ok g s' \<and> recorded s' \<and> same_settings s s'" "os_copied_color s' = Some i"
      "color_buffer_of (gx_vulkan g) (se_size t) (os_device s') i = Inr (map Some (color_frame_of g cf t))"
      "if use_depth then \<exists>b. os_copied_depth s' = Some b \<and> depth_buffer_of (se_size t) (os_device s') b =
         Inr (map Some (depth_frame_of g t)) else os_copied_depth s' = None"
    using renders [of g s] assms unfolding showing_def s frames by (auto simp: s frames)
  have "showing g cf df use_depth s' t" using assms(3) r(2) by (auto simp: showing_def same_settings_def)
  moreover from this r(3-5) have "OffscreenRenderer_GetResult g True s' = Inr \<lparr>rr_extent = Some (se_size t),
      rr_color = map Some (color_frame_of g cf t), rr_depth = (if use_depth then map Some (depth_frame_of g t) else []),
      rr_color_format = Some cf, rr_depth_format = Some df\<rparr>"
    by (auto simp: OffscreenRenderer_GetResult_def showing_def SetColorData_def SetDepthData_def RenderResult_def
        Let_def comp_def split: if_splits)
  ultimately show ?thesis using r(1) by blast
qed

text \<open>Setting a scene that has not been compiled.\<close>

lemma uncompiled_scene_is_undefined:
  assumes "showing g cf df use_depth s t" and "\<not> drawable g (se_compiled t) scene"
  shows "OffscreenRenderer_Render g True (OffscreenRenderer_SetScene scene s) = Inl UndefinedBehaviour"
proof -
  have "draw g (OffscreenRenderer_SetScene scene s) = Inl UndefinedBehaviour"
    using assms by (auto simp: showing_def draw_def OffscreenRenderer_SetScene_def Let_def split: option.splits prod.splits)
  moreover have "\<exists>ns. os_children (OffscreenRenderer_SetScene scene s) = Some RenderGraphNode # ns"
    using assms(1) by (auto simp: showing_def renderer_ok_def OffscreenRenderer_SetScene_def)
  ultimately show ?thesis by (auto simp: OffscreenRenderer_Render_def)
qed

text \<open>
  C14: whatever is resized, set and rendered after its construction, as long as every scene that
  is set is the one of the construction or needs no compiling, the next frame of the off-screen
  renderer, read back once the device is done, is the picture of the size, projection, view and
  scene that were set last: no command finds an image in a wrong layout, and the bytes are the
  texels row by row whatever the row pitch is. \<open>SetScene\<close> compiles nothing: after any such run, a
  frame of a scene that does need compiling and is not the one of the construction is undefined.
\<close>

theorem offscreen_frames_show_the_settings:
  assumes "vsg_ok g" and "formats_ok g cf df" and "SetupInstanceAndDevice g existing = Inr setup"
    and "0 < ex_width extent" and "0 < ex_height extent"
    and "list_all (shows_drawable g [scene]) as"
    and "t = foldl (settings_step g) \<lparr>se_size = extent, se_projection = gx_perspective g extent,
      se_view = gx_look_at g, se_scene = scene, se_compiled = [scene]\<rparr> as"
    and "columns (se_size t) * rows (se_size t) \<le> 2 ^ 32"
  shows "\<exists>s0 s s'. make_OffscreenRenderer g existing scene use_depth msaa cf df n extent d True = Inr s0 \<and>
    renderer_run g as s0 = Inr s \<and> OffscreenRenderer_Render g True s = Inr (True, s') \<and>
    OffscreenRenderer_GetResult g True s' = Inr \<lparr>rr_extent = Some (se_size t),
      rr_color = map Some (color_frame_of g cf t), rr_depth = (if use_depth then map Some (depth_frame_of g t) else []),
      rr_color_format = Some cf, rr_depth_format = Some df\<rparr> \<and>
    (\<forall>other. gx_needs_compile g other \<and> other \<noteq> scene \<longrightarrow>
      OffscreenRenderer_Render g True (OffscreenRenderer_SetScene other s') = Inl UndefinedBehaviour)"
proof -
  let ?t = "\<lparr>se_size = extent, se_projection = gx_perspective g extent,
      se_view = gx_look_at g, se_scene = scene, se_compiled = [scene]\<rparr>"
  obtain s0 where s0: "make_OffscreenRenderer g existing scene use_depth msaa cf df n extent d True = Inr s0"
    "showing g cf df use_depth s0 ?t"
    using constructs [OF assms(1,2) _ assms(4,5), of existing "fst setup" "snd setup" scene use_depth msaa n d] assms(3)
    by (auto simp: showing_def)
  moreover obtain s where "renderer_run g as s0 = Inr s" "showing g cf df use_depth s t"
    using showing_run [OF assms(1,2) s0(2)] assms(6,7) by auto
  moreover have "se_compiled (foldl (settings_step g) x as) = se_compiled x" for x
    by (induction as arbitrary: x) simp_all
  then have "se_compiled t = [scene]" by (simp add: assms(7))
  ultimately show ?thesis
    using showing_frame [OF assms(1,2) _ assms(8)] uncompiled_scene_is_undefined
    unfolding drawable_def by (metis list.set(1) list.set(2) singletonD)
qed

definition example_vulkan :: vulkan where
  "example_vulkan = \<lparr>vk_blit_src = (\<lambda>_. True), vk_blit_dst = (\<lambda>_. True),
     vk_convert = (\<lambda>from to t. if from = B8G8R8A8_UNORM \<and> to = R8G8B8A8_UNORM then [t ! 2, t ! 1, t ! 0, t ! 3] else take 4 t),
     vk_size = (\<lambda>info. columns (im_extent info) * 4 * rows (im_extent info)),
     vk_pitch = (\<lambda>info. (16, columns (im_extent info) * 4 + 8)),
     vk_texel_size = (\<lambda>_. 4), vsg_aspects = (\<lambda>_. [ASPECT_DEPTH])\<rparr>"

definition example_graphics :: "'m \<Rightarrow> 'v \<Rightarrow> ('m, 'v, char) graphics" where
  "example_graphics m0 v0 = \<lparr>gx_vulkan = example_vulkan, gx_instance = 1, gx_queue = (\<lambda>_. (Some 1, 0)),
     gx_create_device = (\<lambda>_ _. 1), gx_look_at = v0, gx_perspective = (\<lambda>_. m0), gx_change_extent = (\<lambda>_ _ m. m),
     gx_color = (\<lambda>root m v e p. [hd root, CHR ''g'', CHR ''r'', CHR ''a'']), gx_depth = (\<lambda>root m v e p. ''0000''),
     gx_stores = (\<lambda>pass. case pass of ColorPass _ \<Rightarrow> (0, None) | ColorDepthPass _ _ \<Rightarrow> (0, Some 1)
       | MultisampledColorPass _ _ \<Rightarrow> (1, None) | MultisampledColorDepthPass _ _ _ \<Rightarrow> (1, Some 3)),
     gx_area = (\<lambda>last now area. case last of None \<Rightarrow> area | Some _ \<Rightarrow> now),
     gx_needs_compile = (\<lambda>scene. scene \<noteq> CHR ''b'')\<rparr>"

lemma example_graphics_ok:
  "vsg_ok (example_graphics m0 v0)" "formats_ok (example_graphics m0 v0) cf df"
  by (auto simp: vsg_ok_def formats_ok_def example_graphics_def example_vulkan_def)

theorem offscreen_frames_show_the_settings_witness:
  "\<exists>s0 s s'. make_OffscreenRenderer (example_graphics () ()) None CHR ''s'' True True B8G8R8A8_UNORM D32_SFLOAT 1
      \<lparr>ex_width = 3, ex_height = 2\<rparr> \<lparr>dv_images = [], dv_layout = (\<lambda>_. LAYOUT_UNDEFINED), dv_texels = (\<lambda>_ _. None),
        dv_buffers = [], dv_bytes = (\<lambda>_ _. None)\<rparr> True = Inr s0 \<and>
    renderer_run (example_graphics () ()) [ResizeTo 2 0, ShowScene CHR ''b'', RenderFrame True] s0 = Inr s \<and>
    OffscreenRenderer_Render (example_graphics () ()) True s = Inr (True, s') \<and>
    OffscreenRenderer_GetResult (example_graphics () ()) True s' = Inr \<lparr>rr_extent = Some \<lparr>ex_width = 2, ex_height = 1\<rparr>,
      rr_color = map Some ''rgbargba'', rr_depth = map Some ''00000000'',
      rr_color_format = Some B8G8R8A8_UNORM, rr_depth_format = Some D32_SFLOAT\<rparr> \<and>
    OffscreenRenderer_Render (example_graphics () ()) True (OffscreenRenderer_SetScene CHR ''c'' s') = Inl UndefinedBehaviour"
proof -
  define t :: "(unit, unit, char) settings" where
    "t = \<lparr>se_size = \<lparr>ex_width = 2, ex_height = 1\<rparr>, se_projection = (), se_view = (), se_scene = CHR ''b'',
      se_compiled = ''s''\<rparr>"
  have t: "t = foldl (settings_step (example_graphics () ())) \<lparr>se_size = \<lparr>ex_width = 3, ex_height = 2\<rparr>,
      se_projection = gx_perspective (example_graphics () ()) \<lparr>ex_width = 3, ex_height = 2\<rparr>,
      se_view = gx_look_at (example_graphics () ()), se_scene = CHR ''s'', se_compiled = ''s''\<rparr> [ResizeTo 2 0, ShowScene CHR ''b'', RenderFrame True]"
    by (simp add: t_def example_graphics_def Let_def)
  have "color_frame_of (example_graphics () ()) B8G8R8A8_UNORM t = ''rgbargba''" "depth_frame_of (example_graphics () ()) t = ''00000000''"
    unfolding t_def by code_simp+
  moreover have "SetupInstanceAndDevice (example_graphics () ()) None = Inr ((1, 1), 0)"
    by (simp add: SetupInstanceAndDevice_def create_own_device_def example_graphics_def)
  moreover have "list_all (shows_drawable (example_graphics () ()) [CHR ''s''])
      [ResizeTo 2 0, ShowScene CHR ''b'', RenderFrame True]"
    and "gx_needs_compile (example_graphics () ()) CHR ''c''"
    by (simp_all add: drawable_def example_graphics_def)
  ultimately show ?thesis
    using offscreen_frames_show_the_settings [where g = "example_graphics () ()" and cf = B8G8R8A8_UNORM and df = D32_SFLOAT
        and existing = None and use_depth = True, OF example_graphics_ok _ _ _ _ t]
    by (fastforce simp: t_def)
qed

text \<open>
  A frame read after a change of size and before the next rendering has no defined bytes: the
  captures are new and the result of the last frame is not kept.
\<close>

lemma new_captures_are_undefined:
  "dv_texels (os_device (create_captures g s)) (the (os_copied_color (create_captures g s))) = (\<lambda>_. None)"
  "os_copied_color (create_captures g s) \<noteq> None"
  by (simp_all add: create_captures_def createColorCapture_def createDepthCapture_def create_image_def create_buffer_def Let_def)

lemma undefined_color:
  assumes "dv_texels d i = (\<lambda>_. None)" and "columns e * rows e \<le> 2 ^ 32"
  shows "color_buffer_of vk e d i = Inr (replicate (columns e * 4 * rows e) None)"
proof -
  have "memory_byte vk d i = (\<lambda>_. None)"
    using assms(1) by (simp add: fun_eq_iff memory_byte_def byte_def split_def Let_def)
  with copy_rows_fills [OF order_refl assms(2), of "\<lambda>_. None :: char option" "snd (vk_pitch vk (dv_images d ! i))" None]
  show ?thesis by (simp add: color_buffer_of_def split_def Let_def map_replicate_const)
qed

lemma new_depth_is_undefined:
  "os_use_depth s \<Longrightarrow> dv_bytes (os_device (create_captures g s)) (the (os_copied_depth (create_captures g s))) = (\<lambda>_. None)"
  by (simp add: create_captures_def createColorCapture_def createDepthCapture_def create_image_def create_buffer_def Let_def)

lemma resized_device:
  "\<exists>s1. os_use_depth s1 = os_use_depth s \<and> os_device (OffscreenRenderer_Resize g width height s) = os_device (create_captures g s1) \<and>
    os_copied_color (OffscreenRenderer_Resize g width height s) = os_copied_color (create_captures g s1) \<and>
    os_copied_depth (OffscreenRenderer_Resize g width height s) = os_copied_depth (create_captures g s1)"
proof -
  let ?size = "\<lparr>ex_width = max width 1, ex_height = max height 1\<rparr>"
  let ?s = "s\<lparr>os_size := ?size, os_projection := map_option (gx_change_extent g (os_size s) ?size) (os_projection s),
    os_viewport := Some ?size\<rparr>"
  obtain fb s1 where fb: "create_framebuffer ?s = (fb, s1)" by fastforce
  then have "os_use_depth s1 = os_use_depth s"
    by (auto simp: create_framebuffer_def view_defs Let_def split: if_splits)
  with fb show ?thesis
    by (intro exI [of _ "s1\<lparr>os_render_graph := map_option (\<lambda>rg. rg\<lparr>rg_framebuffer := fb\<rparr>) (os_render_graph s1)\<rparr>"])
      (simp add: OffscreenRenderer_Resize_def ReplaceFramebufferAndCaptures_def Let_def)
qed

theorem resized_frame_is_undefined_until_rendered:
  assumes "vsg_ok g" and "formats_ok g cf df" and "showing g cf df use_depth s t"
    and "s' = OffscreenRenderer_Resize g width height s" and "columns (os_size s') * rows (os_size s') \<le> 2 ^ 32"
  shows "OffscreenRenderer_GetResult g finished s' = Inr \<lparr>rr_extent = Some (os_size s'),
    rr_color = replicate (columns (os_size s') * 4 * rows (os_size s')) None,
    rr_depth = (if use_depth then replicate (columns (os_size s') * 4 * rows (os_size s')) None else []),
    rr_color_format = Some cf, rr_depth_format = Some df\<rparr>"
proof -
  let ?t = "settings_step g t (ResizeTo width height)" and ?n = "columns (os_size s') * 4 * rows (os_size s')"
  have show': "showing g cf df use_depth s' ?t"
    using showing_step [OF assms(1-3), of "ResizeTo width height"] assms(4) by simp
  obtain s1 where s1: "os_use_depth s1 = use_depth" "os_device s' = os_device (create_captures g s1)"
      "os_copied_color s' = os_copied_color (create_captures g s1)" "os_copied_depth s' = os_copied_depth (create_captures g s1)"
    using resized_device [of s g width height] assms(3,4) by (auto simp: showing_def)
  obtain i where i: "os_copied_color s' = Some i" "dv_texels (os_device s') i = (\<lambda>_. None)"
    using new_captures_are_undefined [of g s1] s1 by (metis option.exhaust_sel)
  have color: "color_buffer_of (gx_vulkan g) (os_size s') (os_device s') i = Inr (replicate ?n None)"
    by (rule undefined_color [OF i(2) assms(5)])
  have depth: "if use_depth then \<exists>b. os_copied_depth s' = Some b \<and>
      depth_buffer_of (os_size s') (os_device s') b = Inr (replicate ?n None) else os_copied_depth s' = None"
  proof (cases use_depth)
    case True
    with show' obtain c i k z b j where b: "depth_ready (gx_vulkan g) s' c i k z b j"
      by (auto simp: showing_def renderer_ok_def surfaces_ready_def)
    have "?n \<le> vk_size (gx_vulkan g) (dv_images (os_device s') ! z)"
      using b show' assms(2) unfolding depth_ready_def formats_ok_def showing_def by (metis insertCI)
    moreover have "dv_bytes (os_device s') b = (\<lambda>_. None)"
      using new_depth_is_undefined [of s1 g] True s1 b by (simp add: depth_ready_def)
    ultimately have "depth_buffer_of (os_size s') (os_device s') b = Inr (replicate ?n None)"
      using b by (simp add: depth_ready_def depth_buffer_of_def Let_def map_replicate_const ac_simps)
    with True b show ?thesis by (auto simp: depth_ready_def)
  next
    case False
    with show' show ?thesis by (auto simp: showing_def renderer_ok_def surfaces_ready_def)
  qed
  show ?thesis
    using color depth i show'
    by (auto simp: OffscreenRenderer_GetResult_def showing_def SetColorData_def SetDepthData_def RenderResult_def
        Let_def map_replicate_const)
qed

end
