(* ===== verification/Standalone.thy ===== *)
theory Standalone
  imports Core_System Onscreen Offscreen_Frames "HOL-Library.Signed_Division"
begin

text \<open>
  The program (\<open>standalone/src/main.cpp\<close>): from the options of the command line, which
  \<open>Boost.Program_options\<close> reads, to the kernel with its renderer, rendering job and service,
  plugins and connections, and the pacing of its main loop. Reading a scene file, making a window
  and what Vulkan and VulkanSceneGraph give are parameters. An exception that leaves \<open>main\<close> ends
  the program.
\<close>

section \<open>Options and set-up\<close>

record options =
  op_help :: bool
  op_renderer :: string
  op_plugins :: string
  op_render_service :: bool
  op_port :: int
  op_render_job :: bool
  op_width :: int
  op_height :: int
  op_update :: int
  op_threads :: nat
  op_connections :: "string list"
  op_scene :: "string list"

definition options_configuration :: "options \<Rightarrow> configuration" where
  "options_configuration opt =
     Set_int ''jobs.concurrency'' (int (op_threads opt)) (Set_int ''net.port'' (op_port opt) [])"

text \<open>
  The scene manager (\<open>subsystems/scene\<close>) holds one group of nodes, which \<open>GetRoot\<close> hands out for
  others to add to.
\<close>

record 'n scene_manager =
  m_scene :: "'n list"

definition make_SceneManager :: "'n scene_manager" where
  "make_SceneManager = \<lparr>m_scene = []\<rparr>"

definition GetRoot :: "'n scene_manager \<Rightarrow> 'n list" where
  "GetRoot s = m_scene s"

lemma GetRoot_new [simp]: "GetRoot make_SceneManager = []"
  by (simp add: GetRoot_def make_SceneManager_def)

text \<open>The nodes of the scene; the first object that cannot be read ends the program with -1.\<close>

fun load_scene :: "(string \<Rightarrow> bool) \<Rightarrow> string list \<Rightarrow> string list \<Rightarrow> string list option" where
  "load_scene reads [] scene = Some scene"
| "load_scene reads (file # files) scene =
     (if reads file then load_scene reads files (scene @ [file]) else None)"

text \<open>
  What the renderers are made with: the graphics library, the window the system makes, or the
  exception it throws, the device and instance of that window, and the memory of the device.
\<close>

record ('m, 'v) screen =
  sc_graphics :: "('m, 'v, string list) graphics"
  sc_defaults :: "('m, 'v, string list) screen_defaults"
  sc_window :: "int \<Rightarrow> int \<Rightarrow> extend option result"
  sc_setup :: "nat option \<times> nat option"
  sc_device :: device

datatype ('m, 'v) main_renderer =
    OnScreen "('m, 'v, string list) onscreen"
  | OffScreen "('m, 'v, string list) offscreen"

text \<open>
  The program when its set-up is done: the kernel, its renderers, the scene, the directories
  plugins are installed from and the nodes it connects to. The renderer 0 is the one of the
  kernel, 1 the off-screen one that serves beside an on-screen one.
\<close>

record ('m, 'v) program =
  pg_kernel :: kernel
  pg_renderers :: "nat \<rightharpoonup> ('m, 'v) main_renderer"
  pg_scene :: "string list"
  pg_plugins :: "string list"
  pg_connections :: "string list"

definition on_kernel :: "(kernel \<Rightarrow> kernel result) \<Rightarrow> ('m, 'v) program \<Rightarrow> ('m, 'v) program result" where
  "on_kernel f p = bind_result (f (pg_kernel p)) (\<lambda>k. Inr (p\<lparr>pg_kernel := k\<rparr>))"

text \<open>\<open>Core::SetRenderer\<close>.\<close>

definition SetRenderer :: "nat \<Rightarrow> ('m, 'v) main_renderer \<Rightarrow> ('m, 'v) program \<Rightarrow> ('m, 'v) program result" where
  "SetRenderer r renderer p =
     Inr (p\<lparr>pg_kernel := Core_set ''IRenderer'' (KRenderer r, pg_kernel p),
            pg_renderers := (pg_renderers p)(r \<mapsto> renderer)\<rparr>)"

definition enable_job :: "options \<Rightarrow> ('m, 'v) program \<Rightarrow> ('m, 'v) program result" where
  "enable_job opt p = (if op_render_job opt then on_kernel EnableRenderingJob p else Inr p)"

text \<open>
  The renderers as \<open>main\<close> makes them: the off-screen one with the defaults of its constructor,
  then resized; the set-up of an on-screen one is read from its window, which may be missing.
\<close>

definition new_onscreen :: "('m, 'v) screen \<Rightarrow> options \<Rightarrow> string list \<Rightarrow> ('m, 'v, string list) onscreen result" where
  "new_onscreen sc opt scene =
     bind_result (sc_window sc (op_width opt) (op_height opt)) (\<lambda>window.
       make_OnscreenRenderer (sc_defaults sc) (\<lambda>_ _. window) scene (op_width opt) (op_height opt))"

definition new_offscreen ::
  "('m, 'v) screen \<Rightarrow> (nat option \<times> nat option) option \<Rightarrow> string list \<Rightarrow> ('m, 'v, string list) offscreen result" where
  "new_offscreen sc existing scene =
     make_OffscreenRenderer (sc_graphics sc) existing scene True False R8G8B8A8_UNORM D32_SFLOAT 1
       \<lparr>ex_width = 2048, ex_height = 1024\<rparr> (sc_device sc) True"

definition GetSetup :: "('m, 'v) screen \<Rightarrow> ('m, 'v, string list) onscreen \<Rightarrow> (nat option \<times> nat option) result" where
  "GetSetup sc s = (case on_window s of None \<Rightarrow> Inl UndefinedBehaviour | Some _ \<Rightarrow> Inr (sc_setup sc))"

definition resized :: "('m, 'v) screen \<Rightarrow> options \<Rightarrow> ('m, 'v, string list) offscreen \<Rightarrow> ('m, 'v) main_renderer" where
  "resized sc opt s = OffScreen (OffscreenRenderer_Resize (sc_graphics sc) (op_width opt) (op_height opt) s)"

definition enable_offscreen_service ::
  "('m, 'v) screen \<Rightarrow> options \<Rightarrow> ('m, 'v, string list) onscreen \<Rightarrow> ('m, 'v) program \<Rightarrow> ('m, 'v) program result" where
  "enable_offscreen_service sc opt onscreen p =
     bind_result (GetSetup sc onscreen) (\<lambda>setup.
     bind_result (new_offscreen sc (Some setup) (pg_scene p)) (\<lambda>offscreen_renderer.
     bind_result (on_kernel (EnableRenderingService (Some 1)) p) (\<lambda>p1.
       Inr (p1\<lparr>pg_renderers := (pg_renderers p1)(1 \<mapsto> resized sc opt offscreen_renderer),
               pg_kernel := put_object ''OffscreenRenderer'' (KRenderer 1) (pg_kernel p1)\<rparr>))))"

definition setup_renderer :: "('m, 'v) screen \<Rightarrow> options \<Rightarrow> ('m, 'v) program \<Rightarrow> ('m, 'v) program result" where
  "setup_renderer sc opt p =
     (if op_renderer opt = ''onscreen'' then
        bind_result (new_onscreen sc opt (pg_scene p)) (\<lambda>renderer.
        bind_result (SetRenderer 0 (OnScreen renderer) p) (\<lambda>p1.
        bind_result (enable_job opt p1) (\<lambda>p2.
          if op_render_service opt then enable_offscreen_service sc opt renderer p2 else Inr p2)))
      else if op_renderer opt = ''offscreen'' then
        bind_result (new_offscreen sc None (pg_scene p)) (\<lambda>renderer.
        bind_result (SetRenderer 0 (resized sc opt renderer) p) (\<lambda>p1.
        bind_result (enable_job opt p1) (\<lambda>p2.
          if op_render_service opt then on_kernel (EnableRenderingService None) p2 else Inr p2)))
      else Inr p)"

definition install_plugins :: "options \<Rightarrow> ('m, 'v) program \<Rightarrow> ('m, 'v) program result" where
  "install_plugins opt p =
     (if op_plugins opt \<noteq> [] then
        bind_result (Core_get ''IPluginManager'' (pg_kernel p)) (\<lambda>_.
          Inr (p\<lparr>pg_plugins := pg_plugins p @ [op_plugins opt]\<rparr>))
      else Inr p)"

text \<open>A URL that cannot be parsed throws out of the loop.\<close>

fun connect_all :: "string list \<Rightarrow> ('m, 'v) program \<Rightarrow> ('m, 'v) program result" where
  "connect_all [] p = Inr p"
| "connect_all (url # urls) p =
     (if parse_url url = None then Inl UrlMalformedException
      else connect_all urls (p\<lparr>pg_connections := pg_connections p @ [url]\<rparr>))"

definition establish_connections :: "options \<Rightarrow> ('m, 'v) program \<Rightarrow> ('m, 'v) program result" where
  "establish_connections opt p =
     (if ProvidesSubsystem ''IMessageEndpoint'' (pg_kernel p) then
        bind_result (RequireSubsystem ''IMessageEndpoint'' (pg_kernel p)) (\<lambda>_. connect_all (op_connections opt) p)
      else Inr p)"

text \<open>
  The interval is a quotient of whole milliseconds, given in nanoseconds. Signed division
  rounds towards zero.
\<close>

definition targetInterval :: "int \<Rightarrow> int result" where
  "targetInterval max_update_rate =
     (if max_update_rate = 0 then Inl UndefinedBehaviour
      else Inr (1000 sdiv max_update_rate * 1000000))"

text \<open>
  \<open>main\<close> up to its loop: it returns a code, throws (or has no defined result), or reaches the
  loop with the interval between its iterations.
\<close>

datatype ('m, 'v) main_result = MainReturns int | MainThrows exn | MainRuns "('m, 'v) program" int

definition to_main :: "(('m, 'v) program \<times> int) result \<Rightarrow> ('m, 'v) main_result" where
  "to_main r = (case r of Inl x \<Rightarrow> MainThrows x | Inr (p, target) \<Rightarrow> MainRuns p target)"

definition main_setup ::
  "environment \<Rightarrow> ('m, 'v) screen \<Rightarrow> (string \<Rightarrow> bool) \<Rightarrow> options \<Rightarrow> ('m, 'v) main_result" where
  "main_setup env sc reads opt =
     (if op_help opt then MainReturns 1
      else case Core_init env (options_configuration opt) (op_port opt < 0) of
             Inl x \<Rightarrow> MainThrows x
           | Inr k \<Rightarrow>
               (case load_scene reads (op_scene opt) (GetRoot make_SceneManager) of
                  None \<Rightarrow> MainReturns (- 1)
                | Some scene \<Rightarrow>
                    to_main
                      (bind_result (setup_renderer sc opt \<lparr>pg_kernel = k, pg_renderers = Map.empty,
                          pg_scene = (if scene = [] then [] else scene @ [''light'']), pg_plugins = [], pg_connections = []\<rparr>)
                        (\<lambda>p1. bind_result (install_plugins opt p1) (\<lambda>p2.
                         bind_result (establish_connections opt p2) (\<lambda>p3.
                         bind_result (targetInterval (op_update opt)) (\<lambda>target. Inr (p3, target))))))))"

section \<open>The main loop\<close>

text \<open>
  The loop, for what \<open>ShouldShutdown\<close> gives and the clock shows at the beginning of each
  iteration and after its pause: how long it pauses, and when it invokes the cycle.
\<close>

definition pause_of :: "int \<Rightarrow> int \<Rightarrow> int \<Rightarrow> int" where
  "pause_of target now last_iteration =
     (let elapsed = now - last_iteration in if elapsed < target then target - elapsed else 0)"

fun main_loop :: "int \<Rightarrow> int \<Rightarrow> (bool \<times> int \<times> int) list \<Rightarrow> (int \<times> int) list" where
  "main_loop target last_iteration [] = []"
| "main_loop target last_iteration ((stop, now, after_pause) # rest) =
     (if stop then []
      else (pause_of target now last_iteration, after_pause) # main_loop target after_pause rest)"

section \<open>The kernel of the program\<close>

definition registry_of :: "options \<Rightarrow> string list \<Rightarrow> kernel_object" where
  "registry_of opt services = (if op_port opt < 0 then KLocalRegistry services else KRemoteRegistry services)"

text \<open>What the set-up needs to know of a kernel: its jobs, its services, and what else it provides.\<close>

definition kernel_has :: "options \<Rightarrow> string list \<Rightarrow> string list \<Rightarrow> kernel \<Rightarrow> bool" where
  "kernel_has opt names services k \<longleftrightarrow>
     RequireSubsystem ''JobManager'' k = Inr (KJobManager (int (op_threads opt)) names) \<and>
     RequireSubsystem ''IServiceRegistry'' k = Inr (registry_of opt services) \<and>
     RequireSubsystem ''IPluginManager'' k = Inr KPluginManager \<and>
     (ProvidesSubsystem ''IMessageEndpoint'' k \<longleftrightarrow> 0 \<le> op_port opt) \<and>
     (0 \<le> op_port opt \<longrightarrow> (\<exists>x. RequireSubsystem ''IMessageEndpoint'' k = Inr x))"

definition cleanup_jobs :: "options \<Rightarrow> string list" where
  "cleanup_jobs opt = ''events-listener-clean-up'' #
     (if op_port opt < 0 then []
      else [''boost-web-socket-endpoints-clean-up-'' @ to_string (unat (word_of_int (op_port opt) :: 16 word))])"

definition int_option :: "int \<Rightarrow> bool" where
  "int_option i \<longleftrightarrow> - (2 ^ 31) \<le> i \<and> i < 2 ^ 31"

lemma options_configuration_gets:
  assumes "int_option (op_port opt)" and "op_threads opt < 2 ^ 31"
  shows "GetAsInt ''jobs.concurrency'' 4 (options_configuration opt) = Inr (int (op_threads opt))"
    and "net_options_of env (options_configuration opt)
      \<lparr>no_auto = 1, no_listen = True, no_threads = 1, no_port = op_port opt, no_address = ''127.0.0.1'', no_node = en_uuid env\<rparr>"
  using assms
  by (simp_all add: options_configuration_def net_options_of_def int_option_def GetAsInt_Set_int)
    (simp_all add: config_defs)

lemma Core_init_of_options:
  assumes "int_option (op_port opt)" and "op_threads opt < 2 ^ 31"
    and "0 \<le> op_port opt \<Longrightarrow> en_address env ''127.0.0.1'' \<and> list_all id (en_listens env)"
    and "op_threads opt + 1 + (if op_port opt < 0 then 0 else 1) \<le> en_threads env"
  shows "\<exists>k. Core_init env (options_configuration opt) (op_port opt < 0) = Inr k \<and>
    kernel_has opt (cleanup_jobs opt) [] k \<and> \<not> ProvidesSubsystem ''IRenderer'' k \<and>
    \<not> ProvidesSubsystem ''IRenderResultEncoder'' k"
proof -
  let ?n = "int (op_threads opt)"
  have base: "start_base env (options_configuration opt) = Inr (base_environment env ?n, base_kernel ?n)"
    using options_configuration_gets(1) [OF assms(1,2)] assms(4) by (simp add: start_base_Inr_iff)
  show ?thesis
  proof (cases "op_port opt < 0")
    case True
    then show ?thesis
      by (simp add: Core_init_def base start_registry_def Core_set_def base_kernel_def kernel_has_def registry_of_def
          cleanup_jobs_def)
  next
    case False
    let ?net = "\<lparr>no_auto = 1, no_listen = True, no_threads = 1, no_port = op_port opt, no_address = ''127.0.0.1'', no_node = en_uuid env\<rparr>"
    have "io_threads 1 = 1" by (simp add: io_threads_def)
    then have "can_network (base_environment env ?n) ?net"
      using assms(3,4) False by (simp add: can_network_def base_environment_def)
    then have "start_registry (base_environment env ?n) (options_configuration opt) False (base_kernel ?n) =
        Inr (networked_kernel ?net ?n)"
      using options_configuration_gets(2) [OF assms(1,2), of env]
      by (intro start_registry_eq) (simp_all add: net_options_base)
    then show ?thesis
      using False
      by (simp add: Core_init_def base Core_set_def networked_kernel_def base_kernel_def kernel_has_def registry_of_def
          cleanup_jobs_def Let_def)
  qed
qed

lemma kernel_has_put [simp]:
  assumes "ty \<notin> {''JobManager'', ''IServiceRegistry'', ''IPluginManager'', ''IMessageEndpoint''}"
  shows "kernel_has opt names services (put_object ty x k) \<longleftrightarrow> kernel_has opt names services k"
  using assms by (auto simp: kernel_has_def)

lemma enable_job_eq:
  assumes "kernel_has opt names services (pg_kernel p)"
  shows "\<exists>k. enable_job opt p = Inr (p\<lparr>pg_kernel := k\<rparr>) \<and>
    kernel_has opt (names @ (if op_render_job opt then [''enable-rendering-job''] else [])) services k \<and>
    (\<forall>ty. ty \<noteq> ''JobManager'' \<longrightarrow> RequireSubsystem ty k = RequireSubsystem ty (pg_kernel p))"
proof (cases "op_render_job opt")
  case True
  with assms show ?thesis
    by (auto simp: enable_job_def on_kernel_def EnableRenderingJob_def on_object_def kernel_has_def)
next
  case False
  with assms show ?thesis by (intro exI [of _ "pg_kernel p"]) (simp add: enable_job_def)
qed

lemma EnableRenderingService_eq:
  assumes "kernel_has opt names services k" and "r \<noteq> None \<or> (\<exists>x. RequireSubsystem ''IRenderer'' k = Inr x)"
  shows "\<exists>k'. EnableRenderingService r k = Inr k' \<and> kernel_has opt names (services @ [''render'']) k' \<and>
    RequireSubsystem ''IRenderer'' k' = RequireSubsystem ''IRenderer'' k"
  using assms
  by (cases "op_port opt < 0"; cases r)
    (auto simp: EnableRenderingService_def on_object_def kernel_has_def registry_of_def Let_def)

definition has_renderer :: "options \<Rightarrow> bool" where
  "has_renderer opt \<longleftrightarrow> op_renderer opt = ''onscreen'' \<or> op_renderer opt = ''offscreen''"

definition jobs_of :: "options \<Rightarrow> string list" where
  "jobs_of opt = cleanup_jobs opt @ (if has_renderer opt \<and> op_render_job opt then [''enable-rendering-job''] else [])"

definition services_of :: "options \<Rightarrow> string list" where
  "services_of opt = (if has_renderer opt \<and> op_render_service opt then [''render''] else [])"

text \<open>
  What the renderers need: the libraries keep to their documentation, and the window and the
  device can be made; for a service beside an on-screen renderer there has to be a window.
\<close>

definition can_render :: "('m, 'v) screen \<Rightarrow> options \<Rightarrow> bool" where
  "can_render sc opt \<longleftrightarrow>
     vsg_ok (sc_graphics sc) \<and> formats_ok (sc_graphics sc) R8G8B8A8_UNORM D32_SFLOAT \<and>
     (if op_renderer opt = ''onscreen'' then
        (case sc_window sc (op_width opt) (op_height opt) of
           Inl _ \<Rightarrow> False
         | Inr window \<Rightarrow> (if op_render_service opt
             then window \<noteq> None \<and> \<not> isl (SetupInstanceAndDevice (sc_graphics sc) (Some (sc_setup sc))) else True))
      else if op_renderer opt = ''offscreen'' then \<not> isl (SetupInstanceAndDevice (sc_graphics sc) None) else True)"

text \<open>
  The renderers that were asked for: an on-screen one has the window the system made and shows
  the scene in it; an off-screen one has the size that was asked for, at least 1 by 1, and its
  next frame, of the scene, is defined.
\<close>

definition onscreen_made :: "('m, 'v) screen \<Rightarrow> options \<Rightarrow> string list \<Rightarrow> ('m, 'v, string list) onscreen \<Rightarrow> bool" where
  "onscreen_made sc opt scene s \<longleftrightarrow>
     sc_window sc (op_width opt) (op_height opt) = Inr (on_window s) \<and> on_scene s = scene \<and>
     (if on_window s = None then on_viewer s = None else on_screen s)"

definition offscreen_made :: "('m, 'v) screen \<Rightarrow> options \<Rightarrow> string list \<Rightarrow> ('m, 'v, string list) offscreen \<Rightarrow> bool" where
  "offscreen_made sc opt scene s \<longleftrightarrow>
     os_size s = \<lparr>ex_width = max (op_width opt) 1, ex_height = max (op_height opt) 1\<rparr> \<and> os_root s = [scene] \<and>
     \<not> isl (OffscreenRenderer_Render (sc_graphics sc) True s)"

definition renderers_made :: "('m, 'v) screen \<Rightarrow> options \<Rightarrow> string list \<Rightarrow> (nat \<rightharpoonup> ('m, 'v) main_renderer) \<Rightarrow> bool" where
  "renderers_made sc opt scene rs \<longleftrightarrow>
     (case rs 0 of
        None \<Rightarrow> \<not> has_renderer opt
      | Some (OnScreen s) \<Rightarrow> op_renderer opt = ''onscreen'' \<and> onscreen_made sc opt scene s
      | Some (OffScreen s) \<Rightarrow> op_renderer opt = ''offscreen'' \<and> offscreen_made sc opt scene s) \<and>
     (case rs 1 of
        None \<Rightarrow> op_renderer opt \<noteq> ''onscreen'' \<or> \<not> op_render_service opt
      | Some (OnScreen s) \<Rightarrow> False
      | Some (OffScreen s) \<Rightarrow> op_renderer opt = ''onscreen'' \<and> op_render_service opt \<and> offscreen_made sc opt scene s)"

lemma new_onscreen_made:
  assumes "sc_window sc (op_width opt) (op_height opt) = Inr window"
  shows "\<exists>s. new_onscreen sc opt scene = Inr s \<and> onscreen_made sc opt scene s \<and> on_window s = window"
  using assms
  by (cases window)
    (simp_all add: new_onscreen_def make_OnscreenRenderer_def SetupWindow_def Onscreen_SetupCamera_def
      Onscreen_SetupCommandGraph_def onscreen_made_def on_screen_def)

lemma new_offscreen_made:
  assumes "vsg_ok (sc_graphics sc)" and "formats_ok (sc_graphics sc) R8G8B8A8_UNORM D32_SFLOAT"
    and "\<not> isl (SetupInstanceAndDevice (sc_graphics sc) existing)"
  shows "\<exists>s s'. new_offscreen sc existing scene = Inr s \<and> resized sc opt s = OffScreen s' \<and> offscreen_made sc opt scene s'"
proof -
  let ?g = "sc_graphics sc"
  obtain st q where "SetupInstanceAndDevice ?g existing = Inr (st, q)"
    using assms(3) by (cases "SetupInstanceAndDevice ?g existing") auto
  from constructs [OF assms(1,2) this, of "\<lparr>ex_width = 2048, ex_height = 1024\<rparr>" scene True False 1 "sc_device sc"]
  obtain s where s: "new_offscreen sc existing scene = Inr s" "renderer_ok ?g s" "recorded s" "os_root s = [scene]"
      "os_color_format s = R8G8B8A8_UNORM" "os_depth_format s = D32_SFLOAT"
    unfolding new_offscreen_def by auto
  note kept = resize_keeps [OF assms(1) s(2,3), of "op_width opt" "op_height opt"]
  have "formats_ok ?g (os_color_format (OffscreenRenderer_Resize ?g (op_width opt) (op_height opt) s))
      (os_depth_format (OffscreenRenderer_Resize ?g (op_width opt) (op_height opt) s))"
    using assms(2) s(5,6) kept by simp
  from renders [OF this assms(1)] kept s(4)
  have "offscreen_made sc opt scene (OffscreenRenderer_Resize ?g (op_width opt) (op_height opt) s)"
    by (auto simp: offscreen_made_def)
  with s(1) show ?thesis by (auto simp: resized_def)
qed

lemma setup_renderer_eq:
  assumes "kernel_has opt (cleanup_jobs opt) [] (pg_kernel p)" and "pg_renderers p = Map.empty"
    and "\<not> ProvidesSubsystem ''IRenderer'' (pg_kernel p)" and "can_render sc opt"
  shows "\<exists>k rs. setup_renderer sc opt p = Inr (p\<lparr>pg_kernel := k, pg_renderers := rs\<rparr>) \<and>
    renderers_made sc opt (pg_scene p) rs \<and> kernel_has opt (jobs_of opt) (services_of opt) k \<and>
    (if has_renderer opt then RequireSubsystem ''IRenderer'' k = Inr (KRenderer 0) else \<not> ProvidesSubsystem ''IRenderer'' k)"
proof (cases "has_renderer opt")
  case False
  with assms show ?thesis
    by (intro exI [of _ "pg_kernel p"] exI [of _ Map.empty])
      (auto simp: has_renderer_def setup_renderer_def jobs_of_def services_of_def renderers_made_def)
next
  case True
  have libs: "vsg_ok (sc_graphics sc)" "formats_ok (sc_graphics sc) R8G8B8A8_UNORM D32_SFLOAT"
    using assms(4) by (simp_all add: can_render_def)
  have step: "\<exists>k2. enable_job opt (p\<lparr>pg_kernel := Core_set ''IRenderer'' (KRenderer 0, pg_kernel p), pg_renderers := rs\<rparr>) =
        Inr (p\<lparr>pg_kernel := k2, pg_renderers := rs\<rparr>) \<and>
      kernel_has opt (jobs_of opt) [] k2 \<and> RequireSubsystem ''IRenderer'' k2 = Inr (KRenderer 0)" for rs
  proof -
    let ?p1 = "p\<lparr>pg_kernel := Core_set ''IRenderer'' (KRenderer 0, pg_kernel p), pg_renderers := rs\<rparr>"
    have "kernel_has opt (cleanup_jobs opt) [] (pg_kernel ?p1)" using assms(1) by (simp add: Core_set_def)
    from enable_job_eq [OF this] obtain k where "enable_job opt ?p1 = Inr (?p1\<lparr>pg_kernel := k\<rparr>)"
        "kernel_has opt (jobs_of opt) [] k" "RequireSubsystem ''IRenderer'' k = Inr (KRenderer 0)"
      using True by (auto simp: jobs_of_def Core_set_def)
    then show ?thesis by (intro exI [of _ k]) simp
  qed
  show ?thesis
  proof (cases "op_renderer opt = ''onscreen''")
    case on: True
    obtain window where window: "sc_window sc (op_width opt) (op_height opt) = Inr window"
        "op_render_service opt \<Longrightarrow> window \<noteq> None \<and> \<not> isl (SetupInstanceAndDevice (sc_graphics sc) (Some (sc_setup sc)))"
      using assms(4) on by (auto simp: can_render_def split: sum.splits if_splits)
    obtain s where s: "new_onscreen sc opt (pg_scene p) = Inr s" "onscreen_made sc opt (pg_scene p) s" "on_window s = window"
      using new_onscreen_made [OF window(1)] by blast
    obtain k2 where k2: "enable_job opt (p\<lparr>pg_kernel := Core_set ''IRenderer'' (KRenderer 0, pg_kernel p),
          pg_renderers := Map.empty(0 \<mapsto> OnScreen s)\<rparr>) = Inr (p\<lparr>pg_kernel := k2, pg_renderers := Map.empty(0 \<mapsto> OnScreen s)\<rparr>)"
        "kernel_has opt (jobs_of opt) [] k2" "RequireSubsystem ''IRenderer'' k2 = Inr (KRenderer 0)"
      using step by blast
    show ?thesis
    proof (cases "op_render_service opt")
      case False
      then show ?thesis
        using True on s k2 assms(2)
        by (intro exI [of _ k2] exI [of _ "Map.empty(0 \<mapsto> OnScreen s)"])
          (simp add: setup_renderer_def SetRenderer_def services_of_def renderers_made_def)
    next
      case service: True
      obtain f1 f2 where off_made: "new_offscreen sc (Some (sc_setup sc)) (pg_scene p) = Inr f1" "resized sc opt f1 = OffScreen f2"
          "offscreen_made sc opt (pg_scene p) f2"
        using new_offscreen_made [OF libs, of "Some (sc_setup sc)" "pg_scene p" opt] window(2) [OF service] by blast
      obtain k3 where k3: "EnableRenderingService (Some 1) k2 = Inr k3" "kernel_has opt (jobs_of opt) (services_of opt) k3"
          "RequireSubsystem ''IRenderer'' k3 = Inr (KRenderer 0)"
        using EnableRenderingService_eq [OF k2(2), of "Some 1"] k2(3) True service by (auto simp: services_of_def)
      have "GetSetup sc s = Inr (sc_setup sc)"
        using s(3) window(2) [OF service] by (auto simp: GetSetup_def)
      then show ?thesis
        using True on service s k2(1) k3 off_made assms(2)
        by (intro exI [of _ "put_object ''OffscreenRenderer'' (KRenderer 1) k3"]
            exI [of _ "Map.empty(0 \<mapsto> OnScreen s, 1 \<mapsto> OffScreen f2)"])
          (simp add: setup_renderer_def SetRenderer_def enable_offscreen_service_def on_kernel_def renderers_made_def)
    qed
  next
    case notOn: False
    then have off: "op_renderer opt = ''offscreen''" using True by (simp add: has_renderer_def)
    then have "\<not> isl (SetupInstanceAndDevice (sc_graphics sc) None)" using assms(4) by (simp add: can_render_def)
    then obtain f1 f2 where off_made: "new_offscreen sc None (pg_scene p) = Inr f1" "resized sc opt f1 = OffScreen f2"
        "offscreen_made sc opt (pg_scene p) f2"
      using new_offscreen_made [OF libs] by blast
    obtain k2 where k2: "enable_job opt (p\<lparr>pg_kernel := Core_set ''IRenderer'' (KRenderer 0, pg_kernel p),
          pg_renderers := Map.empty(0 \<mapsto> OffScreen f2)\<rparr>) = Inr (p\<lparr>pg_kernel := k2, pg_renderers := Map.empty(0 \<mapsto> OffScreen f2)\<rparr>)"
        "kernel_has opt (jobs_of opt) [] k2" "RequireSubsystem ''IRenderer'' k2 = Inr (KRenderer 0)"
      using step by blast
    show ?thesis
    proof (cases "op_render_service opt")
      case False
      then show ?thesis
        using True off off_made k2 assms(2)
        by (intro exI [of _ k2] exI [of _ "Map.empty(0 \<mapsto> OffScreen f2)"])
          (simp add: setup_renderer_def SetRenderer_def services_of_def renderers_made_def)
    next
      case service: True
      obtain k3 where k3: "EnableRenderingService None k2 = Inr k3" "kernel_has opt (jobs_of opt) (services_of opt) k3"
          "RequireSubsystem ''IRenderer'' k3 = Inr (KRenderer 0)"
        using EnableRenderingService_eq [OF k2(2), of None] k2(3) True service by (auto simp: services_of_def)
      show ?thesis
        using True off service off_made k2(1) k3 assms(2)
        by (intro exI [of _ k3] exI [of _ "Map.empty(0 \<mapsto> OffScreen f2)"])
          (simp add: setup_renderer_def SetRenderer_def on_kernel_def renderers_made_def)
    qed
  qed
qed

lemma load_scene_all: "list_all reads files \<Longrightarrow> load_scene reads files scene = Some (scene @ files)"
  by (induction files arbitrary: scene) auto

lemma connect_all_eq:
  "list_all (\<lambda>url. parse_url url \<noteq> None) urls \<Longrightarrow>
     connect_all urls p = Inr (p\<lparr>pg_connections := pg_connections p @ urls\<rparr>)"
  by (induction urls arbitrary: p) auto

section \<open>Properties\<close>


definition demo_run :: options where
  "demo_run = \<lparr>op_help = False, op_renderer = ''offscreen'', op_plugins = [], op_render_service = True, op_port = 9000,
     op_render_job = False, op_width = 500, op_height = 0, op_update = 60, op_threads = 4, op_connections = [],
     op_scene = []\<rparr>"

definition demo_screen :: "(unit, unit) screen" where
  "demo_screen = \<lparr>sc_graphics = \<lparr>gx_vulkan = example_vulkan, gx_instance = 1, gx_queue = (\<lambda>_. (Some 1, 0)),
       gx_create_device = (\<lambda>_ _. 1), gx_look_at = (), gx_perspective = (\<lambda>_. ()), gx_change_extent = (\<lambda>_ _ m. m),
       gx_color = (\<lambda>root m v e p. ''0000''), gx_depth = (\<lambda>root m v e p. ''0000''),
       gx_stores = (\<lambda>pass. case pass of ColorPass _ \<Rightarrow> (0, None) | ColorDepthPass _ _ \<Rightarrow> (0, Some 1)
         | MultisampledColorPass _ _ \<Rightarrow> (1, None) | MultisampledColorDepthPass _ _ _ \<Rightarrow> (1, Some 3)),
       gx_area = (\<lambda>last now area. case last of None \<Rightarrow> area | Some _ \<Rightarrow> now), gx_needs_compile = (\<lambda>_. True)\<rparr>,
     sc_defaults = \<lparr>sd_look_at = (), sd_ellipsoid = (\<lambda>_. None), sd_perspective = (\<lambda>_. ())\<rparr>,
     sc_window = (\<lambda>_ _. Inr None), sc_setup = (None, None),
     sc_device = \<lparr>dv_images = [], dv_layout = (\<lambda>_. LAYOUT_UNDEFINED), dv_texels = (\<lambda>_ _. None),
        dv_buffers = [], dv_bytes = (\<lambda>_ _. None)\<rparr>\<rparr>"

lemma demo_can_render: "can_render demo_screen demo_run"
  by (simp add: can_render_def demo_screen_def demo_run_def vsg_ok_def formats_ok_def example_vulkan_def
      SetupInstanceAndDevice_def create_own_device_def)


text \<open>
  What is assumed of the clock: it does not run backwards, and a pause is not cut short.
\<close>

fun clock_ok :: "int \<Rightarrow> int \<Rightarrow> (bool \<times> int \<times> int) list \<Rightarrow> bool" where
  "clock_ok target last_iteration [] = True"
| "clock_ok target last_iteration ((stop, now, after_pause) # rest) \<longleftrightarrow>
     last_iteration \<le> now \<and> now + pause_of target now last_iteration \<le> after_pause \<and>
     clock_ok target after_pause rest"

lemma pause_reaches_interval: "last_iteration + target \<le> now + pause_of target now last_iteration"
  by (simp add: pause_of_def Let_def)

lemma main_loop_spaced:
  "clock_ok target last_iteration readings \<Longrightarrow>
     sorted_wrt (\<lambda>s t. s + target \<le> t) (last_iteration # map snd (take 1 (main_loop target last_iteration readings))) \<and>
     (\<forall>i. Suc i < length (main_loop target last_iteration readings) \<longrightarrow>
       snd (main_loop target last_iteration readings ! i) + target \<le> snd (main_loop target last_iteration readings ! Suc i))"
proof (induction target last_iteration readings rule: main_loop.induct)
  case (2 target last_iteration stop now after_pause rest)
  show ?case
  proof (cases stop)
    case False
    have first: "last_iteration + target \<le> after_pause"
      using "2.prems" pause_reaches_interval [of last_iteration target now] by simp
    have IH: "sorted_wrt (\<lambda>s t. s + target \<le> t) (after_pause # map snd (take 1 (main_loop target after_pause rest)))"
      "\<forall>i. Suc i < length (main_loop target after_pause rest) \<longrightarrow>
       snd (main_loop target after_pause rest ! i) + target \<le> snd (main_loop target after_pause rest ! Suc i)"
      using "2.IH" [OF False] "2.prems" by auto
    have "snd ((main_loop target last_iteration ((stop, now, after_pause) # rest)) ! i) + target
        \<le> snd ((main_loop target last_iteration ((stop, now, after_pause) # rest)) ! Suc i)"
      if "Suc i < length (main_loop target last_iteration ((stop, now, after_pause) # rest))" for i
    proof (cases i)
      case 0
      then show ?thesis using that IH(1) False by (cases "main_loop target after_pause rest") auto
    next
      case (Suc j)
      then show ?thesis using that IH(2) False by simp
    qed
    then show ?thesis using first False by simp
  qed simp
qed simp

text \<open>
  C37: the rate limit. With a positive rate the cycles are invoked at least one interval
  apart; but the interval is a whole number of milliseconds, rounded down, so the limit is
  the one that was asked for only if the rate divides 1000, it is exceeded by any other rate,
  and a rate above 1000 does not limit anything. A rate of 0 divides by zero.
\<close>

theorem update_rate_is_limited:
  assumes "0 < rate" and "targetInterval rate = Inr target" and "clock_ok target last_iteration readings"
  shows "(\<forall>i. Suc i < length (main_loop target last_iteration readings) \<longrightarrow>
      snd (main_loop target last_iteration readings ! i) + target \<le> snd (main_loop target last_iteration readings ! Suc i)) \<and>
    (target * rate = 10 ^ 9 \<longleftrightarrow> rate dvd 1000) \<and> target * rate \<le> 10 ^ 9 \<and> (target = 0 \<longleftrightarrow> 1000 < rate) \<and>
    targetInterval 0 = Inl UndefinedBehaviour"
proof -
  have t: "target = 1000 div rate * 1000000"
    using assms(1,2) by (simp add: targetInterval_def signed_divide_int_def split: if_splits)
  have split: "1000 = 1000 div rate * rate + 1000 mod rate" by simp
  have "0 \<le> 1000 mod rate" using assms(1) by simp
  with split have le: "1000 div rate * rate \<le> 1000" by linarith
  have product: "target * rate = 1000 div rate * rate * 1000000" by (simp add: t)
  have "1000 div rate * rate = 1000 \<longleftrightarrow> rate dvd 1000"
    using split unfolding dvd_eq_mod_eq_0 by linarith
  moreover have "x * 1000000 = 10 ^ 9 \<longleftrightarrow> x = 1000" for x :: int by auto
  ultimately have "target * rate = 10 ^ 9 \<longleftrightarrow> rate dvd 1000" unfolding product by (simp only:)
  moreover have "target * rate \<le> 10 ^ 9"
    unfolding product using mult_right_mono [OF le, of 1000000] by (simp only: power_numeral) simp
  moreover have "target = 0 \<longleftrightarrow> 1000 < rate" using assms(1) by (auto simp: t zdiv_eq_0_iff)
  ultimately show ?thesis
    using main_loop_spaced [OF assms(3)] by (simp add: targetInterval_def)
qed

theorem update_rate_is_limited_witness:
  "main_loop 16000000 0 [(False, 1000000, 16000000), (False, 20000000, 32000000), (True, 0, 0)] =
     [(15000000, 16000000), (12000000, 32000000)] \<and> (16000000 :: int) * 60 \<noteq> 10 ^ 9"
proof -
  have "\<not> (60 :: int) dvd 1000" by simp
  moreover have "targetInterval 60 = Inr 16000000" by (simp add: targetInterval_def signed_divide_int_def)
  ultimately show ?thesis
    using update_rate_is_limited [of 60 16000000 0 "[(False, 1000000, 16000000), (False, 20000000, 32000000)]"]
    by (simp add: pause_of_def)
qed

end
