(* ===== verification/Offscreen_Service.thy ===== *)
theory Offscreen_Service
  imports Offscreen_Frames
begin

text \<open>
  The rendering service over the off-screen renderer: the contract of \<open>IRenderer\<close> that the
  service relies on, with the off-screen renderer as its provider, and the frame of a composite
  renderer whose services draw with off-screen renderers.
\<close>

section \<open>The renderer as the service uses it\<close>

text \<open>
  What \<open>RenderService::Render\<close> does with its renderer once the request is read: resizing if the
  size is another one, the projection and the view if they are given, a frame and its result.
\<close>

definition service_frame ::
  "('r \<Rightarrow> extend) \<Rightarrow> (int \<Rightarrow> int \<Rightarrow> 'r \<Rightarrow> 'r) \<Rightarrow> ('m \<Rightarrow> 'r \<Rightarrow> 'r) \<Rightarrow> ('v \<Rightarrow> 'r \<Rightarrow> 'r) \<Rightarrow> ('r \<Rightarrow> (bool \<times> 'r) result) \<Rightarrow>
     ('r \<Rightarrow> 'b result) \<Rightarrow> extend \<Rightarrow> 'm option \<Rightarrow> 'v option \<Rightarrow> 'r \<Rightarrow> ('b \<times> 'r) result" where
  "service_frame size_of resize project look render get_result e m v r =
     (let r1 = (if size_of r \<noteq> e then resize (ex_width e) (ex_height e) r else r);
          r2 = (case m of None \<Rightarrow> r1 | Some m \<Rightarrow> project m r1);
          r3 = (case v of None \<Rightarrow> r2 | Some v \<Rightarrow> look v r2)
      in bind_result (render r3) (\<lambda>(_, r4). bind_result (get_result r4) (\<lambda>b. Inr (b, r4))))"

locale image_renderer =
  fixes size_of :: "'r \<Rightarrow> extend"
    and resize :: "int \<Rightarrow> int \<Rightarrow> 'r \<Rightarrow> 'r"
    and project :: "'f perspective \<times> extend \<Rightarrow> 'r \<Rightarrow> 'r"
    and look :: "'f list \<Rightarrow> 'r \<Rightarrow> 'r"
    and render :: "'r \<Rightarrow> (bool \<times> 'r) result"
    and get_result :: "'r \<Rightarrow> 'b result"
    and color_of :: "'b \<Rightarrow> char option list"
    and shown_as :: "'r \<Rightarrow> 'f renderer \<Rightarrow> bool"
    and drawing :: "'f drawing"
    and able :: "extend \<Rightarrow> bool"
  assumes size: "shown_as r s \<Longrightarrow> size_of r = rd_size s"
    and resized: "shown_as r s \<Longrightarrow> \<exists>m. shown_as (resize width height r) ((Offscreen_Resize width height s)\<lparr>rd_projection := m\<rparr>)"
    and projected: "shown_as r s \<Longrightarrow> shown_as (project m r) (s\<lparr>rd_projection := Some m\<rparr>)"
    and looked: "shown_as r s \<Longrightarrow> shown_as (look v r) (s\<lparr>rd_view := Some v\<rparr>)"
    and drawn: "shown_as r s \<Longrightarrow> able (rd_size s) \<Longrightarrow> \<exists>r' b c d. render r = Inr (True, r') \<and> shown_as r' s \<and>
      get_result r' = Inr b \<and> drawing s = Some (c, d) \<and> color_of b = map Some c"
begin

text \<open>One frame of the service shows what the abstract renderer draws, and leaves it as the service model does.\<close>

lemma service_frame_draws:
  assumes "shown_as r s" and "able e" and "0 < ex_width e" and "0 < ex_height e"
  shows "\<exists>b r' c d. service_frame size_of resize project look render get_result e (Some (p, e)) (Some view) r = Inr (b, r') \<and>
    shown_as r' (set_up_for e p view s) \<and> drawing (set_up_for e p view s) = Some (c, d) \<and> color_of b = map Some c"
proof -
  let ?r1 = "if size_of r \<noteq> e then resize (ex_width e) (ex_height e) r else r"
  let ?s1 = "if rd_size s \<noteq> e then Offscreen_Resize (ex_width e) (ex_height e) s else s"
  have "\<exists>m. shown_as ?r1 (?s1\<lparr>rd_projection := m\<rparr>)"
    using resized [OF assms(1), of "ex_width e" "ex_height e"] size [OF assms(1)] assms(1)
    by (auto intro: exI [of _ "rd_projection s"])
  then obtain m where "shown_as ?r1 (?s1\<lparr>rd_projection := m\<rparr>)" by blast
  then have "shown_as (look view (project (p, e) ?r1)) (set_up_for e p view s)"
    using looked [OF projected, of ?r1 "?s1\<lparr>rd_projection := m\<rparr>" view "(p, e)"]
    unfolding set_up_for_def by simp
  moreover have "rd_size (set_up_for e p view s) = e"
    using assms(3,4) by (cases e) (simp add: set_up_for_def Offscreen_Resize_def)
  ultimately obtain r' b c d where "render (look view (project (p, e) ?r1)) = Inr (True, r')"
      "shown_as r' (set_up_for e p view s)" "get_result r' = Inr b"
      "drawing (set_up_for e p view s) = Some (c, d)" "color_of b = map Some c"
    using drawn assms(2) by metis
  then show ?thesis by (simp add: service_frame_def Let_def)
qed

end

section \<open>The off-screen renderer as a provider\<close>

type_synonym ('f, 's) service_graphics = "('f perspective \<times> extend, 'f list, 's) graphics"
type_synonym ('f, 's) service_renderer = "('f perspective \<times> extend, 'f list, 's) offscreen"

text \<open>The settings that a renderer of the service model stands for, and its picture.\<close>

definition settings_of :: "('f, 's) service_graphics \<Rightarrow> 's \<Rightarrow> 'f renderer \<Rightarrow> ('f perspective \<times> extend, 'f list, 's) settings" where
  "settings_of g scene s =
     \<lparr>se_size = rd_size s,
      se_projection = (case rd_projection s of Some m \<Rightarrow> m | None \<Rightarrow> gx_perspective g (rd_size s)),
      se_view = (case rd_view s of Some v \<Rightarrow> v | None \<Rightarrow> gx_look_at g),
      se_scene = scene, se_compiled = [scene]\<rparr>"

definition offscreen_drawing :: "('f, 's) service_graphics \<Rightarrow> vk_format \<Rightarrow> 's \<Rightarrow> 'f drawing" where
  "offscreen_drawing g cf scene s =
     Some (color_frame_of g cf (settings_of g scene s), depth_frame_of g (settings_of g scene s))"

definition offscreen_shown_as ::
  "('f, 's) service_graphics \<Rightarrow> vk_format \<Rightarrow> vk_format \<Rightarrow> 's \<Rightarrow> ('f, 's) service_renderer \<Rightarrow> 'f renderer \<Rightarrow> bool" where
  "offscreen_shown_as g cf df scene r s \<longleftrightarrow> vsg_ok g \<and> formats_ok g cf df \<and>
     rd_projection s \<noteq> None \<and> rd_view s \<noteq> None \<and> showing g cf df True r (settings_of g scene s)"

definition within_index_range :: "extend \<Rightarrow> bool" where
  "within_index_range e \<longleftrightarrow> columns e * rows e \<le> 2 ^ 32"

lemma offscreen_step:
  assumes "offscreen_shown_as g cf df scene r s" and "renderer_step g a r = Inr r'"
    and "settings_step g (settings_of g scene s) a = settings_of g scene s'"
    and "rd_projection s' \<noteq> None" and "rd_view s' \<noteq> None" and "shows_drawable g [scene] a"
  shows "offscreen_shown_as g cf df scene r' s'"
  using showing_step [of g cf df True r "settings_of g scene s" a] assms
  by (auto simp: offscreen_shown_as_def settings_of_def)

interpretation offscreen: image_renderer os_size "OffscreenRenderer_Resize g" SetCameraProjectionMatrix
    SetCameraViewMatrix "OffscreenRenderer_Render g True" "OffscreenRenderer_GetResult g True" rr_color
    "offscreen_shown_as g cf df scene" "offscreen_drawing g cf scene" within_index_range
  for g :: "('f, 's) service_graphics" and cf df scene
proof
  fix r :: "('f, 's) service_renderer" and s :: "'f renderer"
  assume shown: "offscreen_shown_as g cf df scene r s"
  then obtain m0 v0 where mv: "rd_projection s = Some m0" "rd_view s = Some v0"
    by (auto simp: offscreen_shown_as_def)
  show "os_size r = rd_size s"
    using shown by (simp add: offscreen_shown_as_def showing_def settings_of_def)
  show "\<exists>m. offscreen_shown_as g cf df scene (OffscreenRenderer_Resize g width height r)
      ((Offscreen_Resize width height s)\<lparr>rd_projection := m\<rparr>)" for width height
    using mv
    by (intro exI [of _ "Some (gx_change_extent g (rd_size s) \<lparr>ex_width = max width 1, ex_height = max height 1\<rparr> m0)"]
        offscreen_step [OF shown, where a = "ResizeTo width height"])
      (simp_all add: settings_of_def Offscreen_Resize_def Let_def)
  show "offscreen_shown_as g cf df scene (SetCameraProjectionMatrix m r) (s\<lparr>rd_projection := Some m\<rparr>)" for m
    using mv by (intro offscreen_step [OF shown, where a = "ProjectWith m"]) (simp_all add: settings_of_def)
  show "offscreen_shown_as g cf df scene (SetCameraViewMatrix v r) (s\<lparr>rd_view := Some v\<rparr>)" for v
    using mv by (intro offscreen_step [OF shown, where a = "LookWith v"]) (simp_all add: settings_of_def)
  assume "within_index_range (rd_size s)"
  then show "\<exists>r' b c d. OffscreenRenderer_Render g True r = Inr (True, r') \<and> offscreen_shown_as g cf df scene r' s \<and>
      OffscreenRenderer_GetResult g True r' = Inr b \<and> offscreen_drawing g cf scene s = Some (c, d) \<and> rr_color b = map Some c"
    using shown showing_frame [of g cf df True r "settings_of g scene s"]
    by (auto simp: offscreen_shown_as_def offscreen_drawing_def within_index_range_def settings_of_def)
qed

lemma offscreen_draws_its_size: "draws_its_size (offscreen_drawing g cf scene)"
  by (auto simp: draws_its_size_def offscreen_drawing_def color_frame_of_def settings_of_def)

lemma offscreen_tiles_drawn:
  assumes "0 < count" and "count < 2 ^ 31" and "int count \<le> width" and "width < 2 ^ 31"
    and "0 < height" and "height < 2 ^ 31" and "width * height \<le> 2 ^ 32"
    and "UpdateTilingInfo width height count = Inr s"
    and "stream_text stream" and "\<forall>i<count. arrives_as to_str stream stof p (view i) p' (view' i)"
    and "\<forall>i<count. offscreen_shown_as g cf df scene (rs i) (renderers i)"
    and "\<forall>i<count. responses i = fst (RenderService_Render stof (offscreen_drawing g cf scene) what
      (Some PlainRenderResultEncoder) (tile_request to_str stream p (view i) (tx i) (tile_infos s ! i)) (Some (renderers i)))"
    and "distinct order" and "set order = {..<count}"
  shows "\<exists>s'. composite_Render PlainRenderResultEncoder (Some responses) order s = Inr (True, s') \<and>
    (\<forall>i<count. \<exists>b r'. service_frame os_size (OffscreenRenderer_Resize g) SetCameraProjectionMatrix SetCameraViewMatrix
        (OffscreenRenderer_Render g True) (OffscreenRenderer_GetResult g True) (tile_extend (tile_infos s ! i))
        (Some (p', tile_extend (tile_infos s ! i))) (Some (view' i)) (rs i) = Inr (b, r') \<and>
      rr_color b = map Some (image_buffers s' ! i))"
proof -
  let ?w = "width div int count"
  have w: "0 < ?w" "?w \<le> width"
    using assms(1,3) by (simp_all add: pos_imp_zdiv_pos_iff int_div_le_self)
  have tiles: "tile_extend (tile_infos s ! i) = \<lparr>ex_width = ?w, ex_height = height\<rparr>" if "i < count" for i
    using UpdateTilingInfo_Inr [OF assms(1,2), of width height] assms(3,8) that by (simp add: tile_extend_def make_tile_def)
  have "nat ?w * nat height \<le> nat width * nat height" using w by (intro mult_le_mono1) simp
  also have "\<dots> \<le> 2 ^ 32" using assms(5,7) w by (simp add: nat_mult_distrib [symmetric] nat_le_iff)
  finally have able: "within_index_range \<lparr>ex_width = ?w, ex_height = height\<rparr>"
    by (simp add: within_index_range_def)
  obtain s' where s': "composite_Render PlainRenderResultEncoder (Some responses) order s = Inr (True, s')"
    and drawn: "\<forall>i<count. \<exists>d. offscreen_drawing g cf scene (set_up_for (tile_extend (tile_infos s ! i)) p' (view' i) (renderers i)) =
       Some (image_buffers s' ! i, d)"
    using tiles_are_drawn [OF assms(1-6,8,9) offscreen_draws_its_size assms(10,12-14)] by blast
  have "\<exists>b r'. service_frame os_size (OffscreenRenderer_Resize g) SetCameraProjectionMatrix SetCameraViewMatrix
        (OffscreenRenderer_Render g True) (OffscreenRenderer_GetResult g True) (tile_extend (tile_infos s ! i))
        (Some (p', tile_extend (tile_infos s ! i))) (Some (view' i)) (rs i) = Inr (b, r') \<and>
      rr_color b = map Some (image_buffers s' ! i)" if i: "i < count" for i
  proof -
    have "offscreen_shown_as g cf df scene (rs i) (renderers i)" using assms(11) i by blast
    from offscreen.service_frame_draws [OF this able, of p' "view' i"] w(1) assms(5) drawn [rule_format, OF i]
    show ?thesis unfolding tiles [OF i] by auto
  qed
  with s' show ?thesis by blast
qed

text \<open>
  C15: the composite renderer and its services together, down to the device: if the service of
  every tile draws with an off-screen renderer of the same scene, then after the frame the
  buffer of every tile holds the bytes that its off-screen renderer reads back for the size of
  the tile and for the projection and view that its service reads in the request. These are
  \<open>p'\<close> and \<open>view'\<close>, what \<open>std::stof\<close> makes of the text written for every number of \<open>p\<close> (six
  decimals) and of the view (six significant digits): other numbers in general.
\<close>

theorem tiles_come_from_offscreen_renderers:
  assumes "0 < count" and "count < 2 ^ 31" and "int count \<le> width" and "width < 2 ^ 31"
    and "0 < height" and "height < 2 ^ 31" and "width * height \<le> 2 ^ 32"
    and "UpdateTilingInfo width height count = Inr s"
    and "stream_text stream" and "\<forall>i<count. arrives_as to_str stream stof p (view i) p' (view' i)"
    and "\<forall>i<count. offscreen_shown_as g cf df scene (rs i) (renderers i)"
    and "\<forall>i<count. responses i = fst (RenderService_Render stof (offscreen_drawing g cf scene) what
      (Some PlainRenderResultEncoder) (tile_request to_str stream p (view i) (tx i) (tile_infos s ! i)) (Some (renderers i)))"
    and "distinct order" and "set order = {..<count}"
  shows "\<exists>s'. composite_Render PlainRenderResultEncoder (Some responses) order s = Inr (True, s') \<and>
    (\<forall>i<count. \<exists>b r'. service_frame os_size (OffscreenRenderer_Resize g) SetCameraProjectionMatrix SetCameraViewMatrix
        (OffscreenRenderer_Render g True) (OffscreenRenderer_GetResult g True) (tile_extend (tile_infos s ! i))
        (Some (p', tile_extend (tile_infos s ! i))) (Some (view' i)) (rs i) = Inr (b, r') \<and>
      rr_color b = map Some (image_buffers s' ! i))"
  using assms by (rule offscreen_tiles_drawn)

definition example_projection :: "int perspective \<times> extend" where
  "example_projection = (demo_perspective_read, \<lparr>ex_width = 1, ex_height = 1\<rparr>)"

definition example_service :: "(int, char) service_graphics" where
  "example_service = example_graphics example_projection (demo_view_read)"

definition example_renderer :: "int renderer" where
  "example_renderer = \<lparr>rd_size = \<lparr>ex_width = 1, ex_height = 1\<rparr>, rd_projection = Some example_projection,
     rd_view = Some (demo_view_read)\<rparr>"

lemma example_renderer_shown:
  "\<exists>r. offscreen_shown_as example_service R8G8B8A8_UNORM D32_SFLOAT CHR ''b'' r example_renderer"
proof -
  have "SetupInstanceAndDevice example_service None = Inr ((1, 1), 0)"
    by (simp add: SetupInstanceAndDevice_def create_own_device_def example_service_def example_graphics_def)
  moreover have ok: "vsg_ok example_service" "formats_ok example_service R8G8B8A8_UNORM D32_SFLOAT"
    by (simp_all add: example_service_def example_graphics_ok)
  moreover have defaults: "gx_perspective example_service e = example_projection" "gx_look_at example_service = demo_view_read" for e
    by (simp_all add: example_service_def example_graphics_def)
  ultimately obtain r where "renderer_ok example_service r" "recorded r" "os_size r = \<lparr>ex_width = 1, ex_height = 1\<rparr>"
      "os_root r = [CHR ''b'']" "os_compiled r = [CHR ''b'']" "os_use_depth r" "os_color_format r = R8G8B8A8_UNORM" "os_depth_format r = D32_SFLOAT"
      "os_projection r = Some (gx_perspective example_service \<lparr>ex_width = 1, ex_height = 1\<rparr>)"
      "os_view r = Some (gx_look_at example_service)"
    using constructs [of example_service R8G8B8A8_UNORM D32_SFLOAT None "(1, 1)" 0 "\<lparr>ex_width = 1, ex_height = 1\<rparr>" "CHR ''b''" True False 1]
    by auto
  with ok defaults show ?thesis
    by (intro exI [of _ r]) (simp add: offscreen_shown_as_def showing_def settings_of_def example_renderer_def)
qed

theorem tiles_come_from_offscreen_renderers_witness:
  "\<exists>r s'. composite_Render PlainRenderResultEncoder (Some (\<lambda>i. fst (RenderService_Render demo_float
        (offscreen_drawing example_service R8G8B8A8_UNORM CHR ''b'') (\<lambda>_. []) (Some PlainRenderResultEncoder)
        (tile_request demo_text demo_text demo_perspective demo_view ''tx'' (make_tile 2 1 i)) (Some example_renderer))))
      [1, 0] \<lparr>service_count = 2, image_buffers = replicate 2 (replicate 8 CHR 0x00), tile_infos = map (make_tile 2 1) [0..<2]\<rparr> = Inr (True, s') \<and>
    (\<exists>b r'. service_frame os_size (OffscreenRenderer_Resize example_service) SetCameraProjectionMatrix SetCameraViewMatrix
        (OffscreenRenderer_Render example_service True) (OffscreenRenderer_GetResult example_service True)
        \<lparr>ex_width = 2, ex_height = 1\<rparr> (Some (demo_perspective_read, \<lparr>ex_width = 2, ex_height = 1\<rparr>)) (Some demo_view_read) r = Inr (b, r') \<and>
      rr_color b = map Some (image_buffers s' ! 1))"
proof -
  let ?s = "\<lparr>service_count = 2, image_buffers = replicate 2 (replicate 8 CHR 0x00), tile_infos = map (make_tile 2 1) [0..<2]\<rparr>"
  let ?responses = "\<lambda>i. fst (RenderService_Render demo_float
        (offscreen_drawing example_service R8G8B8A8_UNORM CHR ''b'') (\<lambda>_. []) (Some PlainRenderResultEncoder)
        (tile_request demo_text demo_text demo_perspective demo_view ''tx'' (make_tile 2 1 i)) (Some example_renderer))"
  obtain r where r: "offscreen_shown_as example_service R8G8B8A8_UNORM D32_SFLOAT CHR ''b'' r example_renderer"
    using example_renderer_shown by blast
  have "UpdateTilingInfo 5 1 2 = Inr ?s"
    using UpdateTilingInfo_Inr [of 2 5 1] by simp
  moreover have "{Suc 0, 0} = {..<2}" by auto
  ultimately obtain s' where s': "composite_Render PlainRenderResultEncoder (Some ?responses) [1, 0] ?s = Inr (True, s')"
    "\<forall>i<2. \<exists>b r'. service_frame os_size (OffscreenRenderer_Resize example_service) SetCameraProjectionMatrix SetCameraViewMatrix
        (OffscreenRenderer_Render example_service True) (OffscreenRenderer_GetResult example_service True)
        (tile_extend (tile_infos ?s ! i)) (Some (demo_perspective_read, tile_extend (tile_infos ?s ! i))) (Some demo_view_read) r = Inr (b, r') \<and>
      rr_color b = map Some (image_buffers s' ! i)"
    using tiles_come_from_offscreen_renderers [where count = 2 and width = 5 and height = 1 and s = ?s and
        to_str = demo_text and stream = demo_text and stof = demo_float and view = "\<lambda>_. demo_view" and
        view' = "\<lambda>_. demo_view_read" and p' = demo_perspective_read and
        g = example_service and cf = R8G8B8A8_UNORM and df = D32_SFLOAT and scene = "CHR ''b''" and
        rs = "\<lambda>_. r" and renderers = "\<lambda>_. example_renderer" and p = demo_perspective and order = "[1, 0]" and
        what = "\<lambda>_. []" and tx = "\<lambda>_. ''tx''" and responses = ?responses] r demo_arrives
    by auto
  from s'(2) [rule_format, of 1] s'(1) show ?thesis by (auto simp: tile_extend_def make_tile_def)
qed

end
