(* ===== verification/Remote_Tiles.thy ===== *)
theory Remote_Tiles
  imports Offscreen_Service Node
begin

text \<open>
  A frame over the network: the composite renderer of one node calls the rendering services of
  other nodes, one for each tile; each serves the request with its off-screen renderer, and
  the answers come back in any order. The parts are those of the theories imported; this
  theory joins them.
\<close>

section \<open>What the service makes of a received request\<close>

lemma parameter_received:
  assumes "n \<noteq> ''service''" and "n \<noteq> ''transaction-id''"
  shows "map_get (rq_parameters (received_request r)) n = map_get (rq_parameters r) n"
  using assms by (simp add: received_request_def)

lemma RenderService_Render_received:
  "RenderService_Render stof drawing what en (received_request r) s = RenderService_Render stof drawing what en r s"
proof -
  have "rq_transaction (received_request r) = rq_transaction r" by (simp add: received_request_def)
  moreover have "GetExtend (received_request r) = GetExtend r"
    by (simp add: GetExtend_def parameter_received)
  moreover have "GetViewMatrix stof (received_request r) = GetViewMatrix stof r"
    by (simp add: GetViewMatrix_def parameter_received)
  moreover have "GetProjectionType (received_request r) = GetProjectionType r"
    by (simp add: GetProjectionType_def parameter_received)
  moreover have "GetPerspectiveProjection stof (received_request r) = GetPerspectiveProjection stof r"
    by (simp add: GetPerspectiveProjection_def float_parameter_def parameter_received)
  moreover have "attach_results e (received_request r) d x = attach_results e r d x" for e d x
    by (simp add: attach_results_def parameter_received)
  ultimately show ?thesis by (simp only: RenderService_Render_def apply_projection_def)
qed

section \<open>What the composite renderer makes of a received response\<close>

lemma copy_received_response: "copy_response en i (received_response r) s = copy_response en i r s"
  by (simp add: copy_response_def received_response_def GetResult_def)

lemma render_tiles_received:
  assumes "\<forall>i\<in>set is. responses i = Inr (reply i) \<and> received i = Inr (received_response (reply i))"
  shows "render_tiles en received is s = render_tiles en responses is s"
  using assms
proof (induction "is" arbitrary: s)
  case (Cons i js)
  then have "render_tile en received i s = render_tile en responses i s"
    by (simp add: render_tile_def copy_received_response)
  moreover have "render_tiles en received js = render_tiles en responses js"
    using Cons by (intro ext) simp
  ultimately show ?case by simp
qed simp

lemma drawn_response_facts:
  "rs_transaction (drawn_response tx en c) = tx" "status_ok (rs_status (drawn_response tx en c))"
  "map_ok (rs_results (drawn_response tx en c))"
  by (simp_all add: drawn_response_def SetResult_def make_response_def status_ok_def)

lemma tile_request_facts:
  "rq_service (tile_request to_str stream p view tx t) = ''render''"
  "rq_transaction (tile_request to_str stream p view tx t) = tx"
  "map_ok (rq_parameters (tile_request to_str stream p view tx t))"
  by (simp_all add: tile_request_def SetPerspectiveProjection_def SetViewMatrix_def SetExtend_def SetParameter_def
      make_request_def)

section \<open>The calls of a frame\<close>

text \<open>
  The calls that the jobs of a frame make, the one for tile \<open>i\<close> with the request object, node
  and promise of \<open>calls i\<close>; then the reads of the answers, each \<open>answers i\<close> a connection and the
  bytes that it brought; and the value of a future that is there.
\<close>

record remote_call =
  rc_request :: rref
  rc_target :: string
  rc_promise :: pref

fun issue_calls :: "node_env \<Rightarrow> (nat \<Rightarrow> remote_call) \<Rightarrow> nat list \<Rightarrow> node \<Rightarrow> node result" where
  "issue_calls env calls [] nd = Inr nd"
| "issue_calls env calls (i # is) nd =
     bind_result (call_remote_service env (rc_request (calls i)) (rc_target (calls i)) (rc_promise (calls i)) nd)
       (issue_calls env calls is)"

fun read_answers :: "node_env \<Rightarrow> (nat \<Rightarrow> conn \<times> string) \<Rightarrow> nat list \<Rightarrow> node \<Rightarrow> node result" where
  "read_answers env answers [] nd = Inr nd"
| "read_answers env answers (i # is) nd =
     bind_result (node_receive env (fst (answers i)) (ReadData (snd (answers i))) nd) (read_answers env answers is)"

definition future_get :: "node \<Rightarrow> pref \<Rightarrow> service_response result" where
  "future_get nd p =
     (case rpc_promises (nd_rpc nd) p of
        Some (Answered response) \<Rightarrow> Inr response
      | Some (Broken x) \<Rightarrow> Inl x
      | None \<Rightarrow> Inl FutureError)"

text \<open>A request as the call leaves it: only the flag differs.\<close>

definition same_request :: "service_request \<Rightarrow> service_request \<Rightarrow> bool" where
  "same_request r r' \<longleftrightarrow> r'\<lparr>rq_processed := False\<rparr> = r\<lparr>rq_processed := False\<rparr>"

lemma same_requestD:
  assumes "same_request r r'"
  shows "rq_parameters r' = rq_parameters r" and "rq_transaction r' = rq_transaction r"
    and "received_request r' = received_request r" and "FromServiceRequest uuid r' = FromServiceRequest uuid r"
  using assms by (cases r; cases r'; simp add: same_request_def received_request_def FromServiceRequest_def
      GetParameterNames_def)+

lemma same_request_mark: "same_request (rpc_requests s r') (rpc_requests (mark r b s) r')"
  by (simp add: same_request_def mark_def MarkAsCurrentlyProcessed_def)

lemma same_request_trans: "same_request a b \<Longrightarrow> same_request b c \<Longrightarrow> same_request a c"
  by (simp add: same_request_def)

text \<open>
  A node that can make a call over the connection \<open>c\<close>, to a node that will understand the
  request \<open>rq\<close>; and what a call does to it.
\<close>

definition can_call :: "node_env \<Rightarrow> node_env \<Rightarrow> conn \<Rightarrow> service_request \<Rightarrow> remote_call \<Rightarrow> node \<Rightarrow> bool" where
  "can_call env to c rq rc nd \<longleftrightarrow> linked env nd c (rc_target rc) \<and>
     same_request rq (rpc_requests (nd_rpc nd) (rc_request rc)) \<and> map_ok (rq_parameters rq) \<and>
     consumer_alive (nd_rpc nd) \<and> (\<forall>m. FromServiceRequest (ne_uuid env) rq = Inr m \<longrightarrow> carries env to m)"

definition pending_of :: "remote_call \<Rightarrow> pending_info" where
  "pending_of rc = \<lparr>pi_request = rc_request rc, pi_promise = rc_promise rc, pi_endpoint = rc_target rc\<rparr>"

definition only_calls :: "node \<Rightarrow> node \<Rightarrow> bool" where
  "only_calls nd nd' \<longleftrightarrow> same_links (nd_endpoint nd) (nd_endpoint nd') \<and>
     rpc_promises (nd_rpc nd') = rpc_promises (nd_rpc nd) \<and> consumer_alive (nd_rpc nd') = consumer_alive (nd_rpc nd) \<and>
     (\<forall>r. same_request (rpc_requests (nd_rpc nd) r) (rpc_requests (nd_rpc nd') r))"

definition request_bytes :: "node_env \<Rightarrow> service_request \<Rightarrow> string \<Rightarrow> bool" where
  "request_bytes to rq d \<longleftrightarrow> (\<exists>m. FromMultipartFormData (ne_parse to) d = Inr (Some m) \<and>
     m_type m = ''service-request'' \<and> ToServiceRequest m = Inr (Some (received_request rq)))"

lemma only_calls_trans: "only_calls a b \<Longrightarrow> only_calls b c \<Longrightarrow> only_calls a c"
  using same_links_trans same_request_trans unfolding only_calls_def by metis

lemma can_call_kept: "can_call env to c rq rc nd \<Longrightarrow> only_calls nd nd' \<Longrightarrow> can_call env to c rq rc nd'"
  using linked_same same_request_trans unfolding can_call_def only_calls_def by metis

lemma call_is_issued:
  assumes "can_call env to c rq rc nd"
  shows "\<exists>nd' d. call_remote_service env (rc_request rc) (rc_target rc) (rc_promise rc) nd = Inr nd' \<and>
    only_calls nd nd' \<and> written (nd_endpoint nd') = written (nd_endpoint nd) @ [(c, d)] \<and>
    pending_requests (nd_rpc nd') = map_put (rq_transaction rq) (pending_of rc) (pending_requests (nd_rpc nd)) \<and>
    request_bytes to rq d"
proof -
  let ?r = "rc_request rc" and ?s = "mark (rc_request rc) True (nd_rpc nd)"
  have can: "linked env nd c (rc_target rc)" "same_request rq (rpc_requests (nd_rpc nd) ?r)"
      "map_ok (rq_parameters rq)" "consumer_alive (nd_rpc nd)"
      "FromServiceRequest (ne_uuid env) rq = Inr m \<Longrightarrow> carries env to m" for m
    using assms by (auto simp: can_call_def)
  note eq = same_requestD [OF can(2)]
  obtain m d where call: "call_remote_service env ?r (rc_target rc) (rc_promise rc) nd =
      Inr (nd\<lparr>nd_endpoint := (nd_endpoint nd)\<lparr>written := written (nd_endpoint nd) @ [(c, d)]\<rparr>,
        nd_rpc := AddResponsePromise ?r (rc_target rc) (rc_promise rc) ?s\<rparr>)" (is "_ = Inr ?nd1")
    and m: "FromMultipartFormData (ne_parse to) d = Inr (Some m)" "m_type m = ''service-request''"
      "ToServiceRequest m = Inr (Some (received_request rq))"
    using request_is_sent [OF can(1,4), where r = ?r and to = to and p = "rc_promise rc"] can(3,5) eq by auto
  have reqs: "same_request (rpc_requests (nd_rpc nd) r) (rpc_requests (nd_rpc ?nd1) r)" for r
    using same_request_mark [of "nd_rpc nd" r] by (simp add: AddResponsePromise_def)
  have "rq_transaction (rpc_requests ?s ?r) = rq_transaction rq"
    using same_requestD(2) [OF same_request_mark] eq(2) by simp
  then have "pending_requests (nd_rpc ?nd1) = map_put (rq_transaction rq) (pending_of rc) (pending_requests (nd_rpc nd))"
    by (simp add: AddResponsePromise_def pending_of_def mark_def)
  then show ?thesis
    using call m reqs
    by (intro exI [of _ ?nd1] exI [of _ d]) (auto simp: only_calls_def request_bytes_def AddResponsePromise_def mark_def)
qed

lemma calls_are_issued:
  assumes "\<forall>i\<in>set is. can_call env (to i) (c i) (rq i) (calls i) nd"
    and "distinct is" and "inj_on (\<lambda>i. rq_transaction (rq i)) (set is)"
  shows "\<exists>nd' data. issue_calls env calls is nd = Inr nd' \<and> only_calls nd nd' \<and>
    written (nd_endpoint nd') = written (nd_endpoint nd) @ map (\<lambda>i. (c i, data i)) is \<and>
    (\<forall>tx. tx \<notin> (\<lambda>i. rq_transaction (rq i)) ` set is \<longrightarrow>
       map_get (pending_requests (nd_rpc nd')) tx = map_get (pending_requests (nd_rpc nd)) tx) \<and>
    (\<forall>i\<in>set is. map_get (pending_requests (nd_rpc nd')) (rq_transaction (rq i)) = Some (pending_of (calls i)) \<and>
       request_bytes (to i) (rq i) (data i))"
  using assms
proof (induction "is" arbitrary: nd)
  case Nil
  then show ?case by (simp add: only_calls_def same_request_def)
next
  case (Cons i js)
  obtain nd1 d where call: "call_remote_service env (rc_request (calls i)) (rc_target (calls i)) (rc_promise (calls i)) nd = Inr nd1"
      "only_calls nd nd1" "written (nd_endpoint nd1) = written (nd_endpoint nd) @ [(c i, d)]"
      "pending_requests (nd_rpc nd1) = map_put (rq_transaction (rq i)) (pending_of (calls i)) (pending_requests (nd_rpc nd))"
      "request_bytes (to i) (rq i) d"
    using call_is_issued [of env "to i" "c i" "rq i" "calls i" nd] Cons.prems(1) by auto
  have "\<forall>j\<in>set js. can_call env (to j) (c j) (rq j) (calls j) nd1"
    using Cons.prems(1) can_call_kept [OF _ call(2)] by simp
  then obtain nd' data where IH: "issue_calls env calls js nd1 = Inr nd'" "only_calls nd1 nd'"
      "written (nd_endpoint nd') = written (nd_endpoint nd1) @ map (\<lambda>i. (c i, data i)) js"
      "\<forall>tx. tx \<notin> (\<lambda>i. rq_transaction (rq i)) ` set js \<longrightarrow>
         map_get (pending_requests (nd_rpc nd')) tx = map_get (pending_requests (nd_rpc nd1)) tx"
      "\<forall>i\<in>set js. map_get (pending_requests (nd_rpc nd')) (rq_transaction (rq i)) = Some (pending_of (calls i)) \<and>
         request_bytes (to i) (rq i) (data i)"
    using Cons.IH [of nd1] Cons.prems(2,3) by auto
  have "rq_transaction (rq i) \<notin> (\<lambda>i. rq_transaction (rq i)) ` set js"
    using Cons.prems(2,3) by auto
  moreover have "map (\<lambda>j. (c j, (data(i := d)) j)) js = map (\<lambda>j. (c j, data j)) js" using Cons.prems(2) by auto
  ultimately show ?case
    using call IH only_calls_trans [OF call(2) IH(2)]
    by (intro exI [of _ nd'] exI [of _ "data(i := d)"]) auto
qed

text \<open>Serving: a node whose local executors of a service all answer alike, and the bytes of an answer.\<close>

definition offers_service ::
  "node_env \<Rightarrow> node \<Rightarrow> conn \<Rightarrow> string \<Rightarrow> string \<Rightarrow> (service_request \<Rightarrow> service_response result) \<Rightarrow> bool" where
  "offers_service env nd c client service answer \<longleftrightarrow> linked env nd c client \<and> serving nd \<and>
     (\<exists>n. consumers_of ''service-request'' (nd_endpoint nd) = [\<lparr>co_object = n, co_type = ''service-request''\<rparr>]) \<and>
     (\<exists>caller. map_get (nd_registry nd) service = Some caller \<and> (\<exists>e\<in>set (c_executors caller). IsLocal e) \<and>
        (\<forall>e\<in>set (c_executors caller). IsLocal e \<longrightarrow> (\<forall>request. ne_answer env request 1 e = answer request)))"

definition response_bytes :: "node_env \<Rightarrow> service_response \<Rightarrow> string \<Rightarrow> bool" where
  "response_bytes to response d \<longleftrightarrow> (\<exists>m. FromMultipartFormData (ne_parse to) d = Inr (Some m) \<and>
     m_type m = ''service-response'' \<and> ToServiceResponse m = Inr (Some response))"

lemma request_is_served:
  assumes "offers_service env nd c client (rq_service rq) answer" and "request_bytes env rq d"
    and "answer (received_request rq) = Inr response" and "map_ok (rs_results response)" and "status_ok (rs_status response)"
    and "\<forall>m. FromServiceResponse (ne_uuid env) response = Inr m \<longrightarrow> carries env to m"
  shows "\<exists>nd' d'. node_receive env c (ReadData d) nd = Inr nd' \<and>
    written (nd_endpoint nd') = written (nd_endpoint nd) @ [(c, d')] \<and> response_bytes to (received_response response) d'"
proof -
  obtain n caller where nd: "linked env nd c client" "serving nd"
      "consumers_of ''service-request'' (nd_endpoint nd) = [\<lparr>co_object = n, co_type = ''service-request''\<rparr>]"
    and reg: "map_get (nd_registry nd) (rq_service rq) = Some caller" "\<exists>e\<in>set (c_executors caller). IsLocal e"
      "\<forall>e\<in>set (c_executors caller). IsLocal e \<longrightarrow> (\<forall>request. ne_answer env request 1 e = answer request)"
    using assms(1) by (auto simp: offers_service_def)
  obtain m where m: "FromMultipartFormData (ne_parse env) d = Inr (Some m)" "m_type m = ''service-request''"
      "ToServiceRequest m = Inr (Some (received_request rq))"
    using assms(2) by (auto simp: request_bytes_def)
  have "map_get (nd_registry nd) (rq_service (received_request rq)) = Some caller"
    using reg(1) by (simp add: received_request_def)
  from node_serves_request [OF nd m this reg(2), of "\<lambda>_. response" to] show ?thesis
    using reg(3) assms(3-6) unfolding response_bytes_def by auto
qed

lemma answers_are_read:
  assumes "\<forall>i\<in>set is. linked env nd (c i) (rc_target (calls i)) \<and> response_bytes env (response i) (data i) \<and>
      map_get (pending_requests (nd_rpc nd)) (rs_transaction (response i)) = Some (pending_of (calls i)) \<and>
      rpc_promises (nd_rpc nd) (rc_promise (calls i)) = None"
    and "consumers_of ''service-response'' (nd_endpoint nd) = [\<lparr>co_object = n, co_type = ''service-response''\<rparr>]"
    and "distinct is" and "inj_on (\<lambda>i. rs_transaction (response i)) (set is)" and "inj_on (\<lambda>i. rc_promise (calls i)) (set is)"
  shows "\<exists>nd'. read_answers env (\<lambda>i. (c i, data i)) is nd = Inr nd' \<and>
    (\<forall>p. p \<notin> (\<lambda>i. rc_promise (calls i)) ` set is \<longrightarrow> rpc_promises (nd_rpc nd') p = rpc_promises (nd_rpc nd) p) \<and>
    (\<forall>tx. map_get (pending_requests (nd_rpc nd)) tx = None \<longrightarrow> map_get (pending_requests (nd_rpc nd')) tx = None) \<and>
    (\<forall>i\<in>set is. rpc_promises (nd_rpc nd') (rc_promise (calls i)) = Some (Answered (response i)) \<and>
       map_get (pending_requests (nd_rpc nd')) (rs_transaction (response i)) = None)"
  using assms
proof (induction "is" arbitrary: nd)
  case (Cons i js)
  obtain m where m: "FromMultipartFormData (ne_parse env) (data i) = Inr (Some m)" "m_type m = ''service-response''"
      "ToServiceResponse m = Inr (Some (response i))"
    using Cons.prems(1) by (auto simp: response_bytes_def)
  obtain nd1 where read: "node_receive env (c i) (ReadData (data i)) nd = Inr nd1"
    and promises: "rpc_promises (nd_rpc nd1) = (rpc_promises (nd_rpc nd))(rc_promise (calls i) \<mapsto> Answered (response i))"
    and pending: "pending_requests (nd_rpc nd1) = map_erase (rs_transaction (response i)) (pending_requests (nd_rpc nd))"
    and links: "same_links (nd_endpoint nd) (nd_endpoint nd1)"
    using node_takes_response [of env nd "c i" "rc_target (calls i)", OF _ Cons.prems(2) m, of "pending_of (calls i)"]
      Cons.prems(1) by (auto simp: pending_of_def)
  have notin: "rs_transaction (response i) \<notin> (\<lambda>i. rs_transaction (response i)) ` set js"
      "rc_promise (calls i) \<notin> (\<lambda>i. rc_promise (calls i)) ` set js"
    using Cons.prems(3-5) by auto
  then have "rs_transaction (response j) \<noteq> rs_transaction (response i)" "rc_promise (calls j) \<noteq> rc_promise (calls i)"
    if "j \<in> set js" for j
    using that by (metis imageI)+
  then have "\<forall>j\<in>set js. linked env nd1 (c j) (rc_target (calls j)) \<and> response_bytes env (response j) (data j) \<and>
      map_get (pending_requests (nd_rpc nd1)) (rs_transaction (response j)) = Some (pending_of (calls j)) \<and>
      rpc_promises (nd_rpc nd1) (rc_promise (calls j)) = None"
    using Cons.prems(1) linked_same [OF _ links] by (simp add: promises pending)
  moreover have "consumers_of ''service-response'' (nd_endpoint nd1) = [\<lparr>co_object = n, co_type = ''service-response''\<rparr>]"
    using Cons.prems(2) links by (simp add: same_links_def)
  ultimately obtain nd' where IH: "read_answers env (\<lambda>i. (c i, data i)) js nd1 = Inr nd'"
      "\<forall>p. p \<notin> (\<lambda>i. rc_promise (calls i)) ` set js \<longrightarrow> rpc_promises (nd_rpc nd') p = rpc_promises (nd_rpc nd1) p"
      "\<forall>tx. map_get (pending_requests (nd_rpc nd1)) tx = None \<longrightarrow> map_get (pending_requests (nd_rpc nd')) tx = None"
      "\<forall>i\<in>set js. rpc_promises (nd_rpc nd') (rc_promise (calls i)) = Some (Answered (response i)) \<and>
         map_get (pending_requests (nd_rpc nd')) (rs_transaction (response i)) = None"
    using Cons.IH [of nd1] Cons.prems(3-5) by auto
  then show ?case using read notin by (intro exI [of _ nd']) (auto simp: promises pending)
qed simp

text \<open>The calls of a frame from end to end: every promise gets the answer to its own request.\<close>

lemma calls_are_answered:
  assumes "\<forall>i<k. can_call ea (eb i) (ca i) (rq i) (calls i) a"
    and "inj_on (\<lambda>i. rq_transaction (rq i)) {..<k}" and "inj_on (\<lambda>i. rc_promise (calls i)) {..<k}"
    and "\<forall>i<k. rpc_promises (nd_rpc a) (rc_promise (calls i)) = None"
    and "consumers_of ''service-response'' (nd_endpoint a) = [\<lparr>co_object = n, co_type = ''service-response''\<rparr>]"
    and "\<forall>i<k. offers_service (eb i) (b i) (cb i) ida (rq_service (rq i)) (answer i)"
    and "\<forall>i<k. answer i (received_request (rq i)) = Inr (response i) \<and> rs_transaction (response i) = rq_transaction (rq i) \<and>
      map_ok (rs_results (response i)) \<and> status_ok (rs_status (response i)) \<and>
      (\<forall>m. FromServiceResponse (ne_uuid (eb i)) (response i) = Inr m \<longrightarrow> carries (eb i) ea m)"
    and "distinct asked" and "set asked = {..<k}" and "distinct order" and "set order = {..<k}"
  shows "\<exists>a1 data1 data2 a2. issue_calls ea calls asked a = Inr a1 \<and>
    written (nd_endpoint a1) = written (nd_endpoint a) @ map (\<lambda>i. (ca i, data1 i)) asked \<and>
    (\<forall>i<k. \<exists>b1. node_receive (eb i) (cb i) (ReadData (data1 i)) (b i) = Inr b1 \<and>
       written (nd_endpoint b1) = written (nd_endpoint (b i)) @ [(cb i, data2 i)]) \<and>
    read_answers ea (\<lambda>i. (ca i, data2 i)) order a1 = Inr a2 \<and>
    (\<forall>i<k. future_get a2 (rc_promise (calls i)) = Inr (received_response (response i)) \<and>
       map_get (pending_requests (nd_rpc a2)) (rq_transaction (rq i)) = None)"
proof -
  have "\<forall>i\<in>set asked. can_call ea (eb i) (ca i) (rq i) (calls i) a" "distinct asked"
      "inj_on (\<lambda>i. rq_transaction (rq i)) (set asked)"
    using assms(1,2,8,9) by simp_all
  from calls_are_issued [OF this]
  obtain a1 data1 where issued: "issue_calls ea calls asked a = Inr a1" "only_calls a a1"
      "written (nd_endpoint a1) = written (nd_endpoint a) @ map (\<lambda>i. (ca i, data1 i)) asked"
    and "\<forall>i\<in>set asked. map_get (pending_requests (nd_rpc a1)) (rq_transaction (rq i)) = Some (pending_of (calls i)) \<and>
      request_bytes (eb i) (rq i) (data1 i)"
    by blast
  then have pending: "map_get (pending_requests (nd_rpc a1)) (rq_transaction (rq i)) = Some (pending_of (calls i))"
      "request_bytes (eb i) (rq i) (data1 i)" if "i < k" for i
    using that assms(9) by simp_all
  have "\<exists>b1 d. node_receive (eb i) (cb i) (ReadData (data1 i)) (b i) = Inr b1 \<and>
      written (nd_endpoint b1) = written (nd_endpoint (b i)) @ [(cb i, d)] \<and>
      response_bytes ea (received_response (response i)) d" if "i < k" for i
    using request_is_served [OF _ pending(2) [OF that]] assms(6,7) that by blast
  then obtain data2 where served: "\<And>i. i < k \<Longrightarrow> \<exists>b1. node_receive (eb i) (cb i) (ReadData (data1 i)) (b i) = Inr b1 \<and>
      written (nd_endpoint b1) = written (nd_endpoint (b i)) @ [(cb i, data2 i)]"
      "\<And>i. i < k \<Longrightarrow> response_bytes ea (received_response (response i)) (data2 i)"
    by metis
  have tx: "rs_transaction (received_response (response i)) = rq_transaction (rq i)" if "i < k" for i
    using assms(7) that by (simp add: received_response_def)
  have "linked ea a1 (ca i) (rc_target (calls i))" if "i < k" for i
    using can_call_kept [OF _ issued(2)] assms(1) that by (auto simp: can_call_def)
  moreover have "rpc_promises (nd_rpc a1) = rpc_promises (nd_rpc a)"
      "consumers_of ''service-response'' (nd_endpoint a1) = consumers_of ''service-response'' (nd_endpoint a)"
    using issued(2) by (simp_all add: only_calls_def same_links_def)
  moreover have "inj_on (\<lambda>i. rs_transaction (received_response (response i))) (set order)"
    using assms(2,11) tx by (simp add: inj_on_def)
  ultimately obtain a2 where "read_answers ea (\<lambda>i. (ca i, data2 i)) order a1 = Inr a2"
      "\<forall>i\<in>set order. rpc_promises (nd_rpc a2) (rc_promise (calls i)) = Some (Answered (received_response (response i))) \<and>
         map_get (pending_requests (nd_rpc a2)) (rs_transaction (received_response (response i))) = None"
    using answers_are_read [of order ea a1 ca calls "\<lambda>i. received_response (response i)" data2 n]
      served(2) pending(1) assms(3-5,10,11) tx by auto
  then show ?thesis
    using issued(1,3) served(1) assms(11) tx
    by (intro exI [of _ a1] exI [of _ data1] exI [of _ data2] exI [of _ a2]) (simp add: future_get_def)
qed

section \<open>Property\<close>

lemma tile_sizes:
  assumes "0 < k" and "k < 2 ^ 31" and "int k \<le> width" and "width < 2 ^ 31"
    and "0 < height" and "height < 2 ^ 31" and "UpdateTilingInfo width height k = Inr s" and "i < k"
  shows "int_range (ti_width (tile_infos s ! i))" and "int_range (ti_height (tile_infos s ! i))"
proof -
  have "0 < width div int k" "width div int k \<le> width"
    using assms(1,3) by (simp_all add: pos_imp_zdiv_pos_iff int_div_le_self)
  then show "int_range (ti_width (tile_infos s ! i))" "int_range (ti_height (tile_infos s ! i))"
    using UpdateTilingInfo_Inr [OF assms(1,2), of width height] assms(3-8)
    by (auto simp: int_range_def make_tile_def)
qed

text \<open>
  C4: a distributed frame, from the tiles of the composite renderer to the device of every
  rendering node and back. The caller sends one request per tile, in any order; every node, given the bytes
  of its request, writes one answer back; the answers are read in any order; then every promise
  holds the answer to its own request, none of them is pending any more, and the buffer of every
  tile holds the bytes that the off-screen renderer of its node reads back from its device for
  the size of that tile and for the projection and view that the node reads in the request. These
  are \<open>p'\<close> and \<open>view'\<close>, what \<open>std::stof\<close> makes of the text written for every number of \<open>p\<close> (six
  decimals) and of the view (six significant digits): other numbers in general. It is supposed
  that the connections are open and the writes succeed (\<open>can_call\<close>, \<open>offers_service\<close>), that the
  messages are such as multipart form-data carries (\<open>carries\<close>), the pixels of an answer
  included, and that the transaction ids and promises of the requests differ.
\<close>

theorem frame_from_remote_renderers:
  assumes "0 < k" and "k < 2 ^ 31" and "int k \<le> width" and "width < 2 ^ 31"
    and "0 < height" and "height < 2 ^ 31" and "width * height \<le> 2 ^ 32"
    and "UpdateTilingInfo width height k = Inr s"
    and "stream_text stream" and "\<forall>i<k. arrives_as to_str stream stof p (view i) p' (view' i)"
    and "rq = (\<lambda>i. tile_request to_str stream p (view i) (tx i) (tile_infos s ! i))"
    and "\<forall>i<k. can_call ea (eb i) (ca i) (rq i) (calls i) a \<and> rpc_promises (nd_rpc a) (rc_promise (calls i)) = None"
    and "inj_on tx {..<k}" and "inj_on (\<lambda>i. rc_promise (calls i)) {..<k}"
    and "consumers_of ''service-response'' (nd_endpoint a) = [\<lparr>co_object = n, co_type = ''service-response''\<rparr>]"
    and "answer = (\<lambda>i r. fst (RenderService_Render stof (offscreen_drawing g cf scene) what
      (Some PlainRenderResultEncoder) r (Some (renderers i))))"
    and "\<forall>i<k. offers_service (eb i) (b i) (cb i) ida ''render'' (answer i) \<and>
      offscreen_shown_as g cf df scene (rs i) (renderers i)"
    and "\<forall>i<k. \<forall>response m. answer i (rq i) = Inr response \<longrightarrow>
      FromServiceResponse (ne_uuid (eb i)) response = Inr m \<longrightarrow> carries (eb i) ea m"
    and "distinct asked" and "set asked = {..<k}" and "distinct order" and "set order = {..<k}"
  shows "\<exists>a1 data1 data2 a2 s'. issue_calls ea calls asked a = Inr a1 \<and>
    written (nd_endpoint a1) = written (nd_endpoint a) @ map (\<lambda>i. (ca i, data1 i)) asked \<and>
    (\<forall>i<k. \<exists>b1. node_receive (eb i) (cb i) (ReadData (data1 i)) (b i) = Inr b1 \<and>
       written (nd_endpoint b1) = written (nd_endpoint (b i)) @ [(cb i, data2 i)]) \<and>
    read_answers ea (\<lambda>i. (ca i, data2 i)) order a1 = Inr a2 \<and>
    (\<forall>i<k. map_get (pending_requests (nd_rpc a2)) (tx i) = None) \<and>
    composite_Render PlainRenderResultEncoder (Some (\<lambda>i. future_get a2 (rc_promise (calls i)))) order s = Inr (True, s') \<and>
    (\<forall>i<k. \<exists>shot r'. service_frame os_size (OffscreenRenderer_Resize g) SetCameraProjectionMatrix SetCameraViewMatrix
        (OffscreenRenderer_Render g True) (OffscreenRenderer_GetResult g True) (tile_extend (tile_infos s ! i))
        (Some (p', tile_extend (tile_infos s ! i))) (Some (view' i)) (rs i) = Inr (shot, r') \<and>
      rr_color shot = map Some (image_buffers s' ! i))"
proof -
  have tx: "rq_transaction (rq i) = tx i" "rq_service (rq i) = ''render''" for i
    by (simp_all add: assms(11) tile_request_facts)
  have "\<exists>bytes. answer i (rq i) = Inr (drawn_response (tx i) PlainRenderResultEncoder bytes)" if "i < k" for i
    unfolding assms(11,16)
    using service_draws_tile [OF assms(9) _ tile_sizes [OF assms(1-6,8) that]] assms(10) that
    by (fastforce simp: offscreen_drawing_def)
  then obtain bytes where drawn: "\<And>i. i < k \<Longrightarrow> answer i (rq i) = Inr (drawn_response (tx i) PlainRenderResultEncoder (bytes i))"
    by metis
  let ?response = "\<lambda>i. drawn_response (tx i) PlainRenderResultEncoder (bytes i)"
  have received: "answer i (received_request r) = answer i r" for i r
    unfolding assms(16) RenderService_Render_received ..
  obtain a1 data1 data2 a2 where net: "issue_calls ea calls asked a = Inr a1"
      "written (nd_endpoint a1) = written (nd_endpoint a) @ map (\<lambda>i. (ca i, data1 i)) asked"
      "\<forall>i<k. \<exists>b1. node_receive (eb i) (cb i) (ReadData (data1 i)) (b i) = Inr b1 \<and>
         written (nd_endpoint b1) = written (nd_endpoint (b i)) @ [(cb i, data2 i)]"
      "read_answers ea (\<lambda>i. (ca i, data2 i)) order a1 = Inr a2"
    and futures: "\<forall>i<k. future_get a2 (rc_promise (calls i)) = Inr (received_response (?response i)) \<and>
      map_get (pending_requests (nd_rpc a2)) (rq_transaction (rq i)) = None"
    using calls_are_answered [of k ea eb ca rq calls a n b cb ida answer ?response asked order]
      assms(12-15,17-22) drawn received by (auto simp: tx drawn_response_facts)
  obtain s' where s': "composite_Render PlainRenderResultEncoder (Some (\<lambda>i. answer i (rq i))) order s = Inr (True, s')"
      "\<forall>i<k. \<exists>shot r'. service_frame os_size (OffscreenRenderer_Resize g) SetCameraProjectionMatrix SetCameraViewMatrix
        (OffscreenRenderer_Render g True) (OffscreenRenderer_GetResult g True) (tile_extend (tile_infos s ! i))
        (Some (p', tile_extend (tile_infos s ! i))) (Some (view' i)) (rs i) = Inr (shot, r') \<and>
      rr_color shot = map Some (image_buffers s' ! i)"
    using offscreen_tiles_drawn [where g = g and cf = cf and df = df and scene = scene and rs = rs and renderers = renderers and
        responses = "\<lambda>i. answer i (rq i)" and what = what and tx = tx, OF assms(1-10) _ _ assms(21,22)]
      assms(11,16,17) by auto
  have "composite_Render PlainRenderResultEncoder (Some (\<lambda>i. future_get a2 (rc_promise (calls i)))) order s =
      composite_Render PlainRenderResultEncoder (Some (\<lambda>i. answer i (rq i))) order s"
    using render_tiles_received [of order "\<lambda>i. answer i (rq i)" ?response "\<lambda>i. future_get a2 (rc_promise (calls i))"]
      drawn futures assms(22) by (simp add: composite_Render_def)
  then show ?thesis
    using net futures s' tx(1)
    by (intro exI [of _ a1] exI [of _ data1] exI [of _ data2] exI [of _ a2] exI [of _ s']) simp
qed

section \<open>An example\<close>

text \<open>Two tiles: the client \<open>a\<close> is linked to \<open>b\<close> and \<open>c\<close>, which both offer the service.\<close>

definition frame_request :: "nat \<Rightarrow> service_request" where
  "frame_request i = tile_request demo_text demo_text demo_perspective demo_view
     (if i = 0 then ''t'' else ''v'') (make_tile 2 1 i)"

definition frame_answer :: "service_request \<Rightarrow> service_response result" where
  "frame_answer r = fst (RenderService_Render demo_float (offscreen_drawing example_service R8G8B8A8_UNORM CHR ''b'')
     (\<lambda>_. []) (Some PlainRenderResultEncoder) r (Some example_renderer))"

definition frame_env :: node_env where
  "frame_env = example_env\<lparr>ne_answer := (\<lambda>r n e. frame_answer r)\<rparr>"

definition frame_call :: "nat \<Rightarrow> remote_call" where
  "frame_call i = \<lparr>rc_request = i, rc_target = (if i = 0 then ''b'' else ''c''), rc_promise = i\<rparr>"

definition frame_client :: node where
  "frame_client = (example_node 2 ''service-response'' ''b'' [])\<lparr>
     nd_endpoint := AddConnection 2 \<lparr>hostname = ''i'', endpoint_id = ''c''\<rparr> (example_endpoint 2 ''service-response'' ''b''),
     nd_rpc := \<lparr>pending_requests = [], rpc_requests = frame_request, rpc_promises = (\<lambda>_. None), consumer_alive = True\<rparr>\<rparr>"

definition frame_server :: node where
  "frame_server = example_node 3 ''service-request'' ''a'' (enter_executor (example_local\<lparr>e_service := ''render''\<rparr>) [])"

lemma less_2: "i < 2 \<longleftrightarrow> i = 0 \<or> i = (1 :: nat)"
  by auto

lemma frame_carries: "carries frame_env to = carries example_env to" "carries env frame_env = carries env example_env"
  by (simp_all add: carries_def frame_env_def fun_eq_iff)

lemma frame_request_carries:
  assumes "i < 2" and "FromServiceRequest ''u'' (frame_request i) = Inr m"
  shows "carries frame_env frame_env m"
proof -
  have "case FromServiceRequest ''u'' (frame_request 0) of Inr m \<Rightarrow> sendable m \<and> m_uuid m = ''u'' \<and> m_type m = ''service-request'' | _ \<Rightarrow> False"
    by code_simp
  moreover have "case FromServiceRequest ''u'' (frame_request 1) of Inr m \<Rightarrow> sendable m \<and> m_uuid m = ''u'' \<and> m_type m = ''service-request'' | _ \<Rightarrow> False"
    by code_simp
  ultimately have "sendable m \<and> m_uuid m = ''u'' \<and> m_type m = ''service-request''"
    using assms by (auto simp: less_2)
  then show ?thesis using example_carries by (simp add: frame_carries)
qed

lemma frame_response_carries:
  assumes "i < 2" and "frame_answer (frame_request i) = Inr response" and "FromServiceResponse ''u'' response = Inr m"
  shows "carries frame_env frame_env m"
proof -
  have "case bind_result (frame_answer (frame_request 0)) (FromServiceResponse ''u'') of
      Inr m \<Rightarrow> sendable m \<and> m_uuid m = ''u'' \<and> m_type m = ''service-response'' | _ \<Rightarrow> False"
    by code_simp
  moreover have "case bind_result (frame_answer (frame_request 1)) (FromServiceResponse ''u'') of
      Inr m \<Rightarrow> sendable m \<and> m_uuid m = ''u'' \<and> m_type m = ''service-response'' | _ \<Rightarrow> False"
    by code_simp
  ultimately have "sendable m \<and> m_uuid m = ''u'' \<and> m_type m = ''service-response''"
    using assms by (auto simp: less_2)
  then show ?thesis using example_carries by (simp add: frame_carries)
qed

lemma frame_can_call:
  assumes "i < 2"
  shows "can_call frame_env frame_env (Suc i) (frame_request i) (frame_call i) frame_client"
proof -
  have "linked frame_env frame_client (Suc i) (if i = 0 then ''b'' else ''c'')"
    using assms
    by (auto simp: less_2 linked_def frame_client_def frame_env_def example_env_def example_node_def example_endpoint_def
        AddMessageConsumer_def AddConnection_def StartReceivingMessages_def Let_def fire_event_def make_endpoint_def
        GetConnection_def IsUsable_def map_index_def)
  then show ?thesis
    using assms frame_request_carries [OF assms]
    by (simp add: can_call_def frame_call_def frame_client_def same_request_def frame_request_def tile_request_facts
        frame_env_def example_env_def)
qed

lemma frame_offers: "offers_service frame_env frame_server 1 ''a'' ''render'' frame_answer"
proof -
  have "linked frame_env frame_server 1 ''a''"
    using example_linked unfolding frame_server_def linked_def frame_env_def by simp
  then show ?thesis
    by (simp add: offers_service_def frame_server_def example_node_def example_endpoint_facts serving_def frame_env_def
        enter_executor_def example_local_def make_caller_def AddExecutor_def Let_def IsLocal_def)
qed

definition frame_tiling :: tiling where
  "frame_tiling = \<lparr>service_count = 2, image_buffers = replicate 2 (replicate 8 CHR 0x00), tile_infos = map (make_tile 2 1) [0..<2]\<rparr>"

lemma frame_facts:
  "UpdateTilingInfo 5 1 2 = Inr frame_tiling"
  "consumers_of ''service-response'' (nd_endpoint frame_client) = [\<lparr>co_object = 2, co_type = ''service-response''\<rparr>]"
  "inj_on (\<lambda>i. if i = 0 then ''t'' else ''v'') {..<2 :: nat}" "inj_on (\<lambda>i. rc_promise (frame_call i)) {..<2}"
  using UpdateTilingInfo_Inr [of 2 5 1]
  by (simp_all add: frame_tiling_def frame_client_def example_endpoint_def AddMessageConsumer_def AddConnection_def
      StartReceivingMessages_def Let_def fire_event_def make_endpoint_def consumers_of_def map_index_def
      inj_on_def frame_call_def)

lemma frame_request_eq:
  "i < 2 \<Longrightarrow> tile_request demo_text demo_text demo_perspective demo_view
     (if i = 0 then ''t'' else ''v'') (tile_infos frame_tiling ! i) = frame_request i"
  by (auto simp: less_2 frame_request_def frame_tiling_def)

lemma frame_replies:
  "\<forall>i<2. \<forall>response m. fst (RenderService_Render demo_float (offscreen_drawing example_service R8G8B8A8_UNORM CHR ''b'')
      (\<lambda>_. []) (Some PlainRenderResultEncoder) (tile_request demo_text demo_text demo_perspective demo_view
        (if i = 0 then ''t'' else ''v'') (tile_infos frame_tiling ! i)) (Some example_renderer)) = Inr response \<longrightarrow>
    FromServiceResponse (ne_uuid frame_env) response = Inr m \<longrightarrow> carries frame_env frame_env m"
proof (intro allI impI)
  fix i response m
  assume i: "i < (2 :: nat)" and response: "fst (RenderService_Render demo_float
      (offscreen_drawing example_service R8G8B8A8_UNORM CHR ''b'') (\<lambda>_. []) (Some PlainRenderResultEncoder)
      (tile_request demo_text demo_text demo_perspective demo_view
        (if i = 0 then ''t'' else ''v'') (tile_infos frame_tiling ! i)) (Some example_renderer)) = Inr response"
    and m: "FromServiceResponse (ne_uuid frame_env) response = Inr m"
  show "carries frame_env frame_env m"
  proof (rule frame_response_carries [OF i])
    show "frame_answer (frame_request i) = Inr response"
      unfolding frame_answer_def frame_request_eq [OF i, symmetric] by (fact response)
    show "FromServiceResponse ''u'' response = Inr m"
      using m by (simp add: frame_env_def example_env_def)
  qed
qed

theorem frame_from_remote_renderers_witness:
  "\<exists>a1 data2 a2 s' shot r r'. issue_calls frame_env frame_call [0, 1] frame_client = Inr a1 \<and>
    read_answers frame_env (\<lambda>i. (Suc i, data2 i)) [1, 0] a1 = Inr a2 \<and>
    composite_Render PlainRenderResultEncoder (Some (future_get a2)) [1, 0] frame_tiling = Inr (True, s') \<and>
    service_frame os_size (OffscreenRenderer_Resize example_service) SetCameraProjectionMatrix SetCameraViewMatrix
      (OffscreenRenderer_Render example_service True) (OffscreenRenderer_GetResult example_service True)
      \<lparr>ex_width = 2, ex_height = 1\<rparr> (Some (demo_perspective_read, \<lparr>ex_width = 2, ex_height = 1\<rparr>)) (Some demo_view_read) r =
      Inr (shot, r') \<and>
    rr_color shot = map Some (image_buffers s' ! 1)"
proof -
  obtain r where r: "offscreen_shown_as example_service R8G8B8A8_UNORM D32_SFLOAT CHR ''b'' r example_renderer"
    using example_renderer_shown by blast
  have calls: "\<forall>i<2. can_call frame_env frame_env (Suc i) (tile_request demo_text demo_text demo_perspective
        demo_view (if i = 0 then ''t'' else ''v'') (tile_infos frame_tiling ! i)) (frame_call i) frame_client \<and>
      rpc_promises (nd_rpc frame_client) (rc_promise (frame_call i)) = None"
    using frame_request_eq frame_can_call by (simp add: frame_client_def)
  have offers: "\<forall>i<2. offers_service frame_env frame_server 1 ''a'' ''render'' (\<lambda>r. fst (RenderService_Render demo_float
        (offscreen_drawing example_service R8G8B8A8_UNORM CHR ''b'') (\<lambda>_. []) (Some PlainRenderResultEncoder) r (Some example_renderer))) \<and>
      offscreen_shown_as example_service R8G8B8A8_UNORM D32_SFLOAT CHR ''b'' r example_renderer"
    using frame_offers r by (simp add: frame_answer_def [abs_def])
  have orders: "distinct [0, 1 :: nat]" "set [0, 1 :: nat] = {..<2}" "distinct [1, 0 :: nat]" "set [1, 0 :: nat] = {..<2}" by auto
  have numbers: "0 < (2 :: nat)" "2 < (2 :: nat) ^ 31" "int 2 \<le> 5" "5 < (2 :: int) ^ 31" "0 < (1 :: int)" "1 < (2 :: int) ^ 31"
      "5 * 1 \<le> (2 :: int) ^ 32" and views: "\<forall>i<(2 :: nat). arrives_as demo_text demo_text demo_float demo_perspective demo_view
        demo_perspective_read demo_view_read"
    using demo_arrives(2) by simp_all
  obtain a1 data2 a2 s' where run: "issue_calls frame_env frame_call [0, 1] frame_client = Inr a1"
      "read_answers frame_env (\<lambda>i. (Suc i, data2 i)) [1, 0] a1 = Inr a2"
      "composite_Render PlainRenderResultEncoder (Some (\<lambda>i. future_get a2 (rc_promise (frame_call i)))) [1, 0] frame_tiling = Inr (True, s')"
      "\<forall>i<2. \<exists>shot r'. service_frame os_size (OffscreenRenderer_Resize example_service) SetCameraProjectionMatrix
        SetCameraViewMatrix (OffscreenRenderer_Render example_service True) (OffscreenRenderer_GetResult example_service True)
        (tile_extend (tile_infos frame_tiling ! i)) (Some (demo_perspective_read, tile_extend (tile_infos frame_tiling ! i)))
        (Some demo_view_read) r = Inr (shot, r') \<and> rr_color shot = map Some (image_buffers s' ! i)"
    using frame_from_remote_renderers [where view = "\<lambda>_. demo_view" and view' = "\<lambda>_. demo_view_read" and rs = "\<lambda>_. r" and
      renderers = "\<lambda>_. example_renderer" and cb = "\<lambda>_. 1" and b = "\<lambda>_. frame_server",
      OF numbers frame_facts(1) demo_arrives(1) views refl calls frame_facts(3,4,2) refl offers frame_replies orders] by blast
  have futures: "(\<lambda>i. future_get a2 (rc_promise (frame_call i))) = future_get a2" by (simp add: frame_call_def)
  have size: "tile_extend (tile_infos frame_tiling ! 1) = \<lparr>ex_width = 2, ex_height = 1\<rparr>"
    by (simp add: tile_extend_def make_tile_def frame_tiling_def)
  have "(1 :: nat) < 2" by simp
  from run(4) [rule_format, OF this, unfolded size] run(1,2) run(3) [unfolded futures]
  show ?thesis by blast
qed

end
