(* ===== verification/Logging.thy ===== *)
theory Logging
  imports Prelude
begin

text \<open>
  Logging (\<open>logging/\<close>): one logger for the whole program, made by the first thread that asks for
  it, over the logging core of Boost. The core is not under \<open>src/\<close>: the state keeps the calls
  that are made of it, and what it prints for them is a parameter. Used by one thread after the
  other every message is printed once; two threads that ask at the same time can both make a
  logger, and then everything is printed twice.
\<close>

section \<open>The logger\<close>

datatype severity_level = trivial_debug | trivial_info | trivial_warning | trivial_error

type_synonym 't log_record = "severity_level \<times> 't \<times> string"

datatype 't boost_log_call = add_console_log | add_common_attributes | push_record "'t log_record"

text \<open>
  The pointer \<open>m_logger\<close>, the number of loggers made so far, by which they are told apart, and
  the calls of the core.
\<close>

record 't logging =
  m_logger :: "nat option"
  loggers_made :: nat
  log_calls :: "'t boost_log_call list"

definition BoostLogger_Init :: "'t logging \<Rightarrow> 't logging" where
  "BoostLogger_Init s = s\<lparr>log_calls := log_calls s @ [add_console_log, add_common_attributes]\<rparr>"

definition make_BoostLogger :: "'t logging \<Rightarrow> nat \<times> 't logging" where
  "make_BoostLogger s = (loggers_made s, BoostLogger_Init (s\<lparr>loggers_made := loggers_made s + 1\<rparr>))"

definition BoostLogger_Info :: "'t \<Rightarrow> string \<Rightarrow> 't logging \<Rightarrow> 't logging" where
  "BoostLogger_Info thread message s = s\<lparr>log_calls := log_calls s @ [push_record (trivial_info, thread, message)]\<rparr>"

definition BoostLogger_Error :: "'t \<Rightarrow> string \<Rightarrow> 't logging \<Rightarrow> 't logging" where
  "BoostLogger_Error thread message s = s\<lparr>log_calls := log_calls s @ [push_record (trivial_error, thread, message)]\<rparr>"

definition BoostLogger_Warn :: "'t \<Rightarrow> string \<Rightarrow> 't logging \<Rightarrow> 't logging" where
  "BoostLogger_Warn thread message s = s\<lparr>log_calls := log_calls s @ [push_record (trivial_warning, thread, message)]\<rparr>"

definition BoostLogger_Debug :: "'t \<Rightarrow> string \<Rightarrow> 't logging \<Rightarrow> 't logging" where
  "BoostLogger_Debug thread message s = s\<lparr>log_calls := log_calls s @ [push_record (trivial_debug, thread, message)]\<rparr>"

section \<open>The log manager\<close>

text \<open>\<open>LogManager::GetLogger\<close>, all at once: the pointer it returns and may be null.\<close>

definition GetLogger :: "'t logging \<Rightarrow> nat option \<times> 't logging" where
  "GetLogger s =
     (let s1 = (if m_logger s = None then (let (l, s') = make_BoostLogger s in s'\<lparr>m_logger := Some l\<rparr>) else s)
      in (m_logger s1, s1))"

text \<open>The macros: a message through the logger, which is dereferenced. \<open>ndebug\<close> is the definition of \<open>NDEBUG\<close>.\<close>

definition with_logger :: "('t logging \<Rightarrow> 't logging) \<Rightarrow> 't logging \<Rightarrow> 't logging result" where
  "with_logger f s =
     (case GetLogger s of (None, _) \<Rightarrow> Inl UndefinedBehaviour | (Some l, s1) \<Rightarrow> Inr (f s1))"

definition LOG_INFO :: "'t \<Rightarrow> string \<Rightarrow> 't logging \<Rightarrow> 't logging result" where
  "LOG_INFO thread x s = with_logger (BoostLogger_Info thread x) s"

definition LOG_WARN :: "'t \<Rightarrow> string \<Rightarrow> 't logging \<Rightarrow> 't logging result" where
  "LOG_WARN thread x s = with_logger (BoostLogger_Warn thread x) s"

definition LOG_ERR :: "'t \<Rightarrow> string \<Rightarrow> 't logging \<Rightarrow> 't logging result" where
  "LOG_ERR thread x s = with_logger (BoostLogger_Error thread x) s"

definition LOG_DEBUG :: "bool \<Rightarrow> 't \<Rightarrow> string \<Rightarrow> 't logging \<Rightarrow> 't logging result" where
  "LOG_DEBUG ndebug thread x s = (if ndebug then Inr s else with_logger (BoostLogger_Debug thread x) s)"

fun log_record_of :: "bool \<Rightarrow> 't log_record \<Rightarrow> 't logging \<Rightarrow> 't logging result" where
  "log_record_of ndebug (trivial_info, thread, x) s = LOG_INFO thread x s"
| "log_record_of ndebug (trivial_warning, thread, x) s = LOG_WARN thread x s"
| "log_record_of ndebug (trivial_error, thread, x) s = LOG_ERR thread x s"
| "log_record_of ndebug (trivial_debug, thread, x) s = LOG_DEBUG ndebug thread x s"

fun log_records :: "bool \<Rightarrow> 't log_record list \<Rightarrow> 't logging \<Rightarrow> 't logging result" where
  "log_records ndebug [] s = Inr s"
| "log_records ndebug (r # rs) s = bind_result (log_record_of ndebug r s) (log_records ndebug rs)"

definition no_logger :: "'t logging" where
  "no_logger = \<lparr>m_logger = None, loggers_made = 0, log_calls = []\<rparr>"

section \<open>What is printed\<close>

text \<open>
  The core prints a record once for every console that was added before it; \<open>console\<close> is what
  it has printed after some calls.
\<close>

definition consoles :: "'t boost_log_call list \<Rightarrow> nat" where
  "consoles calls = length (filter (\<lambda>c. c = add_console_log) calls)"

definition prints_on_every_console :: "('t boost_log_call list \<Rightarrow> 't log_record list) \<Rightarrow> bool" where
  "prints_on_every_console console \<longleftrightarrow> console [] = [] \<and>
     (\<forall>calls. console (calls @ [add_console_log]) = console calls \<and>
        console (calls @ [add_common_attributes]) = console calls \<and>
        (\<forall>r. 0 < consoles calls \<longrightarrow> console (calls @ [push_record r]) = console calls @ replicate (consoles calls) r))"

lemma consoles_simps [simp]:
  "consoles [] = 0" "consoles (calls @ [add_console_log]) = Suc (consoles calls)"
  "consoles (calls @ [add_common_attributes]) = consoles calls" "consoles (calls @ [push_record r]) = consoles calls"
  by (simp_all add: consoles_def)

lemma console_Init:
  assumes "prints_on_every_console console"
  shows "console (calls @ [add_console_log, add_common_attributes]) = console calls"
proof -
  have "console ((calls @ [add_console_log]) @ [add_common_attributes]) = console calls"
    using assms unfolding prints_on_every_console_def by metis
  then show ?thesis by simp
qed

lemma console_push:
  "prints_on_every_console console \<Longrightarrow> 0 < consoles calls \<Longrightarrow>
   console (calls @ [push_record r]) = console calls @ replicate (consoles calls) r"
  unfolding prints_on_every_console_def by (cases r) simp

lemma consoles_Init [simp]: "consoles (calls @ [add_console_log, add_common_attributes]) = Suc (consoles calls)"
  by (simp add: consoles_def)

text \<open>Such a core exists: it writes to the consoles in turn.\<close>

fun write_to :: "nat \<Rightarrow> 't boost_log_call list \<Rightarrow> 't log_record list" where
  "write_to n [] = []"
| "write_to n (add_console_log # calls) = write_to (Suc n) calls"
| "write_to n (add_common_attributes # calls) = write_to n calls"
| "write_to n (push_record r # calls) = replicate n r @ write_to n calls"

lemma write_to_append: "write_to n (calls @ [c]) = write_to n calls @ write_to (n + consoles calls) [c]"
  by (induction n calls rule: write_to.induct) (simp_all add: consoles_def)

lemma write_to_prints: "prints_on_every_console (write_to 0)"
  by (simp add: prints_on_every_console_def write_to_append)

text \<open>One console as soon as there is a logger, none before.\<close>

definition one_logger :: "'t logging \<Rightarrow> bool" where
  "one_logger s \<longleftrightarrow> consoles (log_calls s) = (if m_logger s = None then 0 else 1)"

definition kept_record :: "bool \<Rightarrow> 't log_record \<Rightarrow> bool" where
  "kept_record ndebug r \<longleftrightarrow> \<not> (ndebug \<and> fst r = trivial_debug)"

lemma GetLogger_prints_nothing:
  assumes "prints_on_every_console console" and "one_logger s"
  shows "\<exists>l s1. GetLogger s = (Some l, s1) \<and> m_logger s1 = Some l \<and> consoles (log_calls s1) = 1 \<and>
    console (log_calls s1) = console (log_calls s)"
  using assms(2)
  by (auto simp: GetLogger_def make_BoostLogger_def BoostLogger_Init_def one_logger_def console_Init [OF assms(1)])

lemma log_record_printed:
  assumes "prints_on_every_console console" and "one_logger s"
  shows "\<exists>s'. log_record_of ndebug r s = Inr s' \<and> one_logger s' \<and>
    console (log_calls s') = console (log_calls s) @ (if kept_record ndebug r then [r] else [])"
proof -
  obtain l s1 where get: "GetLogger s = (Some l, s1)" "m_logger s1 = Some l" "consoles (log_calls s1) = 1"
      "console (log_calls s1) = console (log_calls s)"
    using GetLogger_prints_nothing [OF assms] by blast
  obtain sev th x where r: "r = (sev, th, x)" by (cases r) auto
  show ?thesis
    unfolding r using get assms(2) console_push [OF assms(1), of "log_calls s1"]
    by (cases sev) (auto simp: LOG_INFO_def LOG_WARN_def LOG_ERR_def LOG_DEBUG_def with_logger_def one_logger_def
        BoostLogger_Info_def BoostLogger_Warn_def BoostLogger_Error_def BoostLogger_Debug_def kept_record_def)
qed

lemma log_records_printed:
  assumes "prints_on_every_console console" and "one_logger s"
  shows "\<exists>s'. log_records ndebug rs s = Inr s' \<and> one_logger s' \<and>
    console (log_calls s') = console (log_calls s) @ filter (kept_record ndebug) rs"
  using assms(2)
proof (induction rs arbitrary: s)
  case (Cons r rs)
  obtain s1 where s1: "log_record_of ndebug r s = Inr s1" "one_logger s1"
      "console (log_calls s1) = console (log_calls s) @ (if kept_record ndebug r then [r] else [])"
    using log_record_printed [OF assms(1) Cons.prems] by blast
  show ?case using Cons.IH [OF s1(2)] s1 by auto
qed simp

text \<open>
  One thread after the other: from the start of the program on every message is printed, once
  and in order, except debug messages of a build that defines \<open>NDEBUG\<close>.
\<close>

lemma every_message_is_printed_once:
  assumes "prints_on_every_console console"
  shows "\<exists>s. log_records ndebug rs no_logger = Inr s \<and> console (log_calls s) = filter (kept_record ndebug) rs"
  using log_records_printed [OF assms, of no_logger ndebug rs] assms
  by (auto simp: one_logger_def no_logger_def prints_on_every_console_def)

section \<open>Threads\<close>

text \<open>
  \<open>GetLogger\<close> takes no lock. A thread is between messages, has seen a null pointer, holds a
  logger that it made but did not store yet, or has a logger to write its message to.
\<close>

datatype logging_pc = Quiet | SawNull | Holding nat | Using nat

record 't threads = "'t logging" +
  thread_at :: "'t \<Rightarrow> logging_pc"

inductive logging_step :: "'t threads \<Rightarrow> 't threads \<Rightarrow> bool" where
  finds: "thread_at s t = Quiet \<Longrightarrow> m_logger s = Some l \<Longrightarrow>
     logging_step s (s\<lparr>thread_at := (thread_at s)(t := Using l)\<rparr>)"
| misses: "thread_at s t = Quiet \<Longrightarrow> m_logger s = None \<Longrightarrow>
     logging_step s (s\<lparr>thread_at := (thread_at s)(t := SawNull)\<rparr>)"
| makes: "thread_at s t = SawNull \<Longrightarrow>
     logging_step s (s\<lparr>loggers_made := loggers_made s + 1,
       log_calls := log_calls s @ [add_console_log, add_common_attributes],
       thread_at := (thread_at s)(t := Holding (loggers_made s))\<rparr>)"
| stores: "thread_at s t = Holding l \<Longrightarrow>
     logging_step s (s\<lparr>m_logger := Some l, thread_at := (thread_at s)(t := Using l)\<rparr>)"
| writes: "thread_at s t = Using l \<Longrightarrow>
     logging_step s (s\<lparr>log_calls := log_calls s @ [push_record (sev, t, x)], thread_at := (thread_at s)(t := Quiet)\<rparr>)"

definition no_threads :: "'t threads" where
  "no_threads = \<lparr>m_logger = None, loggers_made = 0, log_calls = [], thread_at = (\<lambda>_. Quiet)\<rparr>"

text \<open>
  Every logger that was made added a console; a message is only written when there is a logger
  and so a console to show it.
\<close>

definition logging_inv :: "'t threads \<Rightarrow> bool" where
  "logging_inv s \<longleftrightarrow> consoles (log_calls s) = loggers_made s \<and>
     (\<forall>l. m_logger s = Some l \<longrightarrow> l < loggers_made s) \<and>
     (\<forall>t l. thread_at s t \<in> {Holding l, Using l} \<longrightarrow> l < loggers_made s)"

lemma logging_inv_step: "logging_step s s' \<Longrightarrow> logging_inv s \<Longrightarrow> logging_inv s'"
  by (induction rule: logging_step.induct) (auto simp: logging_inv_def intro: less_SucI)

interpretation log_threads: invariant_system "\<lambda>s. s = no_threads" logging_step logging_inv
  by unfold_locales (simp add: logging_inv_def no_threads_def, erule (1) logging_inv_step)

lemma written_messages_are_shown:
  assumes "logging_step\<^sup>*\<^sup>* no_threads s" and "thread_at s t = Using l"
  shows "0 < consoles (log_calls s)"
  using log_threads.inv_run [OF refl assms(1)] assms(2) by (force simp: logging_inv_def)

text \<open>Two threads that log their first message at the same time: each of the two loggers adds a
  console, and from then on every message is printed twice.\<close>

lemma two_loggers_print_everything_twice:
  assumes "t \<noteq> (u :: 't)" and "prints_on_every_console console"
  shows "\<exists>s :: 't threads. logging_step\<^sup>*\<^sup>* no_threads s \<and> (\<forall>r. console (log_calls s @ [push_record r]) = console (log_calls s) @ [r, r])"
proof -
  let ?s1 = "(no_threads :: 't threads)\<lparr>thread_at := (\<lambda>_. Quiet)(t := SawNull)\<rparr>"
  let ?s2 = "?s1\<lparr>thread_at := (\<lambda>_. Quiet)(t := SawNull, u := SawNull)\<rparr>"
  let ?s3 = "?s2\<lparr>loggers_made := 1, log_calls := [add_console_log, add_common_attributes],
    thread_at := (\<lambda>_. Quiet)(t := Holding 0, u := SawNull)\<rparr>"
  let ?s4 = "?s3\<lparr>loggers_made := 2, log_calls := [add_console_log, add_common_attributes, add_console_log, add_common_attributes],
    thread_at := (\<lambda>_. Quiet)(t := Holding 0, u := Holding 1)\<rparr>"
  have "logging_step no_threads ?s1"
    using logging_step.misses [of no_threads t] by (simp add: no_threads_def)
  moreover have "logging_step ?s1 ?s2"
    using logging_step.misses [of ?s1 u] assms(1) by (simp add: no_threads_def)
  moreover have "logging_step ?s2 ?s3"
    using logging_step.makes [of ?s2 t] assms(1) by (simp add: no_threads_def fun_upd_twist)
  moreover have "logging_step ?s3 ?s4"
    using logging_step.makes [of ?s3 u] assms(1) by (simp add: no_threads_def fun_upd_twist numeral_2_eq_2)
  ultimately have "logging_step\<^sup>*\<^sup>* no_threads ?s4"
    by (meson r_into_rtranclp rtranclp.rtrancl_into_rtrancl)
  moreover have "consoles (log_calls ?s4) = 2" by (simp add: consoles_def)
  then have "console (log_calls ?s4 @ [push_record r]) = console (log_calls ?s4) @ [r, r]" for r
    using console_push [OF assms(2), of "log_calls ?s4" r] by (simp add: numeral_2_eq_2)
  ultimately show ?thesis by blast
qed

end
