(* ===== verification/Notifications.thy ===== *)
theory Notifications
  imports Events Endpoint
begin

text \<open>
  The events of the network and of the services as objects of \<open>Event\<close>: four wrappers
  (\<open>networking/messaging/events\<close>, \<open>services/messages\<close>) that give a topic and one entry of the
  payload a name. The endpoint, the registry and their listeners exchange these objects; elsewhere
  in the development a network event is a value of \<open>network_event\<close>, and the lemmas here say
  that the objects carry exactly that.
\<close>

section \<open>Connections\<close>

definition ConnectionClosedEvent :: "string \<Rightarrow> event" where
  "ConnectionClosedEvent uuid = make_event ''connection-closed'' uuid"

definition closed_GetEndpointId :: "event \<Rightarrow> string result" where
  "closed_GetEndpointId e = bind_result (GetPayload_string ''endpoint-id'' e) (of_opt BadOptionalAccess)"

definition closed_SetEndpointId :: "string \<Rightarrow> event \<Rightarrow> event" where
  "closed_SetEndpointId i e = SetPayload ''endpoint-id'' (AnyString i) e"

definition ConnectionEstablishedEvent :: "string \<Rightarrow> event" where
  "ConnectionEstablishedEvent uuid = make_event ''connection-established'' uuid"

definition established_GetEndpointId :: "event \<Rightarrow> string result" where
  "established_GetEndpointId e = bind_result (GetPayload_string ''endpoint-id'' e) (of_opt BadOptionalAccess)"

definition established_SetEndpointId :: "string \<Rightarrow> event \<Rightarrow> event" where
  "established_SetEndpointId i e = SetPayload ''endpoint-id'' (AnyString i) e"

text \<open>The object that the endpoint fires, and what the listener for its topic reads from one.\<close>

fun event_object :: "string \<Rightarrow> network_event \<Rightarrow> event" where
  "event_object uuid (ConnectionEstablished i) = established_SetEndpointId i (ConnectionEstablishedEvent uuid)"
| "event_object uuid (ConnectionClosed i) = closed_SetEndpointId i (ConnectionClosedEvent uuid)"

definition event_read :: "event \<Rightarrow> network_event option result" where
  "event_read e =
     (if e_topic e = ''connection-established'' then
        bind_result (established_GetEndpointId e) (\<lambda>i. Inr (Some (ConnectionEstablished i)))
      else if e_topic e = ''connection-closed'' then
        bind_result (closed_GetEndpointId e) (\<lambda>i. Inr (Some (ConnectionClosed i)))
      else Inr None)"

section \<open>Services\<close>

definition ServiceRegisteredNotification :: "string \<Rightarrow> event" where
  "ServiceRegisteredNotification uuid = make_event ''service-registered-notification'' uuid"

definition registered_SetServiceName :: "string \<Rightarrow> event \<Rightarrow> event" where
  "registered_SetServiceName name e = SetPayload ''service-name'' (AnyString name) e"

definition registered_GetServiceName :: "event \<Rightarrow> string result" where
  "registered_GetServiceName e =
     bind_result (GetPayload_string ''service-name'' e) (\<lambda>n. Inr (case n of Some s \<Rightarrow> s | None \<Rightarrow> []))"

definition ServiceUnregisteredNotification :: "string \<Rightarrow> event" where
  "ServiceUnregisteredNotification uuid = make_event ''service-unregistered-notification'' uuid"

definition unregistered_SetServiceName :: "string \<Rightarrow> event \<Rightarrow> event" where
  "unregistered_SetServiceName name e = SetPayload ''service-name'' (AnyString name) e"

definition unregistered_GetServiceName :: "event \<Rightarrow> string result" where
  "unregistered_GetServiceName e =
     bind_result (GetPayload_string ''service-name'' e) (\<lambda>n. Inr (case n of Some s \<Rightarrow> s | None \<Rightarrow> []))"

section \<open>What the objects carry\<close>

lemmas notification_defs = ConnectionClosedEvent_def closed_GetEndpointId_def closed_SetEndpointId_def
  ConnectionEstablishedEvent_def established_GetEndpointId_def established_SetEndpointId_def
  ServiceRegisteredNotification_def registered_SetServiceName_def registered_GetServiceName_def
  ServiceUnregisteredNotification_def unregistered_SetServiceName_def unregistered_GetServiceName_def
  make_event_def SetPayload_def GetPayload_string_def

text \<open>A listener reads back the network event that was fired, whatever other payload is added.\<close>

lemma event_object_read: "event_read (event_object uuid ev) = Inr (Some ev)"
  by (cases ev) (simp_all add: event_read_def notification_defs)

lemma event_object_read_with_payload:
  "key \<noteq> ''endpoint-id'' \<Longrightarrow> event_read (SetPayload key x (event_object uuid ev)) = Inr (Some ev)"
  by (cases ev) (simp_all add: event_read_def notification_defs)

text \<open>
  An event without the id makes the listener throw; a notification without a name has an empty
  one. A payload of another type is an error of either.
\<close>

lemma event_without_id:
  "event_read (ConnectionClosedEvent uuid) = Inl BadOptionalAccess"
  "event_read (ConnectionEstablishedEvent uuid) = Inl BadOptionalAccess"
  "registered_GetServiceName (ServiceRegisteredNotification uuid) = Inr []"
  "unregistered_GetServiceName (ServiceUnregisteredNotification uuid) = Inr []"
  by (simp_all add: event_read_def notification_defs)

lemma event_with_other_payload:
  "event_read (SetPayload ''endpoint-id'' (AnyOther x) (ConnectionClosedEvent uuid)) = Inl BadAnyCast"
  "registered_GetServiceName (SetPayload ''service-name'' (AnyOther x) e) = Inl BadAnyCast"
  by (simp_all add: event_read_def notification_defs)

lemma service_name_read:
  "registered_GetServiceName (registered_SetServiceName name e) = Inr name"
  "unregistered_GetServiceName (unregistered_SetServiceName name e) = Inr name"
  by (simp_all add: notification_defs)

end
