(* ===== verification/Spec2Isabelle.thy ===== *)
theory Spec2Isabelle
  imports Job_Properties Message_Converter Service_Registry Response_Consumer Local_Executor
    Properties Endpoint Spin_Lock Ownership Subsystems Config Resources Handshake Core_System Plugins
    Tiling Profiling
    Node Pending_Calls Tiled_Plugin Tiled_Camera Standalone Onscreen Remote_Tiles Logging Notifications
begin

text \<open>
  Hive is a framework for distributed rendering. A node is a kernel of subsystems: a job system
  that runs everything in cycles, events, properties, resources, plugins, a messaging endpoint
  over web sockets, services that nodes offer to each other, and renderers, one of which divides
  an image into tiles and has every tile drawn by the rendering service of some node. This
  library models these parts from the C++ sources under \<open>src/\<close> and proves what makes
  each correct and what they do together. Paths below are relative to \<open>src/subsystems\<close>
  unless they begin with \<open>core\<close>, \<open>standalone\<close> or \<open>plugins\<close>.

  \<^bold>\<open>Foundations.\<close>
  \<^item> \<open>Transition\<close>: systems that run step by step, as locales: invariants, simulation of a
    specification, and the invariants a system inherits from the specification it refines.
  \<^item> \<open>Prelude\<close>: the exceptions of the program and of the standard library as one datatype
    \<open>exn\<close>, results \<open>exn + 'a\<close>, the collections of simplification rules. The last constructor,
    \<open>UndefinedBehaviour\<close>, stands for executions to which C++ gives no meaning (null and dangling
    pointers, copies past the end of a buffer), so that their absence is a theorem.
  \<^item> \<open>Std_String\<close>, \<open>Std_Map\<close>: the part of \<open>std::string\<close> and of the numeric conversions in use,
    with the widths of an LP64 target, and \<open>std::map\<close> as a strictly sorted association list,
    since the program iterates over its maps and the order can be seen.
  \<^item> \<open>Config\<close>, \<open>Subsystems\<close>, \<open>Ownership\<close>, \<open>Spin_Lock\<close>, \<open>Profiling\<close>, \<open>Logging\<close> (\<open>common/\<close>, \<open>logging/\<close>, and the
    fiber locks of \<open>jobsystem/\<close>): options, the typed map of subsystems, \<open>Owner\<close>, \<open>Borrower\<close> and \<open>Reference\<close>
    with the destructor of the owner as interleaved steps, the two spin locks as interleaved
    accesses to their atomic variables, timers; the one logger, and threads that ask for it at once.

  \<^bold>\<open>The job system\<close> (\<open>jobsystem/\<close>).
  \<^item> \<open>Job\<close>: jobs, timer jobs and counters as objects of a store (\<open>jstore\<close>), one definition per
    operation of \<open>Job.cpp\<close>, \<open>TimerJob.cpp\<close> and \<open>JobCounter.h\<close>. A workload is any function from
    a user state to the commands it issues and its outcome.
  \<^item> \<open>Job_Execution\<close>: \<open>BoostFiberExecution.cpp\<close>, its channel and workers.
  \<^item> \<open>Job_Manager\<close>: every operation of \<open>JobManager.cpp\<close> on the record \<open>mgr\<close>, which extends the
    execution's.
  \<^item> \<open>Job_Cycle\<close>: the step relation of the whole: one thread in \<open>InvokeCycleAndWait\<close>, the fibers
    that run jobs, and any other thread that kicks or detaches jobs. A step is what happens under
    one lock.
  \<^item> \<open>Job_Properties\<close>: phases are respected, counters count unfinished jobs, jobs are where they
    should be, detaching and timers do what they say, stopping ends. The first of these suppose
    that jobs are kicked with discipline (\<open>disciplined\<close>: not in the two windows around a change
    of phase, and not while they are pending); in either window a kicked job is not waited for.

  \<^bold>\<open>Events, properties, resources, plugins.\<close>
  \<^item> \<open>Events\<close> (\<open>events/\<close>): the broker, its contract as the locale \<open>event_broker\<close>. \<open>Notifications\<close>: the
    events of connections and services as objects with a topic and a payload.
  \<^item> \<open>Properties\<close> (\<open>properties/\<close>): the provider over the broker's contract; a change notifies the
    nodes above its key.
  \<^item> \<open>Resources\<close> (\<open>resources/\<close>): loaders, the queue and the pool of threads with its condition
    variable as interleaved steps.
  \<^item> \<open>Plugins\<close> (\<open>plugins/\<close>): installing and uninstalling, directories and their descriptors, the
    installations of a directory in any order and interleaving.

  \<^bold>\<open>Messaging and services\<close> (\<open>networking/\<close>, \<open>services/\<close>).
  \<^item> \<open>Message\<close>, \<open>Multipart\<close>, \<open>Message_Converter\<close>, \<open>Url_Parser\<close>: messages, their two encodings, the URL
    pattern over a small backtracking matcher.
  \<^item> \<open>Handshake\<close>, \<open>Endpoint\<close>: establishing connections on both sides; the table of connections,
    sending, receiving, consumers, broadcast, clean-up and the events about connections. What
    sockets report is an input of each step, what they are given to write, such as the ids the
    nodes exchange, is a result.
  \<^item> \<open>Service_Data\<close>, \<open>Service_Caller\<close>, \<open>Local_Executor\<close>, \<open>Service_Registry\<close>, \<open>Response_Consumer\<close>:
    requests and responses and their messages; the round-robin caller with its retries; executors
    with limited capacity; both registries and the consumers of registrations and requests; the
    table of pending remote calls with their promises.
  \<^item> \<open>Node\<close>: endpoint, registry and pending calls as one state with every handler over it, and
    two nodes together: a remote call ends with the answer of the other node's executor, and a
    new node learns the services of the one it is connected to.
  \<^item> \<open>Pending_Calls\<close>: a node over time, the three parts of every remote call and the jobs of events
    interleaved with received messages and with connections that come and go. Connections leave
    the table only with an event, so a call that was entered is answered, cancelled or still
    connected; and the run in which a connection closes just before the entry and the call stays
    open.

  \<^bold>\<open>Graphics\<close> (\<open>graphics/\<close>, \<open>plugins/tiled-composite-renderer-plugin\<close>).
  \<^item> \<open>Render_Request\<close>, \<open>Tiling\<close>, \<open>Tiled_Plugin\<close>: requests for pictures, the handler of the rendering
    service, the partition of an image and the frame of the composite renderer, the plugin that
    puts this renderer in place and follows the services, in jobs of the events of registrations
    that interleave with each other and with further registrations, and what it leaves when it is
    uninstalled.
    \<open>Tiled_Camera\<close>: the casts of its camera, its timer jobs, the projection and view of a tile.
  \<^item> \<open>Captures\<close>, \<open>Offscreen\<close>, \<open>Offscreen_Frames\<close>: the off-screen renderer. \<open>Captures\<close> has the images and
    commands it creates and their effect on a device: layouts, texels, bytes, where a command
    that finds an image in another layout than it names has no meaning. \<open>Offscreen\<close> has the
    renderer, \<open>Offscreen_Frames\<close> an invariant that ties captures to images, and the refinement
    of its runs by plain settings: size, projection, view and scene. Which scenes have been
    compiled is part of the state: drawing one that needs compilation and has none is undefined.
  \<^item> \<open>Offscreen_Service\<close>: the rendering service over the off-screen renderer, and the frame of the
    composite renderer down to the bytes these renderers read back. \<open>Onscreen\<close>: the renderer
    with a window.
  \<^item> \<open>Remote_Tiles\<close>: the whole way of a frame. One node sends a request per tile, the nodes
    answer the bytes they get with what their off-screen renderers read back, the answers come in
    any order, and the tiles hold the bytes of these devices. It joins \<open>Node\<close> with
    \<open>Offscreen_Service\<close>.

  \<^bold>\<open>The program.\<close> \<open>Core_System\<close> (\<open>core/\<close>, \<open>NetworkingManager\<close>) has the construction of the kernel
  over the subsystem manager, with the options each constructor reads, the subsystems it
  requires and the threads it starts, of which the system has a number to give;
  \<open>Standalone\<close> (\<open>standalone/src/main.cpp\<close>) has main from the options on, with the scene
  manager (\<open>scene/\<close>), the construction of the renderers, and the pacing of its loop.

  \<^bold>\<open>How the parts are joined.\<close> Where a part relies on a contract of another, the contract is a
  locale and the model of the provider interprets it: \<open>key_value_store\<close> (sorted maps),
  \<open>lock_refinement\<close> (both spin locks; it extends \<open>refining_system\<close>, and \<open>mutual_exclusion\<close> follows
  from it), \<open>invariant_system\<close> (locks, owners, endpoint, listener, executor, thread pool, job
  system, node, loggers: the reachable states of each), \<open>event_broker\<close> (the job-based broker), \<open>service_registry\<close>
  (the local and the remote one), \<open>message_codec\<close> (multipart and JSON), \<open>lossless_encoder\<close> (the
  plain encoder), \<open>image_renderer\<close> (the off-screen renderer). Elsewhere one state contains the
  other: the manager that of the execution, a node that of its endpoint and registry.

  \<^bold>\<open>Choices and bounds.\<close>
  \<^item> Interleaving: a step is one critical section or one access to a shared variable; the memory
    is sequentially consistent. One call of \<open>KickJob\<close> is one step. The jobs of one received
    message run one after the other, in their order; those of an event run in any order. A caller
    found in a registry is the value it has at that moment. In the frame of \<open>Remote_Tiles\<close> all
    requests are sent before the first answer is read. Spurious wake-ups of a condition variable are left out.
  \<^item> Integers: capacities are 32-bit words, sizes and indices that may overflow are words or
    written with their range; the index of a row of an image is a 32-bit word, so frames are
    claimed for at most \<open>2 ^ 32\<close> pixels.
  \<^item> All functions terminate by structural recursion or a measure, so there is no fuel; what may
    run for ever (waiting loops, workers, the main loop) is a step relation or takes the inputs
    of each iteration as a list.
  \<^item> Parameters: workloads, loaders, plugins and functors; \<open>Boost.JSON\<close> and the property tree; the
    results of sockets, the resolver, the file system and the scene reader; random ids; clock
    readings; the text of floating-point numbers, which need not be read back as the number that
    was written (\<open>arrives_as\<close>); what is drawn; what the logging core prints; the row pitch, memory size and
    blit support of a device; which attachment of a render pass of VulkanSceneGraph keeps the
    picture and how the render area follows a change of size. What a theorem needs of them is a
    hypothesis of it, which its witness discharges for a concrete choice.

  \<^bold>\<open>Not modelled.\<close> The generation of ids (one call of a library), the parsing of the command
  line (a library), the quads of the composite renderer (floating-point geometry of
  VulkanSceneGraph; the angles and products of matrices of its tiles are parameters), the thread for
  window messages on Windows, failing allocations, debug-only fields, and what the other parts log.
\<close>

end
